(* ===== verification/Corosig_Prelude.thy ===== *)
theory Corosig_Prelude
  imports Main "HOL-Library.Word" "HOL-Library.Monad_Syntax"
begin

text \<open>
  Shared vocabulary of the development: the machine types of the C++ sources, the
  reading of \<^verbatim>\<open>assert\<close>, the octet representation of characters and the list and
  word lemmas that more than one component uses.
\<close>

unbundle bit_operations_syntax

section \<open>Machine types\<close>

text \<open>
  \<^verbatim>\<open>uint8_t\<close>, \<^verbatim>\<open>uint16_t\<close>, \<^verbatim>\<open>uint32_t\<close> and \<^verbatim>\<open>size_t\<close> of the LP64 platforms the
  library supports.
\<close>

type_synonym u8 = "8 word"
type_synonym u16 = "16 word"
type_synonym u32 = "32 word"
type_synonym u64 = "64 word"

text \<open>
  \<^verbatim>\<open>assert(b)\<close> in front of a statement. A partial operation returns \<^term>\<open>None\<close>
  when one of its assertions does not hold (or when it never returns), so a theorem that
  an operation gives \<^term>\<open>Some\<close> also says that none of its assertions fires.
\<close>

abbreviation c_assert :: "bool \<Rightarrow> 'a option \<Rightarrow> 'a option" where
  "c_assert b k \<equiv> (if b then k else None)"

text \<open>The conversion of a \<^verbatim>\<open>size_t\<close> to \<^verbatim>\<open>uint32_t\<close>, and \<^verbatim>\<open>size_t\<close> subtraction.\<close>

definition to_u32 :: "nat \<Rightarrow> nat" where
  "to_u32 x = x mod 2 ^ 32"

definition size_sub :: "nat \<Rightarrow> nat \<Rightarrow> nat" where
  "size_sub a b = unat (word_of_nat a - word_of_nat b :: u64)"

named_theorems corosig_simps \<open>rewrite rules shared by the component proofs\<close>

lemma to_u32_id [corosig_simps]: "x < 2 ^ 32 \<Longrightarrow> to_u32 x = x"
  by (simp add: to_u32_def)

lemma size_sub_id [corosig_simps]:
  assumes "b \<le> a" and "a < 2 ^ 64"
  shows "size_sub a b = a - b"
proof -
  have "(word_of_nat a :: u64) - word_of_nat b = word_of_nat (a - b)"
    using assms(1) by simp
  then have "size_sub a b = take_bit 64 (a - b)"
    by (simp add: size_sub_def unat_of_nat take_bit_eq_mod del: of_nat_diff)
  then show ?thesis
    using assms by (simp add: take_bit_eq_mod)
qed

section \<open>Alignment of addresses\<close>

text \<open>Clearing the low bits of a word subtracts its remainder.\<close>

lemma word_and_not_mask:
  fixes x :: "'a::len word"
  shows "x AND NOT (mask n) = x - take_bit n x"
proof -
  have "(x AND NOT (mask n)) + (x AND mask n) = (x AND NOT (mask n)) OR (x AND mask n)"
    by (rule disjunctive_add_eq_or) (simp add: bit_eq_iff bit_simps)
  also have "\<dots> = x"
    by (simp flip: bit.conj_disj_distrib)
  finally show ?thesis
    by (simp add: take_bit_eq_mask algebra_simps)
qed

lemma unat_exp: "j < LENGTH('a) \<Longrightarrow> unat (2 ^ j :: 'a::len word) = 2 ^ j"
  using unat_of_nat[of "2 ^ j", where ?'a = 'a] by (simp add: take_bit_eq_mod)

lemma nat_align_diff:
  fixes m :: nat
  assumes "0 < m"
  shows "m - 1 - (p + m - 1) mod m = (m - p mod m) mod m"
proof -
  define r where "r = p mod m"
  have r: "r < m" using assms by (simp add: r_def)
  have "(p + (m - 1)) mod m = (r + (m - 1)) mod m"
    by (simp only: r_def mod_add_left_eq)
  also have "\<dots> = (if r = 0 then m - 1 else r - 1)"
    using r assms by (auto simp: mod_if)
  finally show ?thesis
    using assms r by (simp flip: r_def)
qed

lemma nat_align_up:
  fixes m :: nat
  assumes "0 < m"
  shows "(p + (m - p mod m) mod m) mod m = 0"
proof -
  have "(p + (m - p mod m) mod m) mod m = (p mod m + (m - p mod m)) mod m"
    by (simp only: mod_add_left_eq mod_add_right_eq)
  then show ?thesis
    using assms by (simp add: less_imp_le)
qed

end
