(* ===== verification/Corosig_Allocator.thy ===== *)
theory Corosig_Allocator
  imports Corosig_Prelude
begin

text \<open>
  The fixed-pool allocator of \<^verbatim>\<open>container/Allocator.hpp\<close> and
  \<^verbatim>\<open>container/Allocator.cpp\<close>: the block metadata, the doubly linked free list that is
  threaded through it, allocation (first fit, with splitting in front for over-aligned
  requests and behind for the remainder) and deallocation (with coalescing on both
  sides). The pool is read at block granularity: \<^term>\<open>m_blocks a i\<close> is what the sixteen
  bytes of block \<^term>\<open>i\<close> hold when they are read as a \<^verbatim>\<open>BlockMetadata\<close>. The build is the
  one without the address sanitizer, whose poisoning calls change no program state.
\<close>

section \<open>Data\<close>

definition BLOCK_SIZE :: nat where
  "BLOCK_SIZE = 16"

definition INVALID_IDX :: nat where
  "INVALID_IDX = 2 ^ 32 - 1"

text \<open>
  \<^verbatim>\<open>blocks_before\<close> is a 31-bit field, the other three numbers are \<^verbatim>\<open>uint32_t\<close>; the
  truncations are written at the assignments.
\<close>

record BlockMetadata =
  blocks_before :: nat
  is_used :: bool
  blocks_owned :: nat
  prev_free_block_idx :: nat
  next_free_block_idx :: nat

record Allocator =
  m_first_free_block_idx :: nat
  m_last_free_block_idx :: nat
  m_mem_data :: nat
  m_mem_size :: nat
  m_blocks :: "nat \<Rightarrow> BlockMetadata"
  m_used :: nat
  m_peak :: nat

section \<open>Helpers of the source\<close>

text \<open>\<^verbatim>\<open>std::has_single_bit\<close> on a \<^verbatim>\<open>size_t\<close>.\<close>

definition has_single_bit :: "u64 \<Rightarrow> bool" where
  "has_single_bit x = list_ex (\<lambda>k. x = 2 ^ k) [0..<64]"

definition align_right_diff :: "u64 \<Rightarrow> u64 \<Rightarrow> u64" where
  "align_right_diff p alignment = ((p + alignment - 1) AND NOT (alignment - 1)) - p"

definition ceil_div :: "nat \<Rightarrow> nat \<Rightarrow> nat" where
  "ceil_div a b = a div b + (if a mod b \<noteq> 0 then 1 else 0)"

definition blocks_amount :: "Allocator \<Rightarrow> nat" where
  "blocks_amount a = m_mem_size a div BLOCK_SIZE"

definition peak_memory :: "Allocator \<Rightarrow> nat" where
  "peak_memory a = m_peak a"

definition current_memory :: "Allocator \<Rightarrow> nat" where
  "current_memory a = m_used a"

text \<open>\<^verbatim>\<open>metadata.f = v\<close> through the reference that \<^verbatim>\<open>get_block_metadata(idx)\<close> returns.\<close>

definition upd_block :: "nat \<Rightarrow> (BlockMetadata \<Rightarrow> BlockMetadata) \<Rightarrow> Allocator \<Rightarrow> Allocator" where
  "upd_block idx f a = a\<lparr>m_blocks := (m_blocks a)(idx := f (m_blocks a idx))\<rparr>"

text \<open>The address \<^verbatim>\<open>get_mem()\<close> of the metadata at \<^verbatim>\<open>idx\<close>: one block behind it.\<close>

definition get_mem :: "Allocator \<Rightarrow> nat \<Rightarrow> nat" where
  "get_mem a idx = m_mem_data a + idx * BLOCK_SIZE + BLOCK_SIZE"

definition default_initialize :: "BlockMetadata \<Rightarrow> BlockMetadata" where
  "default_initialize b =
     b\<lparr>prev_free_block_idx := INVALID_IDX, next_free_block_idx := INVALID_IDX, is_used := False\<rparr>"

definition get_metadata_idx_from_addr :: "Allocator \<Rightarrow> nat \<Rightarrow> nat" where
  "get_metadata_idx_from_addr a p =
     (let index = (p - m_mem_data a) div BLOCK_SIZE
      in if p mod BLOCK_SIZE = 0 then size_sub index 1 else index)"

section \<open>The free list\<close>

definition set_blocks_owned :: "nat \<Rightarrow> nat \<Rightarrow> Allocator \<Rightarrow> Allocator option" where
  "set_blocks_owned idx v a =
     (let val = to_u32 v in
      c_assert (idx < blocks_amount a)
       (let a = upd_block idx (blocks_owned_update (\<lambda>_. val)) a
        in if idx + val < blocks_amount a
           then Some (upd_block (idx + val) (blocks_before_update (\<lambda>_. val mod 2 ^ 31)) a)
           else Some a))"

definition push_free_node :: "nat \<Rightarrow> Allocator \<Rightarrow> Allocator option" where
  "push_free_node idx a =
     (let metadata = m_blocks a idx; first = m_first_free_block_idx a;
          lst = m_last_free_block_idx a
      in c_assert (idx < blocks_amount a \<and>
                   prev_free_block_idx metadata = INVALID_IDX \<and>
                   next_free_block_idx metadata = INVALID_IDX \<and> \<not> is_used metadata)
      (if first = INVALID_IDX then
         Some (a\<lparr>m_first_free_block_idx := to_u32 idx, m_last_free_block_idx := to_u32 idx\<rparr>)
       else if blocks_owned metadata > blocks_amount a div 4 then
         c_assert (first < blocks_amount a \<and>
                   prev_free_block_idx (m_blocks a first) = INVALID_IDX \<and>
                   \<not> is_used (m_blocks a first) \<and> first \<noteq> idx)
         (let a = upd_block first (prev_free_block_idx_update (\<lambda>_. to_u32 idx)) a;
              a = upd_block idx (next_free_block_idx_update (\<lambda>_. first)) a
          in Some (a\<lparr>m_first_free_block_idx := to_u32 idx\<rparr>))
       else
         c_assert (lst < blocks_amount a \<and>
                   next_free_block_idx (m_blocks a lst) = INVALID_IDX \<and>
                   \<not> is_used (m_blocks a lst) \<and> lst \<noteq> idx)
         (let a = upd_block lst (next_free_block_idx_update (\<lambda>_. to_u32 idx)) a;
              a = upd_block idx (prev_free_block_idx_update (\<lambda>_. lst)) a
          in Some (a\<lparr>m_last_free_block_idx := to_u32 idx\<rparr>))))"

definition unlink_next :: "nat \<Rightarrow> Allocator \<Rightarrow> Allocator option" where
  "unlink_next idx a =
     (let nxt = next_free_block_idx (m_blocks a idx) in
      if nxt \<noteq> INVALID_IDX then
        c_assert (nxt < blocks_amount a \<and> \<not> is_used (m_blocks a nxt) \<and>
                  prev_free_block_idx (m_blocks a nxt) = idx)
        (Some (upd_block nxt
           (prev_free_block_idx_update (\<lambda>_. prev_free_block_idx (m_blocks a idx))) a))
      else Some a)"

definition unlink_prev :: "nat \<Rightarrow> Allocator \<Rightarrow> Allocator option" where
  "unlink_prev idx a =
     (let prv = prev_free_block_idx (m_blocks a idx) in
      if prv \<noteq> INVALID_IDX then
        c_assert (prv < blocks_amount a \<and> \<not> is_used (m_blocks a prv) \<and>
                  next_free_block_idx (m_blocks a prv) = idx)
        (Some (upd_block prv
           (next_free_block_idx_update (\<lambda>_. next_free_block_idx (m_blocks a idx))) a))
      else Some a)"

definition unlink_ends :: "nat \<Rightarrow> Allocator \<Rightarrow> Allocator option" where
  "unlink_ends idx a =
     (let metadata = m_blocks a idx in
      c_assert (m_first_free_block_idx a = idx \<longrightarrow>
                prev_free_block_idx metadata = INVALID_IDX)
      (let a = (if m_first_free_block_idx a = idx
                then a\<lparr>m_first_free_block_idx := next_free_block_idx metadata\<rparr> else a)
       in c_assert (m_last_free_block_idx a = idx \<longrightarrow>
                    next_free_block_idx metadata = INVALID_IDX)
          (Some (if m_last_free_block_idx a = idx
                 then a\<lparr>m_last_free_block_idx := prev_free_block_idx metadata\<rparr> else a))))"

definition unlink_free_node :: "nat \<Rightarrow> Allocator \<Rightarrow> Allocator option" where
  "unlink_free_node idx a =
     c_assert (idx < blocks_amount a \<and> \<not> is_used (m_blocks a idx) \<and>
               prev_free_block_idx (m_blocks a idx) \<noteq> idx \<and>
               next_free_block_idx (m_blocks a idx) \<noteq> idx)
     (do {
        a \<leftarrow> unlink_next idx a;
        a \<leftarrow> unlink_prev idx a;
        a \<leftarrow> unlink_ends idx a;
        Some (upd_block idx (\<lambda>b. b\<lparr>next_free_block_idx := INVALID_IDX,
                                   prev_free_block_idx := INVALID_IDX\<rparr>) a)
      })"

section \<open>Construction\<close>

text \<open>
  \<^verbatim>\<open>Allocator()\<close> and \<^verbatim>\<open>Allocator(std::span<char> mem)\<close>, the span given by its address
  and size; \<^term>\<open>junk\<close> is what the buffer held before.
\<close>

definition Allocator_default :: "(nat \<Rightarrow> BlockMetadata) \<Rightarrow> Allocator" where
  "Allocator_default junk =
     \<lparr>m_first_free_block_idx = INVALID_IDX, m_last_free_block_idx = INVALID_IDX,
      m_mem_data = 0, m_mem_size = 0, m_blocks = junk, m_used = 0, m_peak = 0\<rparr>"

definition Allocator_make :: "nat \<Rightarrow> nat \<Rightarrow> (nat \<Rightarrow> BlockMetadata) \<Rightarrow> Allocator option" where
  "Allocator_make data sz junk =
     (let diff = unat (align_right_diff (word_of_nat data) (word_of_nat BLOCK_SIZE));
          data = data + diff;
          sz = sz - diff;
          sz = sz - sz mod BLOCK_SIZE
      in c_assert (sz < BLOCK_SIZE * (2 ^ 32 - 1))
         (let sz = min sz ((2 ^ 32 - 1) * BLOCK_SIZE);
              a = (Allocator_default junk)\<lparr>m_mem_data := data, m_mem_size := sz\<rparr>;
              n = blocks_amount a
          in if n > 0
             then push_free_node 0
                    (upd_block 0 (\<lambda>_. \<lparr>blocks_before = 0, is_used = False,
                       blocks_owned = to_u32 n, prev_free_block_idx = INVALID_IDX,
                       next_free_block_idx = INVALID_IDX\<rparr>) a)
             else Some a))"

text \<open>\<^verbatim>\<open>~Allocator()\<close> asserts that nothing is left allocated.\<close>

definition Allocator_destroy :: "Allocator \<Rightarrow> unit option" where
  "Allocator_destroy a = c_assert (m_used a = 0) (Some ())"

section \<open>Allocation\<close>

text \<open>
  The three numbers the loop of \<^verbatim>\<open>allocate\<close> computes for a candidate block. The sum is
  \<^verbatim>\<open>size_t\<close> arithmetic and wraps around.
\<close>

definition align_diff_at :: "Allocator \<Rightarrow> u64 \<Rightarrow> nat \<Rightarrow> nat" where
  "align_diff_at a alignment idx =
     unat (align_right_diff (word_of_nat (get_mem a idx)) alignment)"

definition blocks_needed_at :: "Allocator \<Rightarrow> u64 \<Rightarrow> u64 \<Rightarrow> nat \<Rightarrow> nat" where
  "blocks_needed_at a sz alignment idx =
     ceil_div (unat (word_of_nat BLOCK_SIZE + sz + word_of_nat (align_diff_at a alignment idx)))
       BLOCK_SIZE"

text \<open>The part that splits the front of the block off when the alignment asks for it.\<close>

definition skip_alignment :: "nat \<Rightarrow> nat \<Rightarrow> Allocator \<Rightarrow> (nat \<times> Allocator) option" where
  "skip_alignment align_blocks_skip idx a =
     (if align_blocks_skip \<noteq> 0 then do {
        let owned = size_sub (blocks_owned (m_blocks a idx)) align_blocks_skip;
        a \<leftarrow> set_blocks_owned idx align_blocks_skip a;
        a \<leftarrow> unlink_free_node idx a;
        a \<leftarrow> push_free_node idx a;
        let idx = idx + align_blocks_skip;
        a \<leftarrow> c_assert (idx < blocks_amount a) (Some (upd_block idx default_initialize a));
        a \<leftarrow> set_blocks_owned idx owned a;
        Some (idx, a)
      } else Some (idx, a))"

text \<open>The part that takes the block and gives the remainder back to the free list.\<close>

definition take_block :: "nat \<Rightarrow> nat \<Rightarrow> Allocator \<Rightarrow> Allocator option" where
  "take_block need idx a = do {
     let old_metadata = m_blocks a idx;
     a \<leftarrow> unlink_free_node idx a;
     let a = upd_block idx (is_used_update (\<lambda>_. True)) a;
     a \<leftarrow> set_blocks_owned idx need a;
     if need < blocks_owned old_metadata then do {
       let new_metadata_idx = idx + need;
       a \<leftarrow> c_assert (new_metadata_idx < blocks_amount a)
              (Some (upd_block new_metadata_idx default_initialize a));
       a \<leftarrow> set_blocks_owned new_metadata_idx (blocks_owned old_metadata - need) a;
       push_free_node new_metadata_idx a
     } else Some a
   }"

definition allocate_from ::
  "u64 \<Rightarrow> u64 \<Rightarrow> Allocator \<Rightarrow> nat \<Rightarrow> (nat option \<times> Allocator) option" where
  "allocate_from sz alignment a idx = do {
     let align_diff = align_diff_at a alignment idx;
     let blocks_needed = blocks_needed_at a sz alignment idx;
     let align_blocks_skip = align_diff div BLOCK_SIZE;
     let need = size_sub blocks_needed align_blocks_skip;
     (idx, a) \<leftarrow> skip_alignment align_blocks_skip idx a;
     a \<leftarrow> take_block need idx a;
     let a = a\<lparr>m_used := m_used a + need * BLOCK_SIZE\<rparr>;
     let a = a\<lparr>m_peak := max (m_peak a) (m_used a)\<rparr>;
     let result = get_mem a idx + align_diff - align_blocks_skip * BLOCK_SIZE;
     c_assert (m_used a \<le> m_mem_size a \<and> result mod unat alignment = 0)
       (Some (Some result, a))
   }"

text \<open>
  The search loop over the free list; \<^term>\<open>None\<close> as the returned pointer is
  \<^verbatim>\<open>nullptr\<close>.
\<close>

partial_function (option) allocate_loop ::
  "u64 \<Rightarrow> u64 \<Rightarrow> Allocator \<Rightarrow> nat \<Rightarrow> (nat option \<times> Allocator) option" where
  "allocate_loop sz alignment a idx =
     (if idx < blocks_amount a then
        c_assert (\<not> is_used (m_blocks a idx) \<and>
                  (next_free_block_idx (m_blocks a idx) = INVALID_IDX \<or>
                   next_free_block_idx (m_blocks a idx) \<noteq> idx))
        (if blocks_owned (m_blocks a idx) < blocks_needed_at a sz alignment idx
         then allocate_loop sz alignment a (next_free_block_idx (m_blocks a idx))
         else allocate_from sz alignment a idx)
      else Some (None, a))"

definition allocate ::
  "u64 \<Rightarrow> u64 \<Rightarrow> Allocator \<Rightarrow> (nat option \<times> Allocator) option" where
  "allocate sz alignment a =
     c_assert (has_single_bit alignment)
       (allocate_loop sz alignment a (m_first_free_block_idx a))"

section \<open>Deallocation\<close>

definition merge_prev :: "nat \<Rightarrow> Allocator \<Rightarrow> (nat \<times> Allocator) option" where
  "merge_prev idx a =
     (let metadata = m_blocks a idx in
      if blocks_before metadata \<noteq> 0 then
        (let prv = size_sub idx (blocks_before metadata) in
         c_assert (prv < blocks_amount a)
         (if \<not> is_used (m_blocks a prv) then do {
            a \<leftarrow> set_blocks_owned prv (blocks_owned (m_blocks a prv) + blocks_owned metadata) a;
            a \<leftarrow> unlink_free_node prv a;
            c_assert (next_free_block_idx (m_blocks a prv) = INVALID_IDX \<and>
                      prev_free_block_idx (m_blocks a prv) = INVALID_IDX) (Some (prv, a))
          } else Some (idx, a)))
      else Some (idx, a))"

definition merge_next :: "nat \<Rightarrow> Allocator \<Rightarrow> Allocator option" where
  "merge_next idx a =
     (let nxt = idx + blocks_owned (m_blocks a idx) in
      if nxt < blocks_amount a then
        (if \<not> is_used (m_blocks a nxt) then do {
           a \<leftarrow> set_blocks_owned idx
                  (blocks_owned (m_blocks a idx) + blocks_owned (m_blocks a nxt)) a;
           unlink_free_node nxt a
         } else Some a)
      else Some a)"

definition unlinked :: "nat \<Rightarrow> Allocator \<Rightarrow> bool" where
  "unlinked idx a \<longleftrightarrow> next_free_block_idx (m_blocks a idx) = INVALID_IDX \<and>
                       prev_free_block_idx (m_blocks a idx) = INVALID_IDX"

definition deallocate :: "nat option \<Rightarrow> Allocator \<Rightarrow> Allocator option" where
  "deallocate ptr a = (case ptr of None \<Rightarrow> Some a | Some p \<Rightarrow>
     c_assert (m_mem_data a \<le> p \<and> p < m_mem_data a + m_mem_size a)
     (do {
        let idx = get_metadata_idx_from_addr a p;
        a \<leftarrow> c_assert (idx < blocks_amount a \<and> is_used (m_blocks a idx) \<and> unlinked idx a \<and>
                       m_used a \<ge> blocks_owned (m_blocks a idx) * BLOCK_SIZE)
               (Some (a\<lparr>m_used := m_used a - blocks_owned (m_blocks a idx) * BLOCK_SIZE\<rparr>));
        (idx, a) \<leftarrow> merge_prev idx a;
        a \<leftarrow> c_assert (unlinked idx a) (merge_next idx a);
        a \<leftarrow> c_assert (unlinked idx a)
               (Some (upd_block idx (is_used_update (\<lambda>_. False)) a));
        a \<leftarrow> unlink_free_node idx a;
        push_free_node idx a
      }))"

end
