(* ===== verification/Corosig_Free_List.thy ===== *)
theory Corosig_Free_List
  imports Corosig_Allocator
begin

text \<open>
  The doubly linked free list of the allocator as a list of block indices: a segment
  predicate in the style of heap abstractions for linked lists, and what
  \<^verbatim>\<open>push_free_node\<close>, \<^verbatim>\<open>unlink_free_node\<close> and \<^verbatim>\<open>set_blocks_owned\<close> do to it. The list
  operations change links only and the size operations change sizes only; both frames are
  stated here once and carry the proofs about \<^verbatim>\<open>allocate\<close> and \<^verbatim>\<open>deallocate\<close>.
\<close>

section \<open>Segments of linked blocks\<close>

text \<open>
  \<^term>\<open>lseg m p c xs p' c'\<close>: following \<^verbatim>\<open>next_free_block_idx\<close> from \<^term>\<open>c\<close>, whose
  predecessor is \<^term>\<open>p\<close>, visits \<^term>\<open>xs\<close> and arrives at \<^term>\<open>c'\<close>, and every block
  visited names its predecessor; \<^term>\<open>p'\<close> is the last block visited.
\<close>

primrec lseg :: "(nat \<Rightarrow> BlockMetadata) \<Rightarrow> nat \<Rightarrow> nat \<Rightarrow> nat list \<Rightarrow> nat \<Rightarrow> nat \<Rightarrow> bool" where
  "lseg m p c [] p' c' \<longleftrightarrow> p = p' \<and> c = c'"
| "lseg m p c (x # xs) p' c' \<longleftrightarrow>
     c = x \<and> prev_free_block_idx (m x) = p \<and> lseg m x (next_free_block_idx (m x)) xs p' c'"

lemma lseg_append [simp]:
  "lseg m p c (xs @ ys) p' c' \<longleftrightarrow> (\<exists>q d. lseg m p c xs q d \<and> lseg m q d ys p' c')"
  by (induction xs arbitrary: p c) auto

lemma lseg_cong:
  assumes "\<And>x. x \<in> set xs \<Longrightarrow> prev_free_block_idx (m' x) = prev_free_block_idx (m x)"
    and "\<And>x. x \<in> set xs \<Longrightarrow> next_free_block_idx (m' x) = next_free_block_idx (m x)"
  shows "lseg m' p c xs p' c' = lseg m p c xs p' c'"
  using assms by (induction xs arbitrary: p c) auto

lemma lseg_upd [simp]: "x \<notin> set xs \<Longrightarrow> lseg (m(x := b)) p c xs p' c' = lseg m p c xs p' c'"
  by (rule lseg_cong) auto

lemma lseg_last: "lseg m p c xs p' c' \<Longrightarrow> p' = (if xs = [] then p else last xs)"
  by (induction xs arbitrary: p c) (auto split: if_splits)

lemma lseg_first: "lseg m p c xs p' c' \<Longrightarrow> c = (if xs = [] then c' else hd xs)"
  by (cases xs) auto

definition free_list :: "Allocator \<Rightarrow> nat list \<Rightarrow> bool" where
  "free_list a fl \<longleftrightarrow>
     lseg (m_blocks a) INVALID_IDX (m_first_free_block_idx a) fl (m_last_free_block_idx a) INVALID_IDX
     \<and> distinct fl \<and> (\<forall>x \<in> set fl. x < blocks_amount a \<and> \<not> is_used (m_blocks a x))
     \<and> blocks_amount a \<le> INVALID_IDX"

section \<open>Frames\<close>

text \<open>\<^term>\<open>same_tiles\<close>: nothing but links differs. \<^term>\<open>same_links S\<close>: the links of \<^term>\<open>S\<close> agree.\<close>

definition same_tiles :: "Allocator \<Rightarrow> Allocator \<Rightarrow> bool" where
  "same_tiles a b \<longleftrightarrow>
     (\<forall>i. blocks_before (m_blocks b i) = blocks_before (m_blocks a i) \<and>
          is_used (m_blocks b i) = is_used (m_blocks a i) \<and>
          blocks_owned (m_blocks b i) = blocks_owned (m_blocks a i)) \<and>
     m_mem_data b = m_mem_data a \<and> m_mem_size b = m_mem_size a \<and>
     m_used b = m_used a \<and> m_peak b = m_peak a"

definition same_links :: "nat set \<Rightarrow> Allocator \<Rightarrow> Allocator \<Rightarrow> bool" where
  "same_links S a b \<longleftrightarrow>
     (\<forall>i \<in> S. prev_free_block_idx (m_blocks b i) = prev_free_block_idx (m_blocks a i) \<and>
              next_free_block_idx (m_blocks b i) = next_free_block_idx (m_blocks a i))"

lemma same_tiles_refl [simp]: "same_tiles a a"
  by (simp add: same_tiles_def)

lemma same_tiles_trans: "same_tiles a b \<Longrightarrow> same_tiles b c \<Longrightarrow> same_tiles a c"
  by (simp add: same_tiles_def)

lemma blocks_amount_same_tiles: "same_tiles a b \<Longrightarrow> blocks_amount b = blocks_amount a"
  by (simp add: same_tiles_def blocks_amount_def)

lemma upd_block_simps [simp]:
  "m_blocks (upd_block i f a) = (m_blocks a)(i := f (m_blocks a i))"
  "m_first_free_block_idx (upd_block i f a) = m_first_free_block_idx a"
  "m_last_free_block_idx (upd_block i f a) = m_last_free_block_idx a"
  "m_mem_data (upd_block i f a) = m_mem_data a"
  "m_mem_size (upd_block i f a) = m_mem_size a"
  "m_used (upd_block i f a) = m_used a"
  "m_peak (upd_block i f a) = m_peak a"
  "blocks_amount (upd_block i f a) = blocks_amount a"
  by (simp_all add: upd_block_def blocks_amount_def)

lemma blocks_amount_upd [simp]:
  "blocks_amount (a\<lparr>m_first_free_block_idx := i\<rparr>) = blocks_amount a"
  "blocks_amount (a\<lparr>m_last_free_block_idx := i\<rparr>) = blocks_amount a"
  "blocks_amount (a\<lparr>m_used := i\<rparr>) = blocks_amount a"
  "blocks_amount (a\<lparr>m_peak := i\<rparr>) = blocks_amount a"
  "blocks_amount (a\<lparr>m_blocks := m\<rparr>) = blocks_amount a"
  by (simp_all add: blocks_amount_def)

lemma INVALID_IDX_less: "i < n \<Longrightarrow> n \<le> INVALID_IDX \<Longrightarrow> i \<noteq> INVALID_IDX \<and> to_u32 i = i"
  by (auto simp: INVALID_IDX_def to_u32_def)

lemma free_list_ends:
  assumes "free_list a fl"
  shows "m_first_free_block_idx a = (if fl = [] then INVALID_IDX else hd fl)"
    and "m_last_free_block_idx a = (if fl = [] then INVALID_IDX else last fl)"
  using assms lseg_first lseg_last unfolding free_list_def by fastforce+

lemma free_list_not_invalid: "free_list a fl \<Longrightarrow> x \<in> set fl \<Longrightarrow> x \<noteq> INVALID_IDX"
  by (auto simp: free_list_def)

section \<open>Taking a block off the list\<close>

lemmas unlink_defs = unlink_free_node_def unlink_next_def unlink_prev_def unlink_ends_def

text \<open>The neighbours of a block, and the closed form of the operation.\<close>

definition before :: "nat list \<Rightarrow> nat" where
  "before xs = (if xs = [] then INVALID_IDX else last xs)"

definition after :: "nat list \<Rightarrow> nat" where
  "after ys = (if ys = [] then INVALID_IDX else hd ys)"

definition unlink_result :: "nat \<Rightarrow> nat list \<Rightarrow> nat list \<Rightarrow> Allocator \<Rightarrow> Allocator" where
  "unlink_result x xs ys a =
     (let a = (if ys = [] then a else upd_block (hd ys) (prev_free_block_idx_update (\<lambda>_. before xs)) a);
          a = (if xs = [] then a else upd_block (last xs) (next_free_block_idx_update (\<lambda>_. after ys)) a)
      in upd_block x (\<lambda>b. b\<lparr>next_free_block_idx := INVALID_IDX, prev_free_block_idx := INVALID_IDX\<rparr>)
           (a\<lparr>m_first_free_block_idx := (if xs = [] then after ys else m_first_free_block_idx a),
              m_last_free_block_idx := (if ys = [] then before xs else m_last_free_block_idx a)\<rparr>))"

lemma free_list_neighbours:
  assumes "free_list a (xs @ x # ys)"
  shows "prev_free_block_idx (m_blocks a x) = before xs" and "next_free_block_idx (m_blocks a x) = after ys"
    and "xs \<noteq> [] \<Longrightarrow> next_free_block_idx (m_blocks a (last xs)) = x"
    and "ys \<noteq> [] \<Longrightarrow> prev_free_block_idx (m_blocks a (hd ys)) = x"
  using assms
  by (cases xs rule: rev_cases; cases ys; auto simp: free_list_def before_def after_def)+

lemma unlink_free_node_eq:
  assumes fl: "free_list a (xs @ x # ys)"
  shows "unlink_free_node x a = Some (unlink_result x xs ys a)"
proof -
  note N = free_list_neighbours[OF fl] and E = free_list_ends[OF fl]
  have mem: "\<And>y. y \<in> set (xs @ x # ys) \<Longrightarrow> y < blocks_amount a \<and> \<not> is_used (m_blocks a y) \<and> y \<noteq> INVALID_IDX"
    and dist: "distinct (xs @ x # ys)"
    using fl free_list_not_invalid[OF fl] by (auto simp: free_list_def)
  have first: "m_first_free_block_idx a = x \<longleftrightarrow> xs = []" and lst: "m_last_free_block_idx a = x \<longleftrightarrow> ys = []"
    using dist E by (auto simp: hd_append dest: hd_in_set last_in_set split: if_splits)
  have l: "last xs < blocks_amount a \<and> \<not> is_used (m_blocks a (last xs)) \<and> last xs \<noteq> INVALID_IDX \<and>
      last xs \<noteq> x \<and> (ys \<noteq> [] \<longrightarrow> last xs \<noteq> hd ys)" if "xs \<noteq> []"
    using that mem[of "last xs"] dist by (auto dest: hd_in_set last_in_set)
  have h: "hd ys < blocks_amount a \<and> \<not> is_used (m_blocks a (hd ys)) \<and> hd ys \<noteq> INVALID_IDX \<and> hd ys \<noteq> x"
    if "ys \<noteq> []"
    using that mem[of "hd ys"] dist by (auto dest: hd_in_set)
  have x: "x < blocks_amount a" "\<not> is_used (m_blocks a x)" "x \<noteq> INVALID_IDX"
    using mem[of x] by simp_all
  define a1 where "a1 = (if ys = [] then a
    else upd_block (hd ys) (prev_free_block_idx_update (\<lambda>_. before xs)) a)"
  define a2 where "a2 = (if xs = [] then a1
    else upd_block (last xs) (next_free_block_idx_update (\<lambda>_. after ys)) a1)"
  have 1: "unlink_next x a = Some a1"
    using N h by (cases "ys = []") (simp_all add: unlink_next_def a1_def after_def)
  have links: "m_blocks a1 x = m_blocks a x" "m_blocks a2 x = m_blocks a x"
      "m_first_free_block_idx a2 = m_first_free_block_idx a" "m_last_free_block_idx a2 = m_last_free_block_idx a"
    using l h by (cases "xs = []"; cases "ys = []"; simp add: a1_def a2_def)+
  have 2: "unlink_prev x a1 = Some a2"
  proof (cases "xs = []")
    case True
    then show ?thesis
      using N(1) by (simp add: unlink_prev_def links a2_def before_def)
  next
    case False
    then have "m_blocks a1 (last xs) = m_blocks a (last xs)" "blocks_amount a1 = blocks_amount a"
      using l[OF False] by (auto simp: a1_def)
    then show ?thesis
      using False N(1-3) l[OF False] by (simp add: unlink_prev_def links a2_def before_def)
  qed
  show ?thesis
    using 1 2 N(1,2) first lst l h x
    by (simp add: unlink_free_node_def unlink_ends_def links unlink_result_def a1_def[symmetric] a2_def[symmetric]
        before_def after_def)
qed

lemma unlink_free_node_linked:
  assumes fl: "free_list a (xs @ x # ys)"
  shows "\<exists>a'. unlink_free_node x a = Some a' \<and> free_list a' (xs @ ys) \<and> unlinked x a' \<and>
           same_tiles a a' \<and> same_links (- set (xs @ x # ys)) a a'"
proof -
  let ?b = "unlink_result x xs ys a"
  have dist: "distinct (xs @ x # ys)"
    using fl by (simp add: free_list_def)
  have "same_tiles a ?b"
    by (cases "xs = []"; cases "ys = []") (simp_all add: same_tiles_def unlink_result_def)
  moreover have "unlinked x ?b"
    by (simp add: unlinked_def unlink_result_def Let_def)
  moreover have "same_links (- set (xs @ x # ys)) a ?b"
    using hd_in_set[of ys] last_in_set[of xs]
    by (cases "xs = []"; cases "ys = []") (auto simp: same_links_def unlink_result_def)
  moreover have "lseg (m_blocks ?b) INVALID_IDX (m_first_free_block_idx ?b) (xs @ ys)
      (m_last_free_block_idx ?b) INVALID_IDX"
    using fl dist by (cases xs rule: rev_cases; cases ys)
      (auto simp: free_list_def unlink_result_def before_def after_def Let_def)
  ultimately show ?thesis
    using unlink_free_node_eq[OF fl] fl blocks_amount_same_tiles[of a ?b]
    by (auto simp: free_list_def same_tiles_def)
qed

text \<open>Unlinking a free block that is on no list changes nothing.\<close>

lemma unlink_free_node_unlinked:
  assumes "free_list a fl" and "x \<notin> set fl" and "unlinked x a"
    and "x < blocks_amount a" and "\<not> is_used (m_blocks a x)"
  shows "unlink_free_node x a = Some a"
proof -
  have "x \<noteq> INVALID_IDX"
    using assms(1,4) by (auto simp: free_list_def)
  moreover have "m_first_free_block_idx a \<noteq> x" "m_last_free_block_idx a \<noteq> x"
    using assms(2) calculation free_list_ends[OF assms(1)] by auto
  moreover have "(m_blocks a x)\<lparr>next_free_block_idx := INVALID_IDX,
                   prev_free_block_idx := INVALID_IDX\<rparr> = m_blocks a x"
    using assms(3) by (intro BlockMetadata.equality) (simp_all add: unlinked_def)
  then have "upd_block x (\<lambda>b. b\<lparr>next_free_block_idx := INVALID_IDX,
                   prev_free_block_idx := INVALID_IDX\<rparr>) a = a"
    by (simp add: upd_block_def)
  ultimately show ?thesis
    using assms by (auto simp: unlink_defs unlinked_def Let_def)
qed

section \<open>Putting a block on the list\<close>

lemma push_free_node_links:
  assumes fl: "free_list a fl" and x: "x \<notin> set fl" "unlinked x a" "x < blocks_amount a"
    "\<not> is_used (m_blocks a x)"
  shows "\<exists>a' fl'. push_free_node x a = Some a' \<and> (fl' = x # fl \<or> fl' = fl @ [x]) \<and>
           free_list a' fl' \<and> same_tiles a a' \<and> same_links (- insert x (set fl)) a a'"
proof -
  have inv: "x \<noteq> INVALID_IDX" "to_u32 x = x"
    using fl x(3) INVALID_IDX_less by (auto simp: free_list_def)
  note defs = free_list_def push_free_node_def unlinked_def same_tiles_def same_links_def Let_def
  consider (empty) "fl = []"
    | (at_front) y ys where "fl = y # ys" "blocks_owned (m_blocks a x) > blocks_amount a div 4"
    | (at_back) y ys where "fl = ys @ [y]" "\<not> blocks_owned (m_blocks a x) > blocks_amount a div 4"
    by (metis neq_Nil_conv rev_exhaust)
  then show ?thesis
  proof cases
    case empty
    let ?a = "a\<lparr>m_first_free_block_idx := x, m_last_free_block_idx := x\<rparr>"
    have "push_free_node x a = Some ?a \<and> free_list ?a [x] \<and> same_tiles a ?a
      \<and> same_links (- insert x (set fl)) a ?a"
      using fl x inv empty by (simp add: defs)
    then show ?thesis using empty by auto
  next
    case at_front
    let ?a = "(upd_block x (next_free_block_idx_update (\<lambda>_. y))
      (upd_block y (prev_free_block_idx_update (\<lambda>_. x)) a))\<lparr>m_first_free_block_idx := x\<rparr>"
    have "push_free_node x a = Some ?a" "free_list ?a (x # fl)" "same_tiles a ?a"
        "same_links (- insert x (set fl)) a ?a"
      using fl x inv at_front by (auto simp: defs)
    then show ?thesis by blast
  next
    case at_back
    let ?a = "(upd_block x (prev_free_block_idx_update (\<lambda>_. y))
      (upd_block y (next_free_block_idx_update (\<lambda>_. x)) a))\<lparr>m_last_free_block_idx := x\<rparr>"
    have "m_last_free_block_idx a = y" "m_first_free_block_idx a \<noteq> INVALID_IDX"
      using free_list_ends[OF fl] free_list_not_invalid[OF fl] hd_in_set[of fl] at_back(1) by simp_all
    then have "push_free_node x a = Some ?a" "free_list ?a (fl @ [x])" "same_tiles a ?a"
        "same_links (- insert x (set fl)) a ?a"
      using fl x inv at_back by (auto simp: defs)
    then show ?thesis by blast
  qed
qed

end
