(* ===== verification/Corosig_Tiles.thy ===== *)
theory Corosig_Tiles
  imports Corosig_Free_List
begin

text \<open>
  The other half of the allocator's heap abstraction: the block metadata as a gap-free
  sequence of tiles, each used or free, and the effect of \<^verbatim>\<open>set_blocks_owned\<close> on it.
  Together with the free list of \<^theory_text>\<open>Corosig_Free_List\<close> this gives the working
  invariant \<^verbatim>\<open>pool\<close>, which holds between any two statements of \<^verbatim>\<open>allocate\<close> and
  \<^verbatim>\<open>deallocate\<close> that leave no half-written header behind.
\<close>

section \<open>Tilings\<close>

type_synonym tile = "bool \<times> nat"

definition tiles :: "Allocator \<Rightarrow> nat \<Rightarrow> nat \<times> bool \<times> nat" where
  "tiles a i = (blocks_before (m_blocks a i), is_used (m_blocks a i), blocks_owned (m_blocks a i))"

primrec tiled :: "(nat \<Rightarrow> nat \<times> bool \<times> nat) \<Rightarrow> nat \<Rightarrow> nat \<Rightarrow> tile list \<Rightarrow> bool" where
  "tiled v i b [] \<longleftrightarrow> True"
| "tiled v i b (t # ts) \<longleftrightarrow> 0 < snd t \<and> v i = (b, t) \<and> tiled v (i + snd t) (snd t) ts"

definition tsize :: "tile list \<Rightarrow> nat" where
  "tsize ts = sum_list (map snd ts)"

primrec starts :: "bool \<Rightarrow> nat \<Rightarrow> tile list \<Rightarrow> nat set" where
  "starts u i [] = {}"
| "starts u i (t # ts) = (if fst t = u then {i} else {}) \<union> starts u (i + snd t) ts"

definition last_size :: "nat \<Rightarrow> tile list \<Rightarrow> nat" where
  "last_size b ts = (if ts = [] then b else snd (last ts))"

definition heads :: "tile list \<Rightarrow> nat set" where
  "heads ts = starts True 0 ts \<union> starts False 0 ts"

lemma tsize_simps [simp]:
  "tsize [] = 0" "tsize (t # ts) = snd t + tsize ts" "tsize (ts @ us) = tsize ts + tsize us"
  by (simp_all add: tsize_def)

lemma last_size_simps [simp]:
  "last_size b [] = b" "last_size b (t # ts) = last_size (snd t) ts"
  "last_size b (ts @ us) = last_size (last_size b ts) us"
  by (simp_all add: last_size_def)

lemma tiled_append [simp]:
  "tiled v i b (ts @ us) \<longleftrightarrow> tiled v i b ts \<and> tiled v (i + tsize ts) (last_size b ts) us"
  by (induction ts arbitrary: i b) (auto simp: add.assoc)

lemma starts_append [simp]: "starts u i (ts @ us) = starts u i ts \<union> starts u (i + tsize ts) us"
  by (induction ts arbitrary: i) (auto simp: add.assoc)

lemma starts_bounds: "tiled v i b ts \<Longrightarrow> x \<in> starts u i ts \<Longrightarrow> i \<le> x \<and> x < i + tsize ts"
  by (induction ts arbitrary: i b) (auto split: if_splits, fastforce+)

lemma starts_lower: "x \<in> starts u i ts \<Longrightarrow> i \<le> x"
  by (induction ts arbitrary: i) (auto split: if_splits, fastforce+)

lemma tiled_upd [simp]:
  "x < i \<or> i + tsize ts \<le> x \<Longrightarrow> tiled (v(x := w)) i b ts \<longleftrightarrow> tiled v i b ts"
  by (induction ts arbitrary: i b) auto

lemma tiled_rebase:
  "tiled v i b ts \<Longrightarrow> ts \<noteq> [] \<Longrightarrow> tiled (v(i := (b', snd (v i)))) i b' ts"
  by (cases ts) auto

lemma starts_split:
  assumes "tiled v i b ts" and "x \<in> starts u i ts"
  obtains pre k post where "ts = pre @ (u, k) # post" and "x = i + tsize pre" and "0 < k"
  using assms
proof (induction ts arbitrary: i b thesis)
  case (Cons t ts)
  show ?case
  proof (cases "x = i \<and> fst t = u")
    case True
    then show ?thesis
      using Cons.prems(1)[of "[]" "snd t" ts] Cons.prems(2) by (cases t) auto
  next
    case False
    then obtain pre k post where "ts = pre @ (u, k) # post" "x = i + snd t + tsize pre" "0 < k"
      using Cons.IH[of "i + snd t" _ "snd t"] Cons.prems(2,3) by (auto split: if_splits)
    then show ?thesis
      using Cons.prems(1)[of "t # pre"] by simp
  qed
qed simp

lemma starts_disjoint: "tiled v i b ts \<Longrightarrow> starts True i ts \<inter> starts False i ts = {}"
proof (induction ts arbitrary: i b)
  case (Cons t ts)
  have "i \<notin> starts u (i + snd t) ts" for u
    using starts_lower[of i u "i + snd t" ts] Cons.prems by auto
  then show ?case
    using Cons by (cases "fst t") auto
qed simp

section \<open>Writing a size\<close>

definition own :: "nat \<Rightarrow> nat \<Rightarrow> nat \<Rightarrow> (nat \<Rightarrow> nat \<times> bool \<times> nat) \<Rightarrow> nat \<Rightarrow> nat \<times> bool \<times> nat" where
  "own n i k v = (let w = v(i := (fst (v i), fst (snd (v i)), k))
                  in if i + k < n then w(i + k := (k, snd (w (i + k)))) else w)"

definition same_pool :: "Allocator \<Rightarrow> Allocator \<Rightarrow> bool" where
  "same_pool a b \<longleftrightarrow> m_mem_data b = m_mem_data a \<and> m_mem_size b = m_mem_size a \<and>
     m_used b = m_used a \<and> m_peak b = m_peak a"

lemma same_pool_refl [simp]: "same_pool a a"
  by (simp add: same_pool_def)

lemma same_pool_trans: "same_pool a b \<Longrightarrow> same_pool b c \<Longrightarrow> same_pool a c"
  by (simp add: same_pool_def)

lemma same_pool_upd_block [simp]: "same_pool a (upd_block i f a)"
  by (simp add: same_pool_def)

lemma same_tiles_iff: "same_tiles a b \<longleftrightarrow> tiles b = tiles a \<and> same_pool a b"
  by (auto simp: same_tiles_def same_pool_def tiles_def fun_eq_iff)

lemma same_pool_blocks: "same_pool a b \<Longrightarrow> blocks_amount b = blocks_amount a"
  by (simp add: same_pool_def blocks_amount_def)

lemma free_list_cong:
  assumes "same_links (set fl) a b" and "same_pool a b"
    and "m_first_free_block_idx b = m_first_free_block_idx a"
    and "m_last_free_block_idx b = m_last_free_block_idx a"
    and "\<And>x. x \<in> set fl \<Longrightarrow> is_used (m_blocks a x) \<Longrightarrow> is_used (m_blocks b x)"
    and "\<And>x. x \<in> set fl \<Longrightarrow> is_used (m_blocks b x) \<Longrightarrow> is_used (m_blocks a x)"
  shows "free_list b fl = free_list a fl"
proof -
  have "lseg (m_blocks b) p c fl p' c' = lseg (m_blocks a) p c fl p' c'" for p c p' c'
    using assms(1) by (intro lseg_cong) (auto simp: same_links_def)
  then show ?thesis
    using assms(3-6) same_pool_blocks[OF assms(2)] by (auto simp: free_list_def)
qed

lemma set_blocks_owned_ok:
  assumes "i < blocks_amount a" and "k < 2 ^ 31"
  shows "\<exists>b. set_blocks_owned i k a = Some b \<and> tiles b = own (blocks_amount a) i k (tiles a) \<and>
           same_links UNIV a b \<and> same_pool a b \<and> (\<forall>fl. free_list b fl = free_list a fl)"
proof -
  let ?b1 = "upd_block i (blocks_owned_update (\<lambda>_. k)) a"
  let ?b = "if i + k < blocks_amount a
            then upd_block (i + k) (blocks_before_update (\<lambda>_. k)) ?b1 else ?b1"
  have "set_blocks_owned i k a = Some ?b"
    using assms by (simp add: set_blocks_owned_def to_u32_def)
  moreover have "tiles ?b = own (blocks_amount a) i k (tiles a)"
    by (auto simp: tiles_def own_def fun_eq_iff)
  moreover have links: "same_links UNIV a ?b" and pool: "same_pool a ?b"
    by (simp_all add: same_links_def same_pool_def)
  moreover have "free_list ?b fl = free_list a fl" for fl
    using pool links by (intro free_list_cong) (auto simp: same_links_def split: if_splits)
  ultimately show ?thesis
    by blast
qed

section \<open>The working invariant\<close>

text \<open>
  \<^term>\<open>pool a ts fl\<close>: the headers describe the tiling \<^term>\<open>ts\<close> of the whole pool, the
  links describe the list \<^term>\<open>fl\<close>, and the tiles that are on no list carry no links.
  Which free tiles are on the list is left open: \<^verbatim>\<open>allocate\<close> and \<^verbatim>\<open>deallocate\<close> take
  blocks off it and put them back.
\<close>

definition pool :: "Allocator \<Rightarrow> tile list \<Rightarrow> nat list \<Rightarrow> bool" where
  "pool a ts fl \<longleftrightarrow>
     tiled (tiles a) 0 0 ts \<and> tsize ts = blocks_amount a \<and> free_list a fl \<and>
     (\<forall>i \<in> heads ts - set fl. unlinked i a) \<and>
     m_mem_data a mod BLOCK_SIZE = 0 \<and> m_mem_size a mod BLOCK_SIZE = 0 \<and>
     m_mem_data a + m_mem_size a < 2 ^ 64 \<and> blocks_amount a < 2 ^ 31"

lemma poolD:
  assumes "pool a ts fl"
  shows "tiled (tiles a) 0 0 ts" "tsize ts = blocks_amount a" "free_list a fl"
    "i \<in> heads ts \<Longrightarrow> i \<notin> set fl \<Longrightarrow> unlinked i a" "blocks_amount a < 2 ^ 31"
  using assms by (auto simp: pool_def)

lemma heads_split: "heads (pre @ (u, k) # post) =
  heads pre \<union> {tsize pre} \<union> starts True (tsize pre + k) post \<union> starts False (tsize pre + k) post"
  by (auto simp: heads_def)

lemma pool_tile:
  assumes "pool a (pre @ (u, k) # post) fl"
  shows "is_used (m_blocks a (tsize pre)) = u" and "blocks_owned (m_blocks a (tsize pre)) = k"
    and "blocks_before (m_blocks a (tsize pre)) = last_size 0 pre"
    and "tsize pre < blocks_amount a" and "0 < k" and "tsize pre + k \<le> blocks_amount a" and "k < 2 ^ 31"
  using assms by (auto simp: pool_def tiles_def)

text \<open>Links move, tiles stay.\<close>

lemma pool_relink:
  assumes "pool a ts fl" and "same_tiles a b" and "free_list b fl'"
    and "\<And>i. i \<in> heads ts \<Longrightarrow> i \<notin> set fl' \<Longrightarrow> unlinked i b"
  shows "pool b ts fl'"
  using assms blocks_amount_same_tiles[OF assms(2)]
  by (auto simp: pool_def same_tiles_iff same_pool_def)

lemma unlinked_same: "same_links S a b \<Longrightarrow> i \<in> S \<Longrightarrow> unlinked i b = unlinked i a"
  by (simp add: same_links_def unlinked_def)

lemma pool_unlink:
  assumes "pool a ts fl" and "x \<in> set fl"
  shows "\<exists>b. unlink_free_node x a = Some b \<and> pool b ts (remove1 x fl) \<and> unlinked x b \<and> same_tiles a b"
proof -
  obtain xs ys where fl: "fl = xs @ x # ys" "x \<notin> set xs"
    using assms(2) by (meson split_list_first)
  obtain b where b: "unlink_free_node x a = Some b" "free_list b (xs @ ys)" "unlinked x b"
    "same_tiles a b" "same_links (- set (xs @ x # ys)) a b"
    using unlink_free_node_linked[of a xs x ys] poolD(3)[OF assms(1)] fl(1) by blast
  have "pool b ts (xs @ ys)"
  proof (rule pool_relink[OF assms(1) b(4,2)])
    fix i assume "i \<in> heads ts" "i \<notin> set (xs @ ys)"
    then show "unlinked i b"
      using b(3) unlinked_same[OF b(5), of i] poolD(4)[OF assms(1), of i] fl(1) by (cases "i = x") auto
  qed
  then show ?thesis
    using b fl by (auto simp: remove1_append)
qed

lemma pool_push:
  assumes "pool a ts fl" and "x \<in> heads ts" and "x \<notin> set fl" and "\<not> is_used (m_blocks a x)"
    and "x < blocks_amount a"
  shows "\<exists>b fl'. push_free_node x a = Some b \<and> pool b ts fl' \<and> set fl' = insert x (set fl) \<and>
           same_tiles a b"
proof -
  obtain b fl' where b: "push_free_node x a = Some b" "fl' = x # fl \<or> fl' = fl @ [x]"
      "free_list b fl'" "same_tiles a b" "same_links (- insert x (set fl)) a b"
    using push_free_node_links[OF poolD(3)[OF assms(1)] assms(3) poolD(4)[OF assms(1-3)] assms(5,4)]
    by blast
  have "set fl' = insert x (set fl)"
    using b(2) by auto
  moreover have "pool b ts fl'"
    using calculation unlinked_same[OF b(5)] poolD(4)[OF assms(1)]
    by (intro pool_relink[OF assms(1) b(4,3)]) auto
  ultimately show ?thesis
    using b by blast
qed

lemma pool_unlink_idle:
  assumes "pool a ts fl" and "x \<in> heads ts" and "x \<notin> set fl" and "\<not> is_used (m_blocks a x)"
    and "x < blocks_amount a"
  shows "unlink_free_node x a = Some a"
  using unlink_free_node_unlinked assms poolD by metis

text \<open>Two neighbouring tiles become one when the size of the first is overwritten.\<close>

lemma pool_merge:
  assumes p: "pool a (pre @ (u, k1) # (u2, k2) # post) fl"
  shows "\<exists>b. set_blocks_owned (tsize pre) (k1 + k2) a = Some b \<and>
           pool b (pre @ (u, k1 + k2) # post) fl \<and> same_links UNIV a b \<and> same_pool a b \<and>
           (\<forall>i. is_used (m_blocks b i) = is_used (m_blocks a i))"
proof -
  let ?n = "blocks_amount a" and ?i = "tsize pre" and ?k = "k1 + k2"
  note D = poolD[OF p]
  have size: "?i + ?k + tsize post = ?n" "0 < k1" "0 < k2"
    using D(1,2) by auto
  have bnd: "?i < ?n" "?k < 2 ^ 31"
    using size D(5) by linarith+
  obtain b where b: "set_blocks_owned ?i ?k a = Some b"
      "tiles b = own ?n ?i ?k (tiles a)" "same_links UNIV a b" "same_pool a b"
      "\<forall>fl. free_list b fl = free_list a fl"
    using set_blocks_owned_ok[OF bnd] by blast
  have "post \<noteq> []" if "?i + ?k < ?n"
    using that size by auto
  moreover have "?i + ?k < ?n" if "post \<noteq> []"
    using that size D(1) by (cases post) auto
  ultimately have "tiled (tiles b) 0 0 (pre @ (u, ?k) # post)"
    using D(1) size tiled_rebase[of "tiles a" "?i + ?k" k2 post ?k]
    by (cases post) (auto simp: b(2) own_def Let_def add.assoc)
  moreover have "unlinked i b" if "i \<in> heads (pre @ (u, ?k) # post)" "i \<notin> set fl" for i
    using that D(4)[of i] unlinked_same[OF b(3), of i] by (auto simp: heads_def add.assoc)
  moreover have "is_used (m_blocks b i) = is_used (m_blocks a i)" for i
    using fun_cong[OF b(2), of i] by (auto simp: tiles_def own_def Let_def split: if_splits)
  ultimately show ?thesis
    using b(1,3,4,5) p size same_pool_blocks[OF b(4)] by (auto simp: pool_def same_pool_def)
qed

lemma pool_set_used:
  assumes p: "pool a (pre @ (u, k) # post) fl" and u: "\<not> u' \<or> tsize pre \<notin> set fl"
  shows "pool (upd_block (tsize pre) (is_used_update (\<lambda>_. u')) a) (pre @ (u', k) # post) fl"
proof -
  let ?b = "upd_block (tsize pre) (is_used_update (\<lambda>_. u')) a"
  note D = poolD[OF p]
  have "tiles ?b = (tiles a)(tsize pre := (last_size 0 pre, u', k))"
    using D(1) by (auto simp: tiles_def fun_eq_iff)
  then have "tiled (tiles ?b) 0 0 (pre @ (u', k) # post)"
    using D(1) by auto
  moreover have "lseg (m_blocks ?b) p c fl p' c' = lseg (m_blocks a) p c fl p' c'" for p c p' c'
    by (rule lseg_cong) auto
  then have "free_list ?b fl"
    using D(3) u by (auto simp: free_list_def)
  moreover have "unlinked i ?b = unlinked i a" for i
    by (simp add: unlinked_def)
  ultimately show ?thesis
    using p by (auto simp: pool_def heads_def)
qed

text \<open>The counters play no part in it.\<close>

lemma tiles_counters [simp]:
  "tiles (a\<lparr>m_used := u\<rparr>) = tiles a" "tiles (a\<lparr>m_peak := u\<rparr>) = tiles a"
  by (simp_all add: tiles_def fun_eq_iff)

lemma pool_counters [simp]:
  "pool (a\<lparr>m_used := u\<rparr>) ts fl = pool a ts fl" "pool (a\<lparr>m_peak := u\<rparr>) ts fl = pool a ts fl"
  by (simp_all add: pool_def free_list_def unlinked_def)

end
