(* ===== verification/Corosig_Allocator_Inv.thy ===== *)
theory Corosig_Allocator_Inv
  imports Corosig_Tiles
begin

text \<open>
  What \<^verbatim>\<open>allocate\<close> and \<^verbatim>\<open>deallocate\<close> do to the tiling and to the free list. The proofs
  follow the statements of the source: every group of statements that goes from one
  well-formed pool to another has its lemma here.
\<close>

section \<open>Alignment\<close>

lemma unat_align_right_diff:
  assumes "j < 64"
  shows "unat (align_right_diff p (2 ^ j)) = (2 ^ j - unat p mod 2 ^ j) mod 2 ^ j"
proof -
  let ?q = "p + mask j"
  have m: "(2 ^ j :: u64) - 1 = mask j"
    by (simp add: mask_eq_exp_minus_1)
  have "align_right_diff p (2 ^ j) = ?q - take_bit j ?q - p"
    unfolding align_right_diff_def add_diff_eq[symmetric] m by (simp add: word_and_not_mask)
  also have "\<dots> = mask j - take_bit j ?q"
    by simp
  finally have eq: "align_right_diff p (2 ^ j) = mask j - take_bit j ?q" .
  have "unat (mask j :: u64) = 2 ^ j - 1"
  proof -
    have "unat (2 ^ j :: u64) = 2 ^ j"
      using assms by (simp add: unat_exp)
    then show ?thesis
      using unat_sub[of 1 "2 ^ j :: u64"] by (simp add: mask_eq_exp_minus_1 word_le_nat_alt)
  qed
  moreover have "unat (take_bit j ?q) = (unat p + 2 ^ j - 1) mod 2 ^ j"
    using assms calculation le_imp_power_dvd[of j 64 "2 :: nat"]
    by (simp add: unsigned_take_bit_eq unat_word_ariths(1) take_bit_eq_mod[where ?'a = nat]
      mod_mod_cancel)
  moreover have "take_bit j ?q \<le> mask j"
    by (simp add: word_le_nat_alt calculation less_Suc_eq_le[symmetric])
  ultimately show ?thesis
    using nat_align_diff[of "2 ^ j" "unat p"] by (simp add: eq unat_sub)
qed
lemma has_single_bitD:
  assumes "has_single_bit al"
  obtains j where "j < 64" and "al = 2 ^ j"
  using assms by (auto simp: has_single_bit_def list_ex_iff)

text \<open>
  Block addresses are multiples of the block size, so the gap in front of an aligned address
  is a whole number of blocks.
\<close>

lemma align_diff_at_eq:
  assumes al: "al = 2 ^ j" "j < 64" and mem: "get_mem a i < 2 ^ 64" "get_mem a i mod BLOCK_SIZE = 0"
  shows "align_diff_at a al i mod BLOCK_SIZE = 0"
    and "(get_mem a i + align_diff_at a al i) mod unat al = 0"
    and "align_diff_at a al i < unat al"
proof -
  let ?p = "get_mem a i" and ?m = "2 ^ j :: nat"
  have d: "align_diff_at a al i = (?m - ?p mod ?m) mod ?m"
    using mem(1) al by (simp add: align_diff_at_def unat_align_right_diff unat_of_nat take_bit_eq_mod)
  have u: "unat al = ?m"
    using al by (simp add: unat_exp)
  show "align_diff_at a al i < unat al"
    by (simp add: d u)
  show "(?p + align_diff_at a al i) mod unat al = 0"
    by (simp only: d u nat_align_up zero_less_power zero_less_numeral)
  show "align_diff_at a al i mod BLOCK_SIZE = 0"
  proof (cases "j \<le> 4")
    case True
    then have "?m dvd BLOCK_SIZE"
      using le_imp_power_dvd[of j 4 "2 :: nat"] by (simp add: BLOCK_SIZE_def)
    then have "?p mod ?m = 0"
      using mem(2) by auto
    then show ?thesis
      by (simp add: d)
  next
    case False
    then have "BLOCK_SIZE dvd ?m"
      using le_imp_power_dvd[of 4 j "2 :: nat"] by (simp add: BLOCK_SIZE_def)
    moreover have "BLOCK_SIZE dvd ?p"
      using mem(2) by auto
    ultimately show ?thesis
      by (simp add: d dvd_mod mod_eq_0_iff_dvd dvd_diff_nat flip: dvd_eq_mod_eq_0)
  qed
qed

section \<open>Splitting a tile\<close>

text \<open>
  The first write of a split leaves the header of the second half unwritten; the list may be
  relinked before it is initialised, as \<^verbatim>\<open>allocate\<close> does for the alignment gap.
\<close>

lemma pool_split:
  assumes p: "pool a (pre @ (u, k) # post) fl" and s: "0 < s" "s < k" and off: "tsize pre + s \<notin> set fl"
  shows "\<exists>a1. set_blocks_owned (tsize pre) s a = Some a1 \<and> free_list a1 fl \<and> same_pool a a1 \<and>
           same_links UNIV a a1 \<and> (\<forall>i. is_used (m_blocks a1 i) = is_used (m_blocks a i)) \<and>
           (\<forall>a2 fl'. same_tiles a1 a2 \<longrightarrow> same_links (- set fl) a1 a2 \<longrightarrow> free_list a2 fl' \<longrightarrow>
              set fl' = set fl \<longrightarrow>
              (\<exists>b. set_blocks_owned (tsize pre + s) (k - s)
                     (upd_block (tsize pre + s) default_initialize a2) = Some b \<and>
                   pool b (pre @ (u, s) # (False, k - s) # post) fl' \<and> same_pool a b))"
proof -
  let ?n = "blocks_amount a" and ?i = "tsize pre"
  note D = poolD[OF p]
  have size: "?i + k + tsize post = ?n"
    using D(2) by auto
  have bnd: "?i < ?n" "s < 2 ^ 31" "?i + s < ?n" "k - s < 2 ^ 31"
    using size s D(5) by linarith+
  obtain a1 where a1: "set_blocks_owned ?i s a = Some a1" "tiles a1 = own ?n ?i s (tiles a)"
      "same_links UNIV a a1" "same_pool a a1" "\<forall>fl. free_list a1 fl = free_list a fl"
    using set_blocks_owned_ok[OF bnd(1,2)] by blast
  have used: "is_used (m_blocks a1 i) = is_used (m_blocks a i)" for i
    using fun_cong[OF a1(2), of i] by (auto simp: tiles_def own_def Let_def split: if_splits)
  have "\<exists>b. set_blocks_owned (?i + s) (k - s) (upd_block (?i + s) default_initialize a2) = Some b \<and>
            pool b (pre @ (u, s) # (False, k - s) # post) fl' \<and> same_pool a b"
    if a2: "same_tiles a1 a2" "same_links (- set fl) a1 a2" "free_list a2 fl'" "set fl' = set fl" for a2 fl'
  proof -
    let ?a3 = "upd_block (?i + s) default_initialize a2"
    have n: "blocks_amount ?a3 = ?n" "same_pool a ?a3"
      using a1(4) a2(1) same_pool_blocks[of a a1] same_pool_blocks[of a1 a2]
      by (auto simp: same_tiles_iff same_pool_def)
    have "lseg (m_blocks ?a3) p c fl' p' c' = lseg (m_blocks a2) p c fl' p' c'" for p c p' c'
      using off a2(4) by simp
    then have fl3: "free_list ?a3 fl'"
      using a2(3) by (auto simp: free_list_def default_initialize_def)
    obtain b where b: "set_blocks_owned (?i + s) (k - s) ?a3 = Some b"
        "tiles b = own ?n (?i + s) (k - s) (tiles ?a3)" "same_links UNIV ?a3 b" "same_pool ?a3 b"
        "\<forall>fl. free_list b fl = free_list ?a3 fl"
      using set_blocks_owned_ok[of "?i + s" ?a3 "k - s"] bnd n(1) by auto
    have "tiles ?a3 = (tiles a2)(?i + s := (fst (tiles a2 (?i + s)), False, snd (snd (tiles a2 (?i + s)))))"
      by (auto simp: tiles_def default_initialize_def)
    then have "tiles b = own ?n (?i + s) (k - s) ((own ?n ?i s (tiles a))(?i + s := (s, False,
        snd (snd (own ?n ?i s (tiles a) (?i + s))))))"
      using a1(2) a2(1) bnd(3) b(2) s by (simp add: same_tiles_iff own_def Let_def)
    moreover have "?i + k < ?n \<longleftrightarrow> post \<noteq> []"
      using size D(1) by (cases post) auto
    ultimately have "tiled (tiles b) 0 0 (pre @ (u, s) # (False, k - s) # post)"
      using D(1) size s tiled_rebase[of "tiles a" "?i + k" k post "k - s"]
      by (cases post) (auto simp: own_def Let_def add.assoc)
    moreover have "unlinked i b" if "i \<in> heads (pre @ (u, s) # (False, k - s) # post)" "i \<notin> set fl'" for i
    proof (cases "i = ?i + s")
      case True
      then show ?thesis
        using b(3) by (simp add: unlinked_def same_links_def default_initialize_def)
    next
      case False
      then have "i \<in> heads (pre @ (u, k) # post)"
        using that(1) s by (auto simp: heads_def split: if_splits)
      moreover have "unlinked i b \<longleftrightarrow> unlinked i a2"
        using False b(3) by (auto simp: unlinked_def same_links_def)
      ultimately show ?thesis
        using unlinked_same[OF a2(2), of i] unlinked_same[OF a1(3), of i] D(4) that(2) a2(4) by auto
    qed
    ultimately show ?thesis
      using b n fl3 p s same_pool_blocks[of a b] same_pool_trans[OF n(2) b(4)]
      by (auto simp: pool_def same_pool_def)
  qed
  then show ?thesis
    using a1 D(3) used by blast
qed

text \<open>Writing the size a tile already has.\<close>

lemma pool_rewrite:
  assumes p: "pool a (pre @ (u, k) # post) fl"
  shows "\<exists>b. set_blocks_owned (tsize pre) k a = Some b \<and> pool b (pre @ (u, k) # post) fl \<and>
           same_tiles a b"
proof -
  let ?n = "blocks_amount a" and ?i = "tsize pre"
  note D = poolD[OF p] and T = pool_tile[OF p]
  obtain b where b: "set_blocks_owned ?i k a = Some b" "tiles b = own ?n ?i k (tiles a)"
      "same_links UNIV a b" "same_pool a b" "\<forall>fl. free_list b fl = free_list a fl"
    using set_blocks_owned_ok[OF T(4,7)] by blast
  have "?i + k < ?n \<longleftrightarrow> post \<noteq> []"
    using D(1,2) by (cases post) auto
  then have "tiles b = tiles a"
    using D(1) by (cases post) (auto simp: b(2) own_def Let_def fun_eq_iff)
  then have "same_tiles a b"
    using b(4) by (simp add: same_tiles_iff)
  moreover have "pool b (pre @ (u, k) # post) fl"
    using pool_relink[OF p calculation] b(5) D(3,4) unlinked_same[OF b(3)] by simp
  ultimately show ?thesis
    using b(1) by blast
qed

section \<open>The two halves of an allocation\<close>

lemma pool_mid_head: "tsize pre \<in> heads (pre @ (u, k) # post)"
  by (simp add: heads_split)

lemma free_list_relink:
  assumes "free_list a fl" and "x \<in> set fl"
  shows "\<exists>b c fl'. unlink_free_node x a = Some b \<and> push_free_node x b = Some c \<and> free_list c fl' \<and>
           set fl' = set fl \<and> same_tiles a c \<and> same_links (- set fl) a c"
proof -
  obtain xs ys where fl: "fl = xs @ x # ys"
    using assms(2) by (meson split_list)
  obtain b where b: "unlink_free_node x a = Some b" "free_list b (xs @ ys)" "unlinked x b"
      "same_tiles a b" "same_links (- set fl) a b"
    using unlink_free_node_linked[of a xs x ys] assms(1) fl by blast
  have "x \<notin> set (xs @ ys)" "x < blocks_amount b" "\<not> is_used (m_blocks b x)"
    using assms(1) b(4) fl blocks_amount_same_tiles[OF b(4)]
    by (auto simp: free_list_def same_tiles_def)
  then obtain c fl' where c: "push_free_node x b = Some c" "fl' = x # xs @ ys \<or> fl' = (xs @ ys) @ [x]"
      "free_list c fl'" "same_tiles b c" "same_links (- insert x (set (xs @ ys))) b c"
    using push_free_node_links[OF b(2) _ b(3)] by blast
  have "set fl' = set fl"
    using c(2) fl by auto
  moreover have "same_links (- set fl) a c"
    using b(5) c(5) fl by (auto simp: same_links_def)
  ultimately show ?thesis
    using b(1) c same_tiles_trans[OF b(4) c(4)] by blast
qed

lemma same_links_refl: "same_links S a a"
  by (simp add: same_links_def)

lemma skip_alignment_ok:
  assumes p: "pool a (pre @ (False, k) # post) fl" and i: "tsize pre \<in> set fl"
    and s: "s < k" and off: "0 < s \<Longrightarrow> tsize pre + s \<notin> set fl"
  shows "\<exists>b fl'. skip_alignment s (tsize pre) a = Some (tsize pre + s, b) \<and>
           pool b (pre @ (if s = 0 then [] else [(False, s)]) @ (False, k - s) # post) fl' \<and>
           set fl' = set fl \<and> same_pool a b"
proof (cases "s = 0")
  case True
  then show ?thesis
    using p by (auto simp: skip_alignment_def)
next
  case False
  note T = pool_tile[OF p]
  obtain a1 where a1: "set_blocks_owned (tsize pre) s a = Some a1" "free_list a1 fl" "same_pool a a1"
      "\<And>a2 fl'. same_tiles a1 a2 \<Longrightarrow> same_links (- set fl) a1 a2 \<Longrightarrow> free_list a2 fl' \<Longrightarrow>
          set fl' = set fl \<Longrightarrow> \<exists>b. set_blocks_owned (tsize pre + s) (k - s)
                     (upd_block (tsize pre + s) default_initialize a2) = Some b \<and>
                   pool b (pre @ (False, s) # (False, k - s) # post) fl' \<and> same_pool a b"
    using pool_split[OF p _ s] off False by blast
  obtain b c fl' where bc: "unlink_free_node (tsize pre) a1 = Some b"
      "push_free_node (tsize pre) b = Some c" "free_list c fl'" "set fl' = set fl" "same_tiles a1 c"
      "same_links (- set fl) a1 c"
    using free_list_relink[OF a1(2) i] by blast
  obtain d where d: "set_blocks_owned (tsize pre + s) (k - s)
        (upd_block (tsize pre + s) default_initialize c) = Some d"
      "pool d (pre @ (False, s) # (False, k - s) # post) fl'" "same_pool a d"
    using a1(4)[OF bc(5,6,3,4)] by blast
  have "size_sub k s = k - s" "tsize pre + s < blocks_amount c"
    using s T(6,7) same_pool_blocks[OF a1(3)] blocks_amount_same_tiles[OF bc(5)]
    by (simp_all add: size_sub_id)
  then show ?thesis
    using False a1(1) bc(1,2,4) d T(2) by (auto simp: skip_alignment_def Let_def)
qed

lemma take_block_ok:
  assumes p: "pool a (pre @ (False, k) # post) fl" and need: "0 < need" "need \<le> k"
    and off: "need < k \<Longrightarrow> tsize pre + need \<notin> set fl"
  shows "\<exists>b fl'. take_block need (tsize pre) a = Some b \<and>
           pool b (pre @ (True, need) # (if need < k then [(False, k - need)] else []) @ post) fl' \<and>
           set fl' = (set fl - {tsize pre}) \<union> (if need < k then {tsize pre + need} else {}) \<and>
           same_pool a b"
proof -
  let ?i = "tsize pre"
  let ?used = "\<lambda>a. upd_block ?i (is_used_update (\<lambda>_. True)) a"
  note T = pool_tile[OF p]
  obtain a1 where a1: "unlink_free_node ?i a = Some a1" "pool a1 (pre @ (False, k) # post) (remove1 ?i fl)"
      "same_tiles a a1"
    using pool_unlink[OF p, of ?i] pool_unlink_idle[OF p pool_mid_head] p T(1,4)
    by (cases "?i \<in> set fl") (auto simp: remove1_idem)
  let ?fl = "remove1 ?i fl"
  have fl: "set ?fl = set fl - {?i}" "?i \<notin> set ?fl"
    using poolD(3)[OF p] by (auto simp: free_list_def)
  have p2: "pool (?used a1) (pre @ (True, k) # post) ?fl"
    using pool_set_used[OF a1(2), of True] fl(2) by simp
  have sp: "same_pool a (?used a1)"
    using a1(3) by (simp add: same_tiles_iff same_pool_def)
  show ?thesis
  proof (cases "need < k")
    case False
    then obtain b where "set_blocks_owned ?i k (?used a1) = Some b"
        "pool b (pre @ (True, k) # post) ?fl" "same_tiles (?used a1) b"
      using pool_rewrite[OF p2] by blast
    then show ?thesis
      using False need(2) a1(1) T(2) fl(1) sp
      by (auto simp: take_block_def Let_def same_tiles_iff intro: same_pool_trans)
  next
    case True
    have "?i + need \<notin> set ?fl"
      using off True fl(1) by simp
    then obtain b where b: "set_blocks_owned ?i need (?used a1) = Some b" "free_list b ?fl"
        "same_pool (?used a1) b"
        "\<And>c fl'. same_tiles b c \<Longrightarrow> same_links (- set ?fl) b c \<Longrightarrow> free_list c fl' \<Longrightarrow> set fl' = set ?fl \<Longrightarrow>
           \<exists>d. set_blocks_owned (?i + need) (k - need) (upd_block (?i + need) default_initialize c) = Some d \<and>
             pool d (pre @ (True, need) # (False, k - need) # post) fl' \<and> same_pool (?used a1) d"
      using pool_split[OF p2 need(1) True] by blast
    obtain c where c: "set_blocks_owned (?i + need) (k - need)
          (upd_block (?i + need) default_initialize b) = Some c"
        "pool c (pre @ (True, need) # (False, k - need) # post) ?fl" "same_pool (?used a1) c"
      using b(4)[OF same_tiles_refl same_links_refl b(2) refl]
      by blast
    then have c': "pool c ((pre @ [(True, need)]) @ (False, k - need) # post) ?fl"
      by simp
    note Tc = pool_tile[OF c']
    obtain d fl' where "push_free_node (?i + need) c = Some d"
        "pool d (pre @ (True, need) # (False, k - need) # post) fl'"
        "set fl' = insert (?i + need) (set ?fl)" "same_tiles c d"
      using pool_push[OF c' pool_mid_head] Tc(1,4) \<open>?i + need \<notin> set ?fl\<close> by auto
    moreover have "?i + need < blocks_amount b"
      using Tc(4) same_pool_blocks[OF b(3)] same_pool_blocks[OF c(3)] by simp
    moreover have "same_pool a d"
      using sp c(3) calculation(4) by (auto simp: same_tiles_iff same_pool_def)
    ultimately show ?thesis
      using True a1(1) T(2) fl(1) b(1) c(1) by (auto simp: take_block_def Let_def)
  qed
qed

end
