(* ===== verification/Corosig_Allocator_Ops.thy ===== *)
theory Corosig_Allocator_Ops
  imports Corosig_Allocator_Inv
begin

text \<open>
  The invariant of an allocator between two calls, and what each call does to its tiling:
  \<^verbatim>\<open>allocate\<close> replaces the first fitting tile of the free list by up to three tiles,
  \<^verbatim>\<open>deallocate\<close> replaces up to three tiles by one, and neither runs into an assertion.
\<close>

section \<open>The invariant\<close>

definition used_size :: "tile list \<Rightarrow> nat" where
  "used_size ts = tsize (filter fst ts)"

lemma used_size_simps [simp]:
  "used_size [] = 0" "used_size (t # ts) = (if fst t then snd t else 0) + used_size ts"
  "used_size (ts @ us) = used_size ts + used_size us"
  by (simp_all add: used_size_def)

lemma used_size_le: "used_size ts \<le> tsize ts"
  by (induction ts) auto

definition coalesced :: "tile list \<Rightarrow> bool" where
  "coalesced ts \<longleftrightarrow> successively (\<lambda>s t. fst s \<or> fst t) ts"

definition alloc_inv :: "Allocator \<Rightarrow> tile list \<Rightarrow> nat list \<Rightarrow> bool" where
  "alloc_inv a ts fl \<longleftrightarrow>
     pool a ts fl \<and> set fl = starts False 0 ts \<and> coalesced ts \<and>
     m_used a = BLOCK_SIZE * used_size ts \<and> m_used a \<le> m_peak a \<and> m_peak a \<le> m_mem_size a"

lemma alloc_invD:
  assumes "alloc_inv a ts fl"
  shows "pool a ts fl" "set fl = starts False 0 ts" "coalesced ts"
    "m_used a = BLOCK_SIZE * used_size ts" "m_used a \<le> m_peak a" "m_peak a \<le> m_mem_size a"
  using assms by (simp_all add: alloc_inv_def)

lemma coalesced_simps [simp]:
  "coalesced []"
  "coalesced (t # ts) \<longleftrightarrow> coalesced ts \<and> (ts = [] \<or> fst t \<or> fst (hd ts))"
  "coalesced (ts @ us) \<longleftrightarrow>
     coalesced ts \<and> coalesced us \<and> (ts = [] \<or> us = [] \<or> fst (last ts) \<or> fst (hd us))"
  by (auto simp: coalesced_def successively_append_iff successively_Cons)

text \<open>A free tile can be cut anywhere: no block inside it is on the list.\<close>

lemma pool_inside:
  assumes "pool a (pre @ (u, k) # post) fl" and "set fl = starts False 0 (pre @ (u, k) # post)"
    and "0 < s" and "s < k"
  shows "tsize pre + s \<notin> set fl"
proof -
  have "tiled (tiles a) 0 0 pre"
    using assms(1) by (simp add: pool_def)
  then show ?thesis
    using assms(2-4) starts_bounds[of "tiles a" 0 0 pre "tsize pre + s" False]
      starts_lower[of "tsize pre + s" False "tsize pre + k" post] by (auto split: if_splits)
qed

section \<open>Taking a fitting block\<close>

text \<open>What a request needs besides the alignment gap: one header block and its payload.\<close>

definition blocks_for :: "u64 \<Rightarrow> nat" where
  "blocks_for sz = 1 + ceil_div (unat sz) BLOCK_SIZE"

text \<open>The request sizes for which the \<^verbatim>\<open>size_t\<close> sum of \<^verbatim>\<open>allocate\<close> does not wrap.\<close>

definition request_ok :: "u64 \<Rightarrow> u64 \<Rightarrow> bool" where
  "request_ok sz al \<longleftrightarrow> has_single_bit al \<and> unat sz + unat al + BLOCK_SIZE \<le> 2 ^ 64"

definition gap :: "Allocator \<Rightarrow> u64 \<Rightarrow> nat \<Rightarrow> nat" where
  "gap a al i = align_diff_at a al i div BLOCK_SIZE"

lemma ceil_div_bounds: "a \<le> 16 * ceil_div a 16 \<and> 16 * ceil_div a 16 < a + 16"
proof -
  define q r where "q = a div 16" and "r = a mod 16"
  have "a = 16 * q + r" "r < 16"
    by (simp_all add: q_def r_def)
  then show ?thesis
    unfolding ceil_div_def q_def[symmetric] r_def[symmetric] by simp
qed

lemma ceil_div_shift: "d mod 16 = 0 \<Longrightarrow> ceil_div (16 + s + d) 16 = 1 + d div 16 + ceil_div s 16"
proof -
  assume "d mod 16 = 0"
  then obtain q where d: "d = 16 * q"
    by (auto simp: mod_eq_0_iff_dvd elim: dvdE)
  have "16 + s + d = s + 16 * (1 + q)"
    by (simp add: d)
  then show ?thesis
    by (simp only: ceil_div_def mod_mult_self2 div_mult_self2) (simp add: d)
qed

lemma get_mem_bounds:
  assumes "pool a ts fl" and "i < blocks_amount a"
  shows "get_mem a i < 2 ^ 64" and "get_mem a i mod BLOCK_SIZE = 0"
proof -
  have "i * 16 + 16 \<le> m_mem_size a"
    using assms by (auto simp: blocks_amount_def BLOCK_SIZE_def pool_def)
  then show "get_mem a i < 2 ^ 64" "get_mem a i mod BLOCK_SIZE = 0"
    using assms by (auto simp: get_mem_def pool_def BLOCK_SIZE_def mod_add_eq[symmetric])
qed

lemma blocks_needed_eq:
  assumes "pool a ts fl" and "i < blocks_amount a" and "request_ok sz al"
  shows "blocks_needed_at a sz al i = gap a al i + blocks_for sz"
    and "align_diff_at a al i = BLOCK_SIZE * gap a al i"
    and "(get_mem a (i + gap a al i)) mod unat al = 0"
proof -
  let ?d = "align_diff_at a al i"
  obtain j where al: "al = 2 ^ j" "j < 64"
    using assms(3) by (auto simp: request_ok_def elim: has_single_bitD)
  note A = align_diff_at_eq[OF al get_mem_bounds[OF assms(1,2)]]
  have sum: "16 + unat sz + ?d < 2 ^ 64"
    using A(3) assms(3) by (simp add: request_ok_def BLOCK_SIZE_def)
  have "unat (word_of_nat (BLOCK_SIZE) + sz + word_of_nat ?d) = 16 + unat sz + ?d"
    using sum by (simp add: BLOCK_SIZE_def unat_word_ariths(1) unat_of_nat take_bit_eq_mod)
  then show "blocks_needed_at a sz al i = gap a al i + blocks_for sz"
    using A(1) by (simp add: blocks_needed_at_def gap_def blocks_for_def BLOCK_SIZE_def ceil_div_shift)
  show d: "?d = BLOCK_SIZE * gap a al i"
    using A(1) mult_div_mod_eq[of BLOCK_SIZE ?d] by (simp add: gap_def)
  show "(get_mem a (i + gap a al i)) mod unat al = 0"
    using A(2) by (simp add: get_mem_def d algebra_simps)
qed

definition taken :: "nat \<Rightarrow> nat \<Rightarrow> nat \<Rightarrow> tile list" where
  "taken s need k =
     (if s = 0 then [] else [(False, s)]) @ (True, need) #
     (if s + need < k then [(False, k - s - need)] else [])"

lemma tsize_taken [simp]: "s + need \<le> k \<Longrightarrow> tsize (taken s need k) = k"
  by (simp add: taken_def)

lemma allocate_from_ok:
  assumes inv: "alloc_inv a (pre @ (False, k) # post) fl" and req: "request_ok sz al"
    and fits: "blocks_needed_at a sz al (tsize pre) \<le> k"
  shows "\<exists>b fl'. allocate_from sz al a (tsize pre) =
                   Some (Some (get_mem a (tsize pre + gap a al (tsize pre))), b) \<and>
           alloc_inv b (pre @ taken (gap a al (tsize pre)) (blocks_for sz) k @ post) fl' \<and>
           m_mem_data b = m_mem_data a \<and> m_mem_size b = m_mem_size a"
proof -
  let ?i = "tsize pre" and ?ts = "pre @ (False, k) # post"
  define s where "s = gap a al ?i"
  define need where "need = blocks_for sz"
  note I = alloc_invD[OF inv]
  note T = pool_tile[OF I(1)] and B = blocks_needed_eq[OF I(1) pool_tile(4)[OF I(1)] req]
  have need: "0 < need" "s + need \<le> k" "need \<le> k - s"
    using fits B(1) by (simp_all add: s_def need_def blocks_for_def)
  have nd: "size_sub (blocks_needed_at a sz al ?i) (gap a al ?i) = need"
    using B(1) fits T(7) by (simp add: need_def size_sub_id)
  obtain a1 fl1 where a1: "skip_alignment s ?i a = Some (?i + s, a1)"
      "pool a1 (pre @ (if s = 0 then [] else [(False, s)]) @ (False, k - s) # post) fl1"
      "set fl1 = set fl" "same_pool a a1"
    using skip_alignment_ok[OF I(1), of s] pool_inside[OF I(1,2), of s] I(2) need by auto
  let ?pre = "pre @ (if s = 0 then [] else [(False, s)])"
  have p1: "pool a1 (?pre @ (False, k - s) # post) fl1" "tsize ?pre = ?i + s"
    using a1(2) by auto
  have "tsize ?pre + need \<notin> set fl1" if "need < k - s"
    using pool_inside[OF I(1,2), of "s + need"] that need(1) a1(3) p1(2) by (simp add: add.assoc)
  then obtain a2 fl2 where a2: "take_block need (?i + s) a1 = Some a2"
      "pool a2 (?pre @ (True, need) # (if need < k - s then [(False, k - s - need)] else []) @ post) fl2"
      "set fl2 = (set fl1 - {?i + s}) \<union> (if need < k - s then {?i + s + need} else {})"
      "same_pool a1 a2"
    using take_block_ok[OF p1(1) need(1) need(3), unfolded p1(2)] p1(2) by auto
  let ?new = "pre @ taken s need k @ post"
  let ?b = "a2\<lparr>m_used := m_used a2 + need * BLOCK_SIZE,
               m_peak := max (m_peak a2) (m_used a2 + need * BLOCK_SIZE)\<rparr>"
  have new: "?pre @ (True, need) # (if need < k - s then [(False, k - s - need)] else []) @ post = ?new"
    by (auto simp: taken_def)
  have pb: "pool ?b ?new fl2"
    using a2(2) unfolding new by simp
  have tpre: "tiled (tiles a) 0 0 pre"
    using I(1) by (simp add: pool_def)
  have "set fl2 = starts False 0 ?new"
    using a2(3) a1(3) I(2) need starts_bounds[OF tpre, of "?i + s" False]
      starts_lower[of "?i + s" False "?i + k" post]
    by (auto simp: taken_def add.assoc)
  moreover have "coalesced ?new"
    using I(3) by (auto simp: taken_def)
  moreover have used: "m_used ?b = BLOCK_SIZE * used_size ?new"
    using I(4) a1(4) a2(4) by (simp add: same_pool_def taken_def algebra_simps)
  moreover have le: "m_used ?b \<le> m_mem_size ?b"
    using used used_size_le[of ?new] poolD(2)[OF pb] pb
    by (auto simp: blocks_amount_def pool_def BLOCK_SIZE_def)
  ultimately have "alloc_inv ?b ?new fl2"
    using pb I(5,6) a1(4) a2(4) by (simp add: alloc_inv_def same_pool_def)
  moreover have "get_mem ?b (?i + s) = get_mem a (?i + s)"
    using a1(4) a2(4) by (simp add: get_mem_def same_pool_def)
  moreover have d: "align_diff_at a al ?i = BLOCK_SIZE * s" "get_mem a (?i + s) mod unat al = 0"
    "size_sub (blocks_needed_at a sz al ?i) s = need"
    using B(2,3) nd by (simp_all add: s_def)
  then have "allocate_from sz al a ?i = Some (Some (get_mem a (?i + s)), ?b)"
    unfolding allocate_from_def Let_def d(1) using a1(1) a2(1) le calculation(2)
    by (simp add: BLOCK_SIZE_def d)
  ultimately show ?thesis
    using a1(4) a2(4) by (auto simp: s_def need_def same_pool_def)
qed

section \<open>First fit\<close>

definition fits :: "u64 \<Rightarrow> u64 \<Rightarrow> Allocator \<Rightarrow> nat \<Rightarrow> bool" where
  "fits sz al a i \<longleftrightarrow> blocks_needed_at a sz al i \<le> blocks_owned (m_blocks a i)"

text \<open>The search loop returns, and picks the first block of the list that fits.\<close>

lemma allocate_loop_find:
  assumes "lseg (m_blocks a) p c xs p' INVALID_IDX" and "distinct xs" and "blocks_amount a \<le> INVALID_IDX"
    and "\<forall>x \<in> set xs. x < blocks_amount a \<and> \<not> is_used (m_blocks a x)"
  shows "allocate_loop sz al a c =
           (case find (fits sz al a) xs of None \<Rightarrow> Some (None, a) | Some x \<Rightarrow> allocate_from sz al a x)"
  using assms
proof (induction xs arbitrary: p c)
  case Nil
  then show ?case
    by (simp add: allocate_loop.simps)
next
  case (Cons x xs)
  let ?nxt = "next_free_block_idx (m_blocks a x)"
  have "?nxt \<noteq> x"
    using Cons.prems by (cases xs) auto
  moreover have "allocate_loop sz al a ?nxt =
      (case find (fits sz al a) xs of None \<Rightarrow> Some (None, a) | Some x \<Rightarrow> allocate_from sz al a x)"
    using Cons.prems Cons.IH[of x ?nxt] by simp
  moreover have "c = x" "x < blocks_amount a" "\<not> is_used (m_blocks a x)"
    using Cons.prems by auto
  ultimately show ?case
    by (simp add: allocate_loop.simps[of sz al a x] fits_def[of sz al a x] not_less)
qed

lemma allocate_first_fit:
  assumes "alloc_inv a ts fl" and "has_single_bit al"
  shows "allocate sz al a =
           (case find (fits sz al a) fl of None \<Rightarrow> Some (None, a) | Some x \<Rightarrow> allocate_from sz al a x)"
proof -
  have "free_list a fl"
    using assms(1) by (auto dest: alloc_invD(1) poolD(3))
  then show ?thesis
    using allocate_loop_find[of a _ _ fl] assms(2) unfolding free_list_def allocate_def by simp blast
qed

section \<open>Coalescing\<close>

fun absorb_next :: "nat \<Rightarrow> tile list \<Rightarrow> nat \<times> tile list" where
  "absorb_next k ((False, k2) # post) = (k + k2, post)"
| "absorb_next k post = (k, post)"

definition absorb_prev :: "tile list \<Rightarrow> nat \<Rightarrow> tile list \<times> nat" where
  "absorb_prev pre k =
     (if pre \<noteq> [] \<and> \<not> fst (last pre) then (butlast pre, snd (last pre) + k) else (pre, k))"

definition released :: "tile list \<Rightarrow> nat \<Rightarrow> tile list \<Rightarrow> tile list" where
  "released pre k post =
     (let (pre, k) = absorb_prev pre k; (k, post) = absorb_next k post in pre @ (False, k) # post)"

lemma used_not_listed:
  assumes "pool a (pre @ (True, k) # post) fl"
  shows "tsize pre \<notin> set fl"
  using pool_tile(1)[OF assms] poolD(3)[OF assms] by (auto simp: free_list_def)

lemma merge_prev_ok:
  assumes p: "pool a (pre @ (True, k) # post) fl" and fl: "starts False 0 pre \<subseteq> set fl"
    and abs: "absorb_prev pre k = (pre', k')"
  shows "\<exists>b u fl'. merge_prev (tsize pre) a = Some (tsize pre', b) \<and>
           pool b (pre' @ (u, k') # post) fl' \<and> set fl' = set fl - {tsize pre'} \<and>
           blocks_owned (m_blocks a (tsize pre)) = k \<and> same_pool a b"
proof (cases pre rule: rev_cases)
  case Nil
  then show ?thesis
    using p abs pool_tile[OF p] used_not_listed[OF p] by (auto simp: merge_prev_def absorb_prev_def)
next
  case (snoc pre0 t)
  obtain u k1 where t: "t = (u, k1)"
    by fastforce
  have p': "pool a (pre0 @ (u, k1) # (True, k) # post) fl"
    using p snoc t by simp
  note T = pool_tile[OF p] and T' = pool_tile[OF p']
  have before: "blocks_before (m_blocks a (tsize pre)) = k1" "size_sub (tsize pre) k1 = tsize pre0"
    using T(3,4) poolD(5)[OF p] by (simp_all add: snoc t size_sub_id)
  show ?thesis
  proof (cases u)
    case True
    then have "merge_prev (tsize pre) a = Some (tsize pre, a)" "pre' = pre" "k' = k"
      using before T'(1,4,5) abs snoc t by (auto simp: merge_prev_def absorb_prev_def)
    then show ?thesis
      using p used_not_listed[OF p] T(2) by auto
  next
    case False
    have abs': "pre' = pre0" "k' = k1 + k"
      using abs False by (auto simp: absorb_prev_def snoc t)
    obtain b where b: "set_blocks_owned (tsize pre0) (k1 + k) a = Some b"
        "pool b (pre0 @ (u, k1 + k) # post) fl" "same_links UNIV a b" "same_pool a b"
      using pool_merge[OF p'] by blast
    have "tsize pre0 \<in> set fl"
      using fl False by (auto simp: snoc t)
    then obtain c where c: "unlink_free_node (tsize pre0) b = Some c"
        "pool c (pre0 @ (u, k1 + k) # post) (remove1 (tsize pre0) fl)" "unlinked (tsize pre0) c"
        "same_tiles b c"
      using pool_unlink[OF b(2)] by blast
    have "merge_prev (tsize pre) a = Some (tsize pre0, c)"
      using before T'(1,2,4,5) T(2) False b(1) c(1,3) by (simp add: merge_prev_def unlinked_def)
    moreover have "same_pool a c"
      using b(4) c(4) by (auto simp: same_tiles_iff intro: same_pool_trans)
    moreover have "set (remove1 (tsize pre0) fl) = set fl - {tsize pre0}"
      using poolD(3)[OF p] by (simp add: free_list_def)
    ultimately show ?thesis
      using c(2) abs' T(2) by blast
  qed
qed

lemma merge_next_ok:
  assumes p: "pool a (pre @ (u, k) # post) fl" and fl: "starts False (tsize pre + k) post \<subseteq> set fl"
    and off: "tsize pre \<notin> set fl" and abs: "absorb_next k post = (k', post')"
  shows "\<exists>b fl'. merge_next (tsize pre) a = Some b \<and> pool b (pre @ (u, k') # post') fl' \<and>
           set fl' = set fl - (if post' = post then {} else {tsize pre + k}) \<and> same_pool a b"
proof (cases post)
  case Nil
  have "\<not> tsize pre + k < blocks_amount a"
    using poolD(2)[OF p] Nil by simp
  then show ?thesis
    using p abs Nil pool_tile[OF p] by (auto simp: merge_next_def)
next
  case (Cons t post0)
  obtain u2 k2 where t: "t = (u2, k2)"
    by fastforce
  have p1: "pool a (pre @ (u, k) # (u2, k2) # post0) fl" and
    p2: "pool a ((pre @ [(u, k)]) @ (u2, k2) # post0) fl"
    using p Cons t by simp_all
  note T = pool_tile[OF p1] and T2 = pool_tile[OF p2]
  show ?thesis
  proof (cases u2)
    case True
    then have "merge_next (tsize pre) a = Some a" "post' = post" "k' = k"
      using abs Cons t T(2) T2(1) by (auto simp: merge_next_def Let_def)
    then show ?thesis
      using p by auto
  next
    case False
    have abs': "post' = post0" "k' = k + k2" "post' \<noteq> post"
      using abs False Cons t by auto
    obtain b where b: "set_blocks_owned (tsize pre) (k + k2) a = Some b"
        "pool b (pre @ (u, k + k2) # post0) fl" "same_links UNIV a b" "same_pool a b"
      using pool_merge[OF p1] by blast
    have "tsize pre + k \<in> set fl"
      using fl False by (auto simp: Cons t)
    then obtain c where c: "unlink_free_node (tsize pre + k) b = Some c"
        "pool c (pre @ (u, k + k2) # post0) (remove1 (tsize pre + k) fl)" "same_tiles b c"
      using pool_unlink[OF b(2)] by blast
    have "merge_next (tsize pre) a = Some c"
      using T(2) T2(1,2,4) False b(1) c(1) by (simp add: merge_next_def)
    moreover have "same_pool a c"
      using b(4) c(3) by (auto simp: same_tiles_iff intro: same_pool_trans)
    moreover have "set (remove1 (tsize pre + k) fl) = set fl - {tsize pre + k}"
      using poolD(3)[OF p] by (simp add: free_list_def)
    ultimately show ?thesis
      using c(2) abs' by auto
  qed
qed

lemma absorb_prevD:
  assumes "absorb_prev pre k = (pre', k')"
  shows "tsize pre' + k' = tsize pre + k"
    and "insert (tsize pre') (starts False 0 pre) = insert (tsize pre') (starts False 0 pre')"
    and "used_size pre' = used_size pre"
    and "coalesced pre \<Longrightarrow> coalesced pre' \<and> (pre' = [] \<or> fst (last pre'))"
  using assms by (cases pre rule: rev_cases; auto simp: absorb_prev_def split: if_splits)+

lemma absorb_nextD:
  assumes "absorb_next k post = (k', post')" and "tiled v (i + k) k0 post"
  shows "k' + tsize post' = k + tsize post"
    and "starts False (i + k') post' = starts False (i + k) post - (if post' = post then {} else {i + k})"
    and "used_size post' = used_size post"
    and "coalesced post \<Longrightarrow> coalesced post' \<and> (post' = [] \<or> fst (hd post'))"
proof -
  have "i + k \<notin> starts False (i + k + snd t) ts" if "post = t # ts" for t ts
    using starts_lower[of "i + k" False "i + k + snd t" ts] assms(2) that by auto
  then show "k' + tsize post' = k + tsize post"
    and "starts False (i + k') post' = starts False (i + k) post - (if post' = post then {} else {i + k})"
    and "used_size post' = used_size post"
    and "coalesced post \<Longrightarrow> coalesced post' \<and> (post' = [] \<or> fst (hd post'))"
    using assms by (cases rule: absorb_next.cases[of "(k, post)"]; auto simp: add.assoc)+
qed

section \<open>Deallocation\<close>

lemma get_metadata_idx_get_mem:
  assumes "pool a ts fl" and "i < blocks_amount a"
  shows "get_metadata_idx_from_addr a (get_mem a i) = i"
proof -
  have "(get_mem a i - m_mem_data a) div BLOCK_SIZE = i + 1"
    by (simp add: get_mem_def BLOCK_SIZE_def)
  moreover have "get_mem a i mod BLOCK_SIZE = 0"
    by (rule get_mem_bounds(2)[OF assms])
  moreover have "i + 1 < 2 ^ 64"
    using assms(2) poolD(5)[OF assms(1)] by simp
  ultimately show ?thesis
    by (simp add: get_metadata_idx_from_addr_def size_sub_id)
qed

lemma deallocate_ok:
  assumes inv: "alloc_inv a (pre @ (True, k) # post) fl" 
    and below: "get_mem a (tsize pre) < m_mem_data a + m_mem_size a"
  shows "\<exists>b fl'. deallocate (Some (get_mem a (tsize pre))) a = Some b \<and>
           alloc_inv b (released pre k post) fl' \<and>
           m_mem_data b = m_mem_data a \<and> m_mem_size b = m_mem_size a"
proof -
  let ?i = "tsize pre"
  note I = alloc_invD[OF inv] and T = pool_tile[OF alloc_invD(1)[OF inv]]
  let ?a0 = "a\<lparr>m_used := m_used a - k * BLOCK_SIZE\<rparr>"
  obtain pre' k1 where abs: "absorb_prev pre k = (pre', k1)"
    by fastforce
  obtain k2 post' where abs': "absorb_next k1 post = (k2, post')"
    by fastforce
  note P = absorb_prevD[OF abs]
  have tpost: "tiled (tiles a) (tsize pre' + k1) k post" "tiled (tiles a) 0 0 pre"
    using poolD(1)[OF I(1)] P(1) by auto
  note N = absorb_nextD[OF abs' tpost(1)]
  have off: "?i \<notin> set fl" "unlinked ?i a" "k * BLOCK_SIZE \<le> m_used a"
    using used_not_listed[OF I(1)] poolD(4)[OF I(1) pool_mid_head] I(4) by simp_all
  have p0: "pool ?a0 (pre @ (True, k) # post) fl" "starts False 0 pre \<subseteq> set fl"
    using I(1,2) by auto
  obtain a1 u fl1 where a1: "merge_prev ?i ?a0 = Some (tsize pre', a1)"
      "pool a1 (pre' @ (u, k1) # post) fl1" "set fl1 = set fl - {tsize pre'}" "same_pool ?a0 a1"
    using merge_prev_ok[OF p0 abs] by blast
  have "tsize pre' < tsize pre' + k1"
    using pool_tile(5)[OF a1(2)] by simp
  then have "starts False (tsize pre' + k1) post \<subseteq> set fl1"
    using a1(3) I(2) P(1) starts_lower[of "tsize pre'" False "tsize pre' + k1" post] by auto
  then obtain a2 fl2 where a2: "merge_next (tsize pre') a1 = Some a2"
      "pool a2 (pre' @ (u, k2) # post') fl2" "same_pool a1 a2"
      "set fl2 = set fl1 - (if post' = post then {} else {tsize pre' + k1})"
    using merge_next_ok[OF a1(2) _ _ abs'] a1(3) by blast
  let ?a3 = "upd_block (tsize pre') (is_used_update (\<lambda>_. False)) a2"
  have off2: "tsize pre' \<notin> set fl2" "unlinked (tsize pre') a1" "unlinked (tsize pre') a2"
    using a1(3) a2(4) poolD(4)[OF a1(2) pool_mid_head] poolD(4)[OF a2(2) pool_mid_head] by auto
  have p3: "pool ?a3 (pre' @ (False, k2) # post') fl2"
    using pool_set_used[OF a2(2)] by blast
  note T3 = pool_tile[OF p3]
  obtain b fl' where b: "push_free_node (tsize pre') ?a3 = Some b"
      "pool b (pre' @ (False, k2) # post') fl'" "set fl' = insert (tsize pre') (set fl2)" "same_tiles ?a3 b"
    using pool_push[OF p3 pool_mid_head off2(1)] T3(1,4) by blast
  have mem: "m_mem_data a \<le> get_mem a ?i" "get_mem a ?i < m_mem_data a + m_mem_size a"
    using below by (simp_all add: get_mem_def)
  have idle: "unlink_free_node (tsize pre') ?a3 = Some ?a3"
    using pool_unlink_idle[OF p3 pool_mid_head off2(1)] T3(1,4) by blast
  have "deallocate (Some (get_mem a ?i)) a = Some b"
    by (simp add: deallocate_def Let_def get_metadata_idx_get_mem[OF I(1) T(4)] mem T(1,2,4) off(2,3)
      a1(1) a2(1) off2(2,3) idle b(1) del: upd_block_simps fun_upd_apply)
  moreover have "set fl' = starts False 0 (pre' @ (False, k2) # post')"
  proof -
    let ?D = "if post' = post then {} else {tsize pre' + k1}"
    have "set fl = starts False 0 pre \<union> starts False (tsize pre' + k1) post"
      using I(2) P(1) by simp
    moreover have "?D \<inter> starts False 0 pre = {}"
      using starts_bounds[OF tpost(2), of "tsize pre' + k1" False] P(1) by auto
    ultimately have "set fl' = insert (tsize pre') (starts False 0 pre) \<union> starts False (tsize pre' + k2) post'"
      unfolding b(3) a2(4) a1(3) N(2) by blast
    then show ?thesis
      unfolding P(2) by auto
  qed
  moreover have "coalesced (pre' @ (False, k2) # post')"
    using I(3) N(4) P(4) by auto
  moreover have "same_pool ?a0 b"
    using a1(4) a2(3) b(4) by (auto simp: same_pool_def same_tiles_iff)
  ultimately show ?thesis
    using b(2) I(4-6) N(3) P(3) abs abs'
    by (auto simp: alloc_inv_def released_def same_pool_def algebra_simps)
qed

end
