(* ===== verification/Corosig_Allocator_Props.thy ===== *)
theory Corosig_Allocator_Props
  imports Corosig_Allocator_Ops
begin

text \<open>
  The contract of the allocator as its clients see it: the set of live chunks, what
  \<^verbatim>\<open>allocate\<close> and \<^verbatim>\<open>deallocate\<close> do to it, the concept \<^verbatim>\<open>AllocatorLike\<close> as a locale
  with the laws a client relies on, and its interpretation on the model of
  \<^verbatim>\<open>Allocator\<close>.
\<close>

section \<open>Reading the tiling off the headers\<close>

primrec walk :: "nat \<Rightarrow> nat \<Rightarrow> (nat \<Rightarrow> nat \<times> bool \<times> nat) \<Rightarrow> nat \<Rightarrow> tile list" where
  "walk 0 n v i = []"
| "walk (Suc f) n v i = (if i < n then snd (v i) # walk f n v (i + snd (snd (v i))) else [])"

definition tiling_of :: "Allocator \<Rightarrow> tile list" where
  "tiling_of a = walk (blocks_amount a) (blocks_amount a) (tiles a) 0"

primrec tiles_at :: "bool \<Rightarrow> nat \<Rightarrow> tile list \<Rightarrow> (nat \<times> nat) set" where
  "tiles_at u i [] = {}"
| "tiles_at u i (t # ts) = (if fst t = u then {(i, snd t)} else {}) \<union> tiles_at u (i + snd t) ts"

text \<open>
  \<^term>\<open>live_chunks a\<close>: the addresses handed out and not yet given back, with the bytes each owns.
\<close>

definition live_chunks :: "Allocator \<Rightarrow> (nat \<times> nat) set" where
  "live_chunks a = (\<lambda>(i, k). (get_mem a i, BLOCK_SIZE * (k - 1))) ` tiles_at True 0 (tiling_of a)"

definition alloc_valid :: "Allocator \<Rightarrow> bool" where
  "alloc_valid a \<longleftrightarrow> (\<exists>fl. alloc_inv a (tiling_of a) fl)"

lemma walk_tiled: "tiled v i b ts \<Longrightarrow> tsize ts \<le> f \<Longrightarrow> walk f (i + tsize ts) v i = ts"
proof (induction ts arbitrary: i b f)
  case Nil
  then show ?case
    by (cases f) auto
next
  case (Cons t ts)
  then obtain g where "f = Suc g" "tsize ts \<le> g"
    by (cases f) auto
  then show ?case
    using Cons.IH[of "i + snd t" "snd t" g] Cons.prems by (auto simp: add.assoc)
qed

lemma alloc_inv_tiling: "alloc_inv a ts fl \<Longrightarrow> tiling_of a = ts"
  using walk_tiled[of "tiles a" 0 0 ts "blocks_amount a"]
  by (simp add: alloc_inv_def pool_def tiling_of_def)

lemma alloc_inv_valid: "alloc_inv a ts fl \<Longrightarrow> alloc_valid a"
  using alloc_inv_tiling by (auto simp: alloc_valid_def)

lemma alloc_validE:
  assumes "alloc_valid a"
  obtains fl where "alloc_inv a (tiling_of a) fl"
  using assms by (auto simp: alloc_valid_def)

lemma tiles_at_append [simp]: "tiles_at u i (ts @ us) = tiles_at u i ts \<union> tiles_at u (i + tsize ts) us"
  by (induction ts arbitrary: i) (auto simp: add.assoc)

lemma tiles_at_startsI: "(x, k) \<in> tiles_at u i ts \<Longrightarrow> x \<in> starts u i ts"
  by (induction ts arbitrary: i) (auto split: if_splits)

lemma tiles_at_pos: "tiled v i b ts \<Longrightarrow> (x, k) \<in> tiles_at u i ts \<Longrightarrow> 0 < k"
  by (induction ts arbitrary: i b) (auto split: if_splits)

lemma tiles_at_bounds: "(x, k) \<in> tiles_at u i ts \<Longrightarrow> i \<le> x \<and> x + k \<le> i + tsize ts"
  by (induction ts arbitrary: i) (auto split: if_splits, fastforce+)

lemma tiles_at_split:
  assumes "(x, k) \<in> tiles_at u i ts"
  obtains pre post where "ts = pre @ (u, k) # post" and "x = i + tsize pre"
  using assms
proof (induction ts arbitrary: i thesis)
  case (Cons t ts)
  show ?case
  proof (cases "fst t = u \<and> (x, k) = (i, snd t)")
    case True
    then show ?thesis
      using Cons.prems(1)[of "[]" ts] by (cases t) auto
  next
    case False
    then obtain pre post where "ts = pre @ (u, k) # post" "x = i + snd t + tsize pre"
      using Cons.IH[of "i + snd t"] Cons.prems(2) by (auto split: if_splits)
    then show ?thesis
      using Cons.prems(1)[of "t # pre" post] by simp
  qed
qed simp

lemma tiles_at_disjoint:
  "(x, k) \<in> tiles_at u i ts \<Longrightarrow> (y, l) \<in> tiles_at w i ts \<Longrightarrow>
     (u, x, k) = (w, y, l) \<or> x + k \<le> y \<or> y + l \<le> x"
proof (induction ts arbitrary: i)
  case (Cons t ts)
  then show ?case
    using tiles_at_bounds[of x k u "i + snd t" ts] tiles_at_bounds[of y l w "i + snd t" ts]
    by (auto split: if_splits)
qed simp

text \<open>Live chunks lie inside the pool and do not overlap, headers included.\<close>

lemma get_mem_inj [simp]: "get_mem a i = get_mem a j \<longleftrightarrow> i = j"
  by (auto simp: get_mem_def BLOCK_SIZE_def)

lemma live_split:
  assumes "alloc_valid a" and "(p, c) \<in> live_chunks a"
  obtains pre k post fl where "alloc_inv a (pre @ (True, k) # post) fl" and "p = get_mem a (tsize pre)"
    and "c = BLOCK_SIZE * (k - 1)" and "tiling_of a = pre @ (True, k) # post"
proof -
  obtain i k where ik: "(i, k) \<in> tiles_at True 0 (tiling_of a)" "p = get_mem a i" "c = BLOCK_SIZE * (k - 1)"
    using assms(2) by (auto simp: live_chunks_def)
  obtain pre post where "tiling_of a = pre @ (True, k) # post" "i = 0 + tsize pre"
    using tiles_at_split[OF ik(1)] .
  then show ?thesis
    using that assms(1) ik by (auto elim!: alloc_validE)
qed

section \<open>The contract\<close>

lemma live_chunks_in_pool:
  assumes "alloc_valid a" and "(p, c) \<in> live_chunks a"
  shows "m_mem_data a + BLOCK_SIZE \<le> p" and "p + c \<le> m_mem_data a + m_mem_size a"
    and "p mod BLOCK_SIZE = 0"
proof -
  obtain pre k post fl where inv: "alloc_inv a (pre @ (True, k) # post) fl" "p = get_mem a (tsize pre)"
    "c = BLOCK_SIZE * (k - 1)" "tiling_of a = pre @ (True, k) # post"
    by (rule live_split[OF assms])
  note T = pool_tile[OF alloc_invD(1)[OF inv(1)]]
  show "m_mem_data a + BLOCK_SIZE \<le> p"
    by (simp add: inv(2) get_mem_def)
  have "BLOCK_SIZE * (tsize pre + k) \<le> m_mem_size a"
    using T(6) alloc_invD(1)[OF inv(1)] by (auto simp: pool_def blocks_amount_def BLOCK_SIZE_def)
  moreover have "p + c = m_mem_data a + BLOCK_SIZE * (tsize pre + k)"
    using T(5) by (cases k) (simp_all add: inv(2,3) get_mem_def algebra_simps)
  ultimately show "p + c \<le> m_mem_data a + m_mem_size a"
    by simp
  show "p mod BLOCK_SIZE = 0"
    using get_mem_bounds(2)[OF alloc_invD(1)[OF inv(1)] T(4)] inv(2) by simp
qed

lemma live_chunks_apart:
  assumes "alloc_valid a" and "(p, c) \<in> live_chunks a" and "(q, d) \<in> live_chunks a" and "p \<noteq> q"
  shows "p + c + BLOCK_SIZE \<le> q \<or> q + d + BLOCK_SIZE \<le> p"
proof -
  obtain i k where ik: "(i, k) \<in> tiles_at True 0 (tiling_of a)" "p = get_mem a i" "c = BLOCK_SIZE * (k - 1)"
    using assms(2) by (auto simp: live_chunks_def)
  obtain j l where jl: "(j, l) \<in> tiles_at True 0 (tiling_of a)" "q = get_mem a j" "d = BLOCK_SIZE * (l - 1)"
    using assms(3) by (auto simp: live_chunks_def)
  have pos: "0 < k" "0 < l"
    using assms(1) tiles_at_split[OF ik(1)] tiles_at_split[OF jl(1)] pool_tile(5) alloc_invD(1)
    by (metis alloc_validE)+
  have "i + k \<le> j \<or> j + l \<le> i"
    using tiles_at_disjoint[OF ik(1) jl(1)] assms(4) ik(2) jl(2) by auto
  then have "BLOCK_SIZE * (i + k) \<le> BLOCK_SIZE * j \<or> BLOCK_SIZE * (j + l) \<le> BLOCK_SIZE * i"
    by simp
  then show ?thesis
    using ik(2,3) jl(2,3) pos by (auto simp: get_mem_def BLOCK_SIZE_def)
qed

lemma get_mem_same: "m_mem_data b = m_mem_data a \<Longrightarrow> get_mem b i = get_mem a i"
  by (simp add: get_mem_def)

lemma tiles_at_taken:
  "s + need \<le> k \<Longrightarrow> tiles_at True i (taken s need k) = {(i + s, need)}"
  by (auto simp: taken_def)

lemma live_chunks_taken:
  assumes "tiling_of a = pre @ (False, k) # post" and "tiling_of b = pre @ taken s need k @ post"
    and "s + need \<le> k" and "m_mem_data b = m_mem_data a"
  shows "live_chunks b = insert (get_mem a (tsize pre + s), BLOCK_SIZE * (need - 1)) (live_chunks a)"
  by (auto simp: live_chunks_def assms(1,2) tiles_at_taken[OF assms(3)] get_mem_same[OF assms(4)] assms(3))

lemma tiles_at_absorb_prev: 
  "absorb_prev pre k = (pre', k') \<Longrightarrow> tiles_at True 0 pre' = tiles_at True 0 pre"
  by (cases pre rule: rev_cases) (auto simp: absorb_prev_def split: if_splits)

lemma tiles_at_absorb_next:
  "absorb_next k post = (k', post') \<Longrightarrow> tiles_at True (i + k') post' = tiles_at True (i + k) post"
  by (cases rule: absorb_next.cases[of "(k, post)"]) (auto simp: add.assoc)

lemma tiles_at_released: "tiles_at True 0 (released pre k post) = tiles_at True 0 pre \<union> tiles_at True (tsize pre + k) post"
proof -
  obtain pre' k1 where abs: "absorb_prev pre k = (pre', k1)"
    by fastforce
  obtain k2 post' where abs': "absorb_next k1 post = (k2, post')"
    by fastforce
  have "tsize pre' + k1 = tsize pre + k"
    by (rule absorb_prevD(1)[OF abs])
  then show ?thesis
    using tiles_at_absorb_prev[OF abs] tiles_at_absorb_next[OF abs', of "tsize pre'"]
    by (simp add: released_def abs abs')
qed

lemma live_chunks_released:
  assumes "tiling_of a = pre @ (True, k) # post" and "tiling_of b = released pre k post"
    and "m_mem_data b = m_mem_data a" and "alloc_inv a (pre @ (True, k) # post) fl"
  shows "live_chunks b = live_chunks a - {(get_mem a (tsize pre), BLOCK_SIZE * (k - 1))}"
proof -
  have "0 < k"
    using pool_tile(5)[OF alloc_invD(1)[OF assms(4)]] .
  moreover have "tiled (tiles a) 0 0 pre"
    using assms(4) by (simp add: alloc_inv_def pool_def)
  ultimately have "(tsize pre, l) \<notin> tiles_at True 0 pre \<union> tiles_at True (tsize pre + k) post" for l
    using starts_bounds[of "tiles a" 0 0 pre "tsize pre" True] starts_lower[of "tsize pre" True "tsize pre + k" post]
    by (auto dest: tiles_at_startsI)
  then show ?thesis
    by (auto simp: live_chunks_def assms(1,2) tiles_at_released get_mem_same[OF assms(3)])
qed

text \<open>The allocator's two operations in terms of the live chunks.\<close>

lemma allocate_cases:
  assumes "alloc_valid a" and "request_ok sz al"
  obtains (null) "allocate sz al a = Some (None, a)"
      and "\<forall>(i, k) \<in> tiles_at False 0 (tiling_of a). k < gap a al i + blocks_for sz"
  | (chunk) pre k post b fl where "tiling_of a = pre @ (False, k) # post"
      and "allocate sz al a = Some (Some (get_mem a (tsize pre + gap a al (tsize pre))), b)"
      and "gap a al (tsize pre) + blocks_for sz \<le> k"
      and "alloc_inv b (pre @ taken (gap a al (tsize pre)) (blocks_for sz) k @ post) fl"
      and "m_mem_data b = m_mem_data a" and "m_mem_size b = m_mem_size a"
      and "get_mem a (tsize pre + gap a al (tsize pre)) mod unat al = 0"
proof -
  obtain fl where inv: "alloc_inv a (tiling_of a) fl"
    using assms(1) by (rule alloc_validE)
  note I = alloc_invD[OF inv]
  have al: "has_single_bit al"
    using assms(2) by (simp add: request_ok_def)
  note ff = allocate_first_fit[OF inv al, of sz]
  show ?thesis
  proof (cases "find (fits sz al a) fl")
    case None
    have "k < gap a al i + blocks_for sz" if ik: "(i, k) \<in> tiles_at False 0 (tiling_of a)" for i k
    proof -
      obtain pre post where ts: "tiling_of a = pre @ (False, k) # post" "i = tsize pre"
        using tiles_at_split[OF ik] by auto
      note T = pool_tile[OF I(1)[unfolded ts(1)]]
      have "i \<in> set fl"
        using I(2) ts by simp
      then show ?thesis
        using None T(2,4) blocks_needed_eq(1)[OF I(1) _ assms(2), of i] ts(2)
        by (auto simp: find_None_iff fits_def)
    qed
    then show ?thesis
      using null ff None by auto
  next
    case (Some x)
    then have x: "x \<in> set fl" "fits sz al a x"
      by (auto simp: find_Some_iff)
    obtain pre k post where ts: "tiling_of a = pre @ (False, k) # post" "x = tsize pre"
      using starts_split[OF poolD(1)[OF I(1)]] x(1) I(2) by (metis add_0)
    note T = pool_tile[OF I(1)[unfolded ts(1)]]
    note B = blocks_needed_eq[OF I(1) T(4) assms(2)]
    have "blocks_needed_at a sz al (tsize pre) \<le> k"
      using x(2) T(2) ts(2) by (simp add: fits_def)
    then show ?thesis
      using chunk[OF ts(1)] allocate_from_ok[OF inv[unfolded ts(1)] assms(2)] ff Some ts(2) B(1,3) by auto
  qed
qed

text \<open>
  Under the invariant a request whose size computation does not wrap is
  answered without an assertion failing. Either no free tile is large enough, and the
  allocator is unchanged, or the chunk returned is aligned as asked, large enough, new, and
  the only change to the set of live chunks.
\<close>

lemma allocate_live:
  assumes "alloc_valid a" and "request_ok sz al"
  shows "\<exists>r b. allocate sz al a = Some (r, b) \<and> alloc_valid b \<and>
    (case r of
       None \<Rightarrow> b = a \<and> (\<forall>(i, k) \<in> tiles_at False 0 (tiling_of a). k < gap a al i + blocks_for sz)
     | Some p \<Rightarrow> p mod unat al = 0 \<and> p \<notin> fst ` live_chunks a \<and>
         unat sz \<le> BLOCK_SIZE * ceil_div (unat sz) BLOCK_SIZE \<and>
         live_chunks b = insert (p, BLOCK_SIZE * ceil_div (unat sz) BLOCK_SIZE) (live_chunks a) \<and>
         current_memory b = current_memory a + BLOCK_SIZE * blocks_for sz)"
  using assms
proof (cases rule: allocate_cases)
  case null
  then show ?thesis
    using assms(1) by auto
next
  case (chunk pre k post b fl)
  let ?s = "gap a al (tsize pre)"
  obtain fl0 where inv: "alloc_inv a (pre @ (False, k) # post) fl0"
    using assms(1) chunk(1) by (metis alloc_validE)
  note tb = alloc_inv_tiling[OF chunk(4)]
  have free: "(tsize pre, k) \<in> tiles_at False 0 (tiling_of a)" "tiled (tiles a) 0 0 (tiling_of a)"
    using chunk(1) poolD(1)[OF alloc_invD(1)[OF inv]] by simp_all
  have "(tsize pre + ?s, l) \<notin> tiles_at True 0 (tiling_of a)" for l
  proof
    assume l: "(tsize pre + ?s, l) \<in> tiles_at True 0 (tiling_of a)"
    then show False
      using tiles_at_disjoint[OF free(1) l] tiles_at_pos[OF free(2) l] chunk(3) by (simp add: blocks_for_def)
  qed
  then have "get_mem a (tsize pre + ?s) \<notin> fst ` live_chunks a"
    by (auto simp: live_chunks_def)
  moreover have "current_memory b = current_memory a + BLOCK_SIZE * blocks_for sz"
    using alloc_invD(4)[OF inv] alloc_invD(4)[OF chunk(4)] 
    by (simp add: current_memory_def taken_def algebra_simps)
  moreover have "live_chunks b = insert (get_mem a (tsize pre + ?s), BLOCK_SIZE * ceil_div (unat sz) BLOCK_SIZE)
      (live_chunks a)"
    using live_chunks_taken[OF chunk(1) tb chunk(3,5)] by (simp add: blocks_for_def)
  ultimately show ?thesis
    using chunk(2,7) alloc_inv_valid[OF chunk(4)] ceil_div_bounds[of "unat sz"]
    by (simp add: BLOCK_SIZE_def)
qed

text \<open>
  The assertion on the scope of the pointer compares it with the end of the pool, so the
  payload of a live chunk has to start before that end: a chunk of no payload in the last block
  of the pool does not, every other live chunk does.
\<close>

lemma live_chunk_below:
  assumes "alloc_valid a" and "(p, c) \<in> live_chunks a" and "0 < c"
  shows "p < m_mem_data a + m_mem_size a"
  using live_chunks_in_pool(2)[OF assms(1,2)] assms(3) by simp

lemma deallocate_out_of_scope:
  "m_mem_data a + m_mem_size a \<le> p \<Longrightarrow> deallocate (Some p) a = None"
  by (simp add: deallocate_def)

lemma deallocate_live:
  assumes "alloc_valid a" and "(p, c) \<in> live_chunks a" and "p < m_mem_data a + m_mem_size a"
  shows "\<exists>b. deallocate (Some p) a = Some b \<and> alloc_valid b \<and> live_chunks b = live_chunks a - {(p, c)} \<and>
           current_memory b + c + BLOCK_SIZE = current_memory a \<and>
           m_mem_data b = m_mem_data a \<and> m_mem_size b = m_mem_size a"
proof -
  obtain pre k post fl where inv: "alloc_inv a (pre @ (True, k) # post) fl" and p: "p = get_mem a (tsize pre)"
    and c: "c = BLOCK_SIZE * (k - 1)" and ts: "tiling_of a = pre @ (True, k) # post"
    by (rule live_split[OF assms(1,2)])
  have k: "0 < k"
    using pool_tile(5)[OF alloc_invD(1)[OF inv]] .
  obtain b fl' where b: "deallocate (Some p) a = Some b" "alloc_inv b (released pre k post) fl'"
      "m_mem_data b = m_mem_data a" "m_mem_size b = m_mem_size a"
    using deallocate_ok[OF inv] assms(3) p by blast
  have "used_size (released pre k post) + k = used_size (pre @ (True, k) # post)"
  proof -
    obtain pre' k1 where abs: "absorb_prev pre k = (pre', k1)"
      by fastforce
    obtain k2 post' where abs': "absorb_next k1 post = (k2, post')"
      by fastforce
    have "used_size post' = used_size post"
      using abs' by (cases rule: absorb_next.cases[of "(k1, post)"]) auto
    then show ?thesis
      using absorb_prevD(3)[OF abs] by (simp add: released_def abs abs')
  qed
  then have "current_memory b + c + BLOCK_SIZE = current_memory a"
    using alloc_invD(4)[OF inv] alloc_invD(4)[OF b(2)] k c
    by (cases k) (auto simp: current_memory_def algebra_simps)
  then show ?thesis
    using b alloc_inv_valid[OF b(2)] live_chunks_released[OF ts alloc_inv_tiling[OF b(2)] b(3) inv] p c by auto
qed

text \<open>
  Allocation followed by deallocation gives the tiling back: the gap, the chunk and the
  remainder coalesce into the tile that was split.
\<close>

lemma released_taken:
  assumes "coalesced (pre @ (False, k) # post)" and "s + need \<le> k"
  shows "released (pre @ (if s = 0 then [] else [(False, s)])) need
           ((if s + need < k then [(False, k - s - need)] else []) @ post) = pre @ (False, k) # post"
proof -
  have "absorb_prev (pre @ (if s = 0 then [] else [(False, s)])) need = (pre, s + need)"
    using assms by (auto simp: absorb_prev_def)
  moreover have "absorb_next (s + need) ((if s + need < k then [(False, k - s - need)] else []) @ post) = (k, post)"
    using assms by (cases rule: absorb_next.cases[of "(s + need, post)"]) auto
  ultimately show ?thesis
    by (simp add: released_def)
qed

section \<open>The concept AnAllocator\<close>

text \<open>
  What the containers of the library assume about their \<^verbatim>\<open>ALLOCATOR\<close> parameter.
  \<^term>\<open>live\<close> is the ghost set of chunks handed out, \<^term>\<open>ok\<close> the requests that may be made.
\<close>

primrec free_all :: "(nat option \<Rightarrow> 's \<Rightarrow> 's option) \<Rightarrow> nat list \<Rightarrow> 's \<Rightarrow> 's option" where
  "free_all dealloc [] s = Some s"
| "free_all dealloc (p # ps) s = Option.bind (dealloc (Some p) s) (free_all dealloc ps)"

locale an_allocator =
  fixes alloc :: "u64 \<Rightarrow> u64 \<Rightarrow> 's \<Rightarrow> (nat option \<times> 's) option"
    and dealloc :: "nat option \<Rightarrow> 's \<Rightarrow> 's option"
    and inv :: "'s \<Rightarrow> bool"
    and live :: "'s \<Rightarrow> (nat \<times> nat) set"
    and ok :: "u64 \<Rightarrow> u64 \<Rightarrow> bool"
  assumes alloc_law: "inv s \<Longrightarrow> ok sz al \<Longrightarrow>
      \<exists>r s'. alloc sz al s = Some (r, s') \<and> inv s' \<and>
        (case r of None \<Rightarrow> s' = s
         | Some p \<Rightarrow> p mod unat al = 0 \<and> p \<notin> fst ` live s \<and>
             (\<exists>c. unat sz \<le> c \<and> live s' = insert (p, c) (live s)))"
    and dealloc_law: "inv s \<Longrightarrow> (p, c) \<in> live s \<Longrightarrow> 0 < c \<Longrightarrow>
      \<exists>s'. dealloc (Some p) s = Some s' \<and> inv s' \<and> live s' = live s - {(p, c)}"
    and dealloc_null: "dealloc None s = Some s"
    and live_apart: "inv s \<Longrightarrow> (p, c) \<in> live s \<Longrightarrow> (q, d) \<in> live s \<Longrightarrow> p \<noteq> q \<Longrightarrow>
      p + c \<le> q \<or> q + d \<le> p"
    and live_unique: "inv s \<Longrightarrow> (p, c) \<in> live s \<Longrightarrow> (p, d) \<in> live s \<Longrightarrow> c = d"
begin

lemma alloc_cases:
  assumes "inv s" and "ok sz al"
  obtains (null) "alloc sz al s = Some (None, s)"
  | (chunk) p s' c where "alloc sz al s = Some (Some p, s')" and "inv s'" and "p mod unat al = 0"
      and "p \<notin> fst ` live s" and "unat sz \<le> c" and "live s' = insert (p, c) (live s)"
proof -
  obtain r s' where r: "alloc sz al s = Some (r, s')" "inv s'"
      "case r of None \<Rightarrow> s' = s
       | Some p \<Rightarrow> p mod unat al = 0 \<and> p \<notin> fst ` live s \<and>
           (\<exists>c. unat sz \<le> c \<and> live s' = insert (p, c) (live s))"
    using alloc_law[OF assms] by blast
  show ?thesis
  proof (cases r)
    case None
    then show ?thesis using null r by simp
  next
    case (Some p)
    then obtain c where "p mod unat al = 0" "p \<notin> fst ` live s" "unat sz \<le> c" "live s' = insert (p, c) (live s)"
      using r(3) by auto
    then show ?thesis using chunk r(1,2) Some by simp
  qed
qed

text \<open>A new chunk overlaps none of the chunks that are already live.\<close>

lemma alloc_fresh:
  assumes "inv s" and "ok sz al" and "alloc sz al s = Some (Some p, s')" and "(q, d) \<in> live s"
  shows "p + unat sz \<le> q \<or> q + d \<le> p"
  using assms(1,2)
proof (cases rule: alloc_cases)
  case null
  then show ?thesis
    using assms(3) by simp
next
  case (chunk p1 s1 c)
  have eq: "p1 = p" "s1 = s'"
    using chunk(1) assms(3) by auto
  have "p \<noteq> q"
    using chunk(4) assms(4) eq by force
  then show ?thesis
    using live_apart[OF chunk(2), of p c q d] chunk(5,6) assms(4) eq by auto
qed

lemma free_all_ok:
  assumes "inv s" and "distinct ps" and "\<forall>p \<in> set ps. \<exists>c. (p, c) \<in> live s \<and> 0 < c"
  shows "\<exists>s'. free_all dealloc ps s = Some s' \<and> inv s' \<and> live s' = {x \<in> live s. fst x \<notin> set ps}"
  using assms
proof (induction ps arbitrary: s)
  case (Cons p ps)
  obtain c where c: "(p, c) \<in> live s" "0 < c"
    using Cons.prems(3) by auto
  obtain s1 where s1: "dealloc (Some p) s = Some s1" "inv s1" "live s1 = live s - {(p, c)}"
    using dealloc_law[OF Cons.prems(1) c] by blast
  have "\<forall>q \<in> set ps. \<exists>c. (q, c) \<in> live s1 \<and> 0 < c"
  proof
    fix q assume q: "q \<in> set ps"
    then obtain d where "(q, d) \<in> live s" "0 < d"
      using Cons.prems(3) by auto
    moreover have "q \<noteq> p"
      using Cons.prems(2) q by auto
    ultimately show "\<exists>c. (q, c) \<in> live s1 \<and> 0 < c"
      using s1(3) by auto
  qed
  then obtain s2 where s2: "free_all dealloc ps s1 = Some s2" "inv s2"
      "live s2 = {x \<in> live s1. fst x \<notin> set ps}"
    using Cons.IH[OF s1(2)] Cons.prems(2) by auto
  moreover have "{x \<in> live s1. fst x \<notin> set ps} = {x \<in> live s. fst x \<notin> set (p # ps)}"
  proof -
    have "(q, d) \<in> live s1 \<longleftrightarrow> (q, d) \<in> live s \<and> q \<noteq> p" for q d
      using live_unique[OF Cons.prems(1) c(1), of d] by (cases "q = p") (auto simp: s1(3))
    then show ?thesis
      by auto
  qed
  ultimately show ?case
    using s1(1) by auto
qed auto

end

lemma live_chunks_unique:
  assumes "alloc_valid a" and "(p, c) \<in> live_chunks a" and "(p, d) \<in> live_chunks a"
  shows "c = d"
proof -
  obtain i k l where ik: "(i, k) \<in> tiles_at True 0 (tiling_of a)" "c = BLOCK_SIZE * (k - 1)"
      and il: "(i, l) \<in> tiles_at True 0 (tiling_of a)" "d = BLOCK_SIZE * (l - 1)"
    using assms(2,3) by (auto simp: live_chunks_def)
  have "0 < k" "0 < l"
    using assms(1) tiles_at_pos[OF _ ik(1)] tiles_at_pos[OF _ il(1)]
    by (auto elim!: alloc_validE dest!: alloc_invD(1) poolD(1))
  then show ?thesis
    using tiles_at_disjoint[OF ik(1) il(1)] ik(2) il(2) by auto
qed

interpretation pool: an_allocator allocate deallocate alloc_valid live_chunks request_ok
proof
  fix a :: Allocator and sz al :: u64
  assume "alloc_valid a" and "request_ok sz al"
  from allocate_live[OF this]
  show "\<exists>r b. allocate sz al a = Some (r, b) \<and> alloc_valid b \<and>
      (case r of None \<Rightarrow> b = a
       | Some p \<Rightarrow> p mod unat al = 0 \<and> p \<notin> fst ` live_chunks a \<and>
           (\<exists>c. unat sz \<le> c \<and> live_chunks b = insert (p, c) (live_chunks a)))"
    by (fastforce split: option.splits)
next
  fix a p c assume "alloc_valid a" "(p, c) \<in> live_chunks a" "0 < c"
  then show "\<exists>b. deallocate (Some p) a = Some b \<and> alloc_valid b \<and> live_chunks b = live_chunks a - {(p, c)}"
    using deallocate_live live_chunk_below by blast
next
  fix a p c q d
  assume "alloc_valid a" "(p, c) \<in> live_chunks a" "(q, d) \<in> live_chunks a" "p \<noteq> q"
  then show "p + c \<le> q \<or> q + d \<le> p"
    using live_chunks_apart by force
qed (auto simp: deallocate_def intro: live_chunks_unique)

end
