(* ===== verification/Corosig_Allocator_Claims.thy ===== *)
theory Corosig_Allocator_Claims
  imports Corosig_Allocator_Props
begin

text \<open>
  The theorems about the allocator: construction, both operations, their round trip, the
  independence from what clients write into their chunks, and every reachable state.
\<close>

section \<open>Construction\<close>

lemma Allocator_make_ok:
  assumes "data + sz < 2 ^ 64" and "sz < BLOCK_SIZE * 2 ^ 31"
    and "unat (align_right_diff (word_of_nat data) (word_of_nat BLOCK_SIZE)) \<le> sz"
  shows "\<exists>a. Allocator_make data sz junk = Some a \<and> alloc_valid a \<and> live_chunks a = {} \<and>
           current_memory a = 0 \<and> peak_memory a = 0 \<and> data \<le> m_mem_data a \<and>
           m_mem_data a + m_mem_size a \<le> data + sz \<and> sz < m_mem_size a + 2 * BLOCK_SIZE"
proof -
  define d where "d = unat (align_right_diff (word_of_nat data) (word_of_nat BLOCK_SIZE))"
  define s where "s = (sz - d) - (sz - d) mod BLOCK_SIZE"
  define n where "n = s div BLOCK_SIZE"
  have diff: "d = (16 - data mod 16) mod 16"
    using unat_align_right_diff[of 4 "word_of_nat data"] assms(1)
    by (simp add: d_def BLOCK_SIZE_def unat_of_nat take_bit_eq_mod)
  have d: "d < BLOCK_SIZE" "(data + d) mod BLOCK_SIZE = 0"
    using nat_align_up[of 16 data] by (simp_all add: diff BLOCK_SIZE_def)
  have s: "s mod BLOCK_SIZE = 0" "s \<le> sz - d" "sz < s + 2 * BLOCK_SIZE" "n < 2 ^ 31"
    using d(1) assms(2) by (auto simp: s_def n_def BLOCK_SIZE_def minus_mod_eq_mult_div)
  let ?a0 = "(Allocator_default junk)\<lparr>m_mem_data := data + d, m_mem_size := s\<rparr>"
  let ?m0 = "\<lparr>blocks_before = 0, is_used = False, blocks_owned = n, prev_free_block_idx = INVALID_IDX,
      next_free_block_idx = INVALID_IDX\<rparr>"
  let ?a1 = "upd_block 0 (\<lambda>_. ?m0) ?a0"
  let ?a = "if 0 < n then ?a1\<lparr>m_first_free_block_idx := 0, m_last_free_block_idx := 0\<rparr> else ?a0"
  let ?ts = "if 0 < n then [(False, n)] else []"
  have amount0: "blocks_amount ?a0 = n"
    by (simp add: blocks_amount_def n_def)
  have amount: "blocks_amount ?a = n"
    by (simp add: blocks_amount_def n_def)
  have "s < BLOCK_SIZE * (2 ^ 32 - 1)" "to_u32 n = n"
    using s assms(2) by (simp_all add: BLOCK_SIZE_def to_u32_def)
  moreover have "push_free_node 0 ?a1 = Some ?a" if "0 < n"
  proof -
    have "m_first_free_block_idx ?a1 = INVALID_IDX" "blocks_amount ?a1 = n"
      by (simp_all add: Allocator_default_def n_def blocks_amount_def)
    then show ?thesis
      using that by (simp add: push_free_node_def Let_def to_u32_def)
  qed
  moreover have m: "min s ((2 ^ 32 - 1) * BLOCK_SIZE) = s"
    using calculation(1) by (simp add: min_def mult.commute)
  ultimately have "Allocator_make data sz junk = Some ?a"
    unfolding Allocator_make_def Let_def d_def[symmetric] s_def[symmetric] m
    by (simp add: blocks_amount_def n_def[symmetric])
  moreover have "data + d + s < 2 ^ 64"
    using s(2) assms(1,3) by (simp add: d_def)
  then have "alloc_inv ?a ?ts (if 0 < n then [0] else [])"
    using s d amount
    by (auto simp: alloc_inv_def pool_def free_list_def tiles_def heads_def unlinked_def
        Allocator_default_def INVALID_IDX_def)
  moreover from alloc_inv_tiling[OF this] have "live_chunks ?a = {}"
    by (simp add: live_chunks_def)
  moreover have "current_memory ?a = 0" "peak_memory ?a = 0" "m_mem_data ?a = data + d" "m_mem_size ?a = s"
    by (simp_all add: current_memory_def peak_memory_def Allocator_default_def)
  ultimately show ?thesis
    using alloc_inv_valid s(2,3) assms(3) by (auto simp: d_def)
qed

section \<open>Round trip\<close>

lemma allocate_deallocate:
  assumes "alloc_valid a" and "request_ok sz al" and "allocate sz al a = Some (Some p, b)"
    and "p < m_mem_data a + m_mem_size a"
  shows "\<exists>c. deallocate (Some p) b = Some c \<and> alloc_valid c \<and> tiling_of c = tiling_of a \<and>
           current_memory c = current_memory a"
  using assms(1,2)
proof (cases rule: allocate_cases)
  case null
  then show ?thesis
    using assms(3) by simp
next
  case (chunk pre k post b1 fl)
  let ?s = "gap a al (tsize pre)" and ?need = "blocks_for sz"
  let ?pre = "pre @ (if ?s = 0 then [] else [(False, ?s)])"
  let ?post = "(if ?s + ?need < k then [(False, k - ?s - ?need)] else []) @ post"
  obtain fl0 where inv: "alloc_inv a (pre @ (False, k) # post) fl0"
    using assms(1) chunk(1) by (metis alloc_validE)
  have p: "p = get_mem a (tsize ?pre)" "b1 = b"
    using chunk(2) assms(3) by auto
  have invb: "alloc_inv b (?pre @ (True, ?need) # ?post) fl"
    using chunk(4) p(2) by (simp add: taken_def)
  have "get_mem b (tsize ?pre) = p"
    using p chunk(5) get_mem_same[of b a] by simp
  then obtain c fl' where c: "deallocate (Some p) b = Some c" "alloc_inv c (pre @ (False, k) # post) fl'"
    using deallocate_ok[OF invb] assms(4) chunk(5,6) p(2) released_taken[OF alloc_invD(3)[OF inv] chunk(3)] by auto
  moreover have "current_memory c = current_memory a"
    using alloc_invD(4)[OF inv] alloc_invD(4)[OF c(2)] by (simp add: current_memory_def)
  ultimately show ?thesis
    using alloc_inv_valid[OF c(2)] alloc_inv_tiling[OF c(2)] chunk(1) by auto
qed

section \<open>What clients write\<close>

text \<open>
  A client may overwrite every byte of its chunk; the headers of the pool lie outside all
  chunks, so nothing the allocator reads changes.
\<close>

definition client_write :: "nat \<Rightarrow> nat \<Rightarrow> (nat \<Rightarrow> BlockMetadata) \<Rightarrow> Allocator \<Rightarrow> Allocator" where
  "client_write p c bytes a =
     a\<lparr>m_blocks := (\<lambda>i. if p \<le> m_mem_data a + i * BLOCK_SIZE \<and> m_mem_data a + i * BLOCK_SIZE < p + c
                        then bytes i else m_blocks a i)\<rparr>"

lemma heads_tiles_at: "x \<in> heads ts \<Longrightarrow> \<exists>u k. (x, k) \<in> tiles_at u 0 ts"
proof -
  have "x \<in> starts u i ts \<Longrightarrow> \<exists>k. (x, k) \<in> tiles_at u i ts" for u i
    by (induction ts arbitrary: i) (auto split: if_splits)
  then show "x \<in> heads ts \<Longrightarrow> ?thesis"
    unfolding heads_def by blast
qed

lemma client_write_heads:
  assumes "alloc_valid a" and "(p, c) \<in> live_chunks a" and "x \<in> heads (tiling_of a)"
  shows "m_blocks (client_write p c bytes a) x = m_blocks a x"
proof -
  obtain i k where ik: "(i, k) \<in> tiles_at True 0 (tiling_of a)" "p = get_mem a i" "c = BLOCK_SIZE * (k - 1)"
    using assms(2) by (auto simp: live_chunks_def)
  obtain u l where xl: "(x, l) \<in> tiles_at u 0 (tiling_of a)"
    using heads_tiles_at[OF assms(3)] by blast
  have "tiled (tiles a) 0 0 (tiling_of a)"
    using assms(1) by (auto elim!: alloc_validE dest: alloc_invD(1) poolD(1))
  then have "0 < k" "0 < l"
    using tiles_at_pos ik(1) xl by blast+
  then have "x \<le> i \<or> i + k \<le> x"
    using tiles_at_disjoint[OF ik(1) xl] by auto
  then show ?thesis
    using ik(2,3) \<open>0 < k\<close> by (auto simp: client_write_def get_mem_def BLOCK_SIZE_def)
qed

lemma tiled_cong:
  "(\<And>u x. x \<in> starts u i ts \<Longrightarrow> v' x = v x) \<Longrightarrow> tiled v' i b ts = tiled v i b ts"
proof (induction ts arbitrary: i b)
  case (Cons t ts)
  have "v' i = v i"
    using Cons.prems[of i "fst t"] by simp
  then show ?case
    using Cons.IH[of "i + snd t"] Cons.prems by (auto split: if_splits)
qed simp

lemma client_write_inv:
  assumes "alloc_valid a" and "(p, c) \<in> live_chunks a"
  shows "alloc_valid (client_write p c bytes a)" and "tiling_of (client_write p c bytes a) = tiling_of a"
proof -
  let ?b = "client_write p c bytes a"
  obtain fl where inv: "alloc_inv a (tiling_of a) fl"
    using assms(1) by (rule alloc_validE)
  note I = alloc_invD[OF inv] and D = poolD[OF alloc_invD(1)[OF inv]]
  have same: "m_blocks ?b x = m_blocks a x" if "x \<in> heads (tiling_of a)" for x
    using client_write_heads[OF assms that] .
  have fl: "set fl \<subseteq> heads (tiling_of a)"
    using I(2) by (auto simp: heads_def)
  have fields: "m_first_free_block_idx ?b = m_first_free_block_idx a" "m_mem_data ?b = m_mem_data a"
      "m_last_free_block_idx ?b = m_last_free_block_idx a" "m_mem_size ?b = m_mem_size a"
      "m_used ?b = m_used a" "m_peak ?b = m_peak a" "blocks_amount ?b = blocks_amount a"
    by (simp_all add: client_write_def)
  have "tiled (tiles ?b) 0 0 (tiling_of a)"
  proof -
    have "tiles ?b x = tiles a x" if "x \<in> starts u 0 (tiling_of a)" for u x
      using same[of x] that by (cases u) (auto simp: tiles_def heads_def)
    then show ?thesis
      using D(1) tiled_cong[of 0 "tiling_of a" "tiles ?b" "tiles a" 0] by blast
  qed
  moreover have "free_list ?b fl"
    using D(3) same fl by (subst free_list_cong[of fl a]) (auto simp: same_links_def same_pool_def fields)
  moreover have "unlinked i ?b" if "i \<in> heads (tiling_of a)" "i \<notin> set fl" for i
    using D(4)[OF that] same[OF that(1)] by (simp add: unlinked_def)
  ultimately have "alloc_inv ?b (tiling_of a) fl"
    using inv by (simp add: alloc_inv_def pool_def fields)
  then show "alloc_valid ?b" "tiling_of ?b = tiling_of a"
    by (auto intro: alloc_inv_valid alloc_inv_tiling)
qed

section \<open>Nothing left behind\<close>

lemma no_live_no_used: "live_chunks a = {} \<Longrightarrow> tiles_at True 0 (tiling_of a) = {}"
  by (simp add: live_chunks_def)

lemma coalesced_all_free:
  "coalesced ts \<Longrightarrow> tiles_at True i ts = {} \<Longrightarrow> ts = [] \<or> (\<exists>k. ts = [(False, k)])"
proof (induction ts arbitrary: i)
  case (Cons t ts)
  then show ?case
    by (cases ts; cases t) (auto split: if_splits)
qed simp

lemma no_live_single_tile:
  assumes "alloc_valid a" and "live_chunks a = {}"
  shows "tiling_of a = (if blocks_amount a = 0 then [] else [(False, blocks_amount a)])"
    and "current_memory a = 0" and "Allocator_destroy a = Some ()"
proof -
  obtain fl where inv: "alloc_inv a (tiling_of a) fl"
    using assms(1) by (rule alloc_validE)
  have sz: "tsize (tiling_of a) = blocks_amount a"
    using poolD(2)[OF alloc_invD(1)[OF inv]] .
  have pos: "tiled (tiles a) 0 0 (tiling_of a)"
    using poolD(1)[OF alloc_invD(1)[OF inv]] .
  have "tiling_of a = [] \<or> (\<exists>k. tiling_of a = [(False, k)])"
    using coalesced_all_free[OF alloc_invD(3)[OF inv]] no_live_no_used[OF assms(2)] by blast
  then show "tiling_of a = (if blocks_amount a = 0 then [] else [(False, blocks_amount a)])"
    using sz pos by auto
  then show "current_memory a = 0" "Allocator_destroy a = Some ()"
    using alloc_invD(4)[OF inv] by (auto simp: current_memory_def Allocator_destroy_def split: if_splits)
qed

section \<open>Every reachable state\<close>

text \<open>
  The life of an allocator: well-formed requests of any size, deallocations of pointers handed
  out and writes of the clients into their own chunks, in any order. The ghost set \<open>G\<close>
  records what the clients hold: the address, the size asked for and the alignment asked for.
\<close>

inductive pool_run :: "Allocator \<Rightarrow> (nat \<times> nat \<times> nat) set \<Rightarrow> Allocator \<Rightarrow> bool" for a0 where
  start: "pool_run a0 {} a0"
| alloc: "pool_run a0 G a \<Longrightarrow> request_ok sz al \<Longrightarrow> allocate sz al a = Some (Some p, b) \<Longrightarrow>
    pool_run a0 (insert (p, unat sz, unat al) G) b"
| refuse: "pool_run a0 G a \<Longrightarrow> request_ok sz al \<Longrightarrow> allocate sz al a = Some (None, b) \<Longrightarrow> pool_run a0 G b"
| free: "pool_run a0 G a \<Longrightarrow> (p, n, al) \<in> G \<Longrightarrow> deallocate (Some p) a = Some b \<Longrightarrow>
    pool_run a0 (G - {(p, n, al)}) b"
| free_null: "pool_run a0 G a \<Longrightarrow> deallocate None a = Some b \<Longrightarrow> pool_run a0 G b"
| client: "pool_run a0 G a \<Longrightarrow> (p, n, al) \<in> G \<Longrightarrow> pool_run a0 G (client_write p n bytes a)"

text \<open>
  What the clients hold agrees with the live chunks: every pointer handed out is the start of
  one, aligned as asked, and the chunk has room for the size asked for.
\<close>

definition held_ok :: "(nat \<times> nat \<times> nat) set \<Rightarrow> Allocator \<Rightarrow> bool" where
  "held_ok G a \<longleftrightarrow> alloc_valid a \<and> fst ` G = fst ` live_chunks a \<and> inj_on fst G \<and>
     (\<forall>(p, n, al) \<in> G. p mod al = 0 \<and> (\<exists>c. (p, c) \<in> live_chunks a \<and> n \<le> c))"

lemma held_okD:
  assumes "held_ok G a"
  shows "alloc_valid a" and "fst ` G = fst ` live_chunks a" and "inj_on fst G"
    and "(p, n, al) \<in> G \<Longrightarrow> p mod al = 0"
    and "(p, n, al) \<in> G \<Longrightarrow> \<exists>c. (p, c) \<in> live_chunks a \<and> n \<le> c"
  using assms by (auto simp: held_ok_def)

lemma client_write_narrow:
  assumes "n \<le> (c :: nat)"
  shows "\<exists>bytes'. client_write p n bytes a = client_write p c bytes' a"
proof -
  let ?in = "\<lambda>m i. p \<le> m_mem_data a + i * BLOCK_SIZE \<and> m_mem_data a + i * BLOCK_SIZE < p + m"
  let ?w = "\<lambda>i. if ?in n i then bytes i else m_blocks a i"
  have "?in n i \<Longrightarrow> ?in c i" for i
    using assms by simp
  then have "(\<lambda>i. if ?in n i then bytes i else m_blocks a i) = (\<lambda>i. if ?in c i then ?w i else m_blocks a i)"
    by metis
  then have "client_write p n bytes a = client_write p c ?w a"
    unfolding client_write_def by presburger
  then show ?thesis
    by blast
qed

lemma client_write_live:
  assumes "alloc_valid a" and "(p, c) \<in> live_chunks a"
  shows "live_chunks (client_write p c bytes a) = live_chunks a"
  using client_write_inv(2)[OF assms] by (simp add: live_chunks_def get_mem_def client_write_def)

lemma held_ok_alloc:
  assumes "held_ok G a" and "request_ok sz al" and "allocate sz al a = Some (Some p, b)"
  shows "held_ok (insert (p, unat sz, unat al) G) b"
proof -
  let ?c = "BLOCK_SIZE * ceil_div (unat sz) BLOCK_SIZE"
  note H = held_okD[OF assms(1)]
  have b: "alloc_valid b" "p mod unat al = 0" "p \<notin> fst ` live_chunks a" "unat sz \<le> ?c"
      "live_chunks b = insert (p, ?c) (live_chunks a)"
    using allocate_live[OF H(1) assms(2)] assms(3) by auto
  then have "p \<notin> fst ` G"
    using H(2) by simp
  then have "inj_on fst (insert (p, unat sz, unat al) G)"
    using H(3) by (force simp: inj_on_def)
  then show ?thesis
    using b assms(1) by (fastforce simp: held_ok_def)
qed

lemma held_ok_free:
  assumes "held_ok G a" and "(p, n, al) \<in> G" and "deallocate (Some p) a = Some b"
  shows "held_ok (G - {(p, n, al)}) b" and "m_mem_data b = m_mem_data a" and "m_mem_size b = m_mem_size a"
proof -
  note H = held_okD[OF assms(1)]
  obtain c where c: "(p, c) \<in> live_chunks a"
    using H(5)[OF assms(2)] by auto
  have below: "p < m_mem_data a + m_mem_size a"
    using deallocate_out_of_scope[of a p] assms(3) by (cases "p < m_mem_data a + m_mem_size a") simp_all
  have b: "alloc_valid b" "live_chunks b = live_chunks a - {(p, c)}"
      "m_mem_data b = m_mem_data a" "m_mem_size b = m_mem_size a"
    using deallocate_live[OF H(1) c below] assms(3) by auto
  have other: "q \<noteq> p" if "(q, m, ql) \<in> G - {(p, n, al)}" for q m ql
    using inj_onD[OF H(3), of "(q, m, ql)" "(p, n, al)"] that assms(2) by auto
  have "fst ` (G - {(p, n, al)}) = fst ` G - {p}"
    using H(3) assms(2) by (subst inj_on_image_set_diff[of fst G]) auto
  moreover have "fst ` (live_chunks a - {(p, c)}) = fst ` live_chunks a - {p}"
    using live_chunks_unique[OF H(1) c] by force
  ultimately have "fst ` (G - {(p, n, al)}) = fst ` live_chunks b"
    using H(2) b(2) by simp
  moreover have "inj_on fst (G - {(p, n, al)})"
    using inj_on_subset[OF H(3)] by blast
  moreover have "\<exists>d. (q, d) \<in> live_chunks b \<and> m \<le> d" if "(q, m, ql) \<in> G - {(p, n, al)}" for q m ql
    using other[OF that] H(5)[of q m ql] that b(2) by blast
  ultimately show "held_ok (G - {(p, n, al)}) b" "m_mem_data b = m_mem_data a" "m_mem_size b = m_mem_size a"
    using b H(4) by (auto simp: held_ok_def)
qed

lemma held_ok_client:
  assumes "held_ok G a" and "(p, n, al) \<in> G"
  shows "held_ok G (client_write p n bytes a)"
proof -
  note H = held_okD[OF assms(1)]
  obtain c bytes' where c: "(p, c) \<in> live_chunks a" "client_write p n bytes a = client_write p c bytes' a"
    using H(5)[OF assms(2)] client_write_narrow by metis
  show ?thesis
    using assms(1) client_write_inv(1)[OF H(1) c(1)] client_write_live[OF H(1) c(1)]
    by (simp add: held_ok_def c(2))
qed

lemma allocate_fields:
  assumes "alloc_valid a" and "request_ok sz al" and "allocate sz al a = Some (r, b)"
  shows "m_mem_data b = m_mem_data a" and "m_mem_size b = m_mem_size a" and "r = None \<Longrightarrow> b = a"
  using assms(1,2) by (cases rule: allocate_cases; use assms(3) in auto)+

lemma pool_run_held:
  assumes "pool_run a0 G a" and "alloc_valid a0" and "live_chunks a0 = {}"
  shows "held_ok G a \<and> m_mem_data a = m_mem_data a0 \<and> m_mem_size a = m_mem_size a0"
  using assms
proof (induction rule: pool_run.induct)
  case start
  then show ?case
    by (simp add: held_ok_def)
next
  case (alloc G a sz al p b)
  then show ?case
    using held_ok_alloc allocate_fields(1,2) by (metis held_okD(1))
next
  case (refuse G a sz al b)
  then show ?case
    using allocate_fields(3) by (metis held_okD(1))
next
  case (free G a p n al b)
  then show ?case
    using held_ok_free[of G a p n al b] by simp
next
  case (free_null G a b)
  then show ?case
    by (simp add: deallocate_def)
next
  case (client G a p n al bytes)
  then show ?case
    using held_ok_client[of G a p n al bytes] by (simp add: client_write_def)
qed

lemma held_ok_apart:
  assumes "held_ok G a" and "(p, n, al) \<in> G" and "(q, m, ql) \<in> G" and "(p, n, al) \<noteq> (q, m, ql)"
  shows "p + n \<le> q \<or> q + m \<le> p"
proof -
  note H = held_okD[OF assms(1)]
  obtain c d where "(p, c) \<in> live_chunks a" "n \<le> c" "(q, d) \<in> live_chunks a" "m \<le> d"
    using H(5)[OF assms(2)] H(5)[OF assms(3)] by auto
  moreover have "p \<noteq> q"
    using inj_onD[OF H(3), of "(p, n, al)" "(q, m, ql)"] assms(2-4) by auto
  ultimately show ?thesis
    using live_chunks_apart[OF H(1), of p c q d] by auto
qed

lemma held_ok_bounds:
  assumes "held_ok G a" and "(p, n, al) \<in> G"
  shows "m_mem_data a < p" and "p + n \<le> m_mem_data a + m_mem_size a"
    and "(\<exists>b. deallocate (Some p) a = Some b) \<longleftrightarrow> 0 < n \<or> p < m_mem_data a + m_mem_size a"
proof -
  note H = held_okD[OF assms(1)]
  obtain c where c: "(p, c) \<in> live_chunks a" "n \<le> c"
    using H(5)[OF assms(2)] by auto
  show "m_mem_data a < p" and pool_end: "p + n \<le> m_mem_data a + m_mem_size a"
    using live_chunks_in_pool[OF H(1) c(1)] c(2) by (auto simp: BLOCK_SIZE_def)
  show "(\<exists>b. deallocate (Some p) a = Some b) \<longleftrightarrow> 0 < n \<or> p < m_mem_data a + m_mem_size a"
    using deallocate_live[OF H(1) c(1)] deallocate_out_of_scope[of a p] pool_end
    by (cases "p < m_mem_data a + m_mem_size a") auto
qed

definition run_inv :: "Allocator \<Rightarrow> bool" where
  "run_inv a \<longleftrightarrow> alloc_valid a \<and> (\<forall>(p, c) \<in> live_chunks a. 0 < c)"

section \<open>Theorems\<close>

text \<open>
  The constructor, given a buffer of less than 2^31 blocks that holds at least the
  alignment gap, establishes the invariant, uses only memory of the buffer, wastes less than
  two blocks of it and starts with nothing allocated.
\<close>

theorem Allocator_make_correct:
  assumes "data + sz < 2 ^ 64" and "sz < BLOCK_SIZE * 2 ^ 31"
    and "unat (align_right_diff (word_of_nat data) (word_of_nat BLOCK_SIZE)) \<le> sz"
  shows "\<exists>a. Allocator_make data sz junk = Some a \<and> run_inv a \<and> live_chunks a = {} \<and>
           current_memory a = 0 \<and> data \<le> m_mem_data a \<and>
           m_mem_data a + m_mem_size a \<le> data + sz \<and> sz < m_mem_size a + 2 * BLOCK_SIZE"
  using Allocator_make_ok[OF assms, of junk] by (auto simp: run_inv_def)

theorem Allocator_make_correct_witness:
  "\<forall>junk. \<exists>a. Allocator_make 4100 1000 junk = Some a \<and> run_inv a \<and> live_chunks a = {} \<and>
       current_memory a = 0 \<and> 4100 \<le> m_mem_data a \<and>
       m_mem_data a + m_mem_size a \<le> 4100 + 1000 \<and> 1000 < m_mem_size a + 2 * BLOCK_SIZE"
  by (intro allI Allocator_make_correct) (simp_all add: BLOCK_SIZE_def align_right_diff_def)

text \<open>
  Claim C2. Allocation under the invariant: no assertion fails and the search ends. The null
  pointer is returned, with the allocator unchanged, only when no free tile has room for
  header, alignment gap and payload. Otherwise the chunk is aligned, lies in the pool, has
  room for the request, is the only new live chunk and overlaps no chunk that was live.
\<close>

theorem allocate_correct:
  assumes "alloc_valid a" and "request_ok sz al"
  shows "\<exists>r b. allocate sz al a = Some (r, b) \<and> alloc_valid b \<and>
    (case r of
       None \<Rightarrow> b = a \<and> (\<forall>(i, k) \<in> tiles_at False 0 (tiling_of a). k < gap a al i + blocks_for sz)
     | Some p \<Rightarrow> p mod unat al = 0 \<and> m_mem_data b < p \<and> p + unat sz \<le> m_mem_data b + m_mem_size b \<and>
         (\<exists>c. unat sz \<le> c \<and> live_chunks b = insert (p, c) (live_chunks a)) \<and>
         (\<forall>(q, d) \<in> live_chunks a. p + unat sz \<le> q \<or> q + d \<le> p) \<and>
         current_memory b = current_memory a + BLOCK_SIZE * blocks_for sz)"
proof -
  let ?c = "BLOCK_SIZE * ceil_div (unat sz) BLOCK_SIZE"
  obtain r b where rb: "allocate sz al a = Some (r, b)" "alloc_valid b" and
    post: "case r of None \<Rightarrow> b = a \<and> (\<forall>(i, k) \<in> tiles_at False 0 (tiling_of a). k < gap a al i + blocks_for sz)
     | Some p \<Rightarrow> p mod unat al = 0 \<and> p \<notin> fst ` live_chunks a \<and> unat sz \<le> ?c \<and>
         live_chunks b = insert (p, ?c) (live_chunks a) \<and>
         current_memory b = current_memory a + BLOCK_SIZE * blocks_for sz"
    using allocate_live[OF assms] by blast
  show ?thesis
  proof (cases r)
    case None
    then show ?thesis using rb post by auto
  next
    case (Some p)
    then have "(p, ?c) \<in> live_chunks b"
      using post by simp
    note pool = live_chunks_in_pool[OF rb(2) this]
    have "\<forall>(q, d) \<in> live_chunks a. p + unat sz \<le> q \<or> q + d \<le> p"
      using pool.alloc_fresh[OF assms] rb(1) Some by blast
    then show ?thesis
      using rb post Some pool by (auto simp: BLOCK_SIZE_def intro!: exI[of _ ?c])
  qed
qed

text \<open>A pool of sixteen blocks, for the examples below, and the state after one allocation.\<close>

definition blank :: BlockMetadata where
  "blank = \<lparr>blocks_before = 0, is_used = False, blocks_owned = 0, prev_free_block_idx = 0,
            next_free_block_idx = 0\<rparr>"

definition demo_pool :: Allocator where
  "demo_pool = the (Allocator_make 4096 256 (\<lambda>_. blank))"

definition demo_pool1 :: Allocator where
  "demo_pool1 = snd (the (allocate 40 64 demo_pool))"

lemma demo_pool_ok: "Allocator_make 4096 256 (\<lambda>_. blank) = Some demo_pool" "run_inv demo_pool"
  "live_chunks demo_pool = {}" "alloc_valid demo_pool"
proof -
  obtain a where "Allocator_make 4096 256 (\<lambda>_. blank) = Some a" "alloc_valid a" "live_chunks a = {}"
    using Allocator_make_ok[of 4096 256 "\<lambda>_. blank"] by (auto simp: BLOCK_SIZE_def align_right_diff_def)
  then show "Allocator_make 4096 256 (\<lambda>_. blank) = Some demo_pool" "run_inv demo_pool"
      "live_chunks demo_pool = {}" "alloc_valid demo_pool"
    by (auto simp: demo_pool_def run_inv_def)
qed

lemma demo_request: "request_ok 40 64"
proof -
  have "has_single_bit 64"
    by code_simp
  then show ?thesis
    by (simp add: request_ok_def BLOCK_SIZE_def)
qed

lemma demo_pool_eq: "demo_pool = \<lparr>m_first_free_block_idx = 0, m_last_free_block_idx = 0, m_mem_data = 4096,
      m_mem_size = 256, m_blocks = (\<lambda>_. blank)(0 := blank\<lparr>blocks_owned := 16,
        prev_free_block_idx := INVALID_IDX, next_free_block_idx := INVALID_IDX\<rparr>), m_used = 0, m_peak = 0\<rparr>"
  by (simp add: demo_pool_def Allocator_make_def push_free_node_def Allocator_default_def blocks_amount_def
      align_right_diff_def BLOCK_SIZE_def to_u32_def upd_block_def blank_def Let_def)

lemma demo_allocate: "allocate 40 64 demo_pool = Some (Some 4160, demo_pool1)"
proof -
  note d = demo_pool_eq
  have ts: "tiling_of demo_pool = [(False, 16)]"
    using no_live_single_tile(1)[OF demo_pool_ok(4,3)] by (simp add: d blocks_amount_def BLOCK_SIZE_def)
  have data: "m_mem_data demo_pool = 4096"
    by (simp add: d)
  have g: "gap demo_pool 64 0 = 3" "blocks_for 40 = 4"
    by (simp_all add: d align_diff_at_def gap_def get_mem_def BLOCK_SIZE_def align_right_diff_def
        ceil_div_def blocks_for_def)
  have "\<exists>b. allocate 40 64 demo_pool = Some (Some 4160, b)"
    using demo_pool_ok(4) demo_request
  proof (cases rule: allocate_cases)
    case null
    then show ?thesis
      by (simp add: ts g)
  next
    case (chunk pre k post b fl)
    then have "pre = []"
      by (cases pre) (auto simp: ts)
    then show ?thesis
      using chunk(2) by (simp add: g get_mem_def BLOCK_SIZE_def data)
  qed
  then show ?thesis
    by (auto simp: demo_pool1_def)
qed

lemma demo_pool1_ok: "alloc_valid demo_pool1" "live_chunks demo_pool1 = {(4160, 48)}"
  using allocate_live[OF demo_pool_ok(4) demo_request] demo_allocate demo_pool_ok(3)
  by (simp_all add: BLOCK_SIZE_def ceil_div_def)

theorem allocate_correct_witness:
  "alloc_valid demo_pool \<and> request_ok 40 64 \<and>
   (\<exists>r b. allocate 40 64 demo_pool = Some (r, b) \<and> alloc_valid b)"
  using allocate_correct[OF demo_pool_ok(4) demo_request] demo_pool_ok(4) demo_request by blast

text \<open>
  Claim C21. Deallocation of a live chunk whose payload starts before the end of the pool: no
  assertion fails, exactly this chunk stops being live, its header and payload are no longer
  counted as used, and the invariant (which says that neighbouring free tiles are merged)
  holds again. The only other live chunk there can be is one of no payload in the last block
  of the pool; its deallocation fails the assertion on the scope of the pointer.
\<close>

theorem deallocate_correct:
  assumes "alloc_valid a" and "(p, c) \<in> live_chunks a"
  shows "if p < m_mem_data a + m_mem_size a
         then \<exists>b. deallocate (Some p) a = Some b \<and> alloc_valid b \<and> live_chunks b = live_chunks a - {(p, c)} \<and>
                current_memory b + c + BLOCK_SIZE = current_memory a
         else c = 0 \<and> p = m_mem_data a + m_mem_size a \<and> deallocate (Some p) a = None"
proof (cases "p < m_mem_data a + m_mem_size a")
  case True
  then show ?thesis
    using deallocate_live[OF assms True] by auto
next
  case False
  then show ?thesis
    using deallocate_out_of_scope[of a p] live_chunks_in_pool(2)[OF assms] by simp
qed

theorem deallocate_correct_witness:
  "alloc_valid demo_pool1 \<and> (4160, 48) \<in> live_chunks demo_pool1 \<and>
   (\<exists>b. deallocate (Some 4160) demo_pool1 = Some b \<and> alloc_valid b \<and>
        live_chunks b = live_chunks demo_pool1 - {(4160, 48)})"
  using deallocate_correct[of demo_pool1 4160 48] demo_pool1_ok by (auto split: if_splits)

text \<open>
  Claim C22. Allocating and deallocating again gives back the tiling the pool had, gap and
  remainder included, and the same amount of used memory, for requests of any size. The one
  exception is a request of no octets answered from the last block of the pool: its pointer is
  the end of the pool and the deallocation fails an assertion.
\<close>

theorem allocate_deallocate_roundtrip:
  assumes "alloc_valid a" and "request_ok sz al" and "allocate sz al a = Some (Some p, b)"
  shows "if p < m_mem_data a + m_mem_size a
         then \<exists>c. deallocate (Some p) b = Some c \<and> alloc_valid c \<and> tiling_of c = tiling_of a \<and>
                current_memory c = current_memory a
         else sz = 0 \<and> p = m_mem_data a + m_mem_size a \<and> deallocate (Some p) b = None"
proof (cases "p < m_mem_data a + m_mem_size a")
  case True
  then show ?thesis
    using allocate_deallocate[OF assms True] by simp
next
  case False
  note same = allocate_fields(1,2)[OF assms]
  obtain c where "(p, c) \<in> live_chunks b" "unat sz \<le> c" "alloc_valid b"
    using allocate_live[OF assms(1,2)] assms(3) by auto
  then have "p + unat sz \<le> m_mem_data a + m_mem_size a"
    using live_chunks_in_pool(2)[of b p c] same by simp
  then have "unat sz = 0" "p = m_mem_data a + m_mem_size a"
    using False by simp_all
  then show ?thesis
    using deallocate_out_of_scope[of b p] same by (simp add: unat_eq_0)
qed

theorem allocate_deallocate_roundtrip_witness:
  "allocate 40 64 demo_pool = Some (Some 4160, demo_pool1) \<and>
   (\<exists>c. deallocate (Some 4160) demo_pool1 = Some c \<and> tiling_of c = tiling_of demo_pool)"
  using allocate_deallocate_roundtrip[OF demo_pool_ok(4) demo_request demo_allocate] demo_allocate
  by (auto simp: demo_pool_eq)

text \<open>
  The exception is real: in a pool of a single block a request of no octets returns a pointer
  whose deallocation does not get past the assertion.
\<close>

theorem zero_size_release_fails:
  "\<exists>a p b. Allocator_make 4096 16 junk = Some a \<and> allocate 0 16 a = Some (Some p, b) \<and>
           deallocate (Some p) b = None"
proof -
  obtain a where a: "Allocator_make 4096 16 junk = Some a" "alloc_valid a" "live_chunks a = {}"
      "4096 \<le> m_mem_data a" "m_mem_data a + m_mem_size a \<le> 4096 + 16"
    using Allocator_make_ok[of 4096 16 junk] by (auto simp: BLOCK_SIZE_def align_right_diff_def)
  have fields: "m_mem_data a = 4096" "m_mem_size a = 16"
    using a(1) by (auto simp: Allocator_make_def push_free_node_def Allocator_default_def blocks_amount_def
      align_right_diff_def BLOCK_SIZE_def to_u32_def upd_block_def Let_def)
  have one: "blocks_amount a = 1"
    by (simp add: fields blocks_amount_def BLOCK_SIZE_def)
  have ts: "tiling_of a = [(False, 1)]"
    using no_live_single_tile(1)[OF a(2,3)] by (simp add: one)
  have "has_single_bit 16"
    by code_simp
  then have ok: "request_ok 0 16"
    by (simp add: request_ok_def BLOCK_SIZE_def)
  have g: "gap a 16 0 = 0" "blocks_for 0 = 1"
    by (simp_all add: fields align_diff_at_def gap_def get_mem_def BLOCK_SIZE_def align_right_diff_def
        ceil_div_def blocks_for_def)
  have "\<exists>b. allocate 0 16 a = Some (Some 4112, b)"
    using a(2) ok
  proof (cases rule: allocate_cases)
    case null
    then show ?thesis
      by (simp add: ts g)
  next
    case (chunk pre k post b fl)
    then have "pre = []"
      by (cases pre) (auto simp: ts)
    then show ?thesis
      using chunk(2) by (simp add: g get_mem_def BLOCK_SIZE_def fields)
  qed
  then obtain b where b: "allocate 0 16 a = Some (Some 4112, b)"
    by blast
  then have "deallocate (Some 4112) b = None"
    using deallocate_out_of_scope[of b 4112] allocate_fields[OF a(2) ok b] by (simp add: fields)
  then show ?thesis
    using a(1) b by blast
qed

text \<open>
  Claim C1. After every sequence of well-formed requests, of any size and alignment,
  deallocations of what was handed out and writes of the clients into what they hold, on an
  allocator freshly constructed on a buffer that is in the address space, not smaller than the
  octets up to its first aligned one and smaller than 2^31 blocks: everything handed out is aligned as asked, lies inside the
  buffer given to the constructor with the size asked for, and no two of them overlap; every
  further well-formed request returns; everything handed out can be deallocated without an
  assertion failing, except for an allocation of no octets that ends the pool; and when
  all was given back the leak check of the destructor passes.
\<close>

theorem pool_run_safe:
  assumes "data + len < 2 ^ 64" and "len < BLOCK_SIZE * 2 ^ 31"
    and "unat (align_right_diff (word_of_nat data) (word_of_nat BLOCK_SIZE)) \<le> len"
    and "Allocator_make data len junk = Some a0" and "pool_run a0 G a"
  shows "(\<forall>(p, n, al) \<in> G. p mod al = 0 \<and> data < p \<and> p + n \<le> data + len) \<and>
         (\<forall>(p, n, al) \<in> G. \<forall>(q, m, ql) \<in> G. (p, n, al) \<noteq> (q, m, ql) \<longrightarrow> p + n \<le> q \<or> q + m \<le> p) \<and>
         (\<forall>sz al. request_ok sz al \<longrightarrow> (\<exists>r b. allocate sz al a = Some (r, b))) \<and>
         (\<forall>(p, n, al) \<in> G. (\<exists>b. deallocate (Some p) a = Some b) \<longleftrightarrow>
             0 < n \<or> p < m_mem_data a + m_mem_size a) \<and>
         (G = {} \<longrightarrow> Allocator_destroy a = Some ())"
proof -
  have a0: "alloc_valid a0" "live_chunks a0 = {}" "data \<le> m_mem_data a0"
      "m_mem_data a0 + m_mem_size a0 \<le> data + len"
    using Allocator_make_ok[OF assms(1-3), of junk] assms(4) by auto
  note run = pool_run_held[OF assms(5) a0(1,2)]
  note H = held_okD[OF conjunct1[OF run]] and B = held_ok_bounds[OF conjunct1[OF run]]
  have "p mod al = 0 \<and> data < p \<and> p + n \<le> data + len" if "(p, n, al) \<in> G" for p n al
    using H(4)[OF that] B(1,2)[OF that] run a0(3,4) by simp
  then have "\<forall>(p, n, al) \<in> G. p mod al = 0 \<and> data < p \<and> p + n \<le> data + len"
    by blast
  moreover have "\<forall>(p, n, al) \<in> G. \<forall>(q, m, ql) \<in> G. (p, n, al) \<noteq> (q, m, ql) \<longrightarrow> p + n \<le> q \<or> q + m \<le> p"
    using held_ok_apart[OF conjunct1[OF run]] by blast
  moreover have "\<forall>sz al. request_ok sz al \<longrightarrow> (\<exists>r b. allocate sz al a = Some (r, b))"
    using allocate_live[OF H(1)] by blast
  moreover have "\<forall>(p, n, al) \<in> G. (\<exists>b. deallocate (Some p) a = Some b) \<longleftrightarrow>
      0 < n \<or> p < m_mem_data a + m_mem_size a"
    using B(3) by blast
  moreover have "G = {} \<longrightarrow> Allocator_destroy a = Some ()"
    using no_live_single_tile(3)[OF H(1)] H(2) by auto
  ultimately show ?thesis
    by (intro conjI)
qed

lemma demo_pool_run: "pool_run demo_pool {(4160, 40, 64)} demo_pool1"
  using pool_run.alloc[OF pool_run.start demo_request demo_allocate] by simp

theorem pool_run_safe_witness:
  "pool_run demo_pool {(4160, 40, 64)} demo_pool1 \<and> (\<exists>b. deallocate (Some 4160) demo_pool1 = Some b) \<and>
   (\<exists>r b. allocate 40 64 demo_pool1 = Some (r, b))"
  using pool_run_safe[OF _ _ _ demo_pool_ok(1) demo_pool_run] demo_pool_run demo_request
  by (simp add: BLOCK_SIZE_def align_right_diff_def)

text \<open>
  Freeing all live chunks, in any order, succeeds and leaves a single free tile that
  spans the pool: the allocator does not fragment for good, and its destructor's leak check
  passes.
\<close>

theorem free_all_restores_pool:
  assumes "run_inv a" and "distinct ps" and "set ps = fst ` live_chunks a"
  shows "\<exists>b. free_all deallocate ps a = Some b \<and> alloc_valid b \<and> live_chunks b = {} \<and>
           tiling_of b = (if blocks_amount b = 0 then [] else [(False, blocks_amount b)]) \<and>
           Allocator_destroy b = Some ()"
proof -
  have v: "alloc_valid a" and pos: "\<forall>p \<in> set ps. \<exists>c. (p, c) \<in> live_chunks a \<and> 0 < c"
    using assms(1,3) by (auto simp: run_inv_def)
  obtain b where b: "free_all deallocate ps a = Some b" "alloc_valid b"
      "live_chunks b = {x \<in> live_chunks a. fst x \<notin> set ps}"
    using pool.free_all_ok[OF v assms(2) pos] by blast
  have "live_chunks b = {}"
    using b(3) assms(3) by auto
  then show ?thesis
    using b no_live_single_tile[OF b(2)] by blast
qed

theorem free_all_restores_pool_witness:
  "run_inv demo_pool1 \<and> (\<exists>b. free_all deallocate [4160] demo_pool1 = Some b \<and> Allocator_destroy b = Some ())"
proof -
  have "run_inv demo_pool1"
    using demo_pool1_ok by (simp add: run_inv_def)
  then show ?thesis
    using free_all_restores_pool[of demo_pool1 "[4160]"] demo_pool1_ok(2) by auto
qed

text \<open>
  The size computation of \<^verbatim>\<open>allocate\<close> wraps around: a request for 2^64 - 8 bytes
  needs, after the wrap, a single block, so a pool of sixteen blocks returns a pointer for it
  and the chunk behind this pointer owns no byte at all. Well-formed requests of
  \<^const>\<open>request_ok\<close> exclude exactly this.
\<close>

theorem allocate_size_wraps:
  "\<exists>p b. allocate (2 ^ 64 - 8) 8 demo_pool = Some (Some p, b) \<and> blocks_owned (m_blocks b 0) = 1 \<and>
         \<not> request_ok (2 ^ 64 - 8) 8"
proof -
  have "has_single_bit 8"
    by code_simp
  moreover have "align_diff_at demo_pool 8 0 = 0"
    by (simp add: demo_pool_eq align_diff_at_def get_mem_def BLOCK_SIZE_def align_right_diff_def)
  moreover from this have "blocks_needed_at demo_pool (2 ^ 64 - 8) 8 0 = 1"
    by (simp add: blocks_needed_at_def BLOCK_SIZE_def ceil_div_def)
  moreover have "size_sub 1 0 = 1"
    by (simp add: size_sub_def)
  moreover have "\<exists>b. take_block 1 0 demo_pool = Some b \<and> blocks_owned (m_blocks b 0) = 1 \<and>
      m_used b = 0 \<and> m_mem_size b = 256 \<and> m_mem_data b = 4096"
    by (simp add: take_block_def demo_pool_eq unlink_defs set_blocks_owned_def push_free_node_def
       blank_def blocks_amount_def BLOCK_SIZE_def to_u32_def upd_block_def INVALID_IDX_def default_initialize_def)
  moreover have "m_first_free_block_idx demo_pool = 0" "blocks_amount demo_pool = 16"
      "\<not> is_used (m_blocks demo_pool 0)" "next_free_block_idx (m_blocks demo_pool 0) = INVALID_IDX"
      "blocks_owned (m_blocks demo_pool 0) = 16"
    by (simp_all add: demo_pool_eq blank_def blocks_amount_def BLOCK_SIZE_def)
  ultimately show ?thesis
    by (auto simp: allocate_def allocate_loop.simps[of _ _ demo_pool 0] allocate_from_def skip_alignment_def
        request_ok_def get_mem_def BLOCK_SIZE_def)
qed

end
