(* ===== verification/Corosig_Strings.thy ===== *)
theory Corosig_Strings
  imports Corosig_Prelude "HOL-Library.Sublist"
begin

text \<open>
  Octet strings: the part of \<^verbatim>\<open>std::string_view\<close> and \<^verbatim>\<open>std::views::split\<close> the parsers use.
  A \<^verbatim>\<open>char\<close> is its octet.
\<close>

type_synonym octets = "u8 list"

text \<open>\<^verbatim>\<open>std::views::split\<close>: splitting an empty range gives no piece at all.\<close>

fun split_pieces :: "'a \<Rightarrow> 'a list \<Rightarrow> 'a list list" where
  "split_pieces d [] = [[]]"
| "split_pieces d (x # xs) =
     (if x = d then [] # split_pieces d xs
      else (case split_pieces d xs of [] \<Rightarrow> [[x]] | g # gs \<Rightarrow> (x # g) # gs))"

definition views_split :: "'a \<Rightarrow> 'a list \<Rightarrow> 'a list list" where
  "views_split d xs = (if xs = [] then [] else split_pieces d xs)"

fun join :: "'a \<Rightarrow> 'a list list \<Rightarrow> 'a list" where
  "join d [] = []"
| "join d [g] = g"
| "join d (g # h # gs) = g @ d # join d (h # gs)"

text \<open>\<^verbatim>\<open>sv.starts_with(p)\<close>, \<^verbatim>\<open>sv.ends_with(c)\<close>.\<close>

definition starts_with :: "'a list \<Rightarrow> 'a list \<Rightarrow> bool" where
  "starts_with p s \<longleftrightarrow> take (length p) s = p"

definition ends_with :: "'a \<Rightarrow> 'a list \<Rightarrow> bool" where
  "ends_with c s \<longleftrightarrow> s \<noteq> [] \<and> last s = c"

lemma starts_with_simps [simp]:
  "starts_with [] s" "starts_with (c # p) (x # s) \<longleftrightarrow> x = c \<and> starts_with p s" "\<not> starts_with (c # p) []"
  by (auto simp: starts_with_def)

lemma split_pieces_not_Nil [simp]: "split_pieces d xs \<noteq> []"
  by (induction xs) (auto split: list.splits)

lemma join_split_pieces: "join d (split_pieces d xs) = xs"
proof (induction xs)
  case (Cons x xs)
  obtain g gs where g: "split_pieces d xs = g # gs"
    by (cases "split_pieces d xs") auto
  show ?case
    using Cons by (cases gs) (auto simp: g)
qed simp

lemma split_pieces_append: "d \<notin> set g \<Longrightarrow> split_pieces d (g @ d # xs) = g # split_pieces d xs"
  by (induction g) auto

lemma split_pieces_single: "d \<notin> set g \<Longrightarrow> split_pieces d g = [g]"
  by (induction g) auto

lemma split_pieces_join:
  "gs \<noteq> [] \<Longrightarrow> \<forall>g \<in> set gs. d \<notin> set g \<Longrightarrow> split_pieces d (join d gs) = gs"
  by (induction d gs rule: join.induct) (auto simp: split_pieces_append split_pieces_single)

lemma split_pieces_no_sep: "g \<in> set (split_pieces d xs) \<Longrightarrow> d \<notin> set g"
  by (induction xs arbitrary: g) (auto split: if_splits list.splits)

lemma split_pieces_eq:
  "split_pieces d xs = gs \<longleftrightarrow> gs \<noteq> [] \<and> (\<forall>g \<in> set gs. d \<notin> set g) \<and> xs = join d gs"
  using join_split_pieces split_pieces_join split_pieces_no_sep split_pieces_not_Nil by metis

lemma length_join: "gs \<noteq> [] \<Longrightarrow> length (join d gs) + 1 = sum_list (map (\<lambda>g. length g + 1) gs)"
  by (induction d gs rule: join.induct) auto

end
