(* ===== verification/Corosig_Endian.thy ===== *)
theory Corosig_Endian
  imports Corosig_Prelude
begin

text \<open>
  Byte order: \<^verbatim>\<open>util/Endianness.hpp\<close>, with the byte order of the host as a parameter, and
  the big-endian readers and writers \<^verbatim>\<open>read_ntoh\<close> and \<^verbatim>\<open>write_hton\<close> of the DNS code.
\<close>

section \<open>Octet sequences of words\<close>

primrec be_bytes :: "nat \<Rightarrow> 'a::len word \<Rightarrow> u8 list" where
  "be_bytes 0 w = []"
| "be_bytes (Suc n) w = be_bytes n (drop_bit 8 w) @ [ucast w]"

text \<open>The loop of \<^verbatim>\<open>read_ntoh\<close> over the octets it reads.\<close>

definition read_ntoh :: "u8 list \<Rightarrow> 'a::len word" where
  "read_ntoh bs = foldl (\<lambda>v b. push_bit 8 v OR ucast b) 0 bs"

definition write_hton :: "u16 \<Rightarrow> u8 list" where
  "write_hton v = [ucast (drop_bit 8 v AND 0xFF), ucast (v AND 0xFF)]"

lemma length_be_bytes [simp]: "length (be_bytes n w) = n"
  by (induction n arbitrary: w) simp_all

lemma read_ntoh_snoc [simp]: "read_ntoh (bs @ [b]) = push_bit 8 (read_ntoh bs) OR ucast b"
  by (simp add: read_ntoh_def)

lemma read_ntoh_Nil [simp]: "read_ntoh [] = 0"
  by (simp add: read_ntoh_def)

lemma read_ntoh_be_bytes: "read_ntoh (be_bytes n w) = take_bit (8 * n) w"
proof (induction n arbitrary: w)
  case (Suc n)
  show ?case
    by (rule bit_eqI) (auto simp: Suc bit_simps not_less dest: bit_imp_le_length)
qed simp

lemma be_bytes_read_ntoh:
  "8 * length bs \<le> LENGTH('a) \<Longrightarrow> be_bytes (length bs) (read_ntoh bs :: 'a::len word) = bs"
proof (induction bs rule: rev_induct)
  case (snoc b bs)
  let ?w = "read_ntoh bs :: 'a word"
  have "drop_bit 8 (push_bit 8 ?w OR ucast b) = take_bit (LENGTH('a) - 8) ?w"
    by (rule bit_eqI) (auto simp: bit_simps dest: bit_imp_le_length)
  moreover have "take_bit (LENGTH('a) - 8) ?w = ?w"
  proof -
    have w: "take_bit (8 * length bs) ?w = ?w"
      using snoc read_ntoh_be_bytes[of "length bs" ?w] by simp
    have "take_bit (LENGTH('a) - 8) (take_bit (8 * length bs) ?w) = take_bit (8 * length bs) ?w"
    proof -
      have "min (LENGTH('a) - 8) (8 * length bs) = 8 * length bs"
        using snoc.prems by simp
      then show ?thesis
        by (simp only: take_bit_take_bit)
    qed
    then show ?thesis
      by (simp only: w)
  qed
  moreover have "ucast (push_bit 8 ?w OR ucast b) = b"
    using snoc.prems by (intro bit_eqI) (auto simp: bit_simps)
  ultimately show ?case
    using snoc by simp
qed simp

lemma be_bytes_2: "be_bytes 2 w = [ucast (drop_bit 8 w), ucast w]"
  by (simp add: numeral_2_eq_2)

lemma ucast_low_octet: "ucast (v AND 0xFF :: u16) = (ucast v :: u8)"
proof -
  have m: "(0xFF :: u16) = mask 8"
    by (simp add: mask_eq_exp_minus_1)
  have "v AND 0xFF = take_bit 8 v"
    unfolding m by (simp only: take_bit_eq_mask)
  then show ?thesis
    by (simp only:) (auto simp: bit_simps intro!: bit_eqI)
qed

lemma write_hton_be_bytes: "write_hton v = be_bytes 2 v"
  by (simp add: write_hton_def be_bytes_2 ucast_low_octet)

lemma read_write_hton [simp]: "read_ntoh (write_hton v) = v"
  by (simp add: write_hton_be_bytes read_ntoh_be_bytes take_bit_word_eq_self)

lemma length_write_hton [simp]: "length (write_hton v) = 2"
  by (simp add: write_hton_def)

section \<open>Host byte order\<close>

text \<open>
  \<^verbatim>\<open>std::bit_cast\<close> between a word of \<^term>\<open>n\<close> octets and its octets in memory;
  \<^term>\<open>little\<close> says whether the host is little-endian.
\<close>

definition mem_bytes :: "bool \<Rightarrow> nat \<Rightarrow> 'a::len word \<Rightarrow> u8 list" where
  "mem_bytes little n w = (if little then rev (be_bytes n w) else be_bytes n w)"

definition of_mem_bytes :: "bool \<Rightarrow> u8 list \<Rightarrow> 'a::len word" where
  "of_mem_bytes little bs = (if little then read_ntoh (rev bs) else read_ntoh bs)"

definition byteswap :: "bool \<Rightarrow> nat \<Rightarrow> 'a::len word \<Rightarrow> 'a word" where
  "byteswap little n w = of_mem_bytes little (rev (mem_bytes little n w))"

definition betoh :: "bool \<Rightarrow> nat \<Rightarrow> 'a::len word \<Rightarrow> 'a word" where
  "betoh little n w = (if little then byteswap little n w else w)"

definition letoh :: "bool \<Rightarrow> nat \<Rightarrow> 'a::len word \<Rightarrow> 'a word" where
  "letoh little n w = (if little then w else byteswap little n w)"

definition htole :: "bool \<Rightarrow> nat \<Rightarrow> 'a::len word \<Rightarrow> 'a word" where
  "htole little n w = (if little then w else byteswap little n w)"

definition htobe :: "bool \<Rightarrow> nat \<Rightarrow> 'a::len word \<Rightarrow> 'a word" where
  "htobe little n w = (if little then byteswap little n w else w)"

definition hton :: "bool \<Rightarrow> nat \<Rightarrow> 'a::len word \<Rightarrow> 'a word" where
  "hton little n w = htobe little n w"

definition ntoh :: "bool \<Rightarrow> nat \<Rightarrow> 'a::len word \<Rightarrow> 'a word" where
  "ntoh little n w = betoh little n w"

lemma of_mem_bytes_mem_bytes:
  "LENGTH('a) = 8 * n \<Longrightarrow> of_mem_bytes little (mem_bytes little n w) = (w :: 'a::len word)"
  by (simp add: of_mem_bytes_def mem_bytes_def read_ntoh_be_bytes take_bit_word_eq_self)

lemma mem_bytes_of_mem_bytes:
  "LENGTH('a) = 8 * length bs \<Longrightarrow>
     mem_bytes little (length bs) (of_mem_bytes little bs :: 'a::len word) = bs"
  using be_bytes_read_ntoh[of bs, where ?'a = 'a] be_bytes_read_ntoh[of "rev bs", where ?'a = 'a]
  by (simp add: of_mem_bytes_def mem_bytes_def)

lemma mem_bytes_byteswap:
  assumes "LENGTH('a) = 8 * n"
  shows "mem_bytes little n (byteswap little n (w :: 'a::len word)) = rev (mem_bytes little n w)"
  using mem_bytes_of_mem_bytes[of "rev (mem_bytes little n w)", where ?'a = 'a] assms
  by (simp add: byteswap_def mem_bytes_def split: if_splits)

lemma byteswap_byteswap:
  assumes "LENGTH('a) = 8 * n"
  shows "byteswap little n (byteswap little n (w :: 'a::len word)) = w"
  using mem_bytes_byteswap[OF assms, of little w] of_mem_bytes_mem_bytes[OF assms, of little w]
  by (simp add: byteswap_def[of little n "byteswap little n w"])

text \<open>
  On either kind of host, the octets in memory of \<^verbatim>\<open>hton(v)\<close> are the big-endian
  octets of the value, \<^verbatim>\<open>htole(v)\<close> stores the little-endian ones, and \<^verbatim>\<open>ntoh\<close>, \<^verbatim>\<open>letoh\<close> undo
  them.
\<close>

theorem host_order_correct:
  assumes "LENGTH('a) = 8 * n"
  shows "mem_bytes little n (hton little n (w :: 'a::len word)) = be_bytes n w \<and>
         mem_bytes little n (htole little n w) = rev (be_bytes n w) \<and>
         ntoh little n (hton little n w) = w \<and> letoh little n (htole little n w) = w"
  using mem_bytes_byteswap[OF assms, of little w] byteswap_byteswap[OF assms, of little w]
  by (cases little)
     (simp_all add: hton_def htobe_def htole_def ntoh_def betoh_def letoh_def mem_bytes_def)

theorem host_order_correct_witness:
  "LENGTH(16) = 8 * 2 \<and> mem_bytes True 2 (hton True 2 (0xC867 :: u16)) = [0xC8, 0x67]"
proof -
  have "be_bytes 2 (0xC867 :: u16) = [0xC8, 0x67]"
    by code_simp
  then show ?thesis
    using host_order_correct[where n = 2 and little = True and w = "0xC867 :: u16"] by simp
qed

end
