(* ===== verification/Corosig_Sockaddr.thy ===== *)
theory Corosig_Sockaddr
  imports Corosig_Strings Corosig_Endian
begin

text \<open>
  IP addresses: \<^verbatim>\<open>io/Sockaddr.hpp\<close> and \<^verbatim>\<open>io/Sockaddr.cpp\<close>. An IPv4 address keeps its four
  octets as the \<^verbatim>\<open>uint32_t\<close> they form in the memory of the host, an IPv6 address keeps the
  sixteen octets.
\<close>

section \<open>Addresses\<close>

record Ipv4Addr =
  ipv4_m_value :: u32

record Ipv6Addr =
  ipv6_m_value :: octets

datatype IpvNAddr = V4 Ipv4Addr | V6 Ipv6Addr

text \<open>\<^verbatim>\<open>sockaddr_storage\<close> by the fields the code writes.\<close>

datatype SockaddrStorage =
    SockaddrIn (sin_port: u16) (sin_addr: u32)
  | SockaddrIn6 (sin6_port: u16) (sin6_addr: octets)

definition Ipv4Addr_from_bytes :: "bool \<Rightarrow> octets \<Rightarrow> Ipv4Addr" where
  "Ipv4Addr_from_bytes little bs = \<lparr>ipv4_m_value = of_mem_bytes little bs\<rparr>"

definition Ipv4Addr_from_groups :: "bool \<Rightarrow> octets \<Rightarrow> Ipv4Addr" where
  "Ipv4Addr_from_groups little groups = Ipv4Addr_from_bytes little groups"

definition Ipv4Addr_loopback :: "bool \<Rightarrow> Ipv4Addr" where
  "Ipv4Addr_loopback little = Ipv4Addr_from_groups little [127, 0, 0, 1]"

definition Ipv4Addr_value :: "Ipv4Addr \<Rightarrow> u32" where
  "Ipv4Addr_value a = ipv4_m_value a"

definition Ipv4Addr_to_sockaddr :: "bool \<Rightarrow> u16 \<Rightarrow> Ipv4Addr \<Rightarrow> SockaddrStorage" where
  "Ipv4Addr_to_sockaddr little port a = SockaddrIn (hton little 2 port) (ipv4_m_value a)"

definition Ipv6Addr_from_bytes :: "octets \<Rightarrow> Ipv6Addr" where
  "Ipv6Addr_from_bytes bs = \<lparr>ipv6_m_value = bs\<rparr>"

definition Ipv6Addr_from_groups :: "u16 list \<Rightarrow> Ipv6Addr" where
  "Ipv6Addr_from_groups groups =
     Ipv6Addr_from_bytes (concat (map (\<lambda>g. [ucast (drop_bit 8 g AND 0xFF), ucast (g AND 0xFF)]) groups))"

definition Ipv6Addr_loopback :: Ipv6Addr where
  "Ipv6Addr_loopback = Ipv6Addr_from_groups [0, 0, 0, 0, 0, 0, 0, 1]"

definition Ipv6Addr_value :: "Ipv6Addr \<Rightarrow> octets" where
  "Ipv6Addr_value a = ipv6_m_value a"

definition Ipv6Addr_to_sockaddr :: "bool \<Rightarrow> u16 \<Rightarrow> Ipv6Addr \<Rightarrow> SockaddrStorage" where
  "Ipv6Addr_to_sockaddr little port a = SockaddrIn6 (hton little 2 port) (ipv6_m_value a)"

definition IpvNAddr_to_sockaddr :: "bool \<Rightarrow> u16 \<Rightarrow> IpvNAddr \<Rightarrow> SockaddrStorage" where
  "IpvNAddr_to_sockaddr little port a =
     (case a of V4 x \<Rightarrow> Ipv4Addr_to_sockaddr little port x | V6 x \<Rightarrow> Ipv6Addr_to_sockaddr little port x)"

section \<open>Parsing IPv4\<close>

text \<open>The digit loop over one group.\<close>

primrec ipv4_group :: "u16 \<Rightarrow> octets \<Rightarrow> u16 option" where
  "ipv4_group acc [] = Some acc"
| "ipv4_group acc (c # cs) =
     (if c < 0x30 \<or> c > 0x39 then None else ipv4_group (acc * 10 + ucast (c - 0x30)) cs)"

text \<open>The loop over the groups; \<^term>\<open>res\<close> holds the groups already written.\<close>

primrec ipv4_groups :: "octets \<Rightarrow> octets list \<Rightarrow> octets option" where
  "ipv4_groups res [] = (if length res \<noteq> 4 then None else Some res)"
| "ipv4_groups res (g # gs) =
     (if length res = 4 then None
      else if g = [] \<or> length g > 3 then None
      else case ipv4_group 0 g of
        None \<Rightarrow> None
      | Some v \<Rightarrow> if v > 255 then None else ipv4_groups (res @ [ucast v]) gs)"

definition Ipv4Addr_parse :: "bool \<Rightarrow> octets \<Rightarrow> Ipv4Addr option" where
  "Ipv4Addr_parse little addr =
     map_option (Ipv4Addr_from_bytes little) (ipv4_groups [] (views_split 0x2E addr))"

section \<open>Parsing IPv6\<close>

definition IPV6_COMPRESSOR :: octets where
  "IPV6_COMPRESSOR = [0x3A, 0x3A]"

definition hex_char_to_num :: "u8 \<Rightarrow> u8 option" where
  "hex_char_to_num c =
     (if c \<ge> 0x30 \<and> c \<le> 0x39 then Some (c - 0x30)
      else if c \<ge> 0x61 \<and> c \<le> 0x66 then Some (c - 0x61 + 10)
      else if c \<ge> 0x41 \<and> c \<le> 0x46 then Some (c - 0x41 + 10)
      else None)"

function parse_ipv6_group_from :: "nat \<Rightarrow> u16 \<Rightarrow> octets \<Rightarrow> (u16 \<times> octets) option" where
  "parse_ipv6_group_from i grp s =
     (if i < 4 \<and> s \<noteq> [] then
        (case hex_char_to_num (hd s) of
           None \<Rightarrow> if i = 0 then None else Some (grp, s)
         | Some v \<Rightarrow> parse_ipv6_group_from (i + 1) (grp * 16 + ucast v) (tl s))
      else Some (grp, s))"
  by pat_completeness auto
termination by (relation "measure (\<lambda>(i, _, _). 4 - i)") auto

declare parse_ipv6_group_from.simps [simp del]

definition parse_ipv6_group :: "octets \<Rightarrow> (u16 \<times> octets) option" where
  "parse_ipv6_group s = parse_ipv6_group_from 0 0 s"

text \<open>
  The loop over the groups in front of the compressor: the flag \<^verbatim>\<open>has_met_compressor\<close>, the
  count, the rest of the text and the buffer.
\<close>

function ipv6_front_loop :: "nat \<Rightarrow> octets \<Rightarrow> u16 list \<Rightarrow> ((bool \<times> nat \<times> octets) \<times> u16 list) option" where
  "ipv6_front_loop front_groups addr buf =
     (if addr \<noteq> [] \<and> front_groups < length buf then
        (case parse_ipv6_group addr of
           None \<Rightarrow> None
         | Some (grp, addr) \<Rightarrow>
             let buf = buf[front_groups := grp]; front_groups = front_groups + 1
             in if starts_with IPV6_COMPRESSOR addr
                then Some ((True, front_groups, drop 1 addr), buf)
                else ipv6_front_loop front_groups (drop (min 1 (length addr)) addr) buf)
      else Some ((False, front_groups, addr), buf))"
  by pat_completeness auto
termination by (relation "measure (\<lambda>(n, _, buf). length buf - n)") auto

declare ipv6_front_loop.simps [simp del]

definition ipv6_parse_front_groups :: "octets \<Rightarrow> u16 list \<Rightarrow> ((bool \<times> nat \<times> octets) \<times> u16 list) option" where
  "ipv6_parse_front_groups addr buf =
     (if starts_with IPV6_COMPRESSOR addr then Some ((True, 0, drop 1 addr), buf)
      else ipv6_front_loop 0 addr buf)"

function ipv6_back_loop :: "nat \<Rightarrow> nat \<Rightarrow> octets \<Rightarrow> u16 list \<Rightarrow> ((nat \<times> octets) \<times> u16 list) option" where
  "ipv6_back_loop front_groups back_groups addr buf =
     (if addr \<noteq> [] then
        (if back_groups + front_groups + 1 > length buf \<or> \<not> starts_with [0x3A] addr \<or>
            starts_with IPV6_COMPRESSOR addr then None
         else let addr = drop 1 addr
              in if addr = [] then Some ((back_groups, addr), buf)
                 else case parse_ipv6_group addr of
                   None \<Rightarrow> None
                 | Some (grp, addr) \<Rightarrow>
                     ipv6_back_loop front_groups (back_groups + 1) addr
                       (buf[front_groups + back_groups := grp]))
      else Some ((back_groups, addr), buf))"
  by pat_completeness auto
termination by (relation "measure (\<lambda>(f, b, _, buf). length buf - (f + b))") auto

declare ipv6_back_loop.simps [simp del]

text \<open>
  \<^verbatim>\<open>std::shift_right\<close> on a list: the first elements, which the standard leaves unspecified,
  keep their values here.
\<close>

definition shift_right :: "nat \<Rightarrow> 'a list \<Rightarrow> 'a list" where
  "shift_right n xs = (if n \<ge> length xs then xs else take n xs @ take (length xs - n) xs)"

definition fill_n :: "nat \<Rightarrow> nat \<Rightarrow> 'a \<Rightarrow> 'a list \<Rightarrow> 'a list" where
  "fill_n pos n v xs = take pos xs @ replicate n v @ drop (pos + n) xs"

text \<open>\<^term>\<open>buf\<close> is the uninitialised \<^verbatim>\<open>expansion_buf\<close>.\<close>

definition Ipv6Addr_parse_regular :: "u16 list \<Rightarrow> octets \<Rightarrow> Ipv6Addr option" where
  "Ipv6Addr_parse_regular buf addr = do {
     ((has_met_compressor, groups, addr), buf) \<leftarrow> ipv6_parse_front_groups addr buf;
     if has_met_compressor then do {
       ((back_groups, addr), buf) \<leftarrow> ipv6_back_loop groups 0 addr buf;
       let expanded = length buf - groups - back_groups;
       let buf = take groups buf @ shift_right expanded (drop groups buf);
       let buf = fill_n groups expanded 0 buf;
       if groups + back_groups \<ge> length buf then None
       else if addr \<noteq> [] then None
       else Some (Ipv6Addr_from_groups buf)
     } else if groups \<noteq> length buf \<or> addr \<noteq> [] then None
     else Some (Ipv6Addr_from_groups buf)
   }"

definition Ipv6Addr_parse_mapped_ipv4 :: "bool \<Rightarrow> octets \<Rightarrow> Ipv6Addr option" where
  "Ipv6Addr_parse_mapped_ipv4 little addr =
     (if length addr < length IPV6_COMPRESSOR + 5 \<or> \<not> starts_with IPV6_COMPRESSOR addr then None
      else let addr = drop (length IPV6_COMPRESSOR) addr; substr = take 4 addr
           in if list_ex (\<lambda>c. c \<noteq> 0x66 \<and> c \<noteq> 0x46) substr then None
              else let addr = drop 4 addr
                   in if \<not> starts_with [0x3A] addr then None
                      else map_option (\<lambda>ipv4. Ipv6Addr_from_bytes
                             (replicate 10 0 @ [0xFF, 0xFF] @ mem_bytes little 4 (Ipv4Addr_value ipv4)))
                             (Ipv4Addr_parse little (drop 1 addr)))"

definition Ipv6Addr_parse :: "bool \<Rightarrow> u16 list \<Rightarrow> octets \<Rightarrow> Ipv6Addr option" where
  "Ipv6Addr_parse little buf addr =
     (case Ipv6Addr_parse_regular buf addr of
        Some a \<Rightarrow> Some a | None \<Rightarrow> Ipv6Addr_parse_mapped_ipv4 little addr)"

definition IpvNAddr_parse :: "bool \<Rightarrow> u16 list \<Rightarrow> octets \<Rightarrow> IpvNAddr option" where
  "IpvNAddr_parse little buf addr =
     (case Ipv4Addr_parse little addr of
        Some a \<Rightarrow> Some (V4 a)
      | None \<Rightarrow> map_option V6 (Ipv6Addr_parse little buf addr))"

end
