(* ===== verification/Corosig_Sockaddr_Claims.thy ===== *)
theory Corosig_Sockaddr_Claims
  imports Corosig_Sockaddr
begin

text \<open>
  The address parsers against the textual forms: dotted quads exactly, the full and the
  compressed form of IPv6, IPv4-mapped addresses, and that uninitialised buffer contents
  never reach the result.
\<close>

section \<open>Dotted quads\<close>

definition digit :: "u8 \<Rightarrow> bool" where
  "digit c \<longleftrightarrow> 0x30 \<le> c \<and> c \<le> 0x39"

definition dec_val :: "octets \<Rightarrow> nat" where
  "dec_val g = foldl (\<lambda>v c. v * 10 + unat (c - 0x30)) 0 g"

definition dec_group :: "octets \<Rightarrow> bool" where
  "dec_group g \<longleftrightarrow> g \<noteq> [] \<and> length g \<le> 3 \<and> (\<forall>c \<in> set g. digit c) \<and> dec_val g \<le> 255"

lemma ipv4_group_foldl:
  "ipv4_group acc g =
     (if \<forall>c \<in> set g. digit c then Some (foldl (\<lambda>v c. v * 10 + ucast (c - 0x30)) acc g) else None)"
  by (induction g arbitrary: acc) (auto simp: digit_def not_le not_less)

lemma dec_foldl_of_nat:
  "foldl (\<lambda>v c. v * 10 + ucast (c - 0x30)) (word_of_nat n) g =
   (word_of_nat (foldl (\<lambda>v c. v * 10 + unat (c - (0x30 :: u8))) n g) :: u16)"
proof (induction g arbitrary: n)
  case (Cons c g)
  have "(word_of_nat n * 10 + ucast (c - 0x30) :: u16) = word_of_nat (n * 10 + unat (c - 0x30))"
    by simp
  then show ?case
    using Cons[of "n * 10 + unat (c - 0x30)"] by (simp only: foldl.simps)
qed simp

lemma digit_val: "digit c \<Longrightarrow> unat (c - 0x30) \<le> 9"
  unfolding digit_def by (auto simp: unat_sub word_le_nat_alt)

lemma dec_foldl_bound:
  "\<forall>c \<in> set g. digit c \<Longrightarrow>
     foldl (\<lambda>v c. v * 10 + unat (c - (0x30 :: u8))) n g < (n + 1) * 10 ^ length g"
proof (induction g arbitrary: n)
  case (Cons c g)
  have "foldl (\<lambda>v c. v * 10 + unat (c - (0x30 :: u8))) (n * 10 + unat (c - 0x30)) g
      < (n * 10 + unat (c - 0x30) + 1) * 10 ^ length g"
    using Cons by simp
  also have "\<dots> \<le> ((n + 1) * 10) * 10 ^ length g"
    using digit_val[of c] Cons.prems by (intro mult_right_mono) auto
  finally show ?case
    by (simp add: algebra_simps)
qed simp

lemma ipv4_group_digits:
  assumes "length g \<le> 3" and "\<forall>c \<in> set g. digit c"
  obtains v where "ipv4_group 0 g = Some v" and "v > 255 \<longleftrightarrow> dec_val g > 255"
    and "(ucast v :: u8) = word_of_nat (dec_val g)"
proof
  have "(10 :: nat) ^ length g \<le> 10 ^ 3"
    using assms(1) by (intro power_increasing) auto
  then have lt: "dec_val g < 1000"
    using dec_foldl_bound[OF assms(2), of 0] by (simp add: dec_val_def)
  show "ipv4_group 0 g = Some (word_of_nat (dec_val g))"
    using assms(2) dec_foldl_of_nat[of 0 g] by (simp add: ipv4_group_foldl dec_val_def)
  have u: "unat (word_of_nat (dec_val g) :: u16) = dec_val g"
    using lt by (simp add: unat_of_nat take_bit_eq_mod)
  show "(word_of_nat (dec_val g) :: u16) > 255 \<longleftrightarrow> dec_val g > 255"
    unfolding word_less_nat_alt u by simp
  show "(ucast (word_of_nat (dec_val g) :: u16) :: u8) = word_of_nat (dec_val g)"
  proof -
    have "(word_of_nat (unat (word_of_nat (dec_val g) :: u16)) :: u8) = ucast (word_of_nat (dec_val g) :: u16)"
      by (rule of_nat_unat)
    then show ?thesis
      unfolding u by (rule sym)
  qed
qed

lemma ipv4_groups_iff:
  "ipv4_groups res gs = Some bs \<longleftrightarrow>
     length res + length gs = 4 \<and> (\<forall>g \<in> set gs. dec_group g) \<and>
     bs = res @ map (\<lambda>g. word_of_nat (dec_val g)) gs"
proof (induction gs arbitrary: res)
  case (Cons g gs)
  show ?case
  proof (cases "length res \<noteq> 4 \<and> g \<noteq> [] \<and> length g \<le> 3")
    case True
    show ?thesis
    proof (cases "\<forall>c \<in> set g. digit c")
      case digits: True
      obtain v where "ipv4_group 0 g = Some v" "v > 255 \<longleftrightarrow> dec_val g > 255"
          "(ucast v :: u8) = word_of_nat (dec_val g)"
        using ipv4_group_digits[OF _ digits] True by blast
      then show ?thesis
        using True digits Cons[of "res @ [word_of_nat (dec_val g)]"] by (auto simp: dec_group_def)
    next
      case False
      then show ?thesis
        using True by (auto simp: dec_group_def ipv4_group_foldl)
    qed
  next
    case False
    then show ?thesis
      by (auto simp: dec_group_def)
  qed
qed auto

lemma dec_group_no_dot: "dec_group g \<Longrightarrow> 0x2E \<notin> set g"
  by (auto simp: dec_group_def digit_def)

lemma join_4_not_Nil: "length gs = 4 \<Longrightarrow> join d gs \<noteq> []"
  by (auto simp: length_Suc_conv numeral_eq_Suc)

lemma Ipv4Addr_parse_groups:
  "Ipv4Addr_parse little s = Some a \<longleftrightarrow>
     (\<exists>gs. length gs = 4 \<and> s = join 0x2E gs \<and> (\<forall>g \<in> set gs. dec_group g) \<and>
           a = Ipv4Addr_from_bytes little (map (\<lambda>g. word_of_nat (dec_val g)) gs))"
proof -
  have "ipv4_groups [] (views_split 0x2E s) = Some bs \<longleftrightarrow>
      (\<exists>gs. length gs = 4 \<and> s = join 0x2E gs \<and> (\<forall>g \<in> set gs. dec_group g) \<and>
           bs = map (\<lambda>g. word_of_nat (dec_val g)) gs)" for bs
  proof
    let ?gs = "views_split 0x2E s"
    assume "ipv4_groups [] ?gs = Some bs"
    then have "length ?gs = 4" "\<forall>g \<in> set ?gs. dec_group g" "bs = map (\<lambda>g. word_of_nat (dec_val g)) ?gs"
      by (simp_all add: ipv4_groups_iff)
    moreover from this have "s = join 0x2E ?gs"
      by (cases "s = []") (simp_all add: views_split_def join_split_pieces)
    ultimately show "\<exists>gs. length gs = 4 \<and> s = join 0x2E gs \<and> (\<forall>g \<in> set gs. dec_group g) \<and>
           bs = map (\<lambda>g. word_of_nat (dec_val g)) gs"
      by blast
  next
    assume "\<exists>gs. length gs = 4 \<and> s = join 0x2E gs \<and> (\<forall>g \<in> set gs. dec_group g) \<and>
           bs = map (\<lambda>g. word_of_nat (dec_val g)) gs"
    then obtain gs where gs: "length gs = 4" "s = join 0x2E gs" "\<forall>g \<in> set gs. dec_group g"
        "bs = map (\<lambda>g. word_of_nat (dec_val g)) gs"
      by blast
    have "gs \<noteq> []"
      using gs(1) by auto
    then have "views_split 0x2E s = gs"
      using split_pieces_join[of gs "0x2E"] join_4_not_Nil[OF gs(1)] dec_group_no_dot gs(1-3)
      by (auto simp: views_split_def)
    then show "ipv4_groups [] (views_split 0x2E s) = Some bs"
      using gs by (simp add: ipv4_groups_iff)
  qed
  then show ?thesis
    by (auto simp: Ipv4Addr_parse_def)
qed

text \<open>
  Claim C29. \<^verbatim>\<open>Ipv4Addr::parse\<close> accepts exactly the dotted quads: four groups of one to three
  decimal digits, each at most 255, and the octets of the address in memory are the values of
  the groups in order, on hosts of either byte order.
\<close>

theorem Ipv4Addr_parse_iff:
  "Ipv4Addr_parse little s = Some a \<longleftrightarrow>
     (\<exists>gs. length gs = 4 \<and> s = join 0x2E gs \<and> (\<forall>g \<in> set gs. dec_group g) \<and>
           mem_bytes little 4 (ipv4_m_value a) = map (\<lambda>g. word_of_nat (dec_val g)) gs)"
proof -
  have "a = Ipv4Addr_from_bytes little bs \<longleftrightarrow> mem_bytes little 4 (ipv4_m_value a) = bs"
    if "length bs = 4" for bs
  proof
    assume "a = Ipv4Addr_from_bytes little bs"
    then show "mem_bytes little 4 (ipv4_m_value a) = bs"
      using mem_bytes_of_mem_bytes[of bs little, where ?'a = 32] that by (simp add: Ipv4Addr_from_bytes_def)
  next
    assume "mem_bytes little 4 (ipv4_m_value a) = bs"
    then show "a = Ipv4Addr_from_bytes little bs"
      using of_mem_bytes_mem_bytes[of 4 little "ipv4_m_value a"] by (simp add: Ipv4Addr_from_bytes_def)
  qed
  then show ?thesis
    unfolding Ipv4Addr_parse_groups by (metis length_map)
qed

theorem Ipv4Addr_parse_iff_witness:
  "\<exists>a. Ipv4Addr_parse True [0x31, 0x2E, 0x32, 0x2E, 0x33, 0x2E, 0x34] = Some a \<and>
       mem_bytes True 4 (ipv4_m_value a) = [1, 2, 3, 4]"
proof -
  let ?s = "[0x31, 0x2E, 0x32, 0x2E, 0x33, 0x2E, 0x34] :: octets"
  let ?a = "Ipv4Addr_from_bytes True [1, 2, 3, 4]"
  have m: "mem_bytes True 4 (ipv4_m_value ?a) = [1, 2, 3, 4]"
    by code_simp
  have "\<exists>gs. length gs = 4 \<and> ?s = join 0x2E gs \<and> (\<forall>g \<in> set gs. dec_group g) \<and>
      mem_bytes True 4 (ipv4_m_value ?a) = map (\<lambda>g. word_of_nat (dec_val g)) gs"
    unfolding m by (rule exI[of _ "[[0x31], [0x32], [0x33], [0x34]]"])
      (simp add: dec_group_def dec_val_def digit_def)
  then show ?thesis
    using Ipv4Addr_parse_iff[of True ?s ?a] m by blast
qed

section \<open>Groups of hexadecimal digits\<close>

definition hex_val :: "octets \<Rightarrow> u16" where
  "hex_val g = foldl (\<lambda>v c. v * 16 + ucast (the (hex_char_to_num c))) 0 g"

definition hex_group :: "octets \<Rightarrow> bool" where
  "hex_group g \<longleftrightarrow> g \<noteq> [] \<and> length g \<le> 4 \<and> (\<forall>c \<in> set g. hex_char_to_num c \<noteq> None)"

lemma colon_not_hex [simp]: "hex_char_to_num 0x3A = None" and dot_not_hex [simp]: "hex_char_to_num 0x2E = None"
  by (simp_all add: hex_char_to_num_def)

lemma hex_group_no_colon: "hex_group g \<Longrightarrow> hd g \<noteq> 0x3A \<and> g \<noteq> []"
  unfolding hex_group_def by (metis colon_not_hex hd_in_set)

lemma parse_group_from:
  assumes "\<forall>c \<in> set g. hex_char_to_num c \<noteq> None" and "i + length g \<le> 4" and "0 < i + length g"
    and "i + length g = 4 \<or> rest = [] \<or> hex_char_to_num (hd rest) = None"
  shows "parse_ipv6_group_from i v (g @ rest) =
           Some (foldl (\<lambda>v c. v * 16 + ucast (the (hex_char_to_num c))) v g, rest)"
  using assms
proof (induction g arbitrary: i v)
  case Nil
  then show ?case
    by (subst parse_ipv6_group_from.simps) auto
next
  case (Cons c g)
  then obtain d where d: "hex_char_to_num c = Some d"
    by auto
  show ?case
    using Cons.prems Cons.IH[of "i + 1" "v * 16 + ucast d"] d
    by (subst parse_ipv6_group_from.simps) (simp add: add.assoc)
qed

lemma parse_ipv6_group_hex:
  assumes "hex_group g" and "rest = [] \<or> hex_char_to_num (hd rest) = None"
  shows "parse_ipv6_group (g @ rest) = Some (hex_val g, rest)"
  using assms parse_group_from[of g 0 rest 0] by (auto simp: parse_ipv6_group_def hex_val_def hex_group_def)

section \<open>The two loops on well-formed text\<close>

lemma list_update_window:
  "n < length buf \<Longrightarrow> n + 1 + length vs \<le> length buf \<Longrightarrow>
     take (n + 1) (buf[n := v]) @ vs @ drop (n + 1 + length vs) (buf[n := v]) =
     take n buf @ (v # vs) @ drop (n + 1 + length vs) buf"
  by (simp add: take_Suc_conv_app_nth)

lemma ipv6_front_loop_text:
  assumes "gs \<noteq> []" and "\<forall>g \<in> set gs. hex_group g" and "n + length gs \<le> length buf"
    and "tail = [] \<or> starts_with IPV6_COMPRESSOR tail"
  shows "ipv6_front_loop n (join 0x3A gs @ tail) buf =
           Some ((tail \<noteq> [], n + length gs, drop 1 tail),
                 take n buf @ map hex_val gs @ drop (n + length gs) buf)"
  using assms
proof (induction gs arbitrary: n buf)
  case (Cons g gs)
  note [simp] = IPV6_COMPRESSOR_def
  have g: "hex_group g" "g \<noteq> []" "hd g \<noteq> 0x3A"
    using Cons.prems(2) hex_group_no_colon by auto
  have n: "n < length buf"
    using Cons.prems(3) by simp
  show ?case
  proof (cases gs)
    case Nil
    have t: "tail = [] \<or> (\<exists>t. tail = 0x3A # 0x3A # t)"
      using Cons.prems(4) by (cases tail rule: list.exhaust; cases "tl tail") auto
    then have "parse_ipv6_group (g @ tail) = Some (hex_val g, tail)"
      using g(1) by (intro parse_ipv6_group_hex) auto
    then show ?thesis
      using t n Nil g(2) upd_conv_take_nth_drop[of n buf "hex_val g"]
      by (subst ipv6_front_loop.simps) (auto simp: ipv6_front_loop.simps[of _ "[]"])
  next
    case (Cons h hs)
    let ?rest = "join 0x3A gs @ tail"
    have h: "hex_group h" "h \<noteq> []" "hd h \<noteq> 0x3A"
      using Cons.prems(2) Cons hex_group_no_colon by auto
    have "hd ?rest \<noteq> 0x3A" "?rest \<noteq> []"
      using h(2,3) by (cases hs; simp add: Cons)+
    then obtain c r where r: "?rest = c # r" "c \<noteq> 0x3A"
      by (cases ?rest) auto
    have "parse_ipv6_group (g @ 0x3A # ?rest) = Some (hex_val g, 0x3A # ?rest)"
      using g(1) by (intro parse_ipv6_group_hex) auto
    moreover have "ipv6_front_loop (n + 1) ?rest (buf[n := hex_val g]) =
        Some ((tail \<noteq> [], n + 1 + length gs, drop 1 tail),
              take (n + 1) (buf[n := hex_val g]) @ map hex_val gs @ drop (n + 1 + length gs) (buf[n := hex_val g]))"
      using Cons.prems Cons by (intro Cons.IH) auto
    ultimately show ?thesis
      using n Cons.prems(3) Cons r g(2) list_update_window[of n buf "map hex_val gs" "hex_val g"]
      by (subst ipv6_front_loop.simps) simp
  qed
qed simp

lemma ipv6_back_loop_text:
  assumes "\<forall>g \<in> set gs. hex_group g" and "f + b + length gs < length buf"
  shows "ipv6_back_loop f b (concat (map (\<lambda>g. 0x3A # g) gs)) buf =
           Some ((b + length gs, []), take (f + b) buf @ map hex_val gs @ drop (f + b + length gs) buf)"
  using assms
proof (induction gs arbitrary: b buf)
  case Nil
  then show ?case
    by (subst ipv6_back_loop.simps) simp
next
  case (Cons g gs)
  let ?rest = "concat (map (\<lambda>g. 0x3A # g) gs)"
  have g: "hex_group g" "g \<noteq> []" "hd g \<noteq> 0x3A"
    using Cons.prems(1) hex_group_no_colon by auto
  then obtain c r where c: "g = c # r" "c \<noteq> 0x3A"
    by (cases g) auto
  have "parse_ipv6_group (g @ ?rest) = Some (hex_val g, ?rest)"
    using g(1) by (intro parse_ipv6_group_hex) (cases gs; auto)+
  moreover have "ipv6_back_loop f (b + 1) ?rest (buf[f + b := hex_val g]) =
      Some ((b + 1 + length gs, []), take (f + (b + 1)) (buf[f + b := hex_val g]) @ map hex_val gs @
        drop (f + (b + 1) + length gs) (buf[f + b := hex_val g]))"
    using Cons.prems by (intro Cons.IH) auto
  ultimately show ?case
    using Cons.prems(2) c list_update_window[of "f + b" buf "map hex_val gs" "hex_val g"]
    by (subst ipv6_back_loop.simps) (simp add: IPV6_COMPRESSOR_def add.assoc)
qed

lemma join_colons: "gs \<noteq> [] \<Longrightarrow> d # join d gs = concat (map (\<lambda>g. d # g) gs)"
  by (induction d gs rule: join.induct) auto

text \<open>The expansion of the compressor: shift the back groups to the end and zero the gap.\<close>

lemma expand_compressor:
  assumes "length fs + length bs < length buf" and "buf = fs @ bs @ junk"
  shows "fill_n (length fs) (length buf - length fs - length bs) 0
           (take (length fs) buf @ shift_right (length buf - length fs - length bs) (drop (length fs) buf)) =
         fs @ replicate (length buf - length fs - length bs) 0 @ bs"
proof (cases "bs = []")
  case True
  then show ?thesis
    using assms by (simp add: fill_n_def shift_right_def)
next
  case False
  have "length junk = length buf - length fs - length bs"
    using assms(2) by simp
  then show ?thesis
    using assms False by (simp add: fill_n_def shift_right_def)
qed

section \<open>Theorems\<close>

lemma text_no_compressor: "\<forall>g \<in> set gs. hex_group g \<Longrightarrow> gs \<noteq> [] \<Longrightarrow> \<not> starts_with IPV6_COMPRESSOR (join 0x3A gs @ tail)"
proof -
  assume gs: "\<forall>g \<in> set gs. hex_group g" "gs \<noteq> []"
  then obtain g hs where g: "gs = g # hs"
    by (cases gs) auto
  then obtain c r where "g = c # r" "c \<noteq> 0x3A"
    using gs(1) hex_group_no_colon[of g] by (cases g) auto
  then show ?thesis
    by (cases hs) (simp_all add: g IPV6_COMPRESSOR_def)
qed

lemma ipv6_front_text:
  assumes "\<forall>g \<in> set gs. hex_group g" and "length gs \<le> length buf" and "tail = [] \<or> starts_with IPV6_COMPRESSOR tail"
    and "gs \<noteq> [] \<or> tail \<noteq> []"
  shows "ipv6_parse_front_groups (join 0x3A gs @ tail) buf =
           Some ((tail \<noteq> [], length gs, drop 1 tail), map hex_val gs @ drop (length gs) buf)"
  using assms ipv6_front_loop_text[of gs 0 buf tail] text_no_compressor[of gs tail]
  by (cases "gs = []") (auto simp: ipv6_parse_front_groups_def)

lemma ipv6_back_text:
  assumes "\<forall>g \<in> set gs. hex_group g" and "f + length gs < length buf"
  shows "ipv6_back_loop f 0 (0x3A # join 0x3A gs) buf =
           Some ((length gs, []), take f buf @ map hex_val gs @ drop (f + length gs) buf)"
proof (cases "gs = []")
  case True
  then show ?thesis
    using assms(2) by (subst ipv6_back_loop.simps) (simp add: IPV6_COMPRESSOR_def)
next
  case False
  then show ?thesis
    using ipv6_back_loop_text[of gs f 0 buf] assms by (simp add: join_colons)
qed

lemma Ipv6Addr_parse_full:
  assumes "\<forall>g \<in> set gs. hex_group g" and "length gs = 8" and "length buf = 8"
  shows "Ipv6Addr_parse_regular buf (join 0x3A gs) = Some (Ipv6Addr_from_groups (map hex_val gs))"
proof -
  have "gs \<noteq> []"
    using assms(2) by auto
  then show ?thesis
    using ipv6_front_text[of gs buf "[]"] assms by (auto simp: Ipv6Addr_parse_regular_def)
qed

lemma Ipv6Addr_parse_compressed:
  assumes "\<forall>g \<in> set (fs @ bs). hex_group g" and "length fs + length bs \<le> 7" and "length buf = 8"
  shows "Ipv6Addr_parse_regular buf (join 0x3A fs @ IPV6_COMPRESSOR @ join 0x3A bs) =
           Some (Ipv6Addr_from_groups
             (map hex_val fs @ replicate (8 - length fs - length bs) 0 @ map hex_val bs))"
proof -
  let ?buf = "map hex_val fs @ drop (length fs) buf"
  let ?buf2 = "map hex_val fs @ map hex_val bs @ drop (length fs + length bs) buf"
  have "ipv6_parse_front_groups (join 0x3A fs @ IPV6_COMPRESSOR @ join 0x3A bs) buf =
      Some ((True, length fs, 0x3A # join 0x3A bs), ?buf)"
    using ipv6_front_text[of fs buf "IPV6_COMPRESSOR @ join 0x3A bs"] assms by (simp add: IPV6_COMPRESSOR_def)
  moreover have "ipv6_back_loop (length fs) 0 (0x3A # join 0x3A bs) ?buf = Some ((length bs, []), ?buf2)"
    using ipv6_back_text[of bs "length fs" ?buf] assms by (simp add: add.commute)
  moreover have "length ?buf2 = 8"
    using assms by simp
  moreover have "fill_n (length fs) (8 - length fs - length bs) 0
        (take (length fs) ?buf2 @ shift_right (8 - length fs - length bs) (drop (length fs) ?buf2)) =
      map hex_val fs @ replicate (8 - length fs - length bs) 0 @ map hex_val bs"
    using expand_compressor[of "map hex_val fs" "map hex_val bs" ?buf2 "drop (length fs + length bs) buf"]
      assms(2,3) by simp
  ultimately show ?thesis
    using assms(2,3) by (simp add: Ipv6Addr_parse_regular_def Let_def)
qed

text \<open>
  Claim C30. The full form of IPv6, eight groups of one to four hexadecimal digits between
  colons, is parsed to these groups; the compressed form with at most seven groups is parsed
  to the same groups with the zeros of the compressor in between. This holds for every
  content of the uninitialised expansion buffer.
\<close>

theorem Ipv6Addr_parse_regular_correct:
  assumes "\<forall>g \<in> set (fs @ bs). hex_group g" and "length fs + length bs \<le> 7"
    and "\<forall>g \<in> set gs. hex_group g" and "length gs = 8" and "length buf = 8"
  shows "Ipv6Addr_parse_regular buf (join 0x3A gs) = Some (Ipv6Addr_from_groups (map hex_val gs)) \<and>
         Ipv6Addr_parse_regular buf (join 0x3A fs @ IPV6_COMPRESSOR @ join 0x3A bs) =
           Some (Ipv6Addr_from_groups
             (map hex_val fs @ replicate (8 - length fs - length bs) 0 @ map hex_val bs))"
  using Ipv6Addr_parse_full[OF assms(3-5)] Ipv6Addr_parse_compressed[OF assms(1,2,5)] by blast

theorem Ipv6Addr_parse_regular_correct_witness:
  "Ipv6Addr_parse_regular (replicate 8 7) (join 0x3A [[0x66, 0x65]] @ IPV6_COMPRESSOR @ join 0x3A [[0x31]]) =
     Some (Ipv6Addr_from_groups [0xFE, 0, 0, 0, 0, 0, 0, 1])"
proof -
  have h: "hex_group [0x66, 0x65]" "hex_group [0x31]" "hex_val [0x66, 0x65] = 0xFE" "hex_val [0x31] = 1"
    by (simp_all add: hex_group_def hex_char_to_num_def hex_val_def)
  show ?thesis
    using Ipv6Addr_parse_regular_correct[of "[[0x66, 0x65]]" "[[0x31]]" "replicate 8 [0x31]" "replicate 8 7"] h
    by (simp add: numeral_eq_Suc)
qed

section \<open>Mapped addresses\<close>

lemma dec_group_hex: "dec_group g \<Longrightarrow> hex_group g"
proof -
  assume g: "dec_group g"
  have "hex_char_to_num c \<noteq> None" if "digit c" for c
    using that by (simp add: digit_def hex_char_to_num_def)
  then show "hex_group g"
    using g by (auto simp: dec_group_def hex_group_def)
qed

text \<open>
  An IPv4-mapped address, the text of a dotted quad after \<^verbatim>\<open>::ffff:\<close>, is rejected by
  the parser of regular addresses and parsed by \<^verbatim>\<open>Ipv6Addr::parse\<close> to ten zero octets, two
  octets 0xFF and the octets of the quad.
\<close>

theorem Ipv6Addr_parse_mapped:
  assumes "Ipv4Addr_parse little s = Some a" and "length buf = 8"
  shows "Ipv6Addr_parse_regular buf (IPV6_COMPRESSOR @ [0x66, 0x66, 0x66, 0x66, 0x3A] @ s) = None \<and>
         Ipv6Addr_parse little buf (IPV6_COMPRESSOR @ [0x66, 0x66, 0x66, 0x66, 0x3A] @ s) =
           Some (Ipv6Addr_from_bytes (replicate 10 0 @ [0xFF, 0xFF] @ mem_bytes little 4 (ipv4_m_value a)))"
proof -
  obtain gs where gs: "length gs = 4" "s = join 0x2E gs" "\<forall>g \<in> set gs. dec_group g"
    using assms(1) unfolding Ipv4Addr_parse_groups by blast
  then obtain g h hs where ghs: "gs = g # h # hs"
    by (cases gs; cases "tl gs") auto
  let ?t = "join 0x2E (h # hs)"
  have s: "s = g @ 0x2E # ?t"
    using gs(2) ghs by simp
  have g: "hex_group g" "g \<noteq> []" "hd g \<noteq> 0x3A"
    using gs(3) ghs dec_group_hex hex_group_no_colon by auto
  have p1: "parse_ipv6_group ([0x66, 0x66, 0x66, 0x66] @ 0x3A # s) = Some (hex_val [0x66, 0x66, 0x66, 0x66], 0x3A # s)"
    by (rule parse_ipv6_group_hex) (simp_all add: hex_group_def hex_char_to_num_def)
  have p2: "parse_ipv6_group s = Some (hex_val g, 0x2E # ?t)"
    unfolding s by (rule parse_ipv6_group_hex) (simp_all add: g)
  have b3: "ipv6_back_loop 0 2 (0x2E # ?t) buf' = None" for buf'
    by (subst ipv6_back_loop.simps) simp
  have b2: "ipv6_back_loop 0 1 (0x3A # s) buf' = None" if "length buf' = 8" for buf'
    using p2 b3 that g(2,3) by (subst ipv6_back_loop.simps) (auto simp: IPV6_COMPRESSOR_def s starts_with_def numeral_2_eq_2)
  have b1: "ipv6_back_loop 0 0 (0x3A # [0x66, 0x66, 0x66, 0x66] @ 0x3A # s) buf = None"
    using p1 b2 assms(2) by (subst ipv6_back_loop.simps) (simp add: IPV6_COMPRESSOR_def)
  have reg: "Ipv6Addr_parse_regular buf (IPV6_COMPRESSOR @ [0x66, 0x66, 0x66, 0x66, 0x3A] @ s) = None"
    using b1 by (simp add: Ipv6Addr_parse_regular_def ipv6_parse_front_groups_def IPV6_COMPRESSOR_def)
  then show ?thesis
    using assms(1) by (simp add: Ipv6Addr_parse_def Ipv6Addr_parse_mapped_ipv4_def IPV6_COMPRESSOR_def
      Ipv4Addr_value_def)
qed

theorem Ipv6Addr_parse_mapped_witness:
  "\<exists>a. Ipv6Addr_parse True (replicate 8 0) (IPV6_COMPRESSOR @ [0x66, 0x66, 0x66, 0x66, 0x3A] @
         [0x31, 0x2E, 0x32, 0x2E, 0x33, 0x2E, 0x34]) = Some a"
proof -
  have "\<exists>a. Ipv4Addr_parse True [0x31, 0x2E, 0x32, 0x2E, 0x33, 0x2E, 0x34] = Some a"
    unfolding Ipv4Addr_parse_groups
    by (rule exI, rule exI[of _ "[[0x31], [0x32], [0x33], [0x34]]"])
       (simp add: dec_group_def dec_val_def digit_def)
  then show ?thesis
    using Ipv6Addr_parse_mapped[of True "[0x31, 0x2E, 0x32, 0x2E, 0x33, 0x2E, 0x34]" _ "replicate 8 0"] by auto
qed

text \<open>
  The character between two groups is dropped without being looked at: the text
  \<^verbatim>\<open>1x2y3z4:5:6:7:8\<close>, which is no IPv6 address, is accepted and read like
  \<^verbatim>\<open>1:2:3:4:5:6:7:8\<close>.
\<close>

theorem Ipv6Addr_parse_any_separator:
  "Ipv6Addr_parse_regular (replicate 8 0)
     [0x31, 0x78, 0x32, 0x79, 0x33, 0x7A, 0x34, 0x3A, 0x35, 0x3A, 0x36, 0x3A, 0x37, 0x3A, 0x38] =
   Some (Ipv6Addr_from_groups [1, 2, 3, 4, 5, 6, 7, 8])"
  by code_simp

end
