(* ===== verification/Corosig_Result.thy ===== *)
theory Corosig_Result
  imports Corosig_Prelude
begin

text \<open>
  The error-as-value type of \<^verbatim>\<open>Result.hpp\<close>, its accessors and conversions, the
  \<^verbatim>\<open>COROSIG_TRY\<close> macros, and the basic error types of \<^verbatim>\<open>ErrorTypes.hpp\<close>.
\<close>

section \<open>Result\<close>

datatype ('r, 'e) result = Nothing | Ok 'r | Failure 'e

definition is_nothing :: "('r, 'e) result \<Rightarrow> bool" where
  "is_nothing r = (case r of Nothing \<Rightarrow> True | _ \<Rightarrow> False)"

definition is_ok :: "('r, 'e) result \<Rightarrow> bool" where
  "is_ok r = (case r of Ok _ \<Rightarrow> True | _ \<Rightarrow> False)"

text \<open>
  The accessors assert the alternative they need; \<^verbatim>\<open>error()\<close> on a result that holds nothing
  passes its assertion and dereferences a null pointer, which is \<^term>\<open>None\<close> as well.
\<close>

definition result_value :: "('r, 'e) result \<Rightarrow> 'r option" where
  "result_value r = c_assert (is_ok r) (case r of Ok v \<Rightarrow> Some v | _ \<Rightarrow> None)"

definition result_error :: "('r, 'e) result \<Rightarrow> 'e option" where
  "result_error r = c_assert (\<not> is_ok r) (case r of Failure e \<Rightarrow> Some e | _ \<Rightarrow> None)"

text \<open>The converting constructor, with the conversions of the value and of the error.\<close>

definition result_convert ::
  "('r \<Rightarrow> 's) \<Rightarrow> ('e \<Rightarrow> 'f) \<Rightarrow> ('r, 'e) result \<Rightarrow> ('s, 'f) result option" where
  "result_convert conv_ok conv_err r =
     (if \<not> is_ok r then map_option (\<lambda>e. Failure (conv_err e)) (result_error r)
      else map_option (\<lambda>v. Ok (conv_ok v)) (result_value r))"

text \<open>
  \<^verbatim>\<open>COROSIG_TRY(name, expr); rest\<close>: the rest runs on the value, an error is returned
  unchanged. Computations that may assert or run forever are in the option monad, so the
  macro sequences two of them.
\<close>

definition COROSIG_TRY ::
  "('a, 'e) result option \<Rightarrow> ('a \<Rightarrow> ('b, 'e) result option) \<Rightarrow> ('b, 'e) result option" where
  "COROSIG_TRY m k = Option.bind m (\<lambda>r.
     if \<not> is_ok r then map_option Failure (result_error r) else Option.bind (result_value r) k)"

lemma result_simps [simp]:
  "is_ok (Ok v)" "\<not> is_ok (Failure e)" "\<not> is_ok Nothing"
  "is_nothing Nothing" "\<not> is_nothing (Ok v)" "\<not> is_nothing (Failure e)"
  "result_value (Ok v) = Some v" "result_value (Failure e) = None" "result_value Nothing = None"
  "result_error (Failure e) = Some e" "result_error (Ok v) = None" "result_error Nothing = None"
  by (simp_all add: is_ok_def is_nothing_def result_value_def result_error_def)

lemma COROSIG_TRY_simps [simp]:
  "COROSIG_TRY None k = None"
  "COROSIG_TRY (Some (Ok v)) k = k v"
  "COROSIG_TRY (Some (Failure e)) k = Some (Failure e)"
  "COROSIG_TRY (Some Nothing) k = None"
  by (simp_all add: COROSIG_TRY_def)

lemma COROSIG_TRY_Ok:
  "COROSIG_TRY m k = Some (Ok w) \<longleftrightarrow> (\<exists>v. m = Some (Ok v) \<and> k v = Some (Ok w))"
proof (cases m)
  case (Some r)
  then show ?thesis by (cases r) auto
qed simp

lemma COROSIG_TRY_Failure:
  "COROSIG_TRY m k = Some (Failure e) \<longleftrightarrow>
     m = Some (Failure e) \<or> (\<exists>v. m = Some (Ok v) \<and> k v = Some (Failure e))"
proof (cases m)
  case (Some r)
  then show ?thesis by (cases r) auto
qed simp

text \<open>Sequencing with the macro obeys the laws of a monad.\<close>

lemma COROSIG_TRY_assoc:
  "COROSIG_TRY (COROSIG_TRY m f) g = COROSIG_TRY m (\<lambda>x. COROSIG_TRY (f x) g)"
proof (cases m)
  case (Some r)
  then show ?thesis by (cases r) auto
qed simp

lemma COROSIG_TRY_return: "COROSIG_TRY m (\<lambda>x. Some (Ok x)) = m \<or> m = Some Nothing"
proof (cases m)
  case (Some r)
  then show ?thesis by (cases r) auto
qed simp

section \<open>Errors\<close>

datatype AllocationError = AllocationError

record SyscallError =
  errno_value :: int

end
