(* ===== verification/Corosig_Vector.thy ===== *)
theory Corosig_Vector
  imports Corosig_Result Corosig_Allocator_Props
begin

text \<open>
  The growable array of \<^verbatim>\<open>container/Vector.hpp\<close>, generic in the allocator and in the element
  type like the template: an environment holds the two operations of the allocator on its state
  and the size and alignment of an element. The buffer is a map from indices to slots; a slot
  is raw memory, an object with its value, or an object whose value has been moved away.
  \<^term>\<open>None\<close> is a failed assertion or an operation on memory that holds no object.
\<close>

section \<open>State\<close>

datatype 'v slot = Raw | Obj 'v | Moved

record 'v Vector =
  m_data :: "nat option"
  m_size :: nat
  m_capacity :: nat
  m_slots :: "nat \<Rightarrow> 'v slot"

record 's vector_env =
  op_allocate :: "u64 \<Rightarrow> u64 \<Rightarrow> 's \<Rightarrow> (nat option \<times> 's) option"
  op_deallocate :: "nat option \<Rightarrow> 's \<Rightarrow> 's option"
  sizeof_T :: u64
  alignof_T :: u64

text \<open>\<^verbatim>\<open>size_t\<close> arithmetic wraps.\<close>

definition size_t :: "nat \<Rightarrow> nat" where
  "size_t n = n mod 2 ^ 64"

section \<open>Objects in slots\<close>

text \<open>\<^verbatim>\<open>new (dst) T{std::move(src)}\<close> on two slots of one buffer, and \<^verbatim>\<open>x.~T()\<close>.\<close>

definition move_slot :: "nat \<Rightarrow> nat \<Rightarrow> (nat \<Rightarrow> 'v slot) \<Rightarrow> (nat \<Rightarrow> 'v slot) option" where
  "move_slot dst src m = c_assert (m src \<noteq> Raw \<and> dst \<noteq> src) (Some (m(dst := m src, src := Moved)))"

definition destroy_slot :: "nat \<Rightarrow> (nat \<Rightarrow> 'v slot) \<Rightarrow> (nat \<Rightarrow> 'v slot) option" where
  "destroy_slot i m = c_assert (m i \<noteq> Raw) (Some (m(i := Raw)))"

text \<open>The loops that move the elements into another buffer.\<close>

primrec relocate :: "nat \<Rightarrow> (nat \<Rightarrow> 'v slot) \<Rightarrow> (nat \<Rightarrow> 'v slot) \<Rightarrow> (nat \<Rightarrow> 'v slot) option" where
  "relocate 0 src dst = Some dst"
| "relocate (Suc n) src dst =
     Option.bind (relocate n src dst) (\<lambda>dst. c_assert (src n \<noteq> Raw) (Some (dst(n := src n))))"

section \<open>Operations\<close>

definition Vector_make :: "'v Vector" where
  "Vector_make = \<lparr>m_data = None, m_size = 0, m_capacity = 0, m_slots = (\<lambda>_. Raw)\<rparr>"

definition Vector_move :: "'v Vector \<Rightarrow> 'v Vector \<times> 'v Vector" where
  "Vector_move rhs = (rhs, rhs\<lparr>m_data := None, m_size := 0, m_capacity := 0\<rparr>)"

definition at_index :: "nat \<Rightarrow> 'v Vector \<Rightarrow> 'v slot option" where
  "at_index i v = c_assert (i < m_size v) (Some (m_slots v i))"

definition front :: "'v Vector \<Rightarrow> 'v slot option" where
  "front v = c_assert (m_size v \<noteq> 0) (Some (m_slots v 0))"

definition back_elem :: "'v Vector \<Rightarrow> 'v slot option" where
  "back_elem v = c_assert (m_size v \<noteq> 0) (Some (m_slots v (m_size v - 1)))"

definition pop_back :: "'v Vector \<Rightarrow> 'v Vector option" where
  "pop_back v = do {
     _ \<leftarrow> back_elem v;
     m \<leftarrow> destroy_slot (m_size v - 1) (m_slots v);
     Some (v\<lparr>m_slots := m, m_size := m_size v - 1\<rparr>)
   }"

primrec pop_times :: "nat \<Rightarrow> 'v Vector \<Rightarrow> 'v Vector option" where
  "pop_times 0 v = Some v"
| "pop_times (Suc n) v = Option.bind (pop_back v) (pop_times n)"

definition clear :: "'v Vector \<Rightarrow> 'v Vector option" where
  "clear v = pop_times (m_size v) v"

definition Vector_destroy :: "'s vector_env \<Rightarrow> 'v Vector \<times> 's \<Rightarrow> 's option" where
  "Vector_destroy E = (\<lambda>(v, s). Option.bind (clear v) (\<lambda>v. op_deallocate E (m_data v) s))"

definition Vector_move_assign :: "'s vector_env \<Rightarrow> 'v Vector \<Rightarrow> 'v Vector \<times> 's \<Rightarrow> ('v Vector \<times> 's) option" where
  "Vector_move_assign E rhs = (\<lambda>(v, s). map_option (\<lambda>s. (fst (Vector_move rhs), s)) (Vector_destroy E (v, s)))"

definition vector_allocate :: "'s vector_env \<Rightarrow> nat \<Rightarrow> 's \<Rightarrow> ((nat, AllocationError) result \<times> 's) option" where
  "vector_allocate E count s =
     Option.bind (op_allocate E (word_of_nat count * sizeof_T E) (alignof_T E) s)
       (\<lambda>(p, s). Some (case p of None \<Rightarrow> Failure AllocationError | Some new_mem \<Rightarrow> Ok new_mem, s))"

text \<open>
  The operations that can fail return the result with the new vector and allocator state, so
  that an early return keeps what has been done.
\<close>

type_synonym ('v, 's) vector_result = "((unit, AllocationError) result \<times> 'v Vector \<times> 's) option"

definition on_ok :: "('v, 's) vector_result \<Rightarrow> ('v Vector \<Rightarrow> 's \<Rightarrow> ('v, 's) vector_result) \<Rightarrow> ('v, 's) vector_result" where
  "on_ok m k = Option.bind m (\<lambda>(r, v, s). case r of Ok _ \<Rightarrow> k v s | _ \<Rightarrow> Some (r, v, s))"

definition reserve :: "'s vector_env \<Rightarrow> nat \<Rightarrow> 'v Vector \<Rightarrow> 's \<Rightarrow> ('v, 's) vector_result" where
  "reserve E count v s =
     (if count \<le> m_capacity v then Some (Ok (), v, s)
      else Option.bind (vector_allocate E count s) (\<lambda>(r, s). case r of
        Nothing \<Rightarrow> None
      | Failure e \<Rightarrow> Some (Failure e, v, s)
      | Ok new_mem \<Rightarrow> do {
          slots \<leftarrow> relocate (m_size v) (m_slots v) (\<lambda>_. Raw);
          s \<leftarrow> op_deallocate E (m_data v) s;
          Some (Ok (), v\<lparr>m_data := Some new_mem, m_capacity := count, m_slots := slots\<rparr>, s)
        }))"

definition push_back :: "'s vector_env \<Rightarrow> 'v \<Rightarrow> 'v Vector \<Rightarrow> 's \<Rightarrow> ('v, 's) vector_result" where
  "push_back E x v s =
     on_ok (if m_size v = m_capacity v then reserve E (max 16 (size_t (m_size v * 2))) v s
            else Some (Ok (), v, s))
       (\<lambda>v s. Some (Ok (), v\<lparr>m_size := m_size v + 1, m_slots := (m_slots v)(m_size v := Obj x)\<rparr>, s))"

definition resize_uninitialized :: "'s vector_env \<Rightarrow> nat \<Rightarrow> 'v Vector \<Rightarrow> 's \<Rightarrow> ('v, 's) vector_result" where
  "resize_uninitialized E count v s =
     (if count = m_size v then Some (Ok (), v, s)
      else if count < m_size v then map_option (\<lambda>v. (Ok (), v, s)) (pop_times (m_size v - count) v)
      else on_ok (reserve E count v s) (\<lambda>v s. Some (Ok (), v\<lparr>m_size := count\<rparr>, s)))"

primrec push_copies :: "'s vector_env \<Rightarrow> 'v \<Rightarrow> nat \<Rightarrow> 'v Vector \<Rightarrow> 's \<Rightarrow> ('v, 's) vector_result" where
  "push_copies E x 0 v s = Some (Ok (), v, s)"
| "push_copies E x (Suc n) v s = on_ok (push_back E x v s) (push_copies E x n)"

text \<open>\<^verbatim>\<open>resize\<close> for element types that are copied without failure.\<close>

definition resize :: "'s vector_env \<Rightarrow> nat \<Rightarrow> 'v \<Rightarrow> 'v Vector \<Rightarrow> 's \<Rightarrow> ('v, 's) vector_result" where
  "resize E count x v s =
     (if count = m_size v then Some (Ok (), v, s)
      else if count < m_size v then map_option (\<lambda>v. (Ok (), v, s)) (pop_times (m_size v - count) v)
      else on_ok (reserve E (size_t (m_size v + count)) v s)
             (\<lambda>v s. push_copies E x (count - m_size v) v s))"

primrec destroy_range :: "nat \<Rightarrow> nat \<Rightarrow> 'v Vector \<Rightarrow> 'v Vector option" where
  "destroy_range i 0 v = Some v"
| "destroy_range i (Suc n) v = do {
     _ \<leftarrow> at_index i v;
     m \<leftarrow> destroy_slot i (m_slots v);
     destroy_range (i + 1) n (v\<lparr>m_slots := m\<rparr>)
   }"

primrec shift_left :: "nat \<Rightarrow> nat \<Rightarrow> nat \<Rightarrow> 'v Vector \<Rightarrow> 'v Vector option" where
  "shift_left first_idx last_idx 0 v = Some v"
| "shift_left first_idx last_idx (Suc n) v = do {
     _ \<leftarrow> at_index first_idx v;
     _ \<leftarrow> at_index last_idx v;
     m \<leftarrow> move_slot first_idx last_idx (m_slots v);
     shift_left (first_idx + 1) (last_idx + 1) n (v\<lparr>m_slots := m\<rparr>)
   }"

text \<open>Iterators are their distances from \<^verbatim>\<open>begin()\<close>. The result is the returned iterator.\<close>

definition erase :: "nat \<Rightarrow> nat \<Rightarrow> 'v Vector \<Rightarrow> (nat \<times> 'v Vector) option" where
  "erase first_idx last_idx v = c_assert (last_idx \<ge> first_idx) (do {
     v \<leftarrow> destroy_range first_idx (last_idx - first_idx) v;
     v \<leftarrow> c_assert (last_idx \<le> m_size v) (shift_left first_idx last_idx (m_size v - last_idx) v);
     Some (first_idx, v\<lparr>m_size := m_size v - (last_idx - first_idx)\<rparr>)
   })"

text \<open>
  The loop \<^verbatim>\<open>for (i = size() - 1; i >= posi + values.size(); --i)\<close>. Below zero the index
  wraps to the largest \<^verbatim>\<open>size_t\<close>, whose access fails the assertion of \<^verbatim>\<open>operator[]\<close>.
\<close>

fun shift_up :: "nat \<Rightarrow> nat \<Rightarrow> nat \<Rightarrow> 'v Vector \<Rightarrow> 'v Vector option" where
  "shift_up i lo n v =
     (if i < lo then Some v
      else do {
        _ \<leftarrow> at_index i v;
        _ \<leftarrow> at_index (i - n) v;
        m \<leftarrow> move_slot i (i - n) (m_slots v);
        m \<leftarrow> destroy_slot (i - n) m;
        (if i = 0 then None else shift_up (i - 1) lo n (v\<lparr>m_slots := m\<rparr>))
      })"

declare shift_up.simps [simp del]

primrec write_values :: "nat \<Rightarrow> 'v list \<Rightarrow> 'v Vector \<Rightarrow> 'v Vector option" where
  "write_values posi [] v = Some v"
| "write_values posi (x # xs) v = do {
     _ \<leftarrow> at_index posi v;
     write_values (posi + 1) xs (v\<lparr>m_slots := (m_slots v)(posi := Obj x)\<rparr>)
   }"

definition insert_range :: "'s vector_env \<Rightarrow> nat \<Rightarrow> 'v list \<Rightarrow> 'v Vector \<Rightarrow> 's \<Rightarrow>
    ((nat, AllocationError) result \<times> 'v Vector \<times> 's) option" where
  "insert_range E posi values v s =
     Option.bind
       (on_ok (if size_t (m_size v + length values) < m_capacity v
               then reserve E (max 16 (size_t (m_size v * 2))) v s else Some (Ok (), v, s))
         (\<lambda>v s. resize_uninitialized E (size_t (m_size v + length values)) v s))
       (\<lambda>(r, v, s). case r of
          Nothing \<Rightarrow> None
        | Failure e \<Rightarrow> Some (Failure e, v, s)
        | Ok _ \<Rightarrow> do {
            v \<leftarrow> (if m_size v = 0 then None
                   else shift_up (m_size v - 1) (posi + length values) (length values) v);
            v \<leftarrow> write_values posi values v;
            Some (Ok posi, v, s)
          })"

definition insert_one :: "'s vector_env \<Rightarrow> nat \<Rightarrow> 'v \<Rightarrow> 'v Vector \<Rightarrow> 's \<Rightarrow>
    ((nat, AllocationError) result \<times> 'v Vector \<times> 's) option" where
  "insert_one E posi x v s = insert_range E posi [x] v s"

definition shrink_to_fit :: "'s vector_env \<Rightarrow> 'v Vector \<Rightarrow> 's \<Rightarrow> ('v, 's) vector_result" where
  "shrink_to_fit E v s =
     Option.bind (resize_uninitialized E (m_size v) Vector_make s) (\<lambda>(r, new_vec, s). case r of
        Nothing \<Rightarrow> None
      | Failure e \<Rightarrow> map_option (\<lambda>s. (Failure e, v, s)) (Vector_destroy E (new_vec, s))
      | Ok _ \<Rightarrow> do {
          slots \<leftarrow> relocate (m_size v) (m_slots v) (m_slots new_vec);
          (v, s) \<leftarrow> Vector_move_assign E (new_vec\<lparr>m_slots := slots\<rparr>)
                     (v\<lparr>m_slots := (\<lambda>i. if i < m_size v then Moved else m_slots v i)\<rparr>, s);
          Some (Ok (), v, s)
        })"

text \<open>
  Copies: \<^term>\<open>cl\<close> is \<^verbatim>\<open>corosig::clone\<close> of the element type, which may itself allocate and
  fail. A failing copy destroys the vector built so far.
\<close>

type_synonym ('v, 's) cloner = "'v \<Rightarrow> 's \<Rightarrow> (('v, AllocationError) result \<times> 's) option"

primrec push_clones :: "'s vector_env \<Rightarrow> ('v, 's) cloner \<Rightarrow> 'v list \<Rightarrow> 'v Vector \<Rightarrow> 's \<Rightarrow> ('v, 's) vector_result" where
  "push_clones E cl [] v s = Some (Ok (), v, s)"
| "push_clones E cl (x # xs) v s = Option.bind (cl x s) (\<lambda>(r, s). case r of
     Nothing \<Rightarrow> None
   | Failure e \<Rightarrow> Some (Failure e, v, s)
   | Ok y \<Rightarrow> on_ok (push_back E y v s) (push_clones E cl xs))"

primrec read_range :: "nat \<Rightarrow> nat \<Rightarrow> 'v Vector \<Rightarrow> 'v list option" where
  "read_range i 0 v = Some []"
| "read_range i (Suc n) v =
     (case m_slots v i of Obj x \<Rightarrow> map_option ((#) x) (read_range (i + 1) n v) | _ \<Rightarrow> None)"

definition Vector_clone :: "'s vector_env \<Rightarrow> ('v, 's) cloner \<Rightarrow> 'v Vector \<Rightarrow> 's \<Rightarrow>
    (('v Vector, AllocationError) result \<times> 's) option" where
  "Vector_clone E cl v s = do {
     xs \<leftarrow> read_range 0 (m_size v) v;
     (r, copies, s) \<leftarrow> on_ok (reserve E (m_size v) Vector_make s) (push_clones E cl xs);
     (case r of
        Nothing \<Rightarrow> None
      | Failure e \<Rightarrow> map_option (\<lambda>s. (Failure e, s)) (Vector_destroy E (copies, s))
      | Ok _ \<Rightarrow> Some (Ok copies, s))
   }"

definition assign :: "'s vector_env \<Rightarrow> ('v, 's) cloner \<Rightarrow> bool \<Rightarrow> 'v list \<Rightarrow> 'v Vector \<Rightarrow> 's \<Rightarrow> ('v, 's) vector_result" where
  "assign E cl sized values v s = do {
     (r, new_this, s) \<leftarrow> on_ok (if sized then reserve E (length values) Vector_make s else Some (Ok (), Vector_make, s))
                              (push_clones E cl values);
     (case r of
        Nothing \<Rightarrow> None
      | Failure e \<Rightarrow> map_option (\<lambda>s. (Failure e, v, s)) (Vector_destroy E (new_this, s))
      | Ok _ \<Rightarrow> map_option (\<lambda>(v, s). (Ok (), v, s)) (Vector_move_assign E new_this (v, s)))
   }"

section \<open>Contents\<close>

primrec obj :: "'v slot \<Rightarrow> 'v option" where
  "obj Raw = None" | "obj (Obj x) = Some x" | "obj Moved = None"

definition elems :: "'v Vector \<Rightarrow> 'v list" where
  "elems v = map (\<lambda>i. the (obj (m_slots v i))) [0..<m_size v]"

text \<open>
  The slots below the size hold objects with values, the others hold none, and the size does
  not exceed the capacity.
\<close>

definition vec_slots :: "'v Vector \<Rightarrow> bool" where
  "vec_slots v \<longleftrightarrow> m_size v \<le> m_capacity v \<and> (\<forall>i < m_size v. obj (m_slots v i) \<noteq> None) \<and>
     (\<forall>i \<ge> m_size v. obj (m_slots v i) = None)"

lemma length_elems [simp]: "length (elems v) = m_size v"
  by (simp add: elems_def)

lemma vec_slots_nth: "vec_slots v \<Longrightarrow> i < m_size v \<Longrightarrow> m_slots v i = Obj (elems v ! i)"
  by (cases "m_slots v i") (auto simp: vec_slots_def elems_def)

lemma vec_slots_outside: "vec_slots v \<Longrightarrow> m_size v \<le> i \<Longrightarrow> m_slots v i \<noteq> Obj x"
  by (auto simp: vec_slots_def)

lemma vec_slots_not_Raw: "vec_slots v \<Longrightarrow> i < m_size v \<Longrightarrow> m_slots v i \<noteq> Raw"
  using vec_slots_nth by fastforce

lemma elems_eqI: "m_size v = length xs \<Longrightarrow> (\<And>i. i < length xs \<Longrightarrow> m_slots v i = Obj (xs ! i)) \<Longrightarrow> elems v = xs"
  by (auto simp: elems_def intro: nth_equalityI)

lemma vec_slotsI:
  assumes "m_size v = length xs" and "\<And>i. i < length xs \<Longrightarrow> m_slots v i = Obj (xs ! i)"
    and "\<And>i x. length xs \<le> i \<Longrightarrow> m_slots v i \<noteq> Obj x" and "length xs \<le> m_capacity v"
  shows "vec_slots v \<and> elems v = xs"
proof -
  have "obj (m_slots v i) = None" if "length xs \<le> i" for i
    using assms(3)[OF that] by (cases "m_slots v i") auto
  then show ?thesis
    using elems_eqI[OF assms(1,2)] assms by (auto simp: vec_slots_def)
qed

lemma relocate_ok:
  "\<forall>i < n. src i \<noteq> Raw \<Longrightarrow> relocate n src dst = Some (\<lambda>i. if i < n then src i else dst i)"
  by (induction n) (auto simp: less_Suc_eq)

lemma pop_back_ok:
  assumes "vec_slots v" and "m_size v \<noteq> 0"
  shows "\<exists>v'. pop_back v = Some v' \<and> vec_slots v' \<and> elems v' = butlast (elems v) \<and>
    m_data v' = m_data v \<and> m_capacity v' = m_capacity v"
proof -
  let ?v = "v\<lparr>m_slots := (m_slots v)(m_size v - 1 := Raw), m_size := m_size v - 1\<rparr>"
  have "pop_back v = Some ?v"
    using assms vec_slots_not_Raw[OF assms(1), of "m_size v - 1"]
    by (simp add: pop_back_def back_elem_def destroy_slot_def)
  moreover have "vec_slots ?v \<and> elems ?v = butlast (elems v)"
    using assms vec_slots_nth[OF assms(1)] vec_slots_outside[OF assms(1)]
    by (intro vec_slotsI) (auto simp: vec_slots_def nth_butlast)
  ultimately show ?thesis
    by simp
qed

lemma pop_times_ok:
  assumes "vec_slots v" and "n \<le> m_size v"
  shows "\<exists>v'. pop_times n v = Some v' \<and> vec_slots v' \<and> elems v' = take (m_size v - n) (elems v) \<and>
    m_data v' = m_data v \<and> m_capacity v' = m_capacity v"
  using assms
proof (induction n arbitrary: v)
  case (Suc n)
  obtain v1 where v1: "pop_back v = Some v1" "vec_slots v1" "elems v1 = butlast (elems v)"
      "m_data v1 = m_data v" "m_capacity v1 = m_capacity v"
    using pop_back_ok[OF Suc.prems(1)] Suc.prems(2) by auto
  have sz: "m_size v1 = m_size v - 1"
    using v1(3) by (metis length_butlast length_elems)
  then show ?case
    using Suc.IH[OF v1(2)] Suc.prems(2) v1 by (auto simp: butlast_conv_take)
qed simp

lemma clear_ok:
  assumes "vec_slots v"
  shows "\<exists>v'. clear v = Some v' \<and> m_size v' = 0 \<and> m_data v' = m_data v"
  using pop_times_ok[OF assms, of "m_size v"] by (auto simp: clear_def) (metis length_elems list.size(3))

lemma slots_same: "(\<And>j. m j = m_slots v j) \<Longrightarrow> v = v\<lparr>m_slots := m\<rparr>"
  by (cases v) (auto simp: fun_eq_iff)

lemma destroy_range_ok:
  assumes "i + n \<le> m_size v" and "\<forall>j. i \<le> j \<and> j < i + n \<longrightarrow> m_slots v j \<noteq> Raw"
  shows "destroy_range i n v = Some (v\<lparr>m_slots := (\<lambda>j. if i \<le> j \<and> j < i + n then Raw else m_slots v j)\<rparr>)"
  using assms
proof (induction n arbitrary: i v)
  case (Suc n)
  let ?v = "v\<lparr>m_slots := (m_slots v)(i := Raw)\<rparr>"
  have "destroy_range i (Suc n) v = destroy_range (i + 1) n ?v"
    using Suc.prems by (simp add: at_index_def destroy_slot_def)
  also have "\<dots> = Some (?v\<lparr>m_slots := (\<lambda>j. if i + 1 \<le> j \<and> j < i + 1 + n then Raw else m_slots ?v j)\<rparr>)"
    using Suc.prems by (intro Suc.IH) auto
  also have "(\<lambda>j. if i + 1 \<le> j \<and> j < i + 1 + n then Raw else m_slots ?v j) =
      (\<lambda>j. if i \<le> j \<and> j < i + Suc n then Raw else m_slots v j)"
    by auto
  finally show ?case
    by simp
qed (auto intro!: slots_same)

definition shifted_left :: "nat \<Rightarrow> nat \<Rightarrow> nat \<Rightarrow> (nat \<Rightarrow> 'v slot) \<Rightarrow> nat \<Rightarrow> 'v slot" where
  "shifted_left f l n m j =
     (if f \<le> j \<and> j < f + n then m (j - f + l) else if l \<le> j \<and> j < l + n then Moved else m j)"

lemma shift_left_ok:
  assumes "f < l" and "l + n \<le> m_size v" and "\<forall>j. l \<le> j \<and> j < l + n \<longrightarrow> m_slots v j \<noteq> Raw"
  shows "shift_left f l n v = Some (v\<lparr>m_slots := shifted_left f l n (m_slots v)\<rparr>)"
  using assms
proof (induction n arbitrary: f l v)
  case 0
  then show ?case
    by (auto simp: shifted_left_def intro!: slots_same)
next
  case (Suc n)
  let ?v = "v\<lparr>m_slots := (m_slots v)(f := m_slots v l, l := Moved)\<rparr>"
  have "shift_left f l (Suc n) v = shift_left (f + 1) (l + 1) n ?v"
    using Suc.prems by (simp add: at_index_def move_slot_def)
  also have "\<dots> = Some (?v\<lparr>m_slots := shifted_left (f + 1) (l + 1) n (m_slots ?v)\<rparr>)"
    using Suc.prems by (intro Suc.IH) auto
  also have "shifted_left (f + 1) (l + 1) n (m_slots ?v) = shifted_left f l (Suc n) (m_slots v)"
  proof
    fix j
    have "j - Suc f + Suc l = j - f + l" if "f < j"
      using that by simp
    then show "shifted_left (f + 1) (l + 1) n (m_slots ?v) j = shifted_left f l (Suc n) (m_slots v) j"
      using Suc.prems(1) by (auto simp: shifted_left_def)
  qed
  finally show ?case
    by simp
qed

lemma erase_ok:
  assumes "vec_slots v" and "b < e" and "e \<le> m_size v"
  shows "\<exists>v'. erase b e v = Some (b, v') \<and> vec_slots v' \<and>
    elems v' = take b (elems v) @ drop e (elems v) \<and> m_data v' = m_data v \<and> m_capacity v' = m_capacity v"
proof -
  let ?m = "\<lambda>j. if b \<le> j \<and> j < e then Raw else m_slots v j"
  let ?n = "m_size v - e"
  have "destroy_range b (e - b) v = Some (v\<lparr>m_slots := ?m\<rparr>)"
    using destroy_range_ok[of b "e - b" v] assms vec_slots_not_Raw[OF assms(1)] by simp
  moreover have "shift_left b e ?n (v\<lparr>m_slots := ?m\<rparr>) =
      Some (v\<lparr>m_slots := shifted_left b e ?n ?m\<rparr>)"
    using shift_left_ok[of b e ?n "v\<lparr>m_slots := ?m\<rparr>"] assms vec_slots_not_Raw[OF assms(1)] by simp
  ultimately have er: "erase b e v = Some (b, v\<lparr>m_slots := shifted_left b e ?n ?m,
      m_size := m_size v - (e - b)\<rparr>)"
    using assms by (simp add: erase_def)
  have "vec_slots (v\<lparr>m_slots := shifted_left b e ?n ?m, m_size := m_size v - (e - b)\<rparr>) \<and>
      elems (v\<lparr>m_slots := shifted_left b e ?n ?m, m_size := m_size v - (e - b)\<rparr>) =
      take b (elems v) @ drop e (elems v)"
  proof (rule vec_slotsI)
    fix i
    assume "i < length (take b (elems v) @ drop e (elems v))"
    then show "m_slots (v\<lparr>m_slots := shifted_left b e ?n ?m, m_size := m_size v - (e - b)\<rparr>) i =
        Obj ((take b (elems v) @ drop e (elems v)) ! i)"
      using assms(2,3) vec_slots_nth[OF assms(1)]
      by (auto simp: shifted_left_def nth_append add.commute)
  qed (use assms vec_slots_outside[OF assms(1)] in \<open>auto simp: shifted_left_def vec_slots_def\<close>)
  then show ?thesis
    using er by simp
qed

lemma erase_empty_range:
  assumes "vec_slots v" and "i < m_size v"
  shows "erase i i v = None"
proof -
  obtain n where "m_size v - i = Suc n"
    using assms(2) by (metis Suc_diff_Suc)
  then show ?thesis
    using assms(2) by (simp add: erase_def at_index_def move_slot_def)
qed

section \<open>Making room\<close>

lemma shift_up_ok:
  assumes "0 < n" and "i < m_size v" and "\<forall>j. lo - n \<le> j \<and> j + n \<le> i \<longrightarrow> m_slots v j \<noteq> Raw" and "n \<le> lo"
  shows "\<exists>m. shift_up i lo n v = Some (v\<lparr>m_slots := m\<rparr>) \<and> (\<forall>j < lo - n. m j = m_slots v j) \<and>
    (\<forall>j. lo \<le> j \<and> j \<le> i \<longrightarrow> m j = m_slots v (j - n)) \<and> (\<forall>j > i. lo \<le> j \<longrightarrow> m j = m_slots v j)"
  using assms
proof (induction i arbitrary: v)
  case 0
  then show ?case
    by (simp add: shift_up.simps exI[of _ "m_slots v"])
next
  case (Suc i)
  show ?case
  proof (cases "Suc i < lo")
    case True
    then show ?thesis
      by (auto simp: shift_up.simps intro!: exI[of _ "m_slots v"])
  next
    case False
    let ?v = "v\<lparr>m_slots := (m_slots v)(Suc i := m_slots v (Suc i - n), Suc i - n := Raw)\<rparr>"
    have src: "m_slots v (Suc i - n) \<noteq> Raw"
      using Suc.prems(3,4) False by simp
    have idx: "Suc i - n < m_size v" "Suc i \<noteq> Suc i - n"
      using Suc.prems(1,2) by auto
    have step: "shift_up (Suc i) lo n v = shift_up i lo n ?v"
      using False src Suc.prems idx
      by (subst shift_up.simps) (simp add: at_index_def move_slot_def destroy_slot_def)
    have "\<forall>j. lo - n \<le> j \<and> j + n \<le> i \<longrightarrow> m_slots ?v j \<noteq> Raw"
      using Suc.prems(1,3) by auto
    moreover have "i < m_size ?v"
      using Suc.prems(2) by simp
    ultimately obtain m where m: "shift_up i lo n ?v = Some (?v\<lparr>m_slots := m\<rparr>)" "\<forall>j < lo - n. m j = m_slots ?v j"
        "\<forall>j. lo \<le> j \<and> j \<le> i \<longrightarrow> m j = m_slots ?v (j - n)" "\<forall>j > i. lo \<le> j \<longrightarrow> m j = m_slots ?v j"
      using Suc.IH[OF Suc.prems(1) _ _ Suc.prems(4), of ?v] by blast
    have moved: "m j = m_slots v (j - n)" if "lo \<le> j" "j \<le> Suc i" for j
    proof (cases "j = Suc i")
      case True
      then show ?thesis
        using m(4)[rule_format, of j] that(1) idx(2) by simp
    next
      case False
      then have "j \<le> i" "j - n \<noteq> Suc i" "j - n \<noteq> Suc i - n"
        using that Suc.prems(4) by auto
      then show ?thesis
        using m(3)[rule_format, of j] that(1) by simp
    qed
    have low: "m j = m_slots v j" if "j < lo - n" for j
      using m(2)[rule_format, OF that] that False Suc.prems(4) by auto
    have high: "m j = m_slots v j" if "Suc i < j" "lo \<le> j" for j
      using m(4)[rule_format, of j] that by auto
    show ?thesis
      using step m(1) moved low high by (intro exI[of _ m]) simp
  qed
qed

lemma write_values_ok:
  assumes "p + length xs \<le> m_size v"
  shows "write_values p xs v =
    Some (v\<lparr>m_slots := (\<lambda>j. if p \<le> j \<and> j < p + length xs then Obj (xs ! (j - p)) else m_slots v j)\<rparr>)"
  using assms
proof (induction xs arbitrary: p v)
  case (Cons x xs)
  let ?v = "v\<lparr>m_slots := (m_slots v)(p := Obj x)\<rparr>"
  have "write_values p (x # xs) v = write_values (p + 1) xs ?v"
    using Cons.prems by (simp add: at_index_def)
  also have "\<dots> = Some (?v\<lparr>m_slots := (\<lambda>j. if p + 1 \<le> j \<and> j < p + 1 + length xs then Obj (xs ! (j - (p + 1))) else m_slots ?v j)\<rparr>)"
    using Cons.prems by (intro Cons.IH) simp
  also have "(\<lambda>j. if p + 1 \<le> j \<and> j < p + 1 + length xs then Obj (xs ! (j - (p + 1))) else m_slots ?v j) =
      (\<lambda>j. if p \<le> j \<and> j < p + length (x # xs) then Obj ((x # xs) ! (j - p)) else m_slots v j)"
    by (auto simp: nth_Cons')
  finally show ?case
    by simp
qed (auto intro!: slots_same)

end
