(* ===== verification/Corosig_Vector_Claims.thy ===== *)
theory Corosig_Vector_Claims
  imports Corosig_Vector Corosig_Allocator_Claims
begin

text \<open>
  The vector against the list of its elements, for every allocator that keeps the contract of
  the locale \<^verbatim>\<open>an_allocator\<close>, and then for the fixed-pool allocator.
\<close>

section \<open>Ownership of the buffer\<close>

definition vec_ok :: "('s \<Rightarrow> bool) \<Rightarrow> ('s \<Rightarrow> (nat \<times> nat) set) \<Rightarrow> u64 \<Rightarrow> 'v Vector \<Rightarrow> 's \<Rightarrow> bool" where
  "vec_ok good live sz v s \<longleftrightarrow> good s \<and> vec_slots v \<and>
     (case m_data v of None \<Rightarrow> m_capacity v = 0
      | Some p \<Rightarrow> 0 < m_capacity v \<and> (\<exists>c. (p, c) \<in> live s \<and> m_capacity v * unat sz \<le> c))"

text \<open>The chunks of everyone else.\<close>

definition others :: "('s \<Rightarrow> (nat \<times> nat) set) \<Rightarrow> 'v Vector \<Rightarrow> 's \<Rightarrow> (nat \<times> nat) set" where
  "others live v s = {x \<in> live s. Some (fst x) \<noteq> m_data v}"

text \<open>A request for \<^term>\<open>count\<close> elements that does not wrap and that the allocator accepts.\<close>

definition count_fits :: "(u64 \<Rightarrow> u64 \<Rightarrow> bool) \<Rightarrow> u64 \<Rightarrow> u64 \<Rightarrow> nat \<Rightarrow> bool" where
  "count_fits ok sz al count \<longleftrightarrow> ok (word_of_nat count * sz) al \<and> count * unat sz < 2 ^ 64"

lemma fits_bytes:
  assumes "count_fits ok sz al count" and "0 < unat sz"
  shows "unat (word_of_nat count * sz) = count * unat sz" and "count < 2 ^ 64"
proof -
  have c: "count * unat sz < 2 ^ 64"
    using assms(1) by (simp add: count_fits_def)
  have "count \<le> count * unat sz"
    using assms(2) by simp
  with c show lt: "count < 2 ^ 64"
    by linarith
  then show "unat (word_of_nat count * sz) = count * unat sz"
    using c by (simp add: unat_word_ariths unat_of_nat take_bit_eq_mod)
qed

lemma vec_ok_data: "vec_ok good live sz v s \<Longrightarrow> vec_ok good live sz (v\<lparr>m_size := n, m_slots := m\<rparr>) s \<longleftrightarrow> vec_slots (v\<lparr>m_size := n, m_slots := m\<rparr>)"
  by (simp add: vec_ok_def split: option.splits)

lemma others_data [simp]: "others live (v\<lparr>m_size := n\<rparr>) s = others live v s"
  "others live (v\<lparr>m_slots := m\<rparr>) s = others live v s"
  by (simp_all add: others_def)

context an_allocator
begin

abbreviation env :: "u64 \<Rightarrow> u64 \<Rightarrow> 's vector_env" where
  "env sz al \<equiv> \<lparr>op_allocate = alloc, op_deallocate = dealloc, sizeof_T = sz, alignof_T = al\<rparr>"

abbreviation own :: "u64 \<Rightarrow> 'v Vector \<Rightarrow> 's \<Rightarrow> bool" where
  "own \<equiv> vec_ok inv live"

lemma dealloc_own:
  assumes "own sz v s" and "0 < unat sz"
  shows "\<exists>s'. dealloc (m_data v) s = Some s' \<and> inv s' \<and> live s' = others live v s"
proof (cases "m_data v")
  case None
  then show ?thesis
    using assms(1) dealloc_null by (auto simp: vec_ok_def others_def)
next
  case (Some p)
  then obtain c where c: "(p, c) \<in> live s" "m_capacity v * unat sz \<le> c" "0 < m_capacity v" "inv s"
    using assms(1) by (auto simp: vec_ok_def)
  have "0 < c"
    using c(2,3) assms(2) by (metis less_le_trans nat_0_less_mult_iff)
  then obtain s' where s': "dealloc (Some p) s = Some s'" "inv s'" "live s' = live s - {(p, c)}"
    using dealloc_law[OF c(4,1)] by blast
  have u: "d = c" if "(p, d) \<in> live s" for d
    using live_unique[OF c(4) that c(1)] .
  have "x \<in> live s - {(p, c)} \<longleftrightarrow> x \<in> others live v s" for x
    by (cases x) (auto simp: others_def Some dest: u)
  then show ?thesis
    using s' Some by auto
qed

lemma reserve_ok:
  assumes "own sz v s" and "0 < unat sz" and "m_capacity v < count \<Longrightarrow> count_fits ok sz al count"
  shows "\<exists>r v' s'. reserve (env sz al) count v s = Some (r, v', s') \<and> own sz v' s' \<and>
    elems v' = elems v \<and> m_size v' = m_size v \<and> others live v' s' = others live v s \<and> m_capacity v \<le> m_capacity v' \<and>
    (r = Ok () \<and> count \<le> m_capacity v' \<or> r = Failure AllocationError \<and> v' = v \<and> s' = s)"
proof (cases "count \<le> m_capacity v")
  case True
  then show ?thesis
    using assms(1) by (auto simp: reserve_def)
next
  case False
  then have fit: "count_fits ok sz al count"
    using assms(3) by simp
  have s: "inv s" and ok: "ok (word_of_nat count * sz) al" and sl: "vec_slots v"
    using assms(1) fit by (auto simp: vec_ok_def count_fits_def)
  show ?thesis
    using s ok
  proof (cases rule: alloc_cases)
    case null
    then show ?thesis
      using False assms(1) by (simp add: reserve_def vector_allocate_def)
  next
    case (chunk p s1 c)
    have c: "count * unat sz \<le> c"
      using chunk(5) fits_bytes(1)[OF fit assms(2)] by simp
    have own1: "own sz v s1"
      using assms(1) chunk(2,6) by (auto simp: vec_ok_def split: option.splits)
    obtain s2 where s2: "dealloc (m_data v) s1 = Some s2" "inv s2" "live s2 = others live v s1"
      using dealloc_own[OF own1 assms(2)] by blast
    have np: "m_data v \<noteq> Some p"
      using assms(1) chunk(4) by (force simp: vec_ok_def)
    let ?m = "\<lambda>i. if i < m_size v then m_slots v i else Raw"
    let ?v = "v\<lparr>m_data := Some p, m_capacity := count, m_slots := ?m\<rparr>"
    have rel: "relocate (m_size v) (m_slots v) (\<lambda>_. Raw) = Some ?m"
      using vec_slots_not_Raw[OF sl] by (intro relocate_ok) auto
    have "vec_slots ?v \<and> elems ?v = elems v"
      using False sl vec_slots_nth[OF sl] by (intro vec_slotsI) (auto simp: vec_slots_def)
    moreover have "(p, c) \<in> live s2"
      using s2(3) chunk(6) np by (auto simp: others_def)
    moreover have "others live ?v s2 = others live v s"
      using s2(3) chunk(4,6) by (force simp: others_def)
    ultimately show ?thesis
      using False chunk(1) rel s2(1,2) c by (auto simp: reserve_def vector_allocate_def vec_ok_def)
  qed
qed

end

context an_allocator
begin

lemma own_elems:
  assumes "own sz v s" and "vec_slots v'" and "m_data v' = m_data v" and "m_capacity v' = m_capacity v"
  shows "own sz v' s" and "others live v' s = others live v s"
  using assms by (auto simp: vec_ok_def others_def split: option.splits)

lemma push_back_ok:
  assumes "own sz v s" and "0 < unat sz" and "m_size v = m_capacity v \<Longrightarrow> count_fits ok sz al (max 16 (2 * m_size v))"
  shows "\<exists>r v' s'. push_back (env sz al) x v s = Some (r, v', s') \<and> own sz v' s' \<and>
    others live v' s' = others live v s \<and>
    (r = Ok () \<and> elems v' = elems v @ [x] \<or> r = Failure AllocationError \<and> v' = v \<and> s' = s)"
proof -
  have add: "own sz (w\<lparr>m_size := m_size w + 1, m_slots := (m_slots w)(m_size w := Obj x)\<rparr>) t \<and>
      elems (w\<lparr>m_size := m_size w + 1, m_slots := (m_slots w)(m_size w := Obj x)\<rparr>) = elems w @ [x]"
    if w: "own sz w t" "m_size w < m_capacity w" for w t
  proof -
    have sl: "vec_slots w"
      using w(1) by (simp add: vec_ok_def)
    have "vec_slots (w\<lparr>m_size := m_size w + 1, m_slots := (m_slots w)(m_size w := Obj x)\<rparr>) \<and>
        elems (w\<lparr>m_size := m_size w + 1, m_slots := (m_slots w)(m_size w := Obj x)\<rparr>) = elems w @ [x]"
      using w(2) vec_slots_nth[OF sl] vec_slots_outside[OF sl]
      by (intro vec_slotsI) (auto simp: nth_append less_Suc_eq)
    then show ?thesis
      by (intro conjI own_elems(1)[OF w(1)]) simp_all
  qed
  show ?thesis
  proof (cases "m_size v = m_capacity v")
    case False
    then have "m_size v < m_capacity v"
      using assms(1) by (simp add: vec_ok_def vec_slots_def)
    then show ?thesis
      using add[OF assms(1)] False by (simp add: push_back_def on_ok_def)
  next
    case True
    let ?count = "max 16 (2 * m_size v)"
    have lt: "?count < 2 ^ 64"
      using fits_bytes(2)[OF assms(3)[OF True] assms(2)] .
    then have ct: "max 16 (size_t (m_size v * 2)) = ?count"
      by (simp add: size_t_def mult.commute)
    obtain r v1 s1 where r: "reserve (env sz al) ?count v s = Some (r, v1, s1)" "own sz v1 s1"
      "elems v1 = elems v" "m_size v1 = m_size v" "others live v1 s1 = others live v s"
      "r = Ok () \<and> ?count \<le> m_capacity v1 \<or> r = Failure AllocationError \<and> v1 = v \<and> s1 = s"
      using reserve_ok[OF assms(1,2), of ?count al] assms(3)[OF True] by blast
    show ?thesis
    proof (cases "r = Ok ()")
      case ok: True
      then have "m_size v1 < m_capacity v1"
        using r(4,6) by (auto simp: max_def split: if_splits)
      then show ?thesis
        using add[OF r(2)] r ok True ct by (simp add: push_back_def on_ok_def)
    next
      case False
      then show ?thesis
        using r True ct assms(1) by (simp add: push_back_def on_ok_def)
    qed
  qed
qed

lemma destroy_ok:
  assumes "own sz v s" and "0 < unat sz"
  shows "\<exists>s'. Vector_destroy (env sz al) (v, s) = Some s' \<and> inv s' \<and> live s' = others live v s"
proof -
  obtain v' where "clear v = Some v'" "m_data v' = m_data v"
    using clear_ok[of v] assms(1) by (auto simp: vec_ok_def)
  then show ?thesis
    using dealloc_own[OF assms] by (simp add: Vector_destroy_def)
qed

lemma resize_uninitialized_grow:
  assumes "own sz v s" and "0 < unat sz" and "count_fits ok sz al count" and "m_size v < count"
  shows "\<exists>r v' s'. resize_uninitialized (env sz al) count v s = Some (r, v', s') \<and>
    others live v' s' = others live v s \<and>
    (r = Ok () \<and> own sz (v'\<lparr>m_size := m_size v\<rparr>) s' \<and> elems (v'\<lparr>m_size := m_size v\<rparr>) = elems v \<and>
       m_size v' = count \<and> count \<le> m_capacity v'
     \<or> r = Failure AllocationError \<and> v' = v \<and> s' = s)"
proof -
  obtain r v1 s1 where r: "reserve (env sz al) count v s = Some (r, v1, s1)" "own sz v1 s1"
    "elems v1 = elems v" "m_size v1 = m_size v" "others live v1 s1 = others live v s"
    "r = Ok () \<and> count \<le> m_capacity v1 \<or> r = Failure AllocationError \<and> v1 = v \<and> s1 = s"
    using reserve_ok[OF assms(1,2), of count al] assms(3) by blast
  moreover have "v1\<lparr>m_size := m_size v\<rparr> = v1"
    using r(4) by (cases v1) simp
  moreover from this have "own sz (v1\<lparr>m_size := m_size v\<rparr>) s1" "elems (v1\<lparr>m_size := m_size v\<rparr>) = elems v"
    using r(2,3) by simp_all
  ultimately show ?thesis
    using assms(4) by (auto simp: resize_uninitialized_def on_ok_def)
qed

text \<open>Shifting the tail up and writing the new values, once the buffer is large enough.\<close>

lemma make_room:
  assumes sl: "vec_slots v" and p: "p \<le> m_size v" and xs: "xs \<noteq> []" and cap: "m_size v + length xs \<le> m_capacity v"
  defines "w \<equiv> v\<lparr>m_size := m_size v + length xs\<rparr>"
  shows "\<exists>w1 w2. shift_up (m_size w - 1) (p + length xs) (length xs) w = Some w1 \<and> write_values p xs w1 = Some w2 \<and>
    vec_slots w2 \<and> elems w2 = take p (elems v) @ xs @ drop p (elems v) \<and> m_data w2 = m_data v \<and> m_capacity w2 = m_capacity v"
proof -
  let ?n = "length xs" and ?res = "take p (elems v) @ xs @ drop p (elems v)"
  have n: "0 < ?n" and sz: "m_size w - 1 < m_size w" "m_size w = m_size v + ?n" "m_slots w = m_slots v"
    using xs by (simp_all add: w_def)
  have src: "\<forall>j. (p + ?n) - ?n \<le> j \<and> j + ?n \<le> m_size w - 1 \<longrightarrow> m_slots w j \<noteq> Raw"
  proof (intro allI impI)
    fix j
    assume "(p + ?n) - ?n \<le> j \<and> j + ?n \<le> m_size w - 1"
    then have "j < m_size v"
      using sz(2) n by linarith
    then show "m_slots w j \<noteq> Raw"
      using vec_slots_not_Raw[OF sl] sz(3) by simp
  qed
  obtain m where m: "shift_up (m_size w - 1) (p + ?n) ?n w = Some (w\<lparr>m_slots := m\<rparr>)"
      "\<forall>j < p. m j = m_slots v j" "\<forall>j. p + ?n \<le> j \<and> j \<le> m_size w - 1 \<longrightarrow> m j = m_slots v (j - ?n)"
      "\<forall>j > m_size w - 1. p + ?n \<le> j \<longrightarrow> m j = m_slots v j"
    using shift_up_ok[OF n sz(1) src] sz(3) by auto
  let ?m = "\<lambda>j. if p \<le> j \<and> j < p + ?n then Obj (xs ! (j - p)) else m j"
  have wr: "write_values p xs (w\<lparr>m_slots := m\<rparr>) = Some (w\<lparr>m_slots := ?m\<rparr>)"
    using write_values_ok[of p xs "w\<lparr>m_slots := m\<rparr>"] sz(2) p by (simp cong: if_cong)
  have "vec_slots (w\<lparr>m_slots := ?m\<rparr>) \<and> elems (w\<lparr>m_slots := ?m\<rparr>) = ?res"
  proof (rule vec_slotsI)
    fix i
    assume i: "i < length ?res"
    consider "i < p" | "p \<le> i" "i < p + ?n" | "p + ?n \<le> i"
      by linarith
    then show "m_slots (w\<lparr>m_slots := ?m\<rparr>) i = Obj (?res ! i)"
    proof cases
      case 3
      then have "m i = Obj (elems v ! (i - ?n))"
        using m(3) i p sz(2) vec_slots_nth[OF sl, of "i - ?n"] by auto
      moreover have "\<not> i - p < ?n" "p + (i - p - ?n) = i - ?n"
        using 3 by auto
      ultimately show ?thesis
        using 3 p by (simp add: nth_append)
    qed (use m(2) p vec_slots_nth[OF sl] in \<open>auto simp: nth_append\<close>)
  next
    fix i x
    assume "length ?res \<le> i"
    then have "m_size v + ?n \<le> i"
      using p by simp
    then have "m_size w - 1 < i" "p + ?n \<le> i" "m_size v \<le> i"
      using sz(2) p n by linarith+
    then show "m_slots (w\<lparr>m_slots := ?m\<rparr>) i \<noteq> Obj x"
      using m(4) vec_slots_outside[OF sl, of i] by simp
  qed (use p cap in \<open>auto simp: w_def\<close>)
  then show ?thesis
    using m(1) wr by (auto simp: w_def)
qed

lemma insert_ok:
  assumes own: "own sz v s" and sz: "0 < unat sz" and p: "p \<le> m_size v" and xs: "xs \<noteq> []"
    and fit: "count_fits ok sz al (max 16 (2 * m_size v))" "count_fits ok sz al (m_size v + length xs)"
  shows "\<exists>r v' s'. insert_range (env sz al) p xs v s = Some (r, v', s') \<and> own sz v' s' \<and>
    others live v' s' = others live v s \<and>
    (r = Ok p \<and> elems v' = take p (elems v) @ xs @ drop p (elems v) \<or>
     r = Failure AllocationError \<and> elems v' = elems v)"
proof -
  let ?count = "m_size v + length xs"
  have lt: "?count < 2 ^ 64" "max 16 (2 * m_size v) < 2 ^ 64"
    using fits_bytes(2)[OF fit(1) sz] fits_bytes(2)[OF fit(2) sz] by auto
  then have st: "size_t ?count = ?count" "max 16 (size_t (m_size v * 2)) = max 16 (2 * m_size v)"
    by (simp_all add: size_t_def mult.commute)
  let ?first = "if ?count < m_capacity v then reserve (env sz al) (max 16 (2 * m_size v)) v s else Some (Ok (), v, s)"
  obtain r1 v1 s1 where r1: "?first = Some (r1, v1, s1)" "own sz v1 s1" "elems v1 = elems v" "m_size v1 = m_size v"
      "others live v1 s1 = others live v s" "r1 = Ok () \<or> r1 = Failure AllocationError"
    using reserve_ok[OF own sz, of "max 16 (2 * m_size v)" al] own fit(1) by (cases "?count < m_capacity v") auto
  show ?thesis
  proof (cases "r1 = Ok ()")
    case False
    then show ?thesis
      using r1 st by (auto simp: insert_range_def on_ok_def)
  next
    case True
    have first: "on_ok (if size_t ?count < m_capacity v then reserve (env sz al) (max 16 (size_t (m_size v * 2))) v s
        else Some (Ok (), v, s)) k = k v1 s1" for k
      unfolding st r1(1) using True by (simp add: on_ok_def)
    have gt: "m_size v1 < ?count"
      using r1(4) xs by simp
    obtain r2 v2 s2 where r2: "resize_uninitialized (env sz al) ?count v1 s1 = Some (r2, v2, s2)"
        "others live v2 s2 = others live v1 s1"
        "r2 = Ok () \<and> own sz (v2\<lparr>m_size := m_size v1\<rparr>) s2 \<and> elems (v2\<lparr>m_size := m_size v1\<rparr>) = elems v1 \<and>
           m_size v2 = ?count \<and> ?count \<le> m_capacity v2
         \<or> r2 = Failure AllocationError \<and> v2 = v1 \<and> s2 = s1"
      using resize_uninitialized_grow[OF r1(2) sz fit(2) gt] by blast
    show ?thesis
    proof (cases "r2 = Ok ()")
      case False
      then show ?thesis
        using first r1 r2 st by (auto simp: insert_range_def)
    next
      case ok: True
      let ?u = "v2\<lparr>m_size := m_size v1\<rparr>"
      have u: "own sz ?u s2" "elems ?u = elems v" "m_size v2 = ?count" "?count \<le> m_capacity v2"
        using r2(3) ok r1(3) by auto
      have w: "?u\<lparr>m_size := m_size ?u + length xs\<rparr> = v2"
        using u(3) r1(4) by (cases v2) simp
      obtain w1 w2 where w12: "shift_up (m_size v2 - 1) (p + length xs) (length xs) v2 = Some w1"
          "write_values p xs w1 = Some w2" "vec_slots w2" "elems w2 = take p (elems v) @ xs @ drop p (elems v)"
          "m_data w2 = m_data v2" "m_capacity w2 = m_capacity v2"
        using make_room[of ?u p xs] u p xs r1(4) unfolding w by (auto simp: vec_ok_def)
      have "own sz w2 s2" "others live w2 s2 = others live v s"
        using own_elems[OF u(1), of w2] w12 r2(2) r1(5) by auto
      then show ?thesis
        using first r2(1) ok st u(3) w12 xs r1(4) by (simp add: insert_range_def)
    qed
  qed
qed

lemma resize_ok:
  assumes own: "own sz v s" and sz: "0 < unat sz"
    and fit: "m_size v < count \<Longrightarrow> count_fits ok sz al (m_size v + count)"
  shows "\<exists>r v' s'. resize (env sz al) count x v s = Some (r, v', s') \<and> own sz v' s' \<and>
    others live v' s' = others live v s \<and>
    (r = Ok () \<and> elems v' = take count (elems v) @ replicate (count - m_size v) x \<or>
     r = Failure AllocationError \<and> elems v' = elems v)"
proof (cases "count \<le> m_size v")
  case True
  show ?thesis
  proof (cases "count = m_size v")
    case False
    obtain v' where v': "pop_times (m_size v - count) v = Some v'" "vec_slots v'" "elems v' = take count (elems v)"
        "m_data v' = m_data v" "m_capacity v' = m_capacity v"
      using pop_times_ok[of v "m_size v - count"] own True by (auto simp: vec_ok_def)
    then show ?thesis
      using own_elems[OF own v'(2,4,5)] False True by (simp add: resize_def)
  qed (use own in \<open>simp add: resize_def\<close>)
next
  case False
  then have f: "count_fits ok sz al (m_size v + count)"
    using fit by simp
  have st: "size_t (m_size v + count) = m_size v + count"
    using fits_bytes(2)[OF f sz] by (simp add: size_t_def)
  obtain r1 v1 s1 where r1: "reserve (env sz al) (m_size v + count) v s = Some (r1, v1, s1)" "own sz v1 s1"
    "elems v1 = elems v" "m_size v1 = m_size v" "others live v1 s1 = others live v s"
    "r1 = Ok () \<and> m_size v + count \<le> m_capacity v1 \<or> r1 = Failure AllocationError \<and> v1 = v \<and> s1 = s"
    using reserve_ok[OF own sz, of "m_size v + count" al] f by blast
  have push: "\<exists>w'. push_copies (env sz al) x n w t = Some (Ok (), w', t) \<and> own sz w' t \<and>
      elems w' = elems w @ replicate n x \<and> others live w' t = others live w t"
    if "own sz w t" "m_size w + n \<le> m_capacity w" for n w t
    using that
  proof (induction n arbitrary: w)
    case (Suc n)
    let ?w = "w\<lparr>m_size := m_size w + 1, m_slots := (m_slots w)(m_size w := Obj x)\<rparr>"
    have "push_back (env sz al) x w t = Some (Ok (), ?w, t)"
      using Suc.prems(2) by (simp add: push_back_def on_ok_def)
    moreover from this have "own sz ?w t \<and> elems ?w = elems w @ [x] \<and> others live ?w t = others live w t"
      using push_back_ok[OF Suc.prems(1) sz, of al x] Suc.prems(2) by auto
    ultimately show ?case
      using Suc.IH[of ?w] Suc.prems(2) by (simp add: on_ok_def)
  qed simp
  show ?thesis
    using r1 False st push[OF r1(2), of "count - m_size v"] by (auto simp: resize_def on_ok_def)
qed

end

section \<open>The vector in the pool of the reactor\<close>

definition pool_env :: "u64 \<Rightarrow> u64 \<Rightarrow> Allocator vector_env" where
  "pool_env sz al = \<lparr>op_allocate = allocate, op_deallocate = deallocate, sizeof_T = sz, alignof_T = al\<rparr>"

definition pool_vec :: "u64 \<Rightarrow> 'v Vector \<Rightarrow> Allocator \<Rightarrow> bool" where
  "pool_vec sz v a \<longleftrightarrow> 0 < unat sz \<and> vec_ok alloc_valid live_chunks sz v a"

text \<open>
  \<^verbatim>\<open>push_back\<close> appends to the list of elements, growing the buffer when it is full;
  when the pool has no room the error is reported and the vector and the pool are as before. The
  chunks of other owners stay as they are in both cases.
\<close>

theorem Vector_push_back_correct:
  assumes "pool_vec sz v a" and "m_size v = m_capacity v \<Longrightarrow> count_fits request_ok sz al (max 16 (2 * m_size v))"
  shows "\<exists>r v' a'. push_back (pool_env sz al) x v a = Some (r, v', a') \<and> pool_vec sz v' a' \<and>
    others live_chunks v' a' = others live_chunks v a \<and>
    (r = Ok () \<and> elems v' = elems v @ [x] \<or> r = Failure AllocationError \<and> v' = v \<and> a' = a)"
  using pool.push_back_ok[of sz v a al x] assms by (auto simp: pool_vec_def pool_env_def)

definition demo_vec :: "int Vector" where
  "demo_vec = \<lparr>m_data = Some 4160, m_size = 2, m_capacity = 12,
     m_slots = (\<lambda>i. if i = 0 then Obj 5 else if i = 1 then Obj 6 else Raw)\<rparr>"

lemma demo_vec_ok: "pool_vec 4 demo_vec demo_pool1" "elems demo_vec = [5, 6]" "m_size demo_vec = 2" "m_capacity demo_vec = 12"
proof -
  have "vec_slots demo_vec \<and> elems demo_vec = [5, 6]"
    by (rule vec_slotsI) (auto simp: demo_vec_def less_Suc_eq nth_Cons')
  then show "pool_vec 4 demo_vec demo_pool1" "elems demo_vec = [5, 6]" "m_size demo_vec = 2" "m_capacity demo_vec = 12"
    using demo_pool1_ok by (auto simp: pool_vec_def vec_ok_def demo_vec_def)
qed

lemma demo_fits: "count_fits request_ok 4 4 16" "count_fits request_ok 4 4 3" "count_fits request_ok 4 4 5"
proof -
  have "has_single_bit 4"
    by code_simp
  then show "count_fits request_ok 4 4 16" "count_fits request_ok 4 4 3" "count_fits request_ok 4 4 5"
    by (simp_all add: count_fits_def request_ok_def BLOCK_SIZE_def)
qed

theorem Vector_push_back_correct_witness:
  "pool_vec 4 demo_vec demo_pool1 \<and> m_size demo_vec \<noteq> m_capacity demo_vec \<and>
   (\<exists>r v' a'. push_back (pool_env 4 4) 7 demo_vec demo_pool1 = Some (r, v', a') \<and> pool_vec 4 v' a')"
  using Vector_push_back_correct[OF demo_vec_ok(1), of 4 7] demo_vec_ok by auto

text \<open>
  Claim C31. \<^verbatim>\<open>insert\<close> of a non-empty range puts it in front of the given position and keeps
  the other elements in order, whether or not the buffer has to grow, to a size that the
  allocator accepts as a request; when the allocation fails the elements are as before.
\<close>

theorem Vector_insert_correct:
  assumes "pool_vec sz v a" and "p \<le> m_size v" and "xs \<noteq> []"
    and "count_fits request_ok sz al (max 16 (2 * m_size v))" and "count_fits request_ok sz al (m_size v + length xs)"
  shows "\<exists>r v' a'. insert_range (pool_env sz al) p xs v a = Some (r, v', a') \<and> pool_vec sz v' a' \<and>
    others live_chunks v' a' = others live_chunks v a \<and>
    (r = Ok p \<and> elems v' = take p (elems v) @ xs @ drop p (elems v) \<or>
     r = Failure AllocationError \<and> elems v' = elems v)"
  using pool.insert_ok[of sz v a p xs al] assms by (auto simp: pool_vec_def pool_env_def)

theorem Vector_insert_correct_witness:
  "pool_vec 4 demo_vec demo_pool1 \<and> 1 \<le> m_size demo_vec \<and> [7 :: int] \<noteq> [] \<and>
   count_fits request_ok 4 4 (max 16 (2 * m_size demo_vec)) \<and> count_fits request_ok 4 4 (m_size demo_vec + length [7 :: int]) \<and>
   (\<exists>r v' a'. insert_range (pool_env 4 4) 1 [7] demo_vec demo_pool1 = Some (r, v', a') \<and> pool_vec 4 v' a')"
  using Vector_insert_correct[OF demo_vec_ok(1), of 1 "[7]" 4] demo_vec_ok demo_fits by auto

text \<open>
  Claim C4. \<^verbatim>\<open>erase\<close> of a non-empty range removes exactly its elements; it touches neither the
  buffer's address nor its capacity.
\<close>

theorem Vector_erase_correct:
  assumes "vec_slots v" and "b < e" and "e \<le> m_size v"
  shows "\<exists>v'. erase b e v = Some (b, v') \<and> vec_slots v' \<and> elems v' = take b (elems v) @ drop e (elems v) \<and>
    m_data v' = m_data v \<and> m_capacity v' = m_capacity v"
  by (rule erase_ok[OF assms])

theorem Vector_erase_correct_witness:
  "vec_slots demo_vec \<and> (0 :: nat) < 1 \<and> 1 \<le> m_size demo_vec \<and>
   (\<exists>v'. erase 0 1 demo_vec = Some (0, v') \<and> elems v' = [6])"
  using Vector_erase_correct[of demo_vec 0 1] demo_vec_ok by (auto simp: pool_vec_def vec_ok_def)

text \<open>
  Erasing an empty range in front of the end is not the no-operation it is for
  \<^verbatim>\<open>std::vector\<close>: every element behind it is constructed from itself in its own storage.
\<close>

theorem Vector_erase_empty_undefined:
  assumes "vec_slots v" and "i < m_size v"
  shows "erase i i v = None"
  by (rule erase_empty_range[OF assms])

theorem Vector_erase_empty_undefined_witness:
  "vec_slots demo_vec \<and> 0 < m_size demo_vec \<and> erase 0 0 demo_vec = None"
  using Vector_erase_empty_undefined[of demo_vec 0] demo_vec_ok by (auto simp: pool_vec_def vec_ok_def)

text \<open>
  Claim C32. \<^verbatim>\<open>resize\<close> cuts the list or extends it by copies of the given value; the destructor
  destroys the elements and gives exactly the buffer back to the pool.
\<close>

theorem Vector_resize_destroy_correct:
  assumes "pool_vec sz v a" and "m_size v < count \<Longrightarrow> count_fits request_ok sz al (m_size v + count)"
  shows "\<exists>r v' a' a''. resize (pool_env sz al) count x v a = Some (r, v', a') \<and> pool_vec sz v' a' \<and>
    (r = Ok () \<and> elems v' = take count (elems v) @ replicate (count - m_size v) x \<or>
     r = Failure AllocationError \<and> elems v' = elems v) \<and>
    Vector_destroy (pool_env sz al) (v', a') = Some a'' \<and> alloc_valid a'' \<and>
    live_chunks a'' = others live_chunks v a"
proof -
  obtain r v' a' where r: "resize (pool_env sz al) count x v a = Some (r, v', a')" "vec_ok alloc_valid live_chunks sz v' a'"
      "others live_chunks v' a' = others live_chunks v a"
      "r = Ok () \<and> elems v' = take count (elems v) @ replicate (count - m_size v) x \<or>
       r = Failure AllocationError \<and> elems v' = elems v"
    using pool.resize_ok[of sz v a count al x] assms by (auto simp: pool_vec_def pool_env_def)
  then show ?thesis
    using pool.destroy_ok[OF r(2), of al] assms(1) by (auto simp: pool_vec_def pool_env_def)
qed

theorem Vector_resize_destroy_correct_witness:
  "pool_vec 4 demo_vec demo_pool1 \<and> count_fits request_ok 4 4 (m_size demo_vec + 3) \<and>
   (\<exists>r v' a' a''. resize (pool_env 4 4) 3 9 demo_vec demo_pool1 = Some (r, v', a') \<and>
      Vector_destroy (pool_env 4 4) (v', a') = Some a'' \<and> alloc_valid a'')"
  using Vector_resize_destroy_correct[OF demo_vec_ok(1), of 3 4 9] demo_vec_ok demo_fits by auto

end
