(* ===== verification/Corosig_Dns_Protocol.thy ===== *)
theory Corosig_Dns_Protocol
  imports Corosig_Result Corosig_Sockaddr
begin

text \<open>
  The DNS message format: \<^verbatim>\<open>io/dns/Protocol.hpp\<close> and \<^verbatim>\<open>io/dns/Protocol.cpp\<close>. Errors,
  enumerations and header flags first, then the encoder with its compression map, then the
  decoder. A \<^verbatim>\<open>std::span\<close> is the address of its first octet and its octets; the decoder
  compares and stores addresses, so they are part of the model.
\<close>

section \<open>Errors and enumerations\<close>

datatype QuestionEncodeError = TOO_LONG_DOMAIN_NAME | TOO_LONG_DOMAIN_NAME_LABEL | EMPTY_LABEL

datatype ResponseDecodeError =
    WRONG_HEADER_BYTES_COUNT
  | COMPRESSION_PTR_OOB
  | COMPRESSION_PTR_INFINITE_LOOP
  | LABEL_NO_LEN
  | LABEL_LEN_OOB
  | LABEL_LEN_TOO_BIG
  | NAME_LEN_TOO_BIG
  | NO_ROOT_LABEL
  | NO_QUESTION_TYPE
  | NO_QUESTION_CLASS
  | NO_RESOURCE_RECORD_TYPE
  | NO_RESOURCE_RECORD_CLASS
  | NO_RESOURCE_RECORD_TTL
  | NO_RESOURCE_RECORD_DATA_LEN
  | RESOURCE_RECORD_DATA_LEN_OOB
  | RESOURCE_RECORD_DATA_BAD_A
  | RESOURCE_RECORD_DATA_BAD_AAAA
  | RESOURCE_RECORD_DATA_BAD_NS
  | RESOURCE_RECORD_DATA_BAD_CNAME
  | RESOURCE_RECORD_DATA_BAD_SOA
  | RESOURCE_RECORD_DATA_BAD_MB
  | RESOURCE_RECORD_DATA_BAD_MG
  | RESOURCE_RECORD_DATA_BAD_MR
  | RESOURCE_RECORD_DATA_BAD_PTR
  | RESOURCE_RECORD_DATA_BAD_HINFO
  | RESOURCE_RECORD_DATA_BAD_MINFO

definition LABEL_LEN_TOO_BIG_MSG :: string where
  "LABEL_LEN_TOO_BIG_MSG = ''Label exeeds 63 octets size limit''"

definition NAME_LEN_TOO_BIG_MSG :: string where
  "NAME_LEN_TOO_BIG_MSG = ''Domain name exeeds 255 octets size limit''"

fun QuestionEncodeError_description :: "QuestionEncodeError \<Rightarrow> string" where
  "QuestionEncodeError_description TOO_LONG_DOMAIN_NAME = NAME_LEN_TOO_BIG_MSG"
| "QuestionEncodeError_description TOO_LONG_DOMAIN_NAME_LABEL = LABEL_LEN_TOO_BIG_MSG"
| "QuestionEncodeError_description EMPTY_LABEL = ''Empty labels are not allowed in domain name''"

fun ResponseDecodeError_description :: "ResponseDecodeError \<Rightarrow> string" where
  "ResponseDecodeError_description WRONG_HEADER_BYTES_COUNT = ''Expected 12 octets of HEADER''"
| "ResponseDecodeError_description COMPRESSION_PTR_OOB =
     ''Compression pointer points out of message bounds''"
| "ResponseDecodeError_description COMPRESSION_PTR_INFINITE_LOOP =
     ''Compression pointer points to itself directly or indirectly''"
| "ResponseDecodeError_description LABEL_NO_LEN = ''Expected 1 octet of label len''"
| "ResponseDecodeError_description LABEL_LEN_OOB = ''Label is longer than remaining message''"
| "ResponseDecodeError_description LABEL_LEN_TOO_BIG = LABEL_LEN_TOO_BIG_MSG"
| "ResponseDecodeError_description NO_ROOT_LABEL = ''Expected a root label to be at DN end''"
| "ResponseDecodeError_description NO_QUESTION_TYPE = ''Expected 2 octets of QTYPE''"
| "ResponseDecodeError_description NO_QUESTION_CLASS = ''Expected 2 octets of QCLASS''"
| "ResponseDecodeError_description NAME_LEN_TOO_BIG = NAME_LEN_TOO_BIG_MSG"
| "ResponseDecodeError_description NO_RESOURCE_RECORD_TYPE =
     ''Expected 2 octets of resource record TYPE''"
| "ResponseDecodeError_description NO_RESOURCE_RECORD_CLASS =
     ''Expected 2 octets of resource record CLASS''"
| "ResponseDecodeError_description NO_RESOURCE_RECORD_TTL =
     ''Expected 4 octets of resource record TTL''"
| "ResponseDecodeError_description NO_RESOURCE_RECORD_DATA_LEN =
     ''Expected 2 octets of resource record RDLENGTH''"
| "ResponseDecodeError_description RESOURCE_RECORD_DATA_LEN_OOB =
     ''Resource record RDLENGTH is bigger than remaining message''"
| "ResponseDecodeError_description RESOURCE_RECORD_DATA_BAD_A = ''Error parsing A type RDATA''"
| "ResponseDecodeError_description RESOURCE_RECORD_DATA_BAD_AAAA = ''Error parsing AAAA type RDATA''"
| "ResponseDecodeError_description RESOURCE_RECORD_DATA_BAD_NS = ''Error parsing NS type RDATA''"
| "ResponseDecodeError_description RESOURCE_RECORD_DATA_BAD_CNAME = ''Error parsing CNAME type RDATA''"
| "ResponseDecodeError_description RESOURCE_RECORD_DATA_BAD_SOA = ''Error parsing SOA type RDATA''"
| "ResponseDecodeError_description RESOURCE_RECORD_DATA_BAD_MB = ''Error parsing MB type RDATA''"
| "ResponseDecodeError_description RESOURCE_RECORD_DATA_BAD_MG = ''Error parsing MG type RDATA''"
| "ResponseDecodeError_description RESOURCE_RECORD_DATA_BAD_MR = ''Error parsing MR type RDATA''"
| "ResponseDecodeError_description RESOURCE_RECORD_DATA_BAD_PTR = ''Error parsing PTR type RDATA''"
| "ResponseDecodeError_description RESOURCE_RECORD_DATA_BAD_HINFO = ''Error parsing HINFO type RDATA''"
| "ResponseDecodeError_description RESOURCE_RECORD_DATA_BAD_MINFO = ''Error parsing MINFO type RDATA''"

text \<open>
  An object of an enumeration type can hold every value of the underlying \<^verbatim>\<open>uint8_t\<close>; the
  decoder casts received numbers. The objects are octets, the enumerators name some of them.
\<close>

datatype ServerResponseCode =
  NOERROR | FORMAT_ERROR | SERVER_FAILURE | NAME_ERROR | NOT_IMPLEMENTED | REFUSED

fun ServerResponseCode_value :: "ServerResponseCode \<Rightarrow> u8" where
  "ServerResponseCode_value NOERROR = 0"
| "ServerResponseCode_value FORMAT_ERROR = 1"
| "ServerResponseCode_value SERVER_FAILURE = 2"
| "ServerResponseCode_value NAME_ERROR = 3"
| "ServerResponseCode_value NOT_IMPLEMENTED = 4"
| "ServerResponseCode_value REFUSED = 5"

definition ServerResponseCode_description :: "u8 \<Rightarrow> string option" where
  "ServerResponseCode_description v =
     (if v = ServerResponseCode_value NOERROR then Some ''No error''
      else if v = ServerResponseCode_value FORMAT_ERROR
        then Some ''Server got a question query of invalid format''
      else if v = ServerResponseCode_value SERVER_FAILURE then Some ''Internal server failure''
      else if v = ServerResponseCode_value NAME_ERROR then Some ''Asked domain name does not exist''
      else if v = ServerResponseCode_value NOT_IMPLEMENTED
        then Some ''Server does not support the requested kind of query''
      else if v = ServerResponseCode_value REFUSED
        then Some ''Server refuses to perform the specified operation for policy reasons''
      else if v < 16 then Some ''Got one of extended error codes''
      else None)"

datatype QueryType =
  QT_A | QT_AAAA | QT_NS | QT_MD | QT_MF | QT_CNAME | QT_SOA | QT_MB | QT_MG | QT_MR | QT_TNULL |
  QT_WKS | QT_PTR | QT_HINFO | QT_MINFO | QT_MX | QT_TXT | QT_AXFR | QT_MAILB | QT_MAILA | QT_ANY

fun QueryType_value :: "QueryType \<Rightarrow> u8" where
  "QueryType_value QT_A = 1" | "QueryType_value QT_AAAA = 28" | "QueryType_value QT_NS = 2"
| "QueryType_value QT_MD = 3" | "QueryType_value QT_MF = 4" | "QueryType_value QT_CNAME = 5"
| "QueryType_value QT_SOA = 6" | "QueryType_value QT_MB = 7" | "QueryType_value QT_MG = 8"
| "QueryType_value QT_MR = 9" | "QueryType_value QT_TNULL = 10" | "QueryType_value QT_WKS = 11"
| "QueryType_value QT_PTR = 12" | "QueryType_value QT_HINFO = 13" | "QueryType_value QT_MINFO = 14"
| "QueryType_value QT_MX = 15" | "QueryType_value QT_TXT = 16" | "QueryType_value QT_AXFR = 252"
| "QueryType_value QT_MAILB = 253" | "QueryType_value QT_MAILA = 254" | "QueryType_value QT_ANY = 255"

datatype QueryClass = QC_IN | QC_CSNET | QC_CH | QC_HS | QC_ANY

fun QueryClass_value :: "QueryClass \<Rightarrow> u8" where
  "QueryClass_value QC_IN = 1" | "QueryClass_value QC_CSNET = 2" | "QueryClass_value QC_CH = 3"
| "QueryClass_value QC_HS = 4" | "QueryClass_value QC_ANY = 255"

datatype QueryOpcode = OP_STANDARD | OP_INVERSE | OP_STATUS

fun QueryOpcode_value :: "QueryOpcode \<Rightarrow> u8" where
  "QueryOpcode_value OP_STANDARD = 0" | "QueryOpcode_value OP_INVERSE = 1"
| "QueryOpcode_value OP_STATUS = 2"

text \<open>The subset of \<^verbatim>\<open>QueryType\<close> the resource record parser switches over.\<close>

datatype RdataType =
  RT_A | RT_AAAA | RT_NS | RT_MD | RT_MF | RT_CNAME | RT_SOA | RT_MB | RT_MG | RT_MR | RT_TNULL |
  RT_WKS | RT_PTR | RT_HINFO | RT_MINFO | RT_MX | RT_TXT

definition RdataType_of :: "u16 \<Rightarrow> RdataType option" where
  "RdataType_of rtype =
     map_of [(1, RT_A), (28, RT_AAAA), (2, RT_NS), (3, RT_MD), (4, RT_MF), (5, RT_CNAME), (6, RT_SOA),
             (7, RT_MB), (8, RT_MG), (9, RT_MR), (10, RT_TNULL), (11, RT_WKS), (12, RT_PTR),
             (13, RT_HINFO), (14, RT_MINFO), (15, RT_MX), (16, RT_TXT)] (ucast rtype :: u8)"

section \<open>Header flags\<close>

definition QR :: u16 where "QR = 0x8000"
definition OPCODE :: u16 where "OPCODE = 0x7800"
definition AA :: u16 where "AA = 0x0400"
definition TC :: u16 where "TC = 0x0200"
definition RD :: u16 where "RD = 0x0100"
definition RA :: u16 where "RA = 0x0080"
definition RCODE :: u16 where "RCODE = 0x000F"

text \<open>\<^verbatim>\<open>std::popcount\<close> and \<^verbatim>\<open>std::countr_zero\<close> on \<^verbatim>\<open>uint16_t\<close>.\<close>

definition popcount16 :: "u16 \<Rightarrow> nat" where
  "popcount16 x = length (filter (bit x) [0..<16])"

definition countr_zero16 :: "u16 \<Rightarrow> nat" where
  "countr_zero16 x = length (takeWhile (\<lambda>i. \<not> bit x i) [0..<16])"

definition set_bitfield :: "u16 \<Rightarrow> u16 \<Rightarrow> u8 \<Rightarrow> u16 option" where
  "set_bitfield FIELD m v =
     (let W = popcount16 FIELD
      in c_assert (unat v < 2 ^ W)
         (Some ((m AND NOT FIELD) OR push_bit (countr_zero16 FIELD) (ucast v AND mask W))))"

definition get_bitfield :: "u16 \<Rightarrow> u16 \<Rightarrow> u8" where
  "get_bitfield FIELD m = ucast (drop_bit (countr_zero16 FIELD) (m AND FIELD))"

definition of_flag :: "bool \<Rightarrow> u8" where
  "of_flag b = (if b then 1 else 0)"

definition is_response :: "u16 \<Rightarrow> bool" where
  "is_response v = (get_bitfield QR v = 1)"

definition set_response :: "bool \<Rightarrow> u16 \<Rightarrow> u16 option" where
  "set_response b v = set_bitfield QR v (of_flag b)"

definition set_opcode :: "u8 \<Rightarrow> u16 \<Rightarrow> u16 option" where
  "set_opcode opc v = set_bitfield OPCODE v opc"

definition opcode :: "u16 \<Rightarrow> u8" where
  "opcode v = get_bitfield OPCODE v"

definition set_authoritative_answer :: "bool \<Rightarrow> u16 \<Rightarrow> u16 option" where
  "set_authoritative_answer b v = set_bitfield AA v (of_flag b)"

definition authoritative_answer :: "u16 \<Rightarrow> bool" where
  "authoritative_answer v = (get_bitfield AA v = 1)"

definition set_truncated :: "bool \<Rightarrow> u16 \<Rightarrow> u16 option" where
  "set_truncated b v = set_bitfield TC v (of_flag b)"

definition truncated :: "u16 \<Rightarrow> bool" where
  "truncated v = (get_bitfield TC v = 1)"

definition set_recursion_desired :: "bool \<Rightarrow> u16 \<Rightarrow> u16 option" where
  "set_recursion_desired b v = set_bitfield RD v (of_flag b)"

definition recursion_desired :: "u16 \<Rightarrow> bool" where
  "recursion_desired v = (get_bitfield RD v = 1)"

definition set_recursion_available :: "bool \<Rightarrow> u16 \<Rightarrow> u16 option" where
  "set_recursion_available b v = set_bitfield RA v (of_flag b)"

definition recursion_available :: "u16 \<Rightarrow> bool" where
  "recursion_available v = (get_bitfield RA v = 1)"

definition set_rcode :: "u8 \<Rightarrow> u16 \<Rightarrow> u16 option" where
  "set_rcode c v = set_bitfield RCODE v c"

definition get_rcode :: "u16 \<Rightarrow> u8" where
  "get_rcode v = get_bitfield RCODE v"

section \<open>Messages\<close>

record Header =
  hdr_id :: u16
  hdr_flags :: u16
  hdr_qdcount :: u16
  hdr_ancount :: u16
  hdr_nscount :: u16
  hdr_arcount :: u16

record Question =
  q_id :: u16
  q_opcode :: u8
  q_recursion_desired :: bool
  q_name :: octets
  q_qtype :: u8
  q_qclass :: u8

datatype span = Span (span_data: nat) (span_bytes: octets)

text \<open>
  \<^verbatim>\<open>subspan(k)\<close>, undefined behind the end of the span, and \<^verbatim>\<open>subspan(k, n)\<close>.
\<close>

definition span_size :: "span \<Rightarrow> nat" where
  "span_size s = length (span_bytes s)"

definition subspan :: "nat \<Rightarrow> span \<Rightarrow> span option" where
  "subspan k s =
     c_assert (k \<le> span_size s) (Some (Span (span_data s + k) (drop k (span_bytes s))))"

definition span_first :: "nat \<Rightarrow> span \<Rightarrow> span option" where
  "span_first n s = c_assert (n \<le> span_size s) (Some (Span (span_data s) (take n (span_bytes s))))"

definition empty_span :: span where
  "empty_span = Span 0 []"

record DomainName =
  m_original_message_start :: nat
  m_self_start :: nat

record CharacterString =
  cs_data :: span

datatype RData =
    RDataCanonicalName DomainName
  | RDataHardwareInfo CharacterString CharacterString
  | RDataMailbox DomainName
  | RDataMailGroup DomainName
  | RDataMailInfo DomainName DomainName
  | RDataMailboxRename DomainName
  | RDataMailExchange DomainName u16
  | RDataNull span
  | RDataNameServer DomainName
  | RDataPtr DomainName
  | RDataStartOfAuthority DomainName DomainName u32 u32 u32 u32 u32
  | RDataIpv4 Ipv4Addr
  | RDataIpv6 Ipv6Addr
  | RDataObsolete u16 span
  | RDataNotYetSupported u16 span

record ResourceRecord =
  rr_name :: DomainName
  rr_rdata :: RData
  rr_ttl :: u32

record DecodeQuestionEntrySuccess =
  dq_name :: DomainName
  dq_qtype :: u8
  dq_qclass :: u8

end
