(* ===== verification/Corosig_Dns_Encode.thy ===== *)
theory Corosig_Dns_Encode
  imports Corosig_Dns_Protocol
begin

text \<open>
  The question encoder of \<^verbatim>\<open>io/dns/Protocol.hpp\<close>. The output iterator is the list of octets
  written so far, whose length is the shared count of \<^verbatim>\<open>CountingOutputIterator\<close>. Parameters
  of the definitions: \<^term>\<open>hash\<close> stands for \<^verbatim>\<open>std::hash\<close> on string views, and
  \<^term>\<open>grow n\<close> says whether the allocator can provide the memory for a compression map of
  \<^term>\<open>n\<close> entries.
\<close>

section \<open>Numbers, header and pointers\<close>

definition FQDN_MAX_OCTET_LEN :: nat where
  "FQDN_MAX_OCTET_LEN = 255"

definition encode_header :: "octets \<Rightarrow> Header \<Rightarrow> octets" where
  "encode_header out h =
     out @ write_hton (hdr_id h) @ write_hton (hdr_flags h) @ write_hton (hdr_qdcount h) @
     write_hton (hdr_ancount h) @ write_hton (hdr_nscount h) @ write_hton (hdr_arcount h)"

definition MARKER_BITS :: u16 where
  "MARKER_BITS = 0xC000"

definition MAX_VALUE :: u16 where
  "MAX_VALUE = 0x3FFF"

definition encode_compression_ptr :: "octets \<Rightarrow> u16 \<Rightarrow> octets option" where
  "encode_compression_ptr out offset =
     c_assert (offset \<le> MAX_VALUE) (Some (out @ write_hton (MARKER_BITS OR offset)))"

section \<open>The compression map\<close>

record Node =
  node_hash :: u16
  node_offset :: u16
  node_str :: octets

definition make_Node :: "(octets \<Rightarrow> u64) \<Rightarrow> octets \<Rightarrow> u16 \<Rightarrow> Node" where
  "make_Node hash s offset = \<lparr>node_hash = ucast (hash s), node_offset = offset, node_str = s\<rparr>"

text \<open>\<^verbatim>\<open>operator<=>\<close> on string views compares octet by octet.\<close>

fun sv_less :: "octets \<Rightarrow> octets \<Rightarrow> bool" where
  "sv_less [] [] = False"
| "sv_less [] (y # ys) = True"
| "sv_less (x # xs) [] = False"
| "sv_less (x # xs) (y # ys) = (x < y \<or> (x = y \<and> sv_less xs ys))"

definition node_less :: "Node \<Rightarrow> Node \<Rightarrow> bool" where
  "node_less a b \<longleftrightarrow> node_hash a < node_hash b \<or>
     (node_hash a = node_hash b \<and> sv_less (node_str a) (node_str b))"

definition node_eq :: "Node \<Rightarrow> Node \<Rightarrow> bool" where
  "node_eq a b \<longleftrightarrow> node_hash a = node_hash b \<and> node_str a = node_str b"

text \<open>
  \<^verbatim>\<open>std::lower_bound\<close> and \<^verbatim>\<open>std::upper_bound\<close> on a range partitioned by the comparison:
  the number of elements below, or not above, the searched one.
\<close>

definition lower_bound :: "('a \<Rightarrow> 'b \<Rightarrow> bool) \<Rightarrow> 'a list \<Rightarrow> 'b \<Rightarrow> nat" where
  "lower_bound lt xs n = length (takeWhile (\<lambda>x. lt x n) xs)"

definition upper_bound :: "('b \<Rightarrow> 'a \<Rightarrow> bool) \<Rightarrow> 'a list \<Rightarrow> 'b \<Rightarrow> nat" where
  "upper_bound lt xs n = length (takeWhile (\<lambda>x. \<not> lt n x) xs)"

definition CompressionMap_insert :: "(nat \<Rightarrow> bool) \<Rightarrow> Node \<Rightarrow> Node list \<Rightarrow> Node list" where
  "CompressionMap_insert grow n buckets =
     (let i = upper_bound node_less buckets n
      in if grow (length buckets + 1) then take i buckets @ n # drop i buckets else buckets)"

definition CompressionMap_find :: "Node \<Rightarrow> Node list \<Rightarrow> Node option" where
  "CompressionMap_find n buckets =
     (let i = lower_bound node_less buckets n
      in if i < length buckets \<and> node_eq (buckets ! i) n then Some (buckets ! i) else None)"

section \<open>Names\<close>

definition split_into_labels :: "octets \<Rightarrow> octets list" where
  "split_into_labels sv = views_split 0x2E (if ends_with 0x2E sv then butlast sv else sv)"

text \<open>
  \<^verbatim>\<open>write_label\<close>: the octets written, the flag \<^verbatim>\<open>all_compressed\<close> and the map.
\<close>

definition write_label ::
  "(octets \<Rightarrow> u64) \<Rightarrow> (nat \<Rightarrow> bool) \<Rightarrow> octets \<Rightarrow> octets \<Rightarrow> octets \<Rightarrow> Node list \<Rightarrow>
   ((octets \<times> bool) \<times> Node list, QuestionEncodeError) result option" where
  "write_label hash grow out label remaining_name compression_map =
     (if label = [] then Some (Failure EMPTY_LABEL)
      else if length label > 63 then Some (Failure TOO_LONG_DOMAIN_NAME_LABEL)
      else let node = make_Node hash remaining_name (word_of_nat (length out))
           in case CompressionMap_find node compression_map of
                Some found \<Rightarrow>
                  map_option (\<lambda>out. Ok ((out, True), compression_map))
                    (encode_compression_ptr out (node_offset found))
              | None \<Rightarrow>
                  let compression_map =
                        (if length out \<le> unat MAX_VALUE
                         then CompressionMap_insert grow node compression_map else compression_map)
                  in Some (Ok ((out @ word_of_nat (length label) # label, False), compression_map)))"

text \<open>
  The loop of \<^verbatim>\<open>encode_domain_name\<close>; \<^term>\<open>rest\<close> is the part of the name from the first
  octet of the current label on.
\<close>

primrec encode_labels ::
  "(octets \<Rightarrow> u64) \<Rightarrow> (nat \<Rightarrow> bool) \<Rightarrow> octets list \<Rightarrow> octets \<Rightarrow> octets \<Rightarrow> Node list \<Rightarrow>
   (octets \<times> Node list, QuestionEncodeError) result option" where
  "encode_labels hash grow [] rest out compression_map = Some (Ok (out @ [0], compression_map))"
| "encode_labels hash grow (label # labels) rest out compression_map =
     COROSIG_TRY (write_label hash grow out label rest compression_map)
       (\<lambda>((out, all_compressed), compression_map).
          if all_compressed then Some (Ok (out, compression_map))
          else encode_labels hash grow labels (drop (length label + 1) rest) out compression_map)"

definition encode_domain_name ::
  "(octets \<Rightarrow> u64) \<Rightarrow> (nat \<Rightarrow> bool) \<Rightarrow> octets \<Rightarrow> octets \<Rightarrow> Node list \<Rightarrow>
   (octets \<times> Node list, QuestionEncodeError) result option" where
  "encode_domain_name hash grow out name compression_map =
     (if length name > FQDN_MAX_OCTET_LEN then Some (Failure TOO_LONG_DOMAIN_NAME)
      else encode_labels hash grow (split_into_labels name) name out compression_map)"

definition encode_question ::
  "(octets \<Rightarrow> u64) \<Rightarrow> (nat \<Rightarrow> bool) \<Rightarrow> Question \<Rightarrow> (octets, QuestionEncodeError) result option" where
  "encode_question hash grow question = do {
     flags \<leftarrow> set_opcode (q_opcode question) 0;
     flags \<leftarrow> set_recursion_desired (q_recursion_desired question) flags;
     let out = encode_header [] \<lparr>hdr_id = q_id question, hdr_flags = flags, hdr_qdcount = 1,
                                 hdr_ancount = 0, hdr_nscount = 0, hdr_arcount = 0\<rparr>;
     COROSIG_TRY (encode_domain_name hash grow out (q_name question) [])
       (\<lambda>(out, _). Some (Ok (out @ write_hton (ucast (q_qtype question)) @
                                  write_hton (ucast (q_qclass question)))))
   }"

end
