(* ===== verification/Corosig_Dns_Hosts.thy ===== *)
theory Corosig_Dns_Hosts
  imports Corosig_Result Corosig_Sockaddr Corosig_Dns_Encode
begin

text \<open>
  The hosts file as a cache: \<^verbatim>\<open>io/dns/HostsFileCache.cpp\<close>, with \<^verbatim>\<open>ResolvedAddress\<close> and
  \<^verbatim>\<open>to_lower\<close> of \<^verbatim>\<open>io/dns/ACache.hpp\<close>. Reading the file is a parameter: \<^term>\<open>rd n f\<close> stands
  for \<^verbatim>\<open>co_await m_input.read(r, buf)\<close> with a buffer of \<^term>\<open>n\<close> octets on the file
  \<^term>\<open>f\<close>; it gives the octets read and the file with its position advanced. The parser of
  the address type is a parameter like the template argument \<^verbatim>\<open>IP\<close>. A time point is a number
  of nanoseconds.
\<close>

section \<open>Shared by the caches\<close>

definition to_lower :: "u8 \<Rightarrow> u8" where
  "to_lower c = (if c \<ge> 0x41 \<and> c \<le> 0x5A then c + 32 else c)"

text \<open>With a signed \<^verbatim>\<open>char\<close>, bit 8 of the promoted value is its sign.\<close>

definition debug_is_ascii :: "octets \<Rightarrow> bool" where
  "debug_is_ascii str = list_all (\<lambda>c. c < 0x80) str"

record 'ip ResolvedAddress =
  address :: 'ip
  expires_at :: int

section \<open>The parser and its buffer\<close>

datatype State = AT_IP | AT_NAME | SKIPPING_LINE

definition BUFFER_SIZE :: nat where
  "BUFFER_SIZE = 511"

record 'f HostsFileParser =
  m_input :: 'f
  m_unused_front_buffer :: nat
  m_used_buffer :: nat
  m_state :: State
  m_buffer :: octets

type_synonym 'f reader = "nat \<Rightarrow> 'f \<Rightarrow> (octets, SyscallError) result \<times> 'f"

definition HostsFileParser_make :: "octets \<Rightarrow> 'f \<Rightarrow> 'f HostsFileParser" where
  "HostsFileParser_make buf f =
     \<lparr>m_input = f, m_unused_front_buffer = 0, m_used_buffer = 0, m_state = AT_IP, m_buffer = buf\<rparr>"

definition get_used_buffer :: "'f HostsFileParser \<Rightarrow> octets" where
  "get_used_buffer p = take (m_used_buffer p) (drop (m_unused_front_buffer p) (m_buffer p))"

definition free_buffer_size :: "'f HostsFileParser \<Rightarrow> nat" where
  "free_buffer_size p = length (m_buffer p) - (m_unused_front_buffer p + m_used_buffer p)"

definition read_to_free_buffer ::
  "'f reader \<Rightarrow> 'f HostsFileParser \<Rightarrow> (unit, SyscallError) result \<times> 'f HostsFileParser" where
  "read_to_free_buffer rd p =
     (case rd (free_buffer_size p) (m_input p) of
        (Ok bs, f) \<Rightarrow>
          let n = m_unused_front_buffer p + m_used_buffer p in
          (Ok (), p\<lparr>m_input := f, m_used_buffer := m_used_buffer p + length bs,
                    m_buffer := take n (m_buffer p) @ bs @ drop (n + length bs) (m_buffer p)\<rparr>)
      | (Failure e, f) \<Rightarrow> (Failure e, p\<lparr>m_input := f\<rparr>)
      | (Nothing, f) \<Rightarrow> (Nothing, p\<lparr>m_input := f\<rparr>))"

definition shift_buffer_to_left :: "'f HostsFileParser \<Rightarrow> 'f HostsFileParser" where
  "shift_buffer_to_left p =
     p\<lparr>m_buffer := get_used_buffer p @ drop (length (get_used_buffer p)) (m_buffer p),
       m_unused_front_buffer := 0\<rparr>"

definition adwance_buffer :: "nat \<Rightarrow> 'f HostsFileParser \<Rightarrow> 'f HostsFileParser option" where
  "adwance_buffer n p =
     c_assert (n \<le> m_used_buffer p)
       (Some (p\<lparr>m_used_buffer := m_used_buffer p - n,
                m_unused_front_buffer := m_unused_front_buffer p + n\<rparr>))"

definition is_blank :: "u8 \<Rightarrow> bool" where
  "is_blank c \<longleftrightarrow> c = 0x20 \<or> c = 0x09"

definition skip_ws :: "'f HostsFileParser \<Rightarrow> 'f HostsFileParser option" where
  "skip_ws p = adwance_buffer (length (takeWhile is_blank (get_used_buffer p))) p"

text \<open>
  The literal searched for is an array of five characters: its terminating zero is a delimiter.
\<close>

definition is_delimiter :: "u8 \<Rightarrow> bool" where
  "is_delimiter c \<longleftrightarrow> c \<in> set [0x20, 0x09, 0x23, 0x0A, 0]"

definition find_next_ws :: "'f HostsFileParser \<Rightarrow> nat" where
  "find_next_ws p = length (takeWhile (\<lambda>c. \<not> is_delimiter c) (get_used_buffer p))"

definition skip_line :: "'f HostsFileParser \<Rightarrow> 'f HostsFileParser option" where
  "skip_line p =
     (let used_buf = get_used_buffer p; it = length (takeWhile (\<lambda>c. c \<noteq> 0x0A) used_buf);
          p = (if it \<noteq> length used_buf then p\<lparr>m_state := AT_IP\<rparr> else p)
      in adwance_buffer (min (length (m_buffer p)) (m_unused_front_buffer p + it + 1)) p)"

section \<open>Collecting addresses\<close>

text \<open>
  The variables of the loop of \<^verbatim>\<open>parse_and_collect\<close>: the size of what is left of \<^verbatim>\<open>out\<close>, the
  addresses written so far, the address of the current line, and the parser.
\<close>

record ('ip, 'f) collecting =
  room :: nat
  found :: "'ip ResolvedAddress list"
  addr :: "'ip option"
  self :: "'f HostsFileParser"

definition set_parser :: "State \<Rightarrow> 'f HostsFileParser \<Rightarrow> ('ip, 'f) collecting \<Rightarrow> ('ip, 'f) collecting" where
  "set_parser st p c = c\<lparr>self := p\<lparr>m_state := st\<rparr>\<rparr>"

definition at_ip :: "(octets \<Rightarrow> 'ip option) \<Rightarrow> ('ip, 'f) collecting \<Rightarrow> ('ip, 'f) collecting option" where
  "at_ip IP_parse c = do {
     let c = c\<lparr>addr := None\<rparr>;
     p \<leftarrow> skip_ws (self c);
     let it = find_next_ws p;
     let used_buf = get_used_buffer p;
     p \<leftarrow> adwance_buffer it p;
     Some (if it = length used_buf \<or> used_buf ! it = 0x23 \<or> used_buf ! it = 0x0A
           then set_parser SKIPPING_LINE p c
           else let a = IP_parse (take it used_buf)
                in set_parser (if a \<noteq> None then AT_NAME else SKIPPING_LINE) p (c\<lparr>addr := a\<rparr>))
   }"

text \<open>
  The lower-casing of the name in the buffer is observed by the comparison only: the octets are
  not read again.
\<close>

definition at_name :: "octets \<Rightarrow> ('ip, 'f) collecting \<Rightarrow> ('ip, 'f) collecting option" where
  "at_name ascii_name_lowercase c = do {
     p \<leftarrow> skip_ws (self c);
     let it = find_next_ws p;
     let used_buf = get_used_buffer p;
     p \<leftarrow> adwance_buffer it p;
     if it = length used_buf \<or> used_buf ! it = 0x23 then Some (set_parser SKIPPING_LINE p c)
     else do {
       c \<leftarrow> (if map to_lower (take it used_buf) = ascii_name_lowercase
              then map_option (\<lambda>a. c\<lparr>found := found c @ [\<lparr>address = a, expires_at = 0\<rparr>], room := room c - 1\<rparr>) (addr c)
              else Some c);
       Some (set_parser (if used_buf ! it = 0x0A then SKIPPING_LINE else AT_NAME) p c)
     }
   }"

text \<open>One iteration: the buffer is shifted and refilled, then the state decides.\<close>

definition hosts_step :: "'f reader \<Rightarrow> (octets \<Rightarrow> 'ip option) \<Rightarrow> octets \<Rightarrow> ('ip, 'f) collecting \<Rightarrow>
    (('ip, 'f) collecting, SyscallError) result option" where
  "hosts_step rd IP_parse ascii_name_lowercase c =
     (case read_to_free_buffer rd (shift_buffer_to_left (self c)) of
        (Nothing, _) \<Rightarrow> None
      | (Failure e, _) \<Rightarrow> Some (Failure e)
      | (Ok _, p) \<Rightarrow>
          map_option Ok
            (case m_state p of
               AT_IP \<Rightarrow> at_ip IP_parse (c\<lparr>self := p\<rparr>)
             | AT_NAME \<Rightarrow> at_name ascii_name_lowercase (c\<lparr>self := p\<rparr>)
             | SKIPPING_LINE \<Rightarrow> map_option (\<lambda>p. c\<lparr>self := p\<rparr>) (skip_line p)))"

partial_function (option) hosts_loop ::
  "'f reader \<Rightarrow> (octets \<Rightarrow> 'ip option) \<Rightarrow> octets \<Rightarrow> ('ip, 'f) collecting \<Rightarrow>
   ('ip ResolvedAddress list, SyscallError) result option" where
  "hosts_loop rd IP_parse ascii_name_lowercase c =
     (if room c \<noteq> 0 \<and> m_used_buffer (self c) \<noteq> 0 then
        Option.bind (hosts_step rd IP_parse ascii_name_lowercase c) (\<lambda>r. case r of
          Nothing \<Rightarrow> None
        | Failure e \<Rightarrow> Some (Failure e)
        | Ok c \<Rightarrow> hosts_loop rd IP_parse ascii_name_lowercase c)
      else Some (Ok (found c)))"

text \<open>
  \<^term>\<open>opened\<close> is the outcome of opening the file, \<^term>\<open>buf\<close> the uninitialised buffer. The
  result is the list of addresses written to \<^verbatim>\<open>out\<close>, whose length is the number returned.
\<close>

definition parse_and_collect ::
  "'f reader \<Rightarrow> (octets \<Rightarrow> 'ip option) \<Rightarrow> ('f, SyscallError) result \<Rightarrow> octets \<Rightarrow> octets \<Rightarrow> nat \<Rightarrow>
   ('ip ResolvedAddress list, SyscallError) result option" where
  "parse_and_collect rd IP_parse opened buf ascii_name n =
     c_assert (debug_is_ascii ascii_name)
       (if length ascii_name > FQDN_MAX_OCTET_LEN then Some (Ok [])
        else COROSIG_TRY (Some opened) (\<lambda>f.
          case read_to_free_buffer rd (HostsFileParser_make buf f) of
            (Nothing, _) \<Rightarrow> None
          | (Failure e, _) \<Rightarrow> Some (Failure e)
          | (Ok _, p) \<Rightarrow> hosts_loop rd IP_parse (map to_lower ascii_name)
                          \<lparr>room = n, found = [], addr = None, self = p\<rparr>))"

end
