(* ===== verification/Corosig_Dns_Hosts_Claims.thy ===== *)
theory Corosig_Dns_Hosts_Claims
  imports Corosig_Dns_Hosts
begin

text \<open>
  The buffered parser of the hosts file against a definition that looks at whole lines, for
  files whose lines fit into the buffer.
\<close>

section \<open>Lines\<close>

definition token :: "octets \<Rightarrow> octets" where
  "token l = takeWhile (\<lambda>c. \<not> is_delimiter c) l"

definition after_token :: "octets \<Rightarrow> octets" where
  "after_token l = dropWhile (\<lambda>c. \<not> is_delimiter c) l"

lemma token_append [simp]: "token l @ after_token l = l"
  by (simp add: token_def after_token_def)

lemma length_token: "length (token l) + length (after_token l) = length l"
  by (metis length_append token_append)

text \<open>The names of a line, behind its address: up to a comment sign, in order.\<close>

function names_from :: "octets \<Rightarrow> octets list" where
  "names_from l =
     (let l = dropWhile is_blank l
      in case after_token l of
           [] \<Rightarrow> [token l]
         | c # _ \<Rightarrow> if is_blank c then token l # names_from (after_token l) else [])"
  by pat_completeness auto
termination
proof (relation "measure length")
  fix l m c cs
  assume m: "m = dropWhile is_blank l" and c: "after_token m = c # cs" and "is_blank c"
  have "token m \<noteq> []"
  proof
    assume "token m = []"
    then have "m = c # cs"
      using token_append[of m] c by simp
    then show False
      using m \<open>is_blank c\<close> hd_dropWhile[of is_blank l] by auto
  qed
  then have "length (after_token m) < length m"
    using length_token[of m] by (cases "token m") auto
  also have "\<dots> \<le> length l"
    by (simp add: m length_dropWhile_le)
  finally show "(after_token m, l) \<in> measure length"
    by simp
qed simp

declare names_from.simps [simp del]

definition hits :: "octets \<Rightarrow> octets \<Rightarrow> nat" where
  "hits name l = length (filter (\<lambda>t. map to_lower t = name) (names_from l))"

definition line_addrs :: "(octets \<Rightarrow> 'ip option) \<Rightarrow> octets \<Rightarrow> octets \<Rightarrow> 'ip list" where
  "line_addrs IP_parse name l =
     (let l = dropWhile is_blank l
      in case after_token l of
           [] \<Rightarrow> []
         | c # _ \<Rightarrow> if c = 0x23 then []
                    else (case IP_parse (token l) of None \<Rightarrow> [] | Some a \<Rightarrow> replicate (hits name (after_token l)) a))"

definition file_of :: "octets list \<Rightarrow> octets" where
  "file_of ls = concat (map (\<lambda>l. l @ [0x0A]) ls)"

definition line_ok :: "octets \<Rightarrow> bool" where
  "line_ok l \<longleftrightarrow> length l < 510 \<and> 0x0A \<notin> set l \<and> 0 \<notin> set l"

section \<open>The buffer as a window over the rest of the file\<close>

definition win :: "octets HostsFileParser \<Rightarrow> octets \<Rightarrow> bool" where
  "win p r \<longleftrightarrow> length (m_buffer p) = BUFFER_SIZE \<and> m_unused_front_buffer p < BUFFER_SIZE \<and>
     m_used_buffer p = min (BUFFER_SIZE - m_unused_front_buffer p) (length r) \<and>
     get_used_buffer p = take (m_used_buffer p) r \<and> m_input p = drop (m_used_buffer p) r"

lemma win_empty: "win p r \<Longrightarrow> m_used_buffer p = 0 \<longleftrightarrow> r = []"
  by (cases r) (auto simp: win_def)

lemma win_state [simp]: "win (p\<lparr>m_state := st\<rparr>) r \<longleftrightarrow> win p r"
  by (simp add: win_def get_used_buffer_def)

lemma adwance_win:
  assumes "win p r" and "m_unused_front_buffer p + n < BUFFER_SIZE" and "n \<le> length r"
  shows "\<exists>p'. adwance_buffer n p = Some p' \<and> win p' (drop n r) \<and> m_state p' = m_state p \<and>
    m_unused_front_buffer p' = m_unused_front_buffer p + n"
proof -
  let ?p = "p\<lparr>m_used_buffer := m_used_buffer p - n, m_unused_front_buffer := m_unused_front_buffer p + n\<rparr>"
  have n: "n \<le> m_used_buffer p"
    using assms by (auto simp: win_def)
  then have "get_used_buffer ?p = drop n (get_used_buffer p)"
    by (simp add: get_used_buffer_def drop_take add.commute)
  then have "win ?p (drop n r)"
    using assms n by (auto simp: win_def drop_take)
  then show ?thesis
    using n by (simp add: adwance_buffer_def)
qed

locale regular_file =
  fixes rd :: "octets reader"
  assumes reads: "rd n f = (Ok (take n f), drop n f)"
begin

lemma refill:
  assumes "win p r"
  shows "\<exists>p'. read_to_free_buffer rd (shift_buffer_to_left p) = (Ok (), p') \<and> win p' r \<and>
    m_state p' = m_state p \<and> m_unused_front_buffer p' = 0"
proof -
  let ?u = "m_used_buffer p" and ?q = "shift_buffer_to_left p"
  have u: "length (get_used_buffer p) = ?u" "?u \<le> BUFFER_SIZE" "?u \<le> length r"
    using assms by (auto simp: win_def)
  let ?n = "BUFFER_SIZE - ?u" and ?bs = "take (BUFFER_SIZE - ?u) (drop ?u r)"
  have q: "m_unused_front_buffer ?q = 0" "m_used_buffer ?q = ?u" "m_state ?q = m_state p" "m_input ?q = drop ?u r"
      "m_buffer ?q = take ?u r @ drop ?u (m_buffer p)" "free_buffer_size ?q = ?n"
    using assms u by (auto simp: shift_buffer_to_left_def win_def free_buffer_size_def)
  let ?k = "min BUFFER_SIZE (length r)"
  let ?p = "?q\<lparr>m_input := drop BUFFER_SIZE r, m_used_buffer := ?k,
      m_buffer := take BUFFER_SIZE r @ drop ?k (m_buffer ?q)\<rparr>"
  have l: "?u + length ?bs = ?k" and d: "drop ?n (drop ?u r) = drop BUFFER_SIZE r"
    using u by auto
  have "take ?u r @ ?bs = take (?u + ?n) r"
    by (simp only: take_add)
  then have t: "take ?u r @ ?bs = take BUFFER_SIZE r"
    using u(2) by simp
  have "take ?u (m_buffer ?q) = take ?u r"
    using q(5) u(3) by simp
  then have "read_to_free_buffer rd ?q = (Ok (), ?q\<lparr>m_input := drop ?n (drop ?u r), m_used_buffer := ?u + length ?bs,
      m_buffer := (take ?u r @ ?bs) @ drop (?u + length ?bs) (m_buffer ?q)\<rparr>)"
    by (simp add: read_to_free_buffer_def reads Let_def q(1,2,4,6) del: length_take take_append)
  then have "read_to_free_buffer rd ?q = (Ok (), ?p)"
    by (simp only: l d t)
  moreover have "win ?p r"
  proof (cases "length r \<le> BUFFER_SIZE")
    case True
    then show ?thesis
      using assms q(1,5) u by (simp add: win_def get_used_buffer_def BUFFER_SIZE_def min_def)
  next
    case False
    then show ?thesis
      using assms q(1,5) u by (simp add: win_def get_used_buffer_def BUFFER_SIZE_def min_def)
  qed
  ultimately show ?thesis
    using q by auto
qed

end

section \<open>Steps inside of a line\<close>

lemma win_line:
  assumes "win p (l @ 0x0A # tail)" and "m_unused_front_buffer p + length l < 510"
  shows "\<exists>w. get_used_buffer p = l @ 0x0A # w"
proof -
  let ?u = "m_used_buffer p"
  have "length l < ?u"
    using assms by (auto simp: win_def BUFFER_SIZE_def)
  then obtain k where "?u = length l + Suc k"
    by (metis less_iff_Suc_add add_Suc_right)
  then show ?thesis
    using assms(1) by (auto simp: win_def)
qed

lemma takeWhile_line: "\<not> P c \<Longrightarrow> takeWhile P (l @ c # w) = takeWhile P l"
  by (induction l) auto

lemma delimiter_simps [simp]: "is_delimiter 0x0A" "is_delimiter 0x23" "\<not> is_blank 0x0A" "\<not> is_blank 0x23" "is_blank c \<Longrightarrow> is_delimiter c"
  by (auto simp: is_delimiter_def is_blank_def)

lemma length_takeWhile_dropWhile: "length (takeWhile P l) + length (dropWhile P l) = length l"
  by (metis length_append takeWhile_dropWhile_id)

lemma drop_takeWhile_line: "drop (length (takeWhile P l)) (l @ w) = dropWhile P l @ w"
  by (simp add: dropWhile_eq_drop length_takeWhile_le)

definition next_token_post :: "octets HostsFileParser \<Rightarrow> octets \<Rightarrow> octets \<Rightarrow> octets HostsFileParser \<Rightarrow> octets HostsFileParser \<Rightarrow> bool" where
  "next_token_post p l tail p1 p2 \<longleftrightarrow> skip_ws p = Some p1 \<and> find_next_ws p1 = length (token l) \<and>
     adwance_buffer (length (token l)) p1 = Some p2 \<and> take (length (token l)) (get_used_buffer p1) = token l \<and>
     length (token l) \<noteq> length (get_used_buffer p1) \<and>
     get_used_buffer p1 ! length (token l) = hd (after_token l @ [0x0A]) \<and>
     win p2 (after_token l @ 0x0A # tail) \<and> m_unused_front_buffer p2 + length (after_token l) < 510"

lemma next_token:
  assumes "win p (l @ 0x0A # tail)" and "m_unused_front_buffer p + length l < 510"
  shows "\<exists>p1 p2. next_token_post p (dropWhile is_blank l) tail p1 p2"
proof -
  let ?l = "dropWhile is_blank l" and ?n = "length (takeWhile is_blank l)"
  have len: "?n + length ?l = length l"
    by (rule length_takeWhile_dropWhile)
  obtain w where "get_used_buffer p = l @ 0x0A # w"
    using win_line[OF assms] by blast
  then have ws: "length (takeWhile is_blank (get_used_buffer p)) = ?n"
    by (simp add: takeWhile_line)
  have "m_unused_front_buffer p + ?n < BUFFER_SIZE" "?n \<le> length (l @ 0x0A # tail)"
    using assms(2) len by (auto simp: BUFFER_SIZE_def)
  then obtain p1 where p1: "skip_ws p = Some p1" "win p1 (?l @ 0x0A # tail)"
      "m_unused_front_buffer p1 = m_unused_front_buffer p + ?n"
    using adwance_win[OF assms(1), of ?n] by (auto simp: skip_ws_def ws drop_takeWhile_line simp del: drop_append)
  have u1: "m_unused_front_buffer p1 + length ?l < 510"
    using p1(3) assms(2) len by simp
  obtain w1 where w1: "get_used_buffer p1 = ?l @ 0x0A # w1"
    using win_line[OF p1(2) u1] by blast
  have lt: "length (token ?l) + length (after_token ?l) = length ?l"
    by (rule length_token)
  have find: "find_next_ws p1 = length (token ?l)"
    by (simp add: find_next_ws_def w1 takeWhile_line token_def)
  have split: "get_used_buffer p1 = token ?l @ after_token ?l @ 0x0A # w1"
    by (metis append.assoc token_append w1)
  have nth: "get_used_buffer p1 ! length (token ?l) = hd (after_token ?l @ [0x0A])"
    unfolding split by (cases "after_token ?l") (simp_all add: nth_append)
  have "m_unused_front_buffer p1 + length (token ?l) < BUFFER_SIZE" "length (token ?l) \<le> length (?l @ 0x0A # tail)"
    using u1 lt by (auto simp: BUFFER_SIZE_def)
  moreover have "drop (length (token ?l)) (?l @ 0x0A # tail) = after_token ?l @ 0x0A # tail"
    unfolding token_def after_token_def by (rule drop_takeWhile_line)
  ultimately obtain p2 where "adwance_buffer (length (token ?l)) p1 = Some p2" "win p2 (after_token ?l @ 0x0A # tail)"
      "m_unused_front_buffer p2 = m_unused_front_buffer p1 + length (token ?l)"
    using adwance_win[OF p1(2), of "length (token ?l)"] by (auto simp del: drop_append)
  then show ?thesis
    unfolding next_token_post_def
    using p1(1) find nth u1 lt split by (intro exI[of _ p1] exI[of _ p2]) simp
qed

lemma skip_line_win:
  assumes "win p (l @ 0x0A # tail)" and "m_unused_front_buffer p + length l < 510" and "0x0A \<notin> set l"
    and "m_unused_front_buffer p = 0"
  shows "\<exists>p'. skip_line p = Some p' \<and> win p' tail \<and> m_state p' = AT_IP"
proof -
  obtain w where w: "get_used_buffer p = l @ 0x0A # w"
    using win_line[OF assms(1,2)] by blast
  have "takeWhile (\<lambda>c. c \<noteq> 0x0A) (get_used_buffer p) = l"
    using assms(3) by (simp add: w takeWhile_line takeWhile_eq_all_conv) (metis takeWhile_eq_all_conv)
  moreover have "length l + 1 < BUFFER_SIZE" "length l + 1 \<le> length (l @ 0x0A # tail)"
    using assms(2) by (auto simp: BUFFER_SIZE_def)
  moreover from this obtain p' where "adwance_buffer (length l + 1) (p\<lparr>m_state := AT_IP\<rparr>) = Some p'"
      "win p' tail" "m_state p' = AT_IP"
    using adwance_win[of "p\<lparr>m_state := AT_IP\<rparr>" "l @ 0x0A # tail" "length l + 1"] assms(1,4) by auto
  ultimately show ?thesis
    using assms(1,4) by (auto simp: skip_line_def Let_def w win_def)
qed

section \<open>The loop\<close>

definition at_state :: "State \<Rightarrow> octets \<Rightarrow> ('ip, octets) collecting \<Rightarrow> bool" where
  "at_state st r c \<longleftrightarrow> m_state (self c) = st \<and> win (self c) r"

definition resolved :: "'ip list \<Rightarrow> 'ip ResolvedAddress list" where
  "resolved as = map (\<lambda>a. \<lparr>address = a, expires_at = 0\<rparr>) as"

lemma resolved_simps [simp]:
  "resolved [] = []" "resolved (a # as) = \<lparr>address = a, expires_at = 0\<rparr> # resolved as"
  "resolved (as @ bs) = resolved as @ resolved bs" "resolved (take k as) = take k (resolved as)"
  by (simp_all add: resolved_def take_map)

text \<open>What the loop returns: the addresses found so far and those that follow, as far as there is room.\<close>

definition gives :: "octets reader \<Rightarrow> (octets \<Rightarrow> 'ip option) \<Rightarrow> octets \<Rightarrow> ('ip, octets) collecting \<Rightarrow> 'ip list \<Rightarrow> bool" where
  "gives rd IP_parse name c as \<longleftrightarrow>
     hosts_loop rd IP_parse name c = Some (Ok (found c @ take (room c) (resolved as)))"

lemma gives_done: "room c = 0 \<or> m_used_buffer (self c) = 0 \<and> as = [] \<Longrightarrow> gives rd IP_parse name c as"
  by (auto simp: gives_def hosts_loop.simps[of rd])

lemma gives_step:
  assumes "m_used_buffer (self c) \<noteq> 0"
    and "room c \<noteq> 0 \<Longrightarrow> \<exists>c'. hosts_step rd IP_parse name c = Some (Ok c') \<and> gives rd IP_parse name c' bs \<and>
           found c' @ take (room c') (resolved bs) = found c @ take (room c) (resolved as)"
  shows "gives rd IP_parse name c as"
proof (cases "room c = 0")
  case False
  then obtain c' where "hosts_step rd IP_parse name c = Some (Ok c')" "gives rd IP_parse name c' bs"
      "found c' @ take (room c') (resolved bs) = found c @ take (room c) (resolved as)"
    using assms(2) by blast
  then show ?thesis
    using assms(1) False by (simp add: gives_def hosts_loop.simps[of rd IP_parse name c])
qed (simp add: gives_done)

context regular_file
begin

lemma step_refill:
  assumes "at_state st r c"
  shows "\<exists>p. read_to_free_buffer rd (shift_buffer_to_left (self c)) = (Ok (), p) \<and> win p r \<and> m_state p = st \<and>
    m_unused_front_buffer p = 0"
  using refill[of "self c" r] assms by (auto simp: at_state_def)

lemma gives_skip:
  assumes c: "at_state SKIPPING_LINE (l @ 0x0A # tail) c" and l: "length l < 510" "0x0A \<notin> set l"
    and IH: "\<And>c. at_state AT_IP tail c \<Longrightarrow> gives rd IP_parse name c as"
  shows "gives rd IP_parse name c as"
proof (rule gives_step)
  show "m_used_buffer (self c) \<noteq> 0"
    using c win_empty by (auto simp: at_state_def)
  obtain p where p: "read_to_free_buffer rd (shift_buffer_to_left (self c)) = (Ok (), p)" "win p (l @ 0x0A # tail)"
      "m_state p = SKIPPING_LINE" "m_unused_front_buffer p = 0"
    using step_refill[OF c] by blast
  obtain p' where "skip_line p = Some p'" "win p' tail" "m_state p' = AT_IP"
    using skip_line_win[OF p(2)] l p(4) by auto
  then show "\<exists>c'. hosts_step rd IP_parse name c = Some (Ok c') \<and> gives rd IP_parse name c' as \<and>
      found c' @ take (room c') (resolved as) = found c @ take (room c) (resolved as)"
    using p IH[of "c\<lparr>self := p'\<rparr>"] by (simp add: hosts_step_def at_state_def)
qed

lemma after_token_cases:
  assumes "0 \<notin> set l" and "0x0A \<notin> set l"
  obtains (eol) "after_token l = []" | (delim) c cs where "after_token l = c # cs" "c = 0x23 \<or> is_blank c"
proof (cases "after_token l")
  case (Cons c cs)
  then have "is_delimiter c"
    using hd_dropWhile[of "\<lambda>c. \<not> is_delimiter c" l] by (auto simp: after_token_def)
  moreover have "c \<in> set l"
    using Cons token_append[of l] by (metis UnCI list.set_intros(1) set_append)
  ultimately show ?thesis
    using that(2)[OF Cons] assms by (auto simp: is_delimiter_def is_blank_def)
qed (rule that(1))

lemma set_dropWhile_blank: "set (dropWhile is_blank l) \<subseteq> set l"
  using set_dropWhileD by fastforce

lemma set_after_token: "set (after_token l) \<subseteq> set l"
  unfolding after_token_def using set_dropWhileD by fastforce

lemma names_from_after:
  "names_from l = (case after_token (dropWhile is_blank l) of
     [] \<Rightarrow> [token (dropWhile is_blank l)]
   | c # _ \<Rightarrow> if is_blank c then token (dropWhile is_blank l) # names_from (after_token (dropWhile is_blank l)) else [])"
  by (subst names_from.simps) (simp add: Let_def)

lemma gives_names:
  assumes "at_state AT_NAME (l @ 0x0A # tail) c" and "line_ok l" and "addr c = Some a"
    and IH: "\<And>c. at_state AT_IP tail c \<Longrightarrow> gives rd IP_parse name c as"
  shows "gives rd IP_parse name c (replicate (hits name l) a @ as)"
  using assms(1-3)
proof (induction "length l" arbitrary: l c rule: less_induct)
  case less
  obtain p where p: "read_to_free_buffer rd (shift_buffer_to_left (self c)) = (Ok (), p)" "win p (l @ 0x0A # tail)"
      "m_state p = AT_NAME" "m_unused_front_buffer p = 0"
    using step_refill[OF less.prems(1)] by blast
  let ?l = "dropWhile is_blank l" and ?c = "c\<lparr>self := p\<rparr>"
  have ok: "length l < 510" "0x0A \<notin> set l" "0 \<notin> set l"
    using less.prems(2) by (auto simp: line_ok_def)
  then have ok1: "0x0A \<notin> set ?l" "0 \<notin> set ?l" "0x0A \<notin> set (after_token ?l)" "0 \<notin> set (after_token ?l)"
    using set_dropWhile_blank[of l] set_after_token[of ?l] by auto
  obtain p1 p2 where "next_token_post p ?l tail p1 p2"
    using next_token[OF p(2)] ok p(4) by auto
  note tok = this[unfolded next_token_post_def]
  have step: "hosts_step rd IP_parse name c = map_option Ok (at_name name ?c)"
    using p by (simp add: hosts_step_def)
  have used: "m_used_buffer (self c) \<noteq> 0"
    using less.prems(1) win_empty by (auto simp: at_state_def)
  have len2: "length (after_token ?l) < 510"
    using tok by simp
  define hit where "hit = (map to_lower (token ?l) = name)"
  define c1 where "c1 = (if hit then ?c\<lparr>found := found c @ [\<lparr>address = a, expires_at = 0\<rparr>], room := room c - 1\<rparr> else ?c)"
  show ?case
    using ok1(2,1)
  proof (cases rule: after_token_cases)
    case eol
    let ?c' = "set_parser SKIPPING_LINE p2 c1"
    have "at_name name ?c = Some ?c'"
      using tok eol less.prems(3) by (simp add: at_name_def Let_def c1_def hit_def)
    moreover have "gives rd IP_parse name ?c' as"
      by (rule gives_skip[where l = "[]", OF _ _ _ IH]) (use tok eol in \<open>simp_all add: at_state_def set_parser_def\<close>)
    moreover have "hits name l = (if hit then 1 else 0)"
      using eol by (simp add: hits_def names_from_after[of l] hit_def)
    moreover have "found ?c' @ take (room ?c') (resolved as) =
        found c @ take (room c) (resolved (replicate (if hit then 1 else 0) a @ as))" if "room c \<noteq> 0"
      using that by (cases "room c") (auto simp: set_parser_def c1_def)
    ultimately show ?thesis
      using step by (intro gives_step[OF used]) auto
  next
    case (delim d ds)
    show ?thesis
    proof (cases "d = 0x23")
      case True
      have "at_name name ?c = Some (set_parser SKIPPING_LINE p2 ?c)"
        using tok delim True by (simp add: at_name_def Let_def)
      moreover have "gives rd IP_parse name (set_parser SKIPPING_LINE p2 ?c) as"
        by (rule gives_skip[where l = "after_token ?l", OF _ _ _ IH])
           (use tok len2 ok1 in \<open>simp_all add: at_state_def set_parser_def\<close>)
      moreover have "hits name l = 0"
        using delim True by (simp add: hits_def names_from_after[of l])
      ultimately show ?thesis
        using step by (intro gives_step[OF used]) (auto simp: set_parser_def)
    next
      case False
      then have bl: "is_blank d" "d \<noteq> 0x0A"
        using delim ok1(3) by auto
      let ?c' = "set_parser AT_NAME p2 c1"
      have "at_name name ?c = Some ?c'"
        using tok delim False bl less.prems(3) by (simp add: at_name_def Let_def c1_def hit_def)
      moreover have "length (after_token ?l) < length l"
      proof -
        have "token ?l \<noteq> []"
          using delim bl hd_dropWhile[of is_blank l] token_append[of ?l] by (metis append_Nil list.distinct(1) list.sel(1))
        then show ?thesis
          using length_token[of ?l] length_takeWhile_dropWhile[of is_blank l] by (cases "token ?l") auto
      qed
      moreover from this have "gives rd IP_parse name ?c' (replicate (hits name (after_token ?l)) a @ as)"
        by (rule less.hyps)
           (use tok len2 ok1 less.prems(3) in \<open>simp_all add: at_state_def set_parser_def line_ok_def c1_def\<close>)
      moreover have "hits name l = (if hit then 1 else 0) + hits name (after_token ?l)"
        using delim bl by (simp add: hits_def names_from_after[of l] hit_def)
      moreover have "found ?c' @ take (room ?c') (resolved (replicate n a @ as)) =
          found c @ take (room c) (resolved (replicate ((if hit then 1 else 0) + n) a @ as))" if "room c \<noteq> 0" for n
        using that by (cases "room c") (auto simp: set_parser_def c1_def)
      ultimately show ?thesis
        using step by (intro gives_step[OF used]) auto
    qed
  qed
qed

end

context regular_file
begin

lemma gives_line:
  assumes c: "at_state AT_IP (l @ 0x0A # tail) c" and l: "line_ok l"
    and IH: "\<And>c. at_state AT_IP tail c \<Longrightarrow> gives rd IP_parse name c as"
  shows "gives rd IP_parse name c (line_addrs IP_parse name l @ as)"
proof -
  obtain p where p: "read_to_free_buffer rd (shift_buffer_to_left (self c)) = (Ok (), p)" "win p (l @ 0x0A # tail)"
      "m_state p = AT_IP" "m_unused_front_buffer p = 0"
    using step_refill[OF c] by blast
  let ?l = "dropWhile is_blank l" and ?c = "c\<lparr>self := p\<rparr>"
  have ok: "length l < 510" "0x0A \<notin> set l" "0 \<notin> set l"
    using l by (auto simp: line_ok_def)
  then have ok1: "0x0A \<notin> set ?l" "0 \<notin> set ?l" "0x0A \<notin> set (after_token ?l)" "0 \<notin> set (after_token ?l)"
    using set_dropWhile_blank[of l] set_after_token[of ?l] by auto
  obtain p1 p2 where "next_token_post p ?l tail p1 p2"
    using next_token[OF p(2)] ok p(4) by auto
  note tok = this[unfolded next_token_post_def]
  have step: "hosts_step rd IP_parse name c = map_option Ok (at_ip IP_parse ?c)"
    using p by (simp add: hosts_step_def)
  have used: "m_used_buffer (self c) \<noteq> 0"
    using c win_empty by (auto simp: at_state_def)
  have len2: "length (after_token ?l) < 510"
    using tok by simp
  have skip: "gives rd IP_parse name (set_parser SKIPPING_LINE p2 d) as" for d
    by (rule gives_skip[where l = "after_token ?l", OF _ _ _ IH])
       (use tok len2 ok1 in \<open>simp_all add: at_state_def set_parser_def\<close>)
  show ?thesis
  proof (cases "\<exists>d ds. after_token ?l = d # ds \<and> d \<noteq> 0x23")
    case False
    then have "line_addrs IP_parse name l = []"
      by (auto simp: line_addrs_def Let_def split: list.splits)
    moreover have "at_ip IP_parse ?c = Some (set_parser SKIPPING_LINE p2 (?c\<lparr>addr := None\<rparr>))"
      using tok False by (cases "after_token ?l") (auto simp: at_ip_def Let_def)
    ultimately show ?thesis
      using step skip by (intro gives_step[OF used]) (auto simp: set_parser_def)
  next
    case True
    then obtain d ds where d: "after_token ?l = d # ds" "d \<noteq> 0x23" "d \<noteq> 0x0A"
      using ok1(3) by auto
    have ip: "at_ip IP_parse ?c = Some (set_parser (if IP_parse (token ?l) \<noteq> None then AT_NAME else SKIPPING_LINE) p2
        (?c\<lparr>addr := IP_parse (token ?l)\<rparr>))"
      using tok d by (simp add: at_ip_def Let_def)
    show ?thesis
    proof (cases "IP_parse (token ?l)")
      case None
      then have "line_addrs IP_parse name l = []"
        using d by (simp add: line_addrs_def Let_def)
      then show ?thesis
        using step skip ip None by (intro gives_step[OF used]) (auto simp: set_parser_def)
    next
      case (Some a)
      let ?c' = "set_parser AT_NAME p2 (?c\<lparr>addr := Some a\<rparr>)"
      have "line_addrs IP_parse name l = replicate (hits name (after_token ?l)) a"
        using d Some by (simp add: line_addrs_def Let_def)
      moreover have "gives rd IP_parse name ?c' (replicate (hits name (after_token ?l)) a @ as)"
        by (rule gives_names[OF _ _ _ IH])
           (use tok len2 ok1 in \<open>simp_all add: at_state_def set_parser_def line_ok_def\<close>)
      ultimately show ?thesis
        using step ip Some by (intro gives_step[OF used]) (auto simp: set_parser_def)
    qed
  qed
qed

lemma gives_file:
  assumes "at_state AT_IP (file_of ls) c" and "list_all line_ok ls"
  shows "gives rd IP_parse name c (concat (map (line_addrs IP_parse name) ls))"
  using assms
proof (induction ls arbitrary: c)
  case Nil
  then have "m_used_buffer (self c) = 0"
    using win_empty[of "self c" "[]"] by (simp add: at_state_def file_of_def)
  then show ?case
    by (intro gives_done) simp
next
  case (Cons l ls)
  have "gives rd IP_parse name c (line_addrs IP_parse name l @ concat (map (line_addrs IP_parse name) ls))"
    by (rule gives_line[where tail = "file_of ls"]) (use Cons in \<open>auto simp: file_of_def\<close>)
  then show ?case
    by simp
qed

lemma parse_and_collect_file:
  assumes "list_all line_ok ls" and "debug_is_ascii name" and "length name \<le> 255" and "length buf = BUFFER_SIZE"
  shows "parse_and_collect rd IP_parse (Ok (file_of ls)) buf name n =
    Some (Ok (take n (resolved (concat (map (line_addrs IP_parse (map to_lower name)) ls)))))"
proof -
  let ?f = "file_of ls" and ?k = "min BUFFER_SIZE (length (file_of ls))"
  let ?p = "\<lparr>m_input = drop BUFFER_SIZE ?f, m_unused_front_buffer = 0, m_used_buffer = ?k, m_state = AT_IP,
      m_buffer = take BUFFER_SIZE ?f @ drop ?k buf\<rparr>"
  have rd: "read_to_free_buffer rd (HostsFileParser_make buf ?f) = (Ok (), ?p)"
    using assms(4) by (simp add: read_to_free_buffer_def HostsFileParser_make_def free_buffer_size_def reads Let_def min.commute)
  have "win ?p ?f"
    using assms(4) by (cases "length ?f \<le> BUFFER_SIZE") (auto simp: win_def get_used_buffer_def BUFFER_SIZE_def min_def)
  then have "at_state AT_IP ?f \<lparr>room = n, found = [], addr = None, self = ?p\<rparr>"
    by (simp add: at_state_def)
  from gives_file[OF this assms(1), of IP_parse "map to_lower name"] show ?thesis
    using assms(2,3) rd by (simp add: parse_and_collect_def FQDN_MAX_OCTET_LEN_def gives_def)
qed

end

section \<open>Properties\<close>

text \<open>A regular file: its remaining octets; reading returns as many as fit.\<close>

definition file_read :: "octets reader" where
  "file_read n f = (Ok (take n f), drop n f)"

interpretation hosts: regular_file file_read
  by unfold_locales (simp add: file_read_def)

text \<open>
  Claim C8. For a hosts file whose lines end with a newline, have less than 510 octets and no
  zero octet, and an ASCII name of at most 255 octets, the buffered parser returns, without a failed
  assertion, the addresses of exactly the lines that name the host, in the order of the file and once per occurrence of the name, up
  to the room of the caller; the comparison of names ignores the case of letters.
\<close>

theorem hosts_parse_and_collect_correct:
  assumes "list_all line_ok ls" and "debug_is_ascii name" and "length name \<le> 255" and "length buf = BUFFER_SIZE"
  shows "parse_and_collect file_read IP_parse (Ok (file_of ls)) buf name n =
    Some (Ok (take n (resolved (concat (map (line_addrs IP_parse (map to_lower name)) ls)))))"
  by (rule hosts.parse_and_collect_file[OF assms])

theorem hosts_parse_and_collect_correct_witness:
  "list_all line_ok [[0x31, 0x20, 0x61], [0x23, 0x62]] \<and> debug_is_ascii [0x41] \<and> length [0x41 :: u8] \<le> 255 \<and>
   length (replicate 511 (0 :: u8)) = BUFFER_SIZE \<and>
   parse_and_collect file_read (\<lambda>t. if t = [0x31] then Some (1 :: nat) else None)
     (Ok (file_of [[0x31, 0x20, 0x61], [0x23, 0x62]])) (replicate 511 0) [0x41] 4 =
     Some (Ok [\<lparr>address = 1, expires_at = 0\<rparr>])"
proof -
  let ?ls = "[[0x31, 0x20, 0x61], [0x23, 0x62]] :: octets list" and ?P = "\<lambda>t. if t = [0x31] then Some (1 :: nat) else None"
  have ok: "list_all line_ok ?ls" "debug_is_ascii [0x41]" "length [0x41 :: u8] \<le> 255" "length (replicate 511 (0 :: u8)) = BUFFER_SIZE"
    by (simp_all add: line_ok_def BUFFER_SIZE_def debug_is_ascii_def)
  have n: "names_from [0x20, 0x61] = [[0x61]]"
    by (simp add: names_from.simps Let_def token_def after_token_def is_delimiter_def is_blank_def)
  have "concat (map (line_addrs ?P (map to_lower [0x41])) ?ls) = [1]"
    using n by (simp add: line_addrs_def hits_def Let_def token_def after_token_def is_delimiter_def is_blank_def to_lower_def)
  then show ?thesis
    using hosts_parse_and_collect_correct[OF ok, of ?P 4] ok by simp
qed

lemma length_takeWhile_line: "c \<notin> set l \<Longrightarrow> length (takeWhile (\<lambda>d. d \<noteq> c) l) = length l"
  by (induction l) auto

section \<open>Files outside of these limits\<close>

lemma hosts_loop_zero_step:
  assumes "at_state AT_NAME (0 # r) c" and "name \<noteq> []"
  shows "\<exists>c'. hosts_step file_read IP_parse name c = Some (Ok c') \<and> at_state AT_NAME (0 # r) c' \<and> room c' = room c"
proof -
  obtain p where p: "read_to_free_buffer file_read (shift_buffer_to_left (self c)) = (Ok (), p)" "win p (0 # r)"
      "m_state p = AT_NAME" "m_unused_front_buffer p = 0"
    using hosts.step_refill[OF assms(1)] by blast
  obtain w where w: "get_used_buffer p = 0 # w"
    using p(2,4) by (cases "m_used_buffer p") (auto simp: win_def BUFFER_SIZE_def)
  have d: "\<not> is_blank 0" "is_delimiter 0"
    by (simp_all add: is_blank_def is_delimiter_def)
  have "at_name name (c\<lparr>self := p\<rparr>) = Some (set_parser AT_NAME p (c\<lparr>self := p\<rparr>))"
    using assms(2) w d by (simp add: at_name_def skip_ws_def find_next_ws_def adwance_buffer_def Let_def)
  then show ?thesis
    using p by (simp add: hosts_step_def at_state_def set_parser_def)
qed

lemmas hosts_loop_induct = hosts_loop.raw_induct [rotated 1, consumes 1, case_names step]

lemma hosts_loop_zero:
  assumes "hosts_loop rd IP_parse name c = Some res"
    and "rd = file_read" and "at_state AT_NAME (0 # r) c" and "room c \<noteq> 0" and "name \<noteq> []"
  shows False
  using assms
proof (induction rule: hosts_loop_induct)
  case (step rec rd IP_parse name c res)
  obtain c' where c': "hosts_step file_read IP_parse name c = Some (Ok c')" "at_state AT_NAME (0 # r) c'" "room c' = room c"
    using hosts_loop_zero_step[OF step(4,6)] by blast
  have "m_used_buffer (self c) \<noteq> 0"
    using step(4) win_empty by (auto simp: at_state_def)
  then have "rec rd IP_parse name c' = Some res"
    using step(2,3,5) c' by simp
  then show ?case
    using step(1)[of rd IP_parse name c' res] step(3,5,6) c' by simp
qed

text \<open>
  A zero octet where a name is expected stops the parser for good: the octet counts as
  a delimiter, the empty name in front of it is consumed, and the loop is where it was.
\<close>

theorem hosts_zero_octet_diverges:
  assumes "at_state AT_NAME (0 # r) c" and "room c \<noteq> 0" and "name \<noteq> []"
  shows "hosts_loop file_read IP_parse name c = None"
  using hosts_loop_zero[OF _ refl assms] by (cases "hosts_loop file_read IP_parse name c") auto

theorem hosts_zero_octet_diverges_witness:
  "\<exists>c :: (Ipv4Addr, octets) collecting. at_state AT_NAME (0 # [0x0A]) c \<and> room c \<noteq> 0 \<and> [0x61 :: u8] \<noteq> [] \<and>
     hosts_loop file_read (Ipv4Addr_parse True) [0x61] c = None"
proof -
  let ?c = "\<lparr>room = 1, found = [], addr = None, self = \<lparr>m_input = [], m_unused_front_buffer = 0, m_used_buffer = 2,
      m_state = AT_NAME, m_buffer = 0 # 0x0A # replicate 509 0\<rparr>\<rparr> :: (Ipv4Addr, octets) collecting"
  have "at_state AT_NAME (0 # [0x0A]) ?c"
    by (simp add: at_state_def win_def BUFFER_SIZE_def get_used_buffer_def)
  then show ?thesis
    using hosts_zero_octet_diverges[of "[0x0A]" ?c "[0x61]" "Ipv4Addr_parse True"] by (intro exI[of _ ?c]) simp
qed

text \<open>A comment of 511 octets hides the rest of the file: the loop ends because the buffer is empty.\<close>

lemma hosts_long_comment_ends:
  assumes "at_state SKIPPING_LINE (l @ tail) c" and "length l = BUFFER_SIZE" and "0x0A \<notin> set l"
  shows "hosts_loop file_read IP_parse name c = Some (Ok (found c))"
proof (cases "room c = 0")
  case False
  obtain p where p: "read_to_free_buffer file_read (shift_buffer_to_left (self c)) = (Ok (), p)" "win p (l @ tail)"
      "m_state p = SKIPPING_LINE" "m_unused_front_buffer p = 0"
    using hosts.step_refill[OF assms(1)] by blast
  have u: "m_used_buffer p = BUFFER_SIZE" "get_used_buffer p = l" "length (m_buffer p) = BUFFER_SIZE"
    using p(2,4) assms(2) by (auto simp: win_def)
  have "length (takeWhile (\<lambda>c. c \<noteq> 0x0A) l) = length l"
    using assms(3) by (simp add: length_takeWhile_line)
  then have "skip_line p = Some (p\<lparr>m_used_buffer := 0, m_unused_front_buffer := BUFFER_SIZE\<rparr>)"
    using u p(4) assms(2) by (simp add: skip_line_def adwance_buffer_def Let_def)
  then have "hosts_step file_read IP_parse name c =
      Some (Ok (c\<lparr>self := p\<lparr>m_used_buffer := 0, m_unused_front_buffer := BUFFER_SIZE\<rparr>\<rparr>))"
    using p by (simp add: hosts_step_def)
  moreover have "m_used_buffer (self c) \<noteq> 0"
    using assms(1,2) win_empty[of "self c" "l @ tail"] by (auto simp: at_state_def BUFFER_SIZE_def)
  ultimately show ?thesis
    using False by (subst hosts_loop.simps) (simp add: hosts_loop.simps[of file_read])
qed (simp add: hosts_loop.simps[of file_read])

text \<open>A last line without newline that has to be skipped fails the assertion of \<^verbatim>\<open>adwance\<close>.\<close>

lemma hosts_unterminated_line_asserts:
  assumes "at_state SKIPPING_LINE r c" and "r \<noteq> []" and "length r < BUFFER_SIZE" and "0x0A \<notin> set r" and "room c \<noteq> 0"
  shows "hosts_loop file_read IP_parse name c = None"
proof -
  obtain p where p: "read_to_free_buffer file_read (shift_buffer_to_left (self c)) = (Ok (), p)" "win p r"
      "m_state p = SKIPPING_LINE" "m_unused_front_buffer p = 0"
    using hosts.step_refill[OF assms(1)] by blast
  have u: "m_used_buffer p = length r" "get_used_buffer p = r" "length (m_buffer p) = BUFFER_SIZE"
    using p(2,4) assms(3) by (auto simp: win_def)
  have "length (takeWhile (\<lambda>c. c \<noteq> 0x0A) r) = length r"
    using assms(4) by (simp add: length_takeWhile_line)
  then have "skip_line p = None"
    using u p(4) assms(3) by (simp add: skip_line_def adwance_buffer_def Let_def)
  moreover have "m_used_buffer (self c) \<noteq> 0"
    using assms(1,2) win_empty by (auto simp: at_state_def)
  ultimately show ?thesis
    using p assms(5) by (subst hosts_loop.simps) (simp add: hosts_step_def)
qed

end
