(* ===== verification/Corosig_Semaphore.thy ===== *)
theory Corosig_Semaphore
  imports Corosig_Prelude "HOL-Library.Multiset"
begin

text \<open>
  The counting semaphore of \<^verbatim>\<open>Semaphore.hpp\<close> and \<^verbatim>\<open>Semaphore.cpp\<close>. Unit counts are
  \<^verbatim>\<open>size_t\<close> words. A waiter is an awaiter with its number of units; waiting awaiters are kept in
  arrival order, and \<^term>\<open>m_scheduled\<close> are the awaiters handed to the reactor and not yet
  resumed.
\<close>

section \<open>Operations\<close>

record HolderAwaiter =
  waiter_id :: nat
  waiter_units :: u64

record Semaphore =
  m_max_parallelism :: u64
  m_current_parallelism :: u64
  m_waiters :: "HolderAwaiter list"
  m_scheduled :: "HolderAwaiter list"

record Holder =
  holder_units :: u64
  holder_engaged :: bool

definition Semaphore_make :: "u64 \<Rightarrow> Semaphore" where
  "Semaphore_make max_parallelism =
     \<lparr>m_max_parallelism = max_parallelism, m_current_parallelism = 0, m_waiters = [], m_scheduled = []\<rparr>"

definition Semaphore_destroy :: "Semaphore \<Rightarrow> unit option" where
  "Semaphore_destroy s = c_assert (m_current_parallelism s = 0) (Some ())"

definition would_block :: "u64 \<Rightarrow> Semaphore \<Rightarrow> bool" where
  "would_block units s \<longleftrightarrow> m_current_parallelism s + units > m_max_parallelism s"

definition take_units :: "u64 \<Rightarrow> Semaphore \<Rightarrow> Semaphore option" where
  "take_units units s =
     c_assert (\<not> would_block units s)
       (Some (s\<lparr>m_current_parallelism := m_current_parallelism s + units\<rparr>))"

definition Holder_make :: "u64 \<Rightarrow> Holder" where
  "Holder_make units = \<lparr>holder_units = units, holder_engaged = True\<rparr>"

definition try_hold :: "u64 \<Rightarrow> Semaphore \<Rightarrow> (Holder option \<times> Semaphore) option" where
  "try_hold units s =
     (if would_block units s then Some (None, s)
      else map_option (\<lambda>s. (Some (Holder_make units), s)) (take_units units s))"

definition hold :: "nat \<Rightarrow> u64 \<Rightarrow> Semaphore \<Rightarrow> HolderAwaiter option" where
  "hold i units s =
     c_assert (units \<le> m_max_parallelism s) (Some \<lparr>waiter_id = i, waiter_units = units\<rparr>)"

definition await_ready :: "HolderAwaiter \<Rightarrow> Semaphore \<Rightarrow> (bool \<times> Semaphore) option" where
  "await_ready w s =
     (if would_block (waiter_units w) s then Some (False, s)
      else map_option (\<lambda>s. (True, s)) (take_units (waiter_units w) s))"

definition await_suspend :: "HolderAwaiter \<Rightarrow> Semaphore \<Rightarrow> Semaphore" where
  "await_suspend w s = s\<lparr>m_waiters := m_waiters s @ [w]\<rparr>"

definition await_resume :: "HolderAwaiter \<Rightarrow> Holder" where
  "await_resume w = Holder_make (waiter_units w)"

text \<open>The loop of \<^verbatim>\<open>free_units\<close> over the waiters, in order.\<close>

primrec wake_waiters :: "HolderAwaiter list \<Rightarrow> Semaphore \<Rightarrow> Semaphore option" where
  "wake_waiters [] s = Some s"
| "wake_waiters (w # ws) s =
     (if would_block (waiter_units w) s then Some s
      else Option.bind (take_units (waiter_units w) (s\<lparr>m_waiters := ws\<rparr>))
             (\<lambda>s. wake_waiters ws (s\<lparr>m_scheduled := m_scheduled s @ [w]\<rparr>)))"

definition free_units :: "u64 \<Rightarrow> Semaphore \<Rightarrow> Semaphore option" where
  "free_units units s =
     c_assert (m_current_parallelism s \<ge> units)
       (let s = s\<lparr>m_current_parallelism := m_current_parallelism s - units\<rparr>
        in wake_waiters (m_waiters s) s)"

definition Holder_reset :: "Holder \<Rightarrow> Semaphore \<Rightarrow> (Holder \<times> Semaphore) option" where
  "Holder_reset h s =
     (if holder_engaged h \<and> holder_units h \<noteq> 0
      then map_option (\<lambda>s. (\<lparr>holder_units = 0, holder_engaged = False\<rparr>, s)) (free_units (holder_units h) s)
      else Some (h, s))"

text \<open>Destroying an awaiter unlinks it from the queue or from the list of the reactor.\<close>

definition HolderAwaiter_destroy :: "nat \<Rightarrow> Semaphore \<Rightarrow> Semaphore" where
  "HolderAwaiter_destroy i s =
     s\<lparr>m_waiters := filter (\<lambda>w. waiter_id w \<noteq> i) (m_waiters s), m_scheduled := filter (\<lambda>w. waiter_id w \<noteq> i) (m_scheduled s)\<rparr>"

section \<open>Runs\<close>

text \<open>
  A configuration is the semaphore with the multiset of live holders. The steps are those of a
  program that uses it: taking units at once, waiting for them, being resumed by the reactor, and
  releasing a holder. Units are only asked for in numbers whose sum with those taken does not
  wrap: the sum in \<^verbatim>\<open>would_block\<close> is not protected (see the end of this theory).
\<close>

type_synonym sem_config = "Semaphore \<times> Holder multiset"

inductive sem_step :: "sem_config \<Rightarrow> sem_config \<Rightarrow> bool" where
  try_ok: "unat (m_current_parallelism s) + unat units < 2 ^ 64 \<Longrightarrow> try_hold units s = Some (Some h, s') \<Longrightarrow>
    sem_step (s, hs) (s', add_mset h hs)"
| ready: "hold i units s = Some w \<Longrightarrow> await_ready w s = Some (True, s') \<Longrightarrow>
    sem_step (s, hs) (s', add_mset (await_resume w) hs)"
| suspend: "hold i units s = Some w \<Longrightarrow> await_ready w s = Some (False, s') \<Longrightarrow>
    sem_step (s, hs) (await_suspend w s', hs)"
| resume: "m_scheduled s = ws @ w # ws' \<Longrightarrow>
    sem_step (s, hs) (s\<lparr>m_scheduled := ws @ ws'\<rparr>, add_mset (await_resume w) hs)"
| release: "h \<in># hs \<Longrightarrow> Holder_reset h s = Some (h', s') \<Longrightarrow> sem_step (s, hs) (s', hs - {#h#})"

inductive sem_run :: "u64 \<Rightarrow> sem_config \<Rightarrow> bool" for mx where
  start: "sem_run mx (Semaphore_make mx, {#})"
| step: "sem_run mx c \<Longrightarrow> sem_step c c' \<Longrightarrow> sem_run mx c'"

text \<open>
  The life of a semaphore whose awaiters may also be destroyed while they wait or after units were
  granted to them and before they are resumed. \<open>lost\<close> are the awaiters of the latter kind,
  \<open>headless\<close> tells that the first in the queue was destroyed since units were last freed.
\<close>

inductive sem_life :: "u64 \<Rightarrow> Semaphore \<Rightarrow> Holder multiset \<Rightarrow> HolderAwaiter multiset \<Rightarrow> bool \<Rightarrow> bool" for mx where
  start: "sem_life mx (Semaphore_make mx) {#} {#} False"
| step: "sem_life mx s hs lost headless \<Longrightarrow> sem_step (s, hs) (s', hs') \<Longrightarrow> sem_life mx s' hs' lost headless"
| freed: "sem_life mx s hs lost headless \<Longrightarrow> h \<in># hs \<Longrightarrow> holder_units h \<noteq> 0 \<Longrightarrow> Holder_reset h s = Some (h', s') \<Longrightarrow>
    sem_life mx s' (hs - {#h#}) lost False"
| destroy: "sem_life mx s hs lost headless \<Longrightarrow>
    sem_life mx (HolderAwaiter_destroy i s) hs (lost + mset (filter (\<lambda>w. waiter_id w = i) (m_scheduled s)))
      (headless \<or> m_waiters s \<noteq> [] \<and> waiter_id (hd (m_waiters s)) = i)"

lemma sem_run_life: "sem_run mx c \<Longrightarrow> sem_life mx (fst c) (snd c) {#} False"
  by (induction rule: sem_run.induct) (auto intro: sem_life.intros)

section \<open>The invariant\<close>

definition granted :: "sem_config \<Rightarrow> nat" where
  "granted = (\<lambda>(s, hs). (\<Sum>h\<in>#hs. unat (holder_units h)) + (\<Sum>w\<leftarrow>m_scheduled s. unat (waiter_units w)))"

definition front_blocks :: "Semaphore \<Rightarrow> bool" where
  "front_blocks s \<longleftrightarrow> (case m_waiters s of [] \<Rightarrow> True | w # _ \<Rightarrow> would_block (waiter_units w) s)"

definition life_inv :: "u64 \<Rightarrow> Semaphore \<Rightarrow> Holder multiset \<Rightarrow> HolderAwaiter multiset \<Rightarrow> bool \<Rightarrow> bool" where
  "life_inv mx s hs lost headless \<longleftrightarrow> m_max_parallelism s = mx \<and>
     granted (s, hs) + (\<Sum>w\<in>#lost. unat (waiter_units w)) = unat (m_current_parallelism s) \<and>
     m_current_parallelism s \<le> mx \<and> (\<not> headless \<longrightarrow> front_blocks s) \<and>
     (\<forall>w \<in> set (m_waiters s). waiter_units w \<le> mx) \<and> (\<forall>h \<in># hs. holder_engaged h)"

definition sem_inv :: "u64 \<Rightarrow> sem_config \<Rightarrow> bool" where
  "sem_inv mx = (\<lambda>(s, hs). life_inv mx s hs {#} False)"

lemma sem_inv_iff:
  "sem_inv mx (s, hs) \<longleftrightarrow> m_max_parallelism s = mx \<and>
     granted (s, hs) = unat (m_current_parallelism s) \<and> m_current_parallelism s \<le> mx \<and>
     front_blocks s \<and> (\<forall>w \<in> set (m_waiters s). waiter_units w \<le> mx) \<and> (\<forall>h \<in># hs. holder_engaged h)"
  by (simp add: sem_inv_def life_inv_def)

text \<open>Below half of the range of \<^verbatim>\<open>size_t\<close> the sums do not wrap.\<close>

lemma no_wrap:
  assumes "c \<le> mx" and "u \<le> mx" and "unat (mx :: u64) < 2 ^ 63"
  shows "unat (c + u) = unat c + unat u"
  using assms by (intro unat_add_lem[THEN iffD1]) (simp add: word_le_nat_alt)

lemma take_units_ok:
  assumes "life_inv mx s hs lost headless" and "unat mx < 2 ^ 63"
    and "unat (m_current_parallelism s) + unat u < 2 ^ 64" and "\<not> would_block u s"
  shows "\<exists>s'. take_units u s = Some s' \<and> s' = s\<lparr>m_current_parallelism := m_current_parallelism s + u\<rparr> \<and>
    unat (m_current_parallelism s') = unat (m_current_parallelism s) + unat u \<and> m_current_parallelism s' \<le> mx \<and>
    (\<not> headless \<longrightarrow> front_blocks s')"
proof -
  let ?s = "s\<lparr>m_current_parallelism := m_current_parallelism s + u\<rparr>"
  have c: "m_max_parallelism s = mx" "m_current_parallelism s \<le> mx" "\<not> headless \<longrightarrow> front_blocks s"
      "\<forall>w \<in> set (m_waiters s). waiter_units w \<le> mx"
    using assms(1) by (auto simp: life_inv_def)
  have w: "unat (m_current_parallelism s + u) = unat (m_current_parallelism s) + unat u"
    using assms(3) by (intro unat_add_lem[THEN iffD1]) simp
  have le: "m_current_parallelism s + u \<le> mx"
    using assms(4) c(1) by (simp add: would_block_def not_less)
  have "front_blocks ?s" if "\<not> headless"
  proof (cases "m_waiters s")
    case (Cons v vs)
    then have v: "waiter_units v \<le> mx" "m_current_parallelism s + waiter_units v > mx"
      using c that by (auto simp: front_blocks_def would_block_def)
    have "unat (m_current_parallelism s + u + waiter_units v) = unat (m_current_parallelism s + u) + unat (waiter_units v)"
      by (rule no_wrap[OF le v(1) assms(2)])
    then have "m_current_parallelism s + u + waiter_units v > mx"
      using v(2) w no_wrap[OF c(2) v(1) assms(2)] by (simp add: word_less_nat_alt)
    then show ?thesis
      using Cons c(1) by (simp add: front_blocks_def would_block_def)
  qed (simp add: front_blocks_def)
  then show ?thesis
    using assms(4) w le by (simp add: take_units_def)
qed

text \<open>A request within the maximum does not wrap.\<close>

lemma within_max:
  assumes "life_inv mx s hs lost headless" and "unat mx < 2 ^ 63" and "u \<le> mx"
  shows "unat (m_current_parallelism s) + unat u < 2 ^ 64"
  using assms by (simp add: life_inv_def word_le_nat_alt)

lemma wake_waiters_ok:
  assumes "m_max_parallelism s = mx" and "m_current_parallelism s \<le> mx" and "m_waiters s = ws"
    and "\<forall>w \<in> set ws. waiter_units w \<le> mx" and "unat mx < 2 ^ 63"
  shows "\<exists>s' k. wake_waiters ws s = Some s' \<and> m_max_parallelism s' = mx \<and> m_current_parallelism s' \<le> mx \<and>
    m_waiters s' = drop k ws \<and> m_scheduled s' = m_scheduled s @ take k ws \<and>
    unat (m_current_parallelism s') = unat (m_current_parallelism s) + (\<Sum>w\<leftarrow>take k ws. unat (waiter_units w)) \<and>
    front_blocks s'"
  using assms
proof (induction ws arbitrary: s)
  case Nil
  then show ?case
    by (simp add: front_blocks_def)
next
  case (Cons w ws)
  show ?case
  proof (cases "would_block (waiter_units w) s")
    case True
    then show ?thesis
      using Cons.prems by (intro exI[of _ s] exI[of _ 0]) (simp add: front_blocks_def)
  next
    case False
    let ?u = "waiter_units w"
    let ?s = "s\<lparr>m_waiters := ws, m_current_parallelism := m_current_parallelism s + ?u, m_scheduled := m_scheduled s @ [w]\<rparr>"
    have u: "?u \<le> mx" "m_current_parallelism s + ?u \<le> mx"
      using False Cons.prems by (auto simp: would_block_def not_less)
    have sum: "unat (m_current_parallelism s + ?u) = unat (m_current_parallelism s) + unat ?u"
      by (rule no_wrap[OF Cons.prems(2) u(1) Cons.prems(5)])
    have step: "wake_waiters (w # ws) s = wake_waiters ws ?s"
      using False by (simp add: take_units_def would_block_def)
    obtain s' k where "wake_waiters ws ?s = Some s'" "m_max_parallelism s' = mx" "m_current_parallelism s' \<le> mx"
        "m_waiters s' = drop k ws" "m_scheduled s' = m_scheduled ?s @ take k ws"
        "unat (m_current_parallelism s') = unat (m_current_parallelism ?s) + (\<Sum>w\<leftarrow>take k ws. unat (waiter_units w))"
        "front_blocks s'"
      using Cons.IH[of ?s] Cons.prems u(2) by auto
    then show ?thesis
      using step sum by (intro exI[of _ s'] exI[of _ "Suc k"]) simp
  qed
qed

lemma Holder_reset_life:
  assumes inv: "life_inv mx s hs lost headless" and mx: "unat mx < 2 ^ 63" and h: "h \<in># hs"
  shows "\<exists>h' s' k. Holder_reset h s = Some (h', s') \<and> life_inv mx s' (hs - {#h#}) lost (headless \<and> holder_units h = 0) \<and>
    m_waiters s' = drop k (m_waiters s) \<and> m_scheduled s' = m_scheduled s @ take k (m_waiters s)"
proof -
  obtain hs0 where hs: "hs = add_mset h hs0"
    using h by (metis insert_DiffM)
  have i: "m_max_parallelism s = mx" "m_current_parallelism s \<le> mx" "\<not> headless \<longrightarrow> front_blocks s" "holder_engaged h"
      "\<forall>w \<in> set (m_waiters s). waiter_units w \<le> mx" "\<forall>h \<in># hs0. holder_engaged h"
      "granted (s, hs) + (\<Sum>w\<in>#lost. unat (waiter_units w)) = unat (m_current_parallelism s)"
    using inv hs by (auto simp: life_inv_def)
  show ?thesis
  proof (cases "holder_units h = 0")
    case True
    then have "Holder_reset h s = Some (h, s)" "life_inv mx s (hs - {#h#}) lost headless"
      using i hs by (simp_all add: Holder_reset_def life_inv_def granted_def)
    then show ?thesis
      using True by (intro exI[of _ h] exI[of _ s] exI[of _ 0]) simp
  next
    case False
    let ?u = "holder_units h" and ?s = "s\<lparr>m_current_parallelism := m_current_parallelism s - holder_units h\<rparr>"
    have le: "?u \<le> m_current_parallelism s"
      using i(7) hs by (simp add: granted_def word_le_nat_alt)
    have sub: "unat (m_current_parallelism s - ?u) = unat (m_current_parallelism s) - unat ?u"
      using le by (rule unat_sub)
    then have le': "m_current_parallelism ?s \<le> mx"
      using i(2) by (simp add: word_le_nat_alt)
    obtain s' k where s': "wake_waiters (m_waiters s) ?s = Some s'" "m_max_parallelism s' = mx" "m_current_parallelism s' \<le> mx"
        "m_waiters s' = drop k (m_waiters s)" "m_scheduled s' = m_scheduled s @ take k (m_waiters s)"
        "unat (m_current_parallelism s') = unat (m_current_parallelism s - ?u) + (\<Sum>w\<leftarrow>take k (m_waiters s). unat (waiter_units w))"
        "front_blocks s'"
      using wake_waiters_ok[of ?s mx "m_waiters s"] i le' mx by auto
    have "Holder_reset h s = Some (\<lparr>holder_units = 0, holder_engaged = False\<rparr>, s')"
      using False i(4) le s'(1) by (simp add: Holder_reset_def free_units_def)
    moreover have "life_inv mx s' (hs - {#h#}) lost (headless \<and> holder_units h = 0)"
      using s' i hs sub False by (auto simp: life_inv_def granted_def dest: in_set_dropD)
    ultimately show ?thesis
      using s'(4,5) by blast
  qed
qed

lemma Holder_reset_ok:
  assumes "sem_inv mx (s, hs)" and "unat mx < 2 ^ 63" and "h \<in># hs"
  shows "\<exists>h' s' k. Holder_reset h s = Some (h', s') \<and> sem_inv mx (s', hs - {#h#}) \<and>
    m_waiters s' = drop k (m_waiters s) \<and> m_scheduled s' = m_scheduled s @ take k (m_waiters s)"
  using Holder_reset_life[of mx s hs "{#}" False h] assms by (simp add: sem_inv_def)

lemma sem_step_life:
  assumes "sem_step (s, hs) (s', hs')" and inv: "life_inv mx s hs lost headless" and mx: "unat mx < 2 ^ 63"
  shows "life_inv mx s' hs' lost headless"
  using assms(1)
proof (cases rule: sem_step.cases)
  case (try_ok units h)
  then have nb: "\<not> would_block units s"
    by (auto simp: try_hold_def split: if_splits)
  show ?thesis
    using try_ok take_units_ok[OF inv mx try_ok(2) nb] nb inv
    by (auto simp: try_hold_def life_inv_def granted_def Holder_make_def)
next
  case (ready i units w)
  then have nb: "\<not> would_block units s" "units \<le> mx" "waiter_units w = units"
    using inv by (auto simp: await_ready_def hold_def life_inv_def split: if_splits)
  show ?thesis
    using ready take_units_ok[OF inv mx within_max[OF inv mx nb(2)] nb(1)] nb inv
    by (auto simp: await_ready_def await_resume_def life_inv_def granted_def Holder_make_def)
next
  case (suspend i units w s1)
  then show ?thesis
    using inv by (auto simp: await_ready_def hold_def await_suspend_def life_inv_def granted_def front_blocks_def
        would_block_def split: if_splits list.splits)
next
  case (resume ws w ws')
  then show ?thesis
    using inv by (auto simp: life_inv_def granted_def await_resume_def Holder_make_def front_blocks_def would_block_def
        split: list.splits)
next
  case (release h h')
  then show ?thesis
    using Holder_reset_life[OF inv mx, of h] by (auto simp: life_inv_def)
qed

lemma sem_step_inv:
  assumes "sem_step c c'" and "sem_inv mx c" and "unat mx < 2 ^ 63"
  shows "sem_inv mx c'"
  using sem_step_life[of "fst c" "snd c" "fst c'" "snd c'" mx "{#}" False] assms
  by (simp add: sem_inv_def case_prod_beta)

lemma sem_run_inv: "sem_run mx c \<Longrightarrow> unat mx < 2 ^ 63 \<Longrightarrow> sem_inv mx c"
proof (induction rule: sem_run.induct)
  case start
  show ?case
    by (simp add: sem_inv_iff Semaphore_make_def granted_def front_blocks_def)
qed (rule sem_step_inv)

lemma sum_list_mset_split:
  fixes f :: "'a \<Rightarrow> nat"
  shows "sum_list (map f (filter P xs)) + (\<Sum>x\<in>#mset (filter (\<lambda>x. \<not> P x) xs). f x) = sum_list (map f xs)"
  by (induction xs) auto

lemma HolderAwaiter_destroy_life:
  assumes "life_inv mx s hs lost headless"
  shows "life_inv mx (HolderAwaiter_destroy i s) hs (lost + mset (filter (\<lambda>w. waiter_id w = i) (m_scheduled s)))
    (headless \<or> m_waiters s \<noteq> [] \<and> waiter_id (hd (m_waiters s)) = i)"
proof -
  have "granted (HolderAwaiter_destroy i s, hs) + (\<Sum>w\<in>#lost + mset (filter (\<lambda>w. waiter_id w = i) (m_scheduled s)). unat (waiter_units w)) =
      granted (s, hs) + (\<Sum>w\<in>#lost. unat (waiter_units w))"
    using sum_list_mset_split[of "\<lambda>w. unat (waiter_units w)" "\<lambda>w. waiter_id w \<noteq> i" "m_scheduled s"]
    by (simp add: granted_def HolderAwaiter_destroy_def)
  moreover have "front_blocks (HolderAwaiter_destroy i s)"
    if "front_blocks s" "\<not> (m_waiters s \<noteq> [] \<and> waiter_id (hd (m_waiters s)) = i)"
    using that by (cases "m_waiters s") (auto simp: front_blocks_def HolderAwaiter_destroy_def would_block_def)
  ultimately show ?thesis
    using assms by (auto simp: life_inv_def HolderAwaiter_destroy_def)
qed

lemma sem_life_inv: "sem_life mx s hs lost headless \<Longrightarrow> unat mx < 2 ^ 63 \<Longrightarrow> life_inv mx s hs lost headless"
proof (induction rule: sem_life.induct)
  case start
  show ?case
    by (simp add: life_inv_def Semaphore_make_def granted_def front_blocks_def)
next
  case (step s hs lost headless s' hs')
  then show ?case
    using sem_step_life by blast
next
  case (freed s hs lost headless h h' s')
  then show ?case
    using Holder_reset_life[of mx s hs lost headless h] by auto
next
  case (destroy s hs lost headless i)
  then show ?case
    using HolderAwaiter_destroy_life by blast
qed

section \<open>Properties\<close>

text \<open>
  Claim C10. Whatever a program does with a semaphore of a maximum below 2^63 (requests whose sum
  with the units taken does not wrap, releases, resumptions, awaiters destroyed at any time), the
  units counted as taken are exactly those of the live holders, of the waiters granted and not yet
  resumed, and of the granted waiters that were destroyed instead, whose units are lost. They
  never exceed the maximum. And no waiter is kept waiting while the units it asks for are free, as
  the first in the queue always has to block, until an awaiter is destroyed at the front of the
  queue; then this holds again when units are freed the next time.
\<close>

theorem Semaphore_run_invariant:
  assumes "sem_life mx s hs lost headless" and "unat mx < 2 ^ 63"
  shows "unat (m_current_parallelism s) = (\<Sum>h\<in>#hs. unat (holder_units h)) + (\<Sum>w\<leftarrow>m_scheduled s. unat (waiter_units w)) +
      (\<Sum>w\<in>#lost. unat (waiter_units w)) \<and>
    m_current_parallelism s \<le> mx \<and> (\<not> headless \<longrightarrow> (\<forall>w ws. m_waiters s = w # ws \<longrightarrow> would_block (waiter_units w) s))"
  using sem_life_inv[OF assms] by (auto simp: life_inv_def granted_def front_blocks_def)

lemma demo_sem_run: "sem_run 2 (\<lparr>m_max_parallelism = 2, m_current_parallelism = 2, m_waiters = [], m_scheduled = []\<rparr>, {#Holder_make 2#})"
proof -
  have "sem_step (Semaphore_make 2, {#}) (\<lparr>m_max_parallelism = 2, m_current_parallelism = 2, m_waiters = [], m_scheduled = []\<rparr>, {#Holder_make 2#})"
    by (rule sem_step.try_ok[where units = 2]) (simp_all add: Semaphore_make_def try_hold_def would_block_def take_units_def)
  then show ?thesis
    using sem_run.start sem_run.step by blast
qed

text \<open>A waiter is granted the units that the holder releases, and destroyed before it is resumed.\<close>

lemma demo_sem_life:
  "sem_life 2 \<lparr>m_max_parallelism = 2, m_current_parallelism = 1, m_waiters = [], m_scheduled = []\<rparr> {#}
     {#\<lparr>waiter_id = 7, waiter_units = 1\<rparr>#} False"
proof -
  let ?w = "\<lparr>waiter_id = 7, waiter_units = 1\<rparr>"
  let ?s = "\<lambda>c ws rs. \<lparr>m_max_parallelism = 2, m_current_parallelism = c, m_waiters = ws, m_scheduled = rs\<rparr>"
  have "sem_step (?s 2 [] [], {#Holder_make 2#}) (?s 2 [?w] [], {#Holder_make 2#})"
    using sem_step.suspend[of 7 1 "?s 2 [] []" ?w "?s 2 [] []" "{#Holder_make 2#}"]
    by (simp add: hold_def await_ready_def would_block_def await_suspend_def)
  then have "sem_life 2 (?s 2 [?w] []) {#Holder_make 2#} {#} False"
    using sem_run_life[OF demo_sem_run] sem_life.step by simp
  moreover have "Holder_reset (Holder_make 2) (?s 2 [?w] []) = Some (\<lparr>holder_units = 0, holder_engaged = False\<rparr>, ?s 1 [] [?w])"
    by (simp add: Holder_reset_def Holder_make_def free_units_def would_block_def take_units_def)
  ultimately have "sem_life 2 (?s 1 [] [?w]) {#} {#} False"
    using sem_life.freed[where s = "?s 2 [?w] []" and hs = "{#Holder_make 2#}" and h = "Holder_make 2"]
    by (fastforce simp: Holder_make_def)
  from sem_life.destroy[OF this, where i = 7] show ?thesis
    by (simp add: HolderAwaiter_destroy_def)
qed

theorem Semaphore_run_invariant_witness:
  "\<exists>s lost. sem_life 2 s {#} lost False \<and> unat (2 :: u64) < 2 ^ 63 \<and> m_current_parallelism s \<le> 2 \<and>
     unat (m_current_parallelism s) = (\<Sum>w\<in>#lost. unat (waiter_units w)) \<and> m_scheduled s = [] \<and> lost \<noteq> {#}"
  using Semaphore_run_invariant[OF demo_sem_life] demo_sem_life by fastforce

text \<open>
  Releasing a live holder never runs into an assertion, and it hands units to the
  waiters strictly in their order of arrival: a prefix of the queue is moved to the reactor.
\<close>

theorem Semaphore_release_fifo:
  assumes "sem_run mx (s, hs)" and "unat mx < 2 ^ 63" and "h \<in># hs"
  shows "\<exists>h' s' k. Holder_reset h s = Some (h', s') \<and> sem_run mx (s', hs - {#h#}) \<and>
    m_waiters s' = drop k (m_waiters s) \<and> m_scheduled s' = m_scheduled s @ take k (m_waiters s)"
proof -
  obtain h' s' k where r: "Holder_reset h s = Some (h', s')" "m_waiters s' = drop k (m_waiters s)"
      "m_scheduled s' = m_scheduled s @ take k (m_waiters s)"
    using Holder_reset_ok[OF sem_run_inv[OF assms(1,2)] assms(2,3)] by blast
  then show ?thesis
    using sem_run.step[OF assms(1) sem_step.release[OF assms(3) r(1)]] by blast
qed

theorem Semaphore_release_fifo_witness:
  "\<exists>s hs h. sem_run 2 (s, hs) \<and> unat (2 :: u64) < 2 ^ 63 \<and> h \<in># hs \<and> (\<exists>h' s'. Holder_reset h s = Some (h', s'))"
  using Semaphore_release_fifo[OF demo_sem_run, of "Holder_make 2"] demo_sem_run by fastforce

text \<open>
  \<^verbatim>\<open>try_hold\<close> has no upper limit on its argument, and the sum in \<^verbatim>\<open>would_block\<close>
  wraps: a request larger than the maximum can be granted and lowers the count.
\<close>

theorem Semaphore_try_hold_wraps:
  "\<exists>s'. try_hold (- 1) \<lparr>m_max_parallelism = 4, m_current_parallelism = 3, m_waiters = [], m_scheduled = []\<rparr> =
     Some (Some (Holder_make (- 1)), s') \<and> m_current_parallelism s' = 2"
  by (simp add: try_hold_def would_block_def take_units_def)

end
