(* ===== verification/Corosig_Dns_Decode.thy ===== *)
theory Corosig_Dns_Decode
  imports Corosig_Dns_Encode
begin

text \<open>
  The response decoder of \<^verbatim>\<open>io/dns/Protocol.cpp\<close>: domain names with compression pointers,
  the resource record data of every type, the three \<^verbatim>\<open>consume\<close> operations of
  \<^verbatim>\<open>ResponseDecoder\<close>, and the iterator over the labels of a decoded name.
\<close>

section \<open>Pieces\<close>

definition decode_compression_ptr :: "octets \<Rightarrow> u16 option" where
  "decode_compression_ptr input =
     (if length input < 2 then None
      else let offset = read_ntoh (take 2 input)
           in if offset AND MARKER_BITS \<noteq> MARKER_BITS then None
              else Some (offset AND NOT MARKER_BITS))"

definition decode_label :: "span \<Rightarrow> (span, ResponseDecodeError) result" where
  "decode_label input =
     (if span_bytes input = [] then Failure LABEL_NO_LEN
      else let len = hd (span_bytes input)
           in if len > 63 then Failure LABEL_LEN_TOO_BIG
              else if span_size input < unat (len + 1) then Failure LABEL_LEN_OOB
              else Ok (Span (span_data input + 1) (take (unat len) (drop 1 (span_bytes input)))))"

section \<open>Domain names\<close>

text \<open>
  The inner loop: follow compression pointers. \<^term>\<open>first\<close> is the offset remembered for the
  detection of loops, \<^term>\<open>first_ptr\<close> whether no pointer has been followed for this name yet.
\<close>

partial_function (option) follow_ptrs ::
  "span \<Rightarrow> u16 \<Rightarrow> bool \<Rightarrow> u8 \<Rightarrow> span \<Rightarrow> (span \<times> bool \<times> u8, ResponseDecodeError) result option" where
  "follow_ptrs original_message first first_ptr bytes_to_consume label_position =
     (case decode_compression_ptr (span_bytes label_position) of
        None \<Rightarrow> Some (Ok (label_position, first_ptr, bytes_to_consume))
      | Some offset \<Rightarrow>
          if unat offset > size_sub (span_size original_message) 1 then Some (Failure COMPRESSION_PTR_OOB)
          else if offset = first then Some (Failure COMPRESSION_PTR_INFINITE_LOOP)
          else Option.bind (subspan (unat offset) original_message)
                 (\<lambda>label_position.
                    if first_ptr
                    then follow_ptrs original_message offset False (bytes_to_consume + 2) label_position
                    else follow_ptrs original_message first first_ptr bytes_to_consume label_position))"

text \<open>The outer loop: one label per iteration. The result is \<^verbatim>\<open>ParseDomainNameSuccess\<close>.\<close>

partial_function (option) parse_name_loop ::
  "span \<Rightarrow> nat \<Rightarrow> bool \<Rightarrow> u8 \<Rightarrow> nat \<Rightarrow> span \<Rightarrow> (u8 \<times> DomainName, ResponseDecodeError) result option" where
  "parse_name_loop original_message domain_name_start first_ptr bytes_to_consume domain_name_len label_position =
     (if span_bytes label_position = [] then Some (Failure NO_ROOT_LABEL)
      else Option.bind (follow_ptrs original_message (- 1) first_ptr bytes_to_consume label_position)
        (\<lambda>r. case r of
           Nothing \<Rightarrow> None
         | Failure e \<Rightarrow> Some (Failure e)
         | Ok (label_position, first_ptr, bytes_to_consume) \<Rightarrow>
             (case decode_label label_position of
                Nothing \<Rightarrow> None
              | Failure e \<Rightarrow> Some (Failure e)
              | Ok label \<Rightarrow>
                  let label_size_with_len = word_of_nat (span_size label) + 1 :: u8;
                      domain_name_len = domain_name_len + unat label_size_with_len
                  in if domain_name_len > FQDN_MAX_OCTET_LEN then Some (Failure NAME_LEN_TOO_BIG)
                     else let bytes_to_consume =
                                (if first_ptr then bytes_to_consume + label_size_with_len
                                 else bytes_to_consume)
                          in if span_bytes label \<noteq> []
                             then Option.bind (subspan (unat label_size_with_len) label_position)
                                    (\<lambda>label_position. parse_name_loop original_message domain_name_start
                                       first_ptr bytes_to_consume domain_name_len label_position)
                             else Some (Ok (bytes_to_consume,
                                    \<lparr>m_original_message_start = span_data original_message,
                                     m_self_start = domain_name_start\<rparr>)))))"

definition parse_domain_name ::
  "span \<Rightarrow> span \<Rightarrow> (u8 \<times> DomainName, ResponseDecodeError) result option" where
  "parse_domain_name original_message label_position =
     parse_name_loop original_message (span_data label_position) True 0 0 label_position"

section \<open>Numbers and strings\<close>

definition parse_character_string :: "span \<Rightarrow> CharacterString option" where
  "parse_character_string string_raw =
     (if span_bytes string_raw = [] then None
      else let len = unat (hd (span_bytes string_raw))
           in if len + 1 > span_size string_raw then None
              else Some \<lparr>cs_data = Span (span_data string_raw + 1) (take len (drop 1 (span_bytes string_raw)))\<rparr>)"

definition consume_2_octets :: "span \<Rightarrow> (u16 \<times> span) option" where
  "consume_2_octets s =
     (if span_size s < 2 then None
      else Some (read_ntoh (take 2 (span_bytes s)), Span (span_data s + 2) (drop 2 (span_bytes s))))"

definition consume_4_octets :: "span \<Rightarrow> (u32 \<times> span) option" where
  "consume_4_octets s =
     (if span_size s < 4 then None
      else Some (read_ntoh (take 4 (span_bytes s)), Span (span_data s + 4) (drop 4 (span_bytes s))))"

text \<open>
  The parsers below return early when one of these fails or a name does not parse: the
  failure \<^term>\<open>e\<close> replaces the cause.
\<close>

definition require :: "'e \<Rightarrow> 'a option \<Rightarrow> ('a, 'e) result option" where
  "require e x = Some (case x of None \<Rightarrow> Failure e | Some v \<Rightarrow> Ok v)"

definition or_fail :: "'e \<Rightarrow> ('a, 'f) result option \<Rightarrow> ('a, 'e) result option" where
  "or_fail e m = Option.bind m (\<lambda>r. case r of Ok v \<Rightarrow> Some (Ok v) | _ \<Rightarrow> Some (Failure e))"

definition lift_option :: "'a option \<Rightarrow> ('a, 'e) result option" where
  "lift_option x = map_option Ok x"

section \<open>Resource record data\<close>

definition parse_rdata_ipv4 :: "bool \<Rightarrow> span \<Rightarrow> (RData, ResponseDecodeError) result" where
  "parse_rdata_ipv4 little rdata_raw =
     (if span_size rdata_raw \<noteq> 4 then Failure RESOURCE_RECORD_DATA_BAD_A
      else Ok (RDataIpv4 (Ipv4Addr_from_bytes little (span_bytes rdata_raw))))"

definition parse_rdata_ipv6 :: "span \<Rightarrow> (RData, ResponseDecodeError) result" where
  "parse_rdata_ipv6 rdata_raw =
     (if span_size rdata_raw \<noteq> 16 then Failure RESOURCE_RECORD_DATA_BAD_AAAA
      else Ok (RDataIpv6 (Ipv6Addr_from_bytes (span_bytes rdata_raw))))"

definition parse_rdata_one_domain_name ::
  "(DomainName \<Rightarrow> RData) \<Rightarrow> ResponseDecodeError \<Rightarrow> span \<Rightarrow> span \<Rightarrow> (RData, ResponseDecodeError) result option" where
  "parse_rdata_one_domain_name RDATA err original_message rdata_raw =
     COROSIG_TRY (or_fail err (parse_domain_name original_message rdata_raw))
       (\<lambda>(_, name). Some (Ok (RDATA name)))"

definition parse_rdata_soa :: "span \<Rightarrow> span \<Rightarrow> (RData, ResponseDecodeError) result option" where
  "parse_rdata_soa original_message rdata_raw =
     (let bad = RESOURCE_RECORD_DATA_BAD_SOA in
      COROSIG_TRY (or_fail bad (parse_domain_name original_message rdata_raw)) (\<lambda>(n, mname).
      COROSIG_TRY (lift_option (subspan (unat n) rdata_raw)) (\<lambda>rdata_raw.
      COROSIG_TRY (or_fail bad (parse_domain_name original_message rdata_raw)) (\<lambda>(n, rname).
      COROSIG_TRY (lift_option (subspan (unat n) rdata_raw)) (\<lambda>rdata_raw.
      COROSIG_TRY (require bad (consume_4_octets rdata_raw)) (\<lambda>(serial, rdata_raw).
      COROSIG_TRY (require bad (consume_4_octets rdata_raw)) (\<lambda>(refresh, rdata_raw).
      COROSIG_TRY (require bad (consume_4_octets rdata_raw)) (\<lambda>(retry, rdata_raw).
      COROSIG_TRY (require bad (consume_4_octets rdata_raw)) (\<lambda>(expire, rdata_raw).
      COROSIG_TRY (require bad (consume_4_octets rdata_raw)) (\<lambda>(minimum, rdata_raw).
        Some (Ok (RDataStartOfAuthority mname rname serial refresh retry expire minimum))))))))))))"

definition parse_rdata_hinfo :: "span \<Rightarrow> (RData, ResponseDecodeError) result option" where
  "parse_rdata_hinfo rdata_raw =
     (let bad = RESOURCE_RECORD_DATA_BAD_HINFO in
      COROSIG_TRY (require bad (parse_character_string rdata_raw)) (\<lambda>cpu.
      COROSIG_TRY (lift_option (subspan (span_size (cs_data cpu) + 1) rdata_raw)) (\<lambda>rdata_raw.
      COROSIG_TRY (require bad (parse_character_string rdata_raw)) (\<lambda>os.
        Some (Ok (RDataHardwareInfo cpu os))))))"

definition parse_rdata_minfo :: "span \<Rightarrow> span \<Rightarrow> (RData, ResponseDecodeError) result option" where
  "parse_rdata_minfo original_message rdata_raw =
     (let bad = RESOURCE_RECORD_DATA_BAD_MINFO in
      COROSIG_TRY (or_fail bad (parse_domain_name original_message rdata_raw)) (\<lambda>(n, rmailbx).
      COROSIG_TRY (lift_option (subspan (unat n) rdata_raw)) (\<lambda>rdata_raw.
      COROSIG_TRY (or_fail bad (parse_domain_name original_message rdata_raw)) (\<lambda>(_, emailbx).
        Some (Ok (RDataMailInfo rmailbx emailbx))))))"

definition parse_rdata_mx :: "span \<Rightarrow> span \<Rightarrow> (RData, ResponseDecodeError) result option" where
  "parse_rdata_mx original_message rdata_raw =
     (let bad = RESOURCE_RECORD_DATA_BAD_MINFO in
      COROSIG_TRY (require bad (consume_2_octets rdata_raw)) (\<lambda>(preference, rdata_raw).
      COROSIG_TRY (or_fail bad (parse_domain_name original_message rdata_raw)) (\<lambda>(_, exchange).
        Some (Ok (RDataMailExchange exchange preference)))))"

definition parse_rdata :: "bool \<Rightarrow> span \<Rightarrow> u16 \<Rightarrow> span \<Rightarrow> (RData, ResponseDecodeError) result option" where
  "parse_rdata little original_message rtype rdata_raw =
     (case RdataType_of rtype of
        Some RT_A \<Rightarrow> Some (parse_rdata_ipv4 little rdata_raw)
      | Some RT_AAAA \<Rightarrow> Some (parse_rdata_ipv6 rdata_raw)
      | Some RT_NS \<Rightarrow> parse_rdata_one_domain_name RDataNameServer RESOURCE_RECORD_DATA_BAD_NS
                        original_message rdata_raw
      | Some RT_CNAME \<Rightarrow> parse_rdata_one_domain_name RDataCanonicalName RESOURCE_RECORD_DATA_BAD_CNAME
                        original_message rdata_raw
      | Some RT_MB \<Rightarrow> parse_rdata_one_domain_name RDataMailbox RESOURCE_RECORD_DATA_BAD_MB
                        original_message rdata_raw
      | Some RT_MG \<Rightarrow> parse_rdata_one_domain_name RDataMailGroup RESOURCE_RECORD_DATA_BAD_MG
                        original_message rdata_raw
      | Some RT_MR \<Rightarrow> parse_rdata_one_domain_name RDataMailboxRename RESOURCE_RECORD_DATA_BAD_MR
                        original_message rdata_raw
      | Some RT_PTR \<Rightarrow> parse_rdata_one_domain_name RDataPtr RESOURCE_RECORD_DATA_BAD_PTR
                        original_message rdata_raw
      | Some RT_HINFO \<Rightarrow> parse_rdata_hinfo rdata_raw
      | Some RT_MINFO \<Rightarrow> parse_rdata_minfo original_message rdata_raw
      | Some RT_MX \<Rightarrow> parse_rdata_mx original_message rdata_raw
      | Some RT_SOA \<Rightarrow> parse_rdata_soa original_message rdata_raw
      | Some RT_TNULL \<Rightarrow> Some (Ok (RDataNull rdata_raw))
      | Some RT_MD \<Rightarrow> Some (Ok (RDataObsolete rtype rdata_raw))
      | Some RT_MF \<Rightarrow> Some (Ok (RDataObsolete rtype rdata_raw))
      | _ \<Rightarrow> Some (Ok (RDataNotYetSupported rtype rdata_raw)))"

section \<open>The response decoder\<close>

record ResponseDecoder =
  m_original_message :: span
  m_remaining_message :: span

definition ResponseDecoder_make :: "span \<Rightarrow> ResponseDecoder" where
  "ResponseDecoder_make response = \<lparr>m_original_message = response, m_remaining_message = response\<rparr>"

definition invalidate :: "ResponseDecoder \<Rightarrow> ResponseDecoder" where
  "invalidate d = d\<lparr>m_remaining_message := empty_span, m_original_message := empty_span\<rparr>"

definition consume_header ::
  "ResponseDecoder \<Rightarrow> (Header, ResponseDecodeError) result \<times> ResponseDecoder" where
  "consume_header d =
     (let bs = span_bytes (m_remaining_message d) in
      if span_size (m_remaining_message d) < 12 then (Failure WRONG_HEADER_BYTES_COUNT, d)
      else (Ok \<lparr>hdr_id = read_ntoh (take 2 bs), hdr_flags = read_ntoh (take 2 (drop 2 bs)),
                hdr_qdcount = read_ntoh (take 2 (drop 4 bs)), hdr_ancount = read_ntoh (take 2 (drop 6 bs)),
                hdr_nscount = read_ntoh (take 2 (drop 8 bs)), hdr_arcount = read_ntoh (take 2 (drop 10 bs))\<rparr>,
            d\<lparr>m_remaining_message := Span (span_data (m_remaining_message d) + 12) (drop 12 bs)\<rparr>))"

definition consume_question_entry ::
  "ResponseDecoder \<Rightarrow> ((DecodeQuestionEntrySuccess, ResponseDecodeError) result \<times> ResponseDecoder) option" where
  "consume_question_entry d =
     Option.bind (parse_domain_name (m_original_message d) (m_remaining_message d)) (\<lambda>r. case r of
       Nothing \<Rightarrow> None
     | Failure e \<Rightarrow> Some (Failure e, invalidate d)
     | Ok (n, name) \<Rightarrow>
         Option.bind (subspan (unat n) (m_remaining_message d)) (\<lambda>rest.
           case consume_2_octets rest of
             None \<Rightarrow> Some (Failure NO_QUESTION_TYPE, invalidate d)
           | Some (qtype, rest) \<Rightarrow>
               (case consume_2_octets rest of
                  None \<Rightarrow> Some (Failure NO_QUESTION_CLASS, invalidate d)
                | Some (qclass, rest) \<Rightarrow>
                    Some (Ok \<lparr>dq_name = name, dq_qtype = ucast qtype, dq_qclass = ucast qclass\<rparr>,
                          d\<lparr>m_remaining_message := rest\<rparr>))))"

definition consume_resource_record ::
  "bool \<Rightarrow> ResponseDecoder \<Rightarrow> ((ResourceRecord, ResponseDecodeError) result \<times> ResponseDecoder) option" where
  "consume_resource_record little d =
     Option.bind (parse_domain_name (m_original_message d) (m_remaining_message d)) (\<lambda>r. case r of
       Nothing \<Rightarrow> None
     | Failure e \<Rightarrow> Some (Failure e, invalidate d)
     | Ok (n, name) \<Rightarrow>
         Option.bind (subspan (unat n) (m_remaining_message d)) (\<lambda>rest.
           case consume_2_octets rest of
             None \<Rightarrow> Some (Failure NO_RESOURCE_RECORD_TYPE, invalidate d)
           | Some (rtype, rest) \<Rightarrow>
           (case consume_2_octets rest of
             None \<Rightarrow> Some (Failure NO_RESOURCE_RECORD_CLASS, invalidate d)
           | Some (rclass, rest) \<Rightarrow>
           (case consume_4_octets rest of
             None \<Rightarrow> Some (Failure NO_RESOURCE_RECORD_TTL, invalidate d)
           | Some (ttl, rest) \<Rightarrow>
           (case consume_2_octets rest of
             None \<Rightarrow> Some (Failure NO_RESOURCE_RECORD_DATA_LEN, invalidate d)
           | Some (rdlen, rest) \<Rightarrow>
               if unat rdlen > span_size rest then Some (Failure RESOURCE_RECORD_DATA_LEN_OOB, invalidate d)
               else
                 Option.bind (span_first (unat rdlen) rest) (\<lambda>rdata_raw.
                 Option.bind (subspan (unat rdlen) rest) (\<lambda>rest.
                 Option.bind (parse_rdata little (m_original_message d) rtype rdata_raw) (\<lambda>rdata.
                   case rdata of
                     Nothing \<Rightarrow> None
                   | Failure e \<Rightarrow> Some (Failure e, invalidate d)
                   | Ok rd \<Rightarrow> Some (Ok \<lparr>rr_name = name, rr_rdata = rd, rr_ttl = ttl\<rparr>,
                                    d\<lparr>m_remaining_message := rest\<rparr>)))))))))"

section \<open>Iterating over the labels\<close>

text \<open>
  The iterator holds raw pointers. \<^term>\<open>mem\<close> is the message in memory; reading outside of it
  is undefined. A null \<^verbatim>\<open>m_label_start\<close>, the end of the range, is \<^term>\<open>None\<close>.
\<close>

definition load :: "span \<Rightarrow> nat \<Rightarrow> u8 option" where
  "load mem p =
     (if span_data mem \<le> p \<and> p < span_data mem + span_size mem
      then Some (span_bytes mem ! (p - span_data mem)) else None)"

partial_function (option) adwance :: "span \<Rightarrow> nat \<Rightarrow> nat \<Rightarrow> nat option option" where
  "adwance mem message_start label_start =
     Option.bind (load mem label_start) (\<lambda>b0.
     Option.bind (load mem (label_start + 1)) (\<lambda>b1.
       case decode_compression_ptr [b0, b1] of
         Some offset \<Rightarrow> adwance mem message_start (message_start + unat offset)
       | None \<Rightarrow> Some (if b0 = 0 then None else Some label_start)))"

definition labels_begin :: "span \<Rightarrow> DomainName \<Rightarrow> nat option option" where
  "labels_begin mem name = adwance mem (m_original_message_start name) (m_self_start name)"

definition labels_deref :: "span \<Rightarrow> nat option \<Rightarrow> octets option" where
  "labels_deref mem it = (case it of
     None \<Rightarrow> None
   | Some p \<Rightarrow> Option.bind (load mem p) (\<lambda>len.
       c_assert (p + 1 + unat len \<le> span_data mem + span_size mem)
         (Some (take (unat len) (drop (p + 1 - span_data mem) (span_bytes mem))))))"

definition labels_next :: "span \<Rightarrow> DomainName \<Rightarrow> nat option \<Rightarrow> nat option option" where
  "labels_next mem name it = (case it of
     None \<Rightarrow> Some None
   | Some p \<Rightarrow> Option.bind (load mem p) (\<lambda>len.
       adwance mem (m_original_message_start name) (p + unat len + 1)))"

text \<open>\<^verbatim>\<open>for (auto label : name)\<close>, collecting the labels.\<close>

partial_function (option) labels_from :: "span \<Rightarrow> DomainName \<Rightarrow> nat option \<Rightarrow> octets list option" where
  "labels_from mem name it = (case it of
     None \<Rightarrow> Some []
   | Some p \<Rightarrow> Option.bind (labels_deref mem it) (\<lambda>label.
       Option.bind (labels_next mem name it) (\<lambda>it.
       Option.bind (labels_from mem name it) (\<lambda>labels. Some (label # labels)))))"

definition DomainName_labels :: "span \<Rightarrow> DomainName \<Rightarrow> octets list option" where
  "DomainName_labels mem name = Option.bind (labels_begin mem name) (labels_from mem name)"

end
