(* ===== verification/Corosig_Random.thy ===== *)
theory Corosig_Random
  imports Corosig_Endian
begin

text \<open>
  The ChaCha20 generator of \<^verbatim>\<open>Random.hpp\<close> and \<^verbatim>\<open>Random.cpp\<close>: the operations on the arrays of
  the C++ object, a reference version of the block function of RFC 7539, and the output as a
  sequence of octets. The parameter \<^term>\<open>little\<close> is the byte order of the host.
\<close>

section \<open>The generator\<close>

record ChaCha20RandomGenerator =
  m_state :: "u32 list"
  m_working_state :: "u32 list"
  m_pos :: u8

definition STATE_WORDS :: nat where
  "STATE_WORDS = 16"

definition BLOCK_BYTES :: u8 where
  "BLOCK_BYTES = 64"

text \<open>One statement each of the quarter round: \<^verbatim>\<open>s[i] += s[j]\<close>, \<^verbatim>\<open>s[i] ^= s[j]\<close> and the rotation.\<close>

definition add_to :: "nat \<Rightarrow> nat \<Rightarrow> u32 list \<Rightarrow> u32 list" where
  "add_to i j s = s[i := s ! i + s ! j]"

definition xor_to :: "nat \<Rightarrow> nat \<Rightarrow> u32 list \<Rightarrow> u32 list" where
  "xor_to i j s = s[i := s ! i XOR s ! j]"

definition rotate_at :: "nat \<Rightarrow> nat \<Rightarrow> nat \<Rightarrow> u32 list \<Rightarrow> u32 list" where
  "rotate_at i l r s = s[i := push_bit l (s ! i) OR drop_bit r (s ! i)]"

definition chacha20_quarter_round :: "nat \<Rightarrow> nat \<Rightarrow> nat \<Rightarrow> nat \<Rightarrow> u32 list \<Rightarrow> u32 list" where
  "chacha20_quarter_round a b c d s =
     (let s = add_to a b s;
          s = xor_to d a s;
          s = rotate_at d 16 16 s;
          s = add_to c d s;
          s = xor_to b c s;
          s = rotate_at b 12 20 s;
          s = add_to a b s;
          s = xor_to d a s;
          s = rotate_at d 8 24 s;
          s = add_to c d s;
          s = xor_to b c s;
          s = rotate_at b 7 25 s
      in s)"

text \<open>\<^verbatim>\<open>memcpy\<close> of octets over an array of words.\<close>

fun words_of_bytes :: "bool \<Rightarrow> u8 list \<Rightarrow> u32 list" where
  "words_of_bytes little (a # b # c # d # bs) = of_mem_bytes little [a, b, c, d] # words_of_bytes little bs"
| "words_of_bytes little _ = []"

definition bytes_of_words :: "bool \<Rightarrow> u32 list \<Rightarrow> u8 list" where
  "bytes_of_words little ws = concat (map (mem_bytes little 4) ws)"

definition CONSTANT :: "u32 list" where
  "CONSTANT = [0x61707865, 0x3320646e, 0x79622d32, 0x6b206574]"

text \<open>
  The constructor. It does not initialise the working state; \<^term>\<open>garbage\<close> is what that
  array holds.
\<close>

definition ChaCha20_make ::
  "bool \<Rightarrow> u32 list \<Rightarrow> u8 list \<Rightarrow> u32 \<times> u32 \<times> u32 \<Rightarrow> u32 \<Rightarrow> ChaCha20RandomGenerator" where
  "ChaCha20_make little garbage seed = (\<lambda>(n0, n1, n2) block_counter.
     \<lparr>m_state = CONSTANT @ words_of_bytes little seed @ [block_counter, n0, n1, n2],
      m_working_state = garbage, m_pos = BLOCK_BYTES\<rparr>)"

definition chacha20_double_round :: "u32 list \<Rightarrow> u32 list" where
  "chacha20_double_round w =
     (let w = chacha20_quarter_round 0 4 8 12 w;
          w = chacha20_quarter_round 1 5 9 13 w;
          w = chacha20_quarter_round 2 6 10 14 w;
          w = chacha20_quarter_round 3 7 11 15 w;
          w = chacha20_quarter_round 0 5 10 15 w;
          w = chacha20_quarter_round 1 6 11 12 w;
          w = chacha20_quarter_round 2 7 8 13 w;
          w = chacha20_quarter_round 3 4 9 14 w
      in w)"

definition refill_add :: "bool \<Rightarrow> nat \<Rightarrow> ChaCha20RandomGenerator \<Rightarrow> ChaCha20RandomGenerator" where
  "refill_add little i g =
     (let g = g\<lparr>m_working_state := (m_working_state g)[i := m_working_state g ! i + m_state g ! i]\<rparr>;
          g = g\<lparr>m_state := (m_state g)[i := m_working_state g ! i]\<rparr>
      in g\<lparr>m_working_state := (m_working_state g)[i := htole little 4 (m_working_state g ! i)]\<rparr>)"

definition refill_state :: "bool \<Rightarrow> ChaCha20RandomGenerator \<Rightarrow> ChaCha20RandomGenerator" where
  "refill_state little g =
     (let g = g\<lparr>m_working_state := m_state g\<rparr>;
          g = g\<lparr>m_working_state := (chacha20_double_round ^^ 10) (m_working_state g)\<rparr>;
          g = fold (refill_add little) [0..<STATE_WORDS] g;
          g = g\<lparr>m_state := (m_state g)[12 := m_state g ! 12 + 1]\<rparr>;
          g = (if m_state g ! 12 = 0 then g\<lparr>m_state := (m_state g)[13 := m_state g ! 13 + 1]\<rparr> else g)
      in g\<lparr>m_pos := 0\<rparr>)"

text \<open>
  The loop of \<^verbatim>\<open>generate_bytes\<close>, with what has been written to \<^verbatim>\<open>out\<close> so far. \<^verbatim>\<open>memcpy\<close>
  past the end of the working state is undefined.
\<close>

partial_function (option) generate_loop ::
  "bool \<Rightarrow> nat \<Rightarrow> u8 list \<Rightarrow> ChaCha20RandomGenerator \<Rightarrow> (u8 list \<times> ChaCha20RandomGenerator) option" where
  "generate_loop little len out g =
     (if len > 0 then
        (let g = (if m_pos g = BLOCK_BYTES then refill_state little g else g);
             to_copy = min len (size_sub (unat BLOCK_BYTES) (unat (m_pos g)));
             bytes = bytes_of_words little (m_working_state g)
         in c_assert (unat (m_pos g) + to_copy \<le> length bytes)
              (generate_loop little (len - to_copy) (out @ take to_copy (drop (unat (m_pos g)) bytes))
                 (g\<lparr>m_pos := m_pos g + word_of_nat to_copy\<rparr>)))
      else Some (out, g))"

definition generate_bytes ::
  "bool \<Rightarrow> nat \<Rightarrow> ChaCha20RandomGenerator \<Rightarrow> (u8 list \<times> ChaCha20RandomGenerator) option" where
  "generate_bytes little len g = generate_loop little len [] g"

section \<open>The block function of RFC 7539\<close>

fun rfc_quarter_round :: "u32 \<times> u32 \<times> u32 \<times> u32 \<Rightarrow> u32 \<times> u32 \<times> u32 \<times> u32" where
  "rfc_quarter_round (a, b, c, d) =
     (let a = a + b; d = word_rotl 16 (d XOR a);
          c = c + d; b = word_rotl 12 (b XOR c);
          a = a + b; d = word_rotl 8 (d XOR a);
          c = c + d; b = word_rotl 7 (b XOR c)
      in (a, b, c, d))"

text \<open>The state as a matrix of four rows: a round on its columns, then one on its diagonals.\<close>

fun rfc_inner_block :: "u32 list \<Rightarrow> u32 list" where
  "rfc_inner_block [x0, x1, x2, x3, x4, x5, x6, x7, x8, x9, x10, x11, x12, x13, x14, x15] =
     (let (x0, x4, x8, x12) = rfc_quarter_round (x0, x4, x8, x12);
          (x1, x5, x9, x13) = rfc_quarter_round (x1, x5, x9, x13);
          (x2, x6, x10, x14) = rfc_quarter_round (x2, x6, x10, x14);
          (x3, x7, x11, x15) = rfc_quarter_round (x3, x7, x11, x15);
          (x0, x5, x10, x15) = rfc_quarter_round (x0, x5, x10, x15);
          (x1, x6, x11, x12) = rfc_quarter_round (x1, x6, x11, x12);
          (x2, x7, x8, x13) = rfc_quarter_round (x2, x7, x8, x13);
          (x3, x4, x9, x14) = rfc_quarter_round (x3, x4, x9, x14)
      in [x0, x1, x2, x3, x4, x5, x6, x7, x8, x9, x10, x11, x12, x13, x14, x15])"
| "rfc_inner_block s = s"

definition rfc_block :: "u32 list \<Rightarrow> u32 list" where
  "rfc_block s = map2 (+) ((rfc_inner_block ^^ 10) s) s"

definition rfc_serialize :: "u32 list \<Rightarrow> u8 list" where
  "rfc_serialize ws = concat (map (\<lambda>w. rev (be_bytes 4 w)) ws)"

lemma length16:
  assumes "length s = 16"
  obtains x0 x1 x2 x3 x4 x5 x6 x7 x8 x9 x10 x11 x12 x13 x14 x15
    where "s = [x0, x1, x2, x3, x4, x5, x6, x7, x8, x9, x10, x11, x12, x13, x14, x15]"
proof -
  have n: "16 = Suc (Suc (Suc (Suc (Suc (Suc (Suc (Suc (Suc (Suc (Suc (Suc (Suc (Suc (Suc (Suc 0)))))))))))))))"
    by simp
  show ?thesis
    using assms that unfolding n length_Suc_conv by blast
qed

lemma rotl_shift:
  assumes "0 < k" and "k < 32"
  shows "push_bit k w OR drop_bit (32 - k) w = word_rotl k (w :: u32)"
proof (rule bit_eqI)
  fix n
  have "(n + (32 - k)) mod 32 = n - k" if "k \<le> n" "n < 32"
  proof -
    have "n + (32 - k) = 32 + (n - k)"
      using that assms by simp
    moreover have "(32 + (n - k)) mod 32 = n - k"
      using that by (subst mod_add_self1) simp
    ultimately show ?thesis
      by (simp only:)
  qed
  moreover have "(n + (32 - k)) mod 32 = n + (32 - k)" if "n < k"
    using that assms by simp
  moreover have "n + (32 - k) = 32 - k + n"
    by simp
  ultimately show "bit (push_bit k w OR drop_bit (32 - k) w) n = bit (word_rotl k w) n"
    using assms
    by (cases "n < k"; cases "n < 32") (simp_all only: bit_or_iff bit_push_bit_iff bit_drop_bit_eq bit_word_rotl_iff comp_def, auto dest: bit_imp_le_length)
qed

lemmas rotl_shifts = rotl_shift[of 16, simplified] rotl_shift[of 12, simplified]
  rotl_shift[of 8, simplified] rotl_shift[of 7, simplified]


lemma list_update_numeral: "(x # xs)[numeral k := y] = x # xs[pred_numeral k := y]"
  by (simp add: numeral_eq_Suc)

lemma statement_length:
  "length (add_to i j s) = length s" "length (xor_to i j s) = length s" "length (rotate_at i l r s) = length s"
  by (simp_all add: add_to_def xor_to_def rotate_at_def)

lemma statement_nth:
  "i < length s \<Longrightarrow> add_to i j s ! k = (if k = i then s ! i + s ! j else s ! k)"
  "i < length s \<Longrightarrow> xor_to i j s ! k = (if k = i then s ! i XOR s ! j else s ! k)"
  "i < length s \<Longrightarrow> rotate_at i 16 16 s ! k = (if k = i then word_rotl 16 (s ! i) else s ! k)"
  "i < length s \<Longrightarrow> rotate_at i 12 20 s ! k = (if k = i then word_rotl 12 (s ! i) else s ! k)"
  "i < length s \<Longrightarrow> rotate_at i 8 24 s ! k = (if k = i then word_rotl 8 (s ! i) else s ! k)"
  "i < length s \<Longrightarrow> rotate_at i 7 25 s ! k = (if k = i then word_rotl 7 (s ! i) else s ! k)"
  by (simp_all add: add_to_def xor_to_def rotate_at_def nth_list_update rotl_shifts)

lemma length_quarter_round [simp]: "length (chacha20_quarter_round a b c d s) = length s"
  by (simp add: chacha20_quarter_round_def statement_length Let_def)

lemma quarter_round_rfc:
  assumes "distinct [a, b, c, d]" and "a < length s" and "b < length s" and "c < length s" and "d < length s"
  shows "chacha20_quarter_round a b c d s =
    (case rfc_quarter_round (s ! a, s ! b, s ! c, s ! d) of (x, y, z, w) \<Rightarrow> s[a := x, b := y, c := z, d := w])"
proof (rule nth_equalityI)
  fix k
  show "chacha20_quarter_round a b c d s ! k = (case rfc_quarter_round (s ! a, s ! b, s ! c, s ! d) of
      (x, y, z, w) \<Rightarrow> s[a := x, b := y, c := z, d := w]) ! k"
    using assms
    by (cases "k = a"; cases "k = b"; cases "k = c"; cases "k = d")
       (simp_all add: chacha20_quarter_round_def statement_nth statement_length Let_def)
qed (simp add: case_prod_beta)

lemma double_round_rfc:
  assumes "length s = 16"
  shows "chacha20_double_round s = rfc_inner_block s"
proof -
  obtain x0 x1 x2 x3 x4 x5 x6 x7 x8 x9 x10 x11 x12 x13 x14 x15
    where s: "s = [x0, x1, x2, x3, x4, x5, x6, x7, x8, x9, x10, x11, x12, x13, x14, x15]"
    using assms by (rule length16)
  obtain y0 y4 y8 y12 where c0: "rfc_quarter_round (x0, x4, x8, x12) = (y0, y4, y8, y12)"
    by (rule prod_cases4)
  obtain y1 y5 y9 y13 where c1: "rfc_quarter_round (x1, x5, x9, x13) = (y1, y5, y9, y13)"
    by (rule prod_cases4)
  obtain y2 y6 y10 y14 where c2: "rfc_quarter_round (x2, x6, x10, x14) = (y2, y6, y10, y14)"
    by (rule prod_cases4)
  obtain y3 y7 y11 y15 where c3: "rfc_quarter_round (x3, x7, x11, x15) = (y3, y7, y11, y15)"
    by (rule prod_cases4)
  obtain z0 z5 z10 z15 where d0: "rfc_quarter_round (y0, y5, y10, y15) = (z0, z5, z10, z15)"
    by (rule prod_cases4)
  obtain z1 z6 z11 z12 where d1: "rfc_quarter_round (y1, y6, y11, y12) = (z1, z6, z11, z12)"
    by (rule prod_cases4)
  obtain z2 z7 z8 z13 where d2: "rfc_quarter_round (y2, y7, y8, y13) = (z2, z7, z8, z13)"
    by (rule prod_cases4)
  obtain z3 z4 z9 z14 where d3: "rfc_quarter_round (y3, y4, y9, y14) = (z3, z4, z9, z14)"
    by (rule prod_cases4)
  show ?thesis
    unfolding s chacha20_double_round_def Let_def
    by (simp add: quarter_round_rfc list_update_numeral c0 c1 c2 c3 d0 d1 d2 d3 del: rfc_quarter_round.simps)
qed


section \<open>The output as a sequence of octets\<close>

text \<open>The sizes of the arrays, and a position inside the block or at its end.\<close>

definition gen_ok :: "ChaCha20RandomGenerator \<Rightarrow> bool" where
  "gen_ok g \<longleftrightarrow> length (m_state g) = 16 \<and> m_pos g \<le> 64 \<and> (m_pos g < 64 \<longrightarrow> length (m_working_state g) = 16)"

text \<open>The generator asked for one octet at a time.\<close>

definition next_byte :: "bool \<Rightarrow> ChaCha20RandomGenerator \<Rightarrow> u8 \<times> ChaCha20RandomGenerator" where
  "next_byte little g =
     (let g = (if m_pos g = BLOCK_BYTES then refill_state little g else g)
      in (bytes_of_words little (m_working_state g) ! unat (m_pos g), g\<lparr>m_pos := m_pos g + 1\<rparr>))"

primrec take_bytes :: "bool \<Rightarrow> nat \<Rightarrow> ChaCha20RandomGenerator \<Rightarrow> u8 list \<times> ChaCha20RandomGenerator" where
  "take_bytes little 0 g = ([], g)"
| "take_bytes little (Suc n) g =
     (case next_byte little g of (b, g) \<Rightarrow> case take_bytes little n g of (bs, g) \<Rightarrow> (b # bs, g))"

lemma length_rounds: "length s = 16 \<Longrightarrow> length ((rfc_inner_block ^^ k) s) = 16"
proof (induction k)
  case (Suc k)
  let ?r = "(rfc_inner_block ^^ k) s"
  have "length (chacha20_double_round ?r) = length ?r"
    by (simp add: chacha20_double_round_def Let_def)
  then show ?case
    using Suc double_round_rfc[of ?r] by simp
qed simp

lemma rounds_rfc: "length s = 16 \<Longrightarrow> (chacha20_double_round ^^ k) s = (rfc_inner_block ^^ k) s"
  by (induction k) (simp_all add: length_rounds double_round_rfc)

lemma length_rfc_block [simp]: "length s = 16 \<Longrightarrow> length (rfc_block s) = 16"
  by (simp add: rfc_block_def length_rounds)

lemma refill_adds:
  assumes "n \<le> 16" and "length (m_state g) = 16" and "length (m_working_state g) = 16"
  shows "fold (refill_add little) [0..<n] g =
    g\<lparr>m_working_state := map (\<lambda>i. htole little 4 (m_working_state g ! i + m_state g ! i)) [0..<n] @ drop n (m_working_state g),
      m_state := map (\<lambda>i. m_working_state g ! i + m_state g ! i) [0..<n] @ drop n (m_state g)\<rparr>"
  using assms
proof (induction n)
  case (Suc n)
  have d: "drop n xs = xs ! n # drop (Suc n) xs" if "length xs = 16" for xs :: "u32 list"
    using Suc.prems that by (simp add: Cons_nth_drop_Suc)
  show ?case
    using Suc by (simp add: refill_add_def Let_def nth_append list_update_append d)
qed simp

text \<open>What \<^verbatim>\<open>refill_state\<close> leaves in the arrays.\<close>

definition next_state :: "u32 list \<Rightarrow> u32 list" where
  "next_state ws =
     (let ws = ws[12 := ws ! 12 + 1] in if ws ! 12 = 0 then ws[13 := ws ! 13 + 1] else ws)"

lemma map2_nth: "length xs = n \<Longrightarrow> length ys = n \<Longrightarrow> map (\<lambda>i. f (xs ! i) (ys ! i)) [0..<n] = map2 f xs ys"
  by (rule nth_equalityI) simp_all

lemma refill_state_eq:
  assumes "length (m_state g) = 16"
  shows "refill_state little g =
    g\<lparr>m_state := next_state (rfc_block (m_state g)),
      m_working_state := map (htole little 4) (rfc_block (m_state g)), m_pos := 0\<rparr>"
proof -
  define w where "w = (chacha20_double_round ^^ 10) (m_state g)"
  have w: "w = (rfc_inner_block ^^ 10) (m_state g)" "length w = 16"
    using assms unfolding w_def by (simp_all only: rounds_rfc length_rounds)
  have b: "map (\<lambda>i. w ! i + m_state g ! i) [0..<16] = rfc_block (m_state g)"
    using map2_nth[OF w(2) assms, of "(+)"] unfolding rfc_block_def w(1) .
  have "map (\<lambda>i. htole little 4 (w ! i + m_state g ! i)) [0..<16] = map (htole little 4) (rfc_block (m_state g))"
    unfolding b[symmetric] list.map_comp comp_def ..
  moreover have "fold (refill_add little) [0..<16] (g\<lparr>m_working_state := w\<rparr>) =
    g\<lparr>m_working_state := map (\<lambda>i. htole little 4 (w ! i + m_state g ! i)) [0..<16],
      m_state := map (\<lambda>i. w ! i + m_state g ! i) [0..<16]\<rparr>"
    using refill_adds[of 16 "g\<lparr>m_working_state := w\<rparr>" little] assms w(2) by simp
  ultimately have f: "fold (refill_add little) [0..<16] (g\<lparr>m_working_state := w\<rparr>) =
    g\<lparr>m_working_state := map (htole little 4) (rfc_block (m_state g)), m_state := rfc_block (m_state g)\<rparr>"
    by (simp only: b)
  show ?thesis
    unfolding refill_state_def STATE_WORDS_def Let_def
    by (simp add: w_def[symmetric] f next_state_def Let_def)
qed

lemma mem_bytes_htole: "mem_bytes little 4 (htole little 4 (w :: u32)) = rev (be_bytes 4 w)"
  using mem_bytes_byteswap[of 4 little w] by (cases little) (simp_all add: htole_def mem_bytes_def)

lemma bytes_of_block: "bytes_of_words little (map (htole little 4) ws) = rfc_serialize ws"
  by (simp add: bytes_of_words_def rfc_serialize_def comp_def mem_bytes_htole)

lemma length_bytes_of_words [simp]: "length (bytes_of_words little ws) = 4 * length ws"
  by (induction ws) (simp_all add: bytes_of_words_def mem_bytes_def)


lemma gen_ok_refill: "gen_ok g \<Longrightarrow> gen_ok (refill_state little g) \<and> m_pos (refill_state little g) = 0"
  by (simp add: gen_ok_def refill_state_eq next_state_def Let_def)

lemma take_bytes_add:
  "take_bytes little (m + n) g =
     (case take_bytes little m g of (bs, g) \<Rightarrow> case take_bytes little n g of (cs, g) \<Rightarrow> (bs @ cs, g))"
  by (induction m arbitrary: g) (simp_all split: prod.splits)

lemma take_bytes_refill:
  "gen_ok g \<Longrightarrow> m_pos g = 64 \<Longrightarrow> 0 < n \<Longrightarrow> take_bytes little n g = take_bytes little n (refill_state little g)"
  using gen_ok_refill[of g little] by (cases n) (simp_all add: next_byte_def BLOCK_BYTES_def)

lemma take_bytes_in_block:
  assumes "gen_ok g" and "unat (m_pos g) + n \<le> 64" and "m_pos g < 64 \<or> n = 0"
  shows "take_bytes little n g =
    (take n (drop (unat (m_pos g)) (bytes_of_words little (m_working_state g))), g\<lparr>m_pos := m_pos g + word_of_nat n\<rparr>)"
  using assms
proof (induction n arbitrary: g)
  case (Suc n)
  let ?g = "g\<lparr>m_pos := m_pos g + 1\<rparr>" and ?bs = "bytes_of_words little (m_working_state g)"
  have l: "length (m_working_state g) = 16" "m_pos g < 64" "unat (m_pos g) < 64"
    using Suc.prems by (auto simp: gen_ok_def)
  have p: "unat (m_pos g + 1) = unat (m_pos g) + 1"
    using l(3) by (intro unat_add_lem[THEN iffD1, THEN trans]) simp_all
  have ok: "gen_ok ?g"
    using Suc.prems l p by (auto simp: gen_ok_def word_le_nat_alt)
  have "m_pos ?g < 64 \<or> n = 0"
    using Suc.prems(2) p by (auto simp: word_less_nat_alt)
  then have ih: "take_bytes little n ?g = (take n (drop (unat (m_pos g) + 1) ?bs), ?g\<lparr>m_pos := m_pos g + 1 + word_of_nat n\<rparr>)"
    using Suc.IH[OF ok] Suc.prems(2) p by simp
  have "drop (unat (m_pos g)) ?bs = ?bs ! unat (m_pos g) # drop (unat (m_pos g) + 1) ?bs"
    using l by (simp add: Cons_nth_drop_Suc)
  moreover have "next_byte little g = (?bs ! unat (m_pos g), ?g)"
    using l(3) by (auto simp: next_byte_def BLOCK_BYTES_def)
  ultimately show ?case
    using ih by (simp add: add.assoc)
qed simp

lemma generate_loop_ok:
  "gen_ok g \<Longrightarrow> \<exists>g'. gen_ok g' \<and> take_bytes little len g = (fst (take_bytes little len g), g') \<and>
     generate_loop little len out g = Some (out @ fst (take_bytes little len g), g')"
proof (induction len arbitrary: out g rule: less_induct)
  case (less len)
  show ?case
  proof (cases "len = 0")
    case True
    then show ?thesis
      using less.prems by (subst generate_loop.simps) simp
  next
    case False
    define h where "h = (if m_pos g = 64 then refill_state little g else g)"
    have h: "gen_ok h" "m_pos h < 64" "take_bytes little len h = take_bytes little len g"
      using less.prems gen_ok_refill[OF less.prems, of little] take_bytes_refill[OF less.prems, of len little] False
      by (auto simp: h_def gen_ok_def)
    have p: "unat (m_pos h) < 64"
      using h(2) by (simp add: word_less_nat_alt)
    define k where "k = min len (64 - unat (m_pos h))"
    have k: "0 < k" "k \<le> len" "unat (m_pos h) + k \<le> 64"
      using False p by (auto simp: k_def)
    let ?bs = "take k (drop (unat (m_pos h)) (bytes_of_words little (m_working_state h)))"
    let ?h = "h\<lparr>m_pos := m_pos h + word_of_nat k\<rparr>"
    have t: "take_bytes little k h = (?bs, ?h)"
      using take_bytes_in_block[OF h(1) k(3)] h(2) by simp
    have up: "unat (m_pos h + word_of_nat k) = unat (m_pos h) + k"
      using k(3) by (simp add: unat_word_ariths unat_of_nat take_bit_eq_mod)
    then have ok: "gen_ok ?h"
      using h(1,2) k(3) by (auto simp: gen_ok_def word_le_nat_alt)
    have all: "take_bytes little len g = (case take_bytes little (len - k) ?h of (cs, g) \<Rightarrow> (?bs @ cs, g))"
      using take_bytes_add[of little k "len - k" h] t k(2) h(3) by simp
    have step: "generate_loop little len out g = generate_loop little (len - k) (out @ ?bs) ?h"
      using False k h p
      by (subst generate_loop.simps) (simp add: BLOCK_BYTES_def size_sub_id Let_def gen_ok_def flip: h_def k_def)
    obtain g' where g': "gen_ok g'" "take_bytes little (len - k) ?h = (fst (take_bytes little (len - k) ?h), g')"
        "generate_loop little (len - k) (out @ ?bs) ?h = Some ((out @ ?bs) @ fst (take_bytes little (len - k) ?h), g')"
      using less.IH[OF _ ok, of "len - k" "out @ ?bs"] k by auto
    then show ?thesis
      using step all by (cases "take_bytes little (len - k) ?h") auto
  qed
qed


lemma fst_take_bytes_length: "length (fst (take_bytes little n g)) = n"
  by (induction n arbitrary: g) (simp_all split: prod.splits, metis fst_conv)

lemma take_bytes_block:
  assumes "gen_ok g" and "m_pos g = 64"
  shows "take_bytes little 64 g = (rfc_serialize (rfc_block (m_state g)), (refill_state little g)\<lparr>m_pos := 64\<rparr>)"
proof -
  let ?h = "refill_state little g"
  have l: "length (m_state g) = 16"
    using assms by (simp add: gen_ok_def)
  have h: "gen_ok ?h" "m_pos ?h = 0"
    using gen_ok_refill[OF assms(1)] by simp_all
  have b: "bytes_of_words little (m_working_state ?h) = rfc_serialize (rfc_block (m_state g))"
    by (simp add: refill_state_eq[OF l] bytes_of_block)
  have n: "length (bytes_of_words little (m_working_state ?h)) = 64"
    by (simp add: refill_state_eq[OF l] l)
  show ?thesis
    using take_bytes_refill[OF assms, of 64 little] take_bytes_in_block[OF h(1), of 64 little] h(2) b n by simp
qed

lemma take_bytes_blocks:
  assumes "gen_ok g" and "m_pos g = 64"
  shows "fst (take_bytes little (64 * k) g) =
    concat (map (\<lambda>i. rfc_serialize (rfc_block (((\<lambda>s. next_state (rfc_block s)) ^^ i) (m_state g)))) [0..<k])"
  using assms
proof (induction k arbitrary: g)
  case (Suc k)
  let ?h = "(refill_state little g)\<lparr>m_pos := 64\<rparr>"
  have l: "length (m_state g) = 16"
    using Suc.prems by (simp add: gen_ok_def)
  have h: "gen_ok ?h" "m_state ?h = next_state (rfc_block (m_state g))"
    using l by (simp_all add: gen_ok_def refill_state_eq next_state_def Let_def)
  have "64 * Suc k = 64 + 64 * k"
    by simp
  then have "fst (take_bytes little (64 * Suc k) g) = rfc_serialize (rfc_block (m_state g)) @ fst (take_bytes little (64 * k) ?h)"
    using take_bytes_add[of little 64 "64 * k" g] take_bytes_block[OF Suc.prems] by (simp only: split) (simp split: prod.splits)
  then show ?case
    using Suc.IH[OF h(1)] h(2)
    by (simp add: upt_conv_Cons map_Suc_upt[symmetric] comp_def funpow_Suc_right del: upt_Suc mult_Suc_right funpow.simps(2))
qed simp

section \<open>Properties\<close>

text \<open>
  \<^verbatim>\<open>generate_bytes\<close> returns for every buffer size, fills the whole buffer, never reads
  past the working state, and how the requests are split over calls does not matter: asking for
  \<^term>\<open>m\<close> octets and then \<^term>\<open>n\<close> gives what one request for \<^term>\<open>m + n\<close> gives, and the same
  generator state.
\<close>

theorem ChaCha20_generate_bytes_chunking:
  assumes "gen_ok g"
  shows "\<exists>bs g' cs g''. generate_bytes little m g = Some (bs, g') \<and> length bs = m \<and> gen_ok g' \<and>
    generate_bytes little n g' = Some (cs, g'') \<and> length cs = n \<and> gen_ok g'' \<and>
    generate_bytes little (m + n) g = Some (bs @ cs, g'')"
proof -
  obtain g' where g': "gen_ok g'" "take_bytes little m g = (fst (take_bytes little m g), g')"
      "generate_bytes little m g = Some (fst (take_bytes little m g), g')"
    using generate_loop_ok[OF assms, of little m "[]"] by (auto simp: generate_bytes_def)
  obtain g'' where g'': "gen_ok g''" "take_bytes little n g' = (fst (take_bytes little n g'), g'')"
      "generate_bytes little n g' = Some (fst (take_bytes little n g'), g'')"
    using generate_loop_ok[OF g'(1), of little n "[]"] by (auto simp: generate_bytes_def)
  have "take_bytes little (m + n) g = (fst (take_bytes little m g) @ fst (take_bytes little n g'), g'')"
    using take_bytes_add[of little m n g] g'(2) g''(2) by (simp only: split) (metis (no_types, lifting) case_prod_conv)
  then have "generate_bytes little (m + n) g = Some (fst (take_bytes little m g) @ fst (take_bytes little n g'), g'')"
    using generate_loop_ok[OF assms, of little "m + n" "[]"] by (auto simp: generate_bytes_def)
  then show ?thesis
    using g' g'' by (metis fst_take_bytes_length)
qed

lemma gen_ok_make:
  assumes "length seed = 32"
  shows "gen_ok (ChaCha20_make little garbage seed (n0, n1, n2) block_counter)"
proof -
  have "length (words_of_bytes little bs) = length bs div 4" for bs
    by (induction little bs rule: words_of_bytes.induct) simp_all
  then show ?thesis
    using assms by (simp add: gen_ok_def ChaCha20_make_def CONSTANT_def BLOCK_BYTES_def)
qed

theorem ChaCha20_generate_bytes_chunking_witness:
  "\<exists>g bs g'. gen_ok g \<and> generate_bytes True 3 g = Some (bs, g') \<and> length bs = 3"
  using ChaCha20_generate_bytes_chunking[OF gen_ok_make[of "replicate 32 0" True "[]" 0 0 0 0], of True 3 0]
    gen_ok_make[of "replicate 32 0" True "[]" 0 0 0 0] by auto

text \<open>
  Claim C28. The keystream of a generator is a sequence of ChaCha20 blocks in the octet order of
  RFC 7539 on either kind of host, whatever the uninitialised working state holds: the first is
  the block of the initial state, and each later one is the block of the previous block's
  output with its counter incremented (where the RFC would increment the counter of the initial
  state).
\<close>

theorem ChaCha20_keystream:
  assumes "length seed = 32"
  shows "\<exists>g'. generate_bytes little (64 * k) (ChaCha20_make little garbage seed (n0, n1, n2) block_counter) =
    Some (concat (map (\<lambda>i. rfc_serialize (rfc_block (((\<lambda>s. next_state (rfc_block s)) ^^ i)
            (CONSTANT @ words_of_bytes little seed @ [block_counter, n0, n1, n2])))) [0..<k]), g')"
proof -
  let ?g = "ChaCha20_make little garbage seed (n0, n1, n2) block_counter"
  have "m_pos ?g = 64" "m_state ?g = CONSTANT @ words_of_bytes little seed @ [block_counter, n0, n1, n2]"
    by (simp_all add: ChaCha20_make_def BLOCK_BYTES_def)
  moreover have ok: "gen_ok ?g"
    by (rule gen_ok_make[OF assms])
  ultimately show ?thesis
    using generate_loop_ok[OF ok, of little "64 * k" "[]"] take_bytes_blocks[OF ok, of little k]
    by (auto simp: generate_bytes_def)
qed

theorem ChaCha20_keystream_witness:
  "\<exists>g'. length (replicate 32 (0 :: u8)) = 32 \<and>
     generate_bytes True 64 (ChaCha20_make True [] (replicate 32 0) (0, 0, 0) 7) =
     Some (rfc_serialize (rfc_block (CONSTANT @ words_of_bytes True (replicate 32 0) @ [7, 0, 0, 0])), g')"
  using ChaCha20_keystream[of "replicate 32 0" True 1 "[]" 0 0 0 7] by simp

text \<open>The example of the quarter round in RFC 7539, section 2.1.1.\<close>

lemma rfc_quarter_round_example:
  "rfc_quarter_round (0x11111111, 0x01020304, 0x9b8d6f43, 0x01234567) =
     (0xea2a92f4, 0xcb1cf8ce, 0x4581472e, 0x5881c4bb)"
  by code_simp

end
