(* ===== verification/Corosig_Dns_Resolver.thy ===== *)
theory Corosig_Dns_Resolver
  imports Corosig_Dns_Decode Corosig_Dns_Encode Corosig_Dns_Hosts Corosig_Random
begin

text \<open>
  The resolver: \<^verbatim>\<open>io/dns/Resolver.hpp\<close> and \<^verbatim>\<open>io/dns/Resolver.cpp\<close>. What the coroutines do between
  two suspension points is a function: starting a request, handling one datagram, answering from
  the cache. The socket is a parameter: a datagram arrives as the contents of the receive
  buffer with the number the system call returned. Time points are nanoseconds.
\<close>

section \<open>Errors\<close>

datatype ResolveErrorCode =
    RESOLVE_ABORTED
  | TOO_MANY_PARALLEL_REQUESTS
  | NO_SERVERS_PROVIDED
  | GOT_REQUEST_INSTEAD
  | QUESTION_TRUNCATED
  | INVALID_QDCOUNT
  | QUESTION_VALUE_MISMATCH
  | NO_ANSWERS_GIVEN

fun ResolveErrorCode_description :: "ResolveErrorCode \<Rightarrow> string" where
  "ResolveErrorCode_description GOT_REQUEST_INSTEAD = ''Got request when expected response''"
| "ResolveErrorCode_description QUESTION_TRUNCATED = ''Question was truncated by server''"
| "ResolveErrorCode_description INVALID_QDCOUNT =
     ''The only valid number for QDCOUNT in successfull request is 1''"
| "ResolveErrorCode_description QUESTION_VALUE_MISMATCH =
     ''Questions in response are not the same as in question''"
| "ResolveErrorCode_description RESOLVE_ABORTED = ''Resolve was aborted''"
| "ResolveErrorCode_description TOO_MANY_PARALLEL_REQUESTS =
     ''There are more parallel requests than 16 bit request id field can store''"
| "ResolveErrorCode_description NO_ANSWERS_GIVEN = ''Received query response with no answers''"
| "ResolveErrorCode_description NO_SERVERS_PROVIDED = ''Provided dns servers list is empty''"

text \<open>The alternatives of \<^verbatim>\<open>ResolveError\<close>; a server response code is the four bits of the header.\<close>

datatype ResolveError =
    Code_Error ResolveErrorCode
  | Server_Error u8
  | Decode_Error ResponseDecodeError
  | Encode_Error QuestionEncodeError

datatype RequestError =
    Allocation_Failure AllocationError
  | Syscall_Failure SyscallError
  | Resolve_Failure ResolveError

section \<open>Validating a response\<close>

definition THE_ONLY_VALID_QDCOUNT :: u16 where
  "THE_ONLY_VALID_QDCOUNT = 1"

text \<open>
  \<^verbatim>\<open>std::ranges::equal\<close> on the labels of a decoded name and the labels of the requested one:
  it stops at the first difference, so later labels are not read. The labels are read from
  \<^term>\<open>mem\<close>, the buffer in which the response lies.
\<close>

primrec labels_equal :: "span \<Rightarrow> DomainName \<Rightarrow> nat option \<Rightarrow> octets list \<Rightarrow> bool option" where
  "labels_equal mem name it [] = Some (it = None)"
| "labels_equal mem name it (l # ls) =
     (if it = None then Some False
      else do {
        label \<leftarrow> labels_deref mem it;
        if label = l
        then do { it \<leftarrow> labels_next mem name it; labels_equal mem name it ls }
        else Some False
      })"

definition same_name :: "span \<Rightarrow> DomainName \<Rightarrow> octets list \<Rightarrow> bool option" where
  "same_name mem name ls = Option.bind (labels_begin mem name) (\<lambda>it. labels_equal mem name it ls)"

definition validate_response ::
  "span \<Rightarrow> Header \<Rightarrow> Question \<Rightarrow> ResponseDecoder \<Rightarrow> ((unit, ResolveError) result \<times> ResponseDecoder) option" where
  "validate_response mem header question d =
     (let rcode = get_rcode (hdr_flags header) in
      if rcode \<noteq> ServerResponseCode_value NOERROR then Some (Failure (Server_Error rcode), d)
      else if \<not> is_response (hdr_flags header) then Some (Failure (Code_Error GOT_REQUEST_INSTEAD), d)
      else if truncated (hdr_flags header) then Some (Failure (Code_Error QUESTION_TRUNCATED), d)
      else if hdr_qdcount header \<noteq> THE_ONLY_VALID_QDCOUNT then Some (Failure (Code_Error INVALID_QDCOUNT), d)
      else Option.bind (consume_question_entry d) (\<lambda>(r, d). case r of
        Nothing \<Rightarrow> None
      | Failure e \<Rightarrow> Some (Failure (Decode_Error e), d)
      | Ok entry \<Rightarrow> do {
          same \<leftarrow> same_name mem (dq_name entry) (split_into_labels (q_name question));
          Some (if \<not> same \<or> dq_qclass entry \<noteq> q_qclass question \<or> dq_qtype entry \<noteq> q_qtype question
                then Failure (Code_Error QUESTION_VALUE_MISMATCH) else Ok (), d)
        }))"

section \<open>Collecting the answers\<close>

text \<open>The template parameter \<^verbatim>\<open>IP\<close>: which resource data becomes an address of the request.\<close>

definition pick_ipv4 :: "RData \<Rightarrow> Ipv4Addr option" where
  "pick_ipv4 rdata = (case rdata of RDataIpv4 a \<Rightarrow> Some a | _ \<Rightarrow> None)"

definition pick_ipv6 :: "RData \<Rightarrow> Ipv6Addr option" where
  "pick_ipv6 rdata = (case rdata of RDataIpv6 a \<Rightarrow> Some a | _ \<Rightarrow> None)"

definition expiry :: "int \<Rightarrow> u32 \<Rightarrow> int" where
  "expiry send_time ttl = send_time + 10 ^ 9 * uint ttl"

primrec consume_rrs :: "bool \<Rightarrow> nat \<Rightarrow> ResponseDecoder \<Rightarrow> ((unit, ResponseDecodeError) result \<times> ResponseDecoder) option" where
  "consume_rrs little 0 d = Some (Ok (), d)"
| "consume_rrs little (Suc n) d =
     Option.bind (consume_resource_record little d) (\<lambda>(r, d). case r of
       Nothing \<Rightarrow> None
     | Failure e \<Rightarrow> Some (Failure e, d)
     | Ok _ \<Rightarrow> consume_rrs little n d)"

definition void_consume_ns_ar_rrs ::
  "bool \<Rightarrow> Header \<Rightarrow> ResponseDecoder \<Rightarrow> ((unit, ResponseDecodeError) result \<times> ResponseDecoder) option" where
  "void_consume_ns_ar_rrs little header d =
     Option.bind (consume_rrs little (unat (hdr_nscount header)) d) (\<lambda>(r, d). case r of
       Ok _ \<Rightarrow> consume_rrs little (unat (hdr_arcount header)) d
     | _ \<Rightarrow> Some (r, d))"

text \<open>
  The loop over the answers: how many are left, the size of what is left of \<^verbatim>\<open>out\<close> and the
  addresses written to it so far. An error keeps what has been written.
\<close>

primrec answers_loop ::
  "bool \<Rightarrow> (RData \<Rightarrow> 'ip option) \<Rightarrow> int \<Rightarrow> nat \<Rightarrow> nat \<Rightarrow> 'ip ResolvedAddress list \<Rightarrow> ResponseDecoder \<Rightarrow>
   ((unit, ResponseDecodeError) result \<times> 'ip ResolvedAddress list \<times> ResponseDecoder) option" where
  "answers_loop little pick send_time 0 space out d = Some (Ok (), out, d)"
| "answers_loop little pick send_time (Suc n) space out d =
     Option.bind (consume_resource_record little d) (\<lambda>(r, d). case r of
       Nothing \<Rightarrow> None
     | Failure e \<Rightarrow> Some (Failure e, out, d)
     | Ok rr \<Rightarrow>
         if space = 0 then answers_loop little pick send_time n space out d
         else (case pick (rr_rdata rr) of
             None \<Rightarrow> answers_loop little pick send_time n space out d
           | Some a \<Rightarrow> answers_loop little pick send_time n (space - 1)
                        (out @ [\<lparr>address = a, expires_at = expiry send_time (rr_ttl rr)\<rparr>]) d))"

definition process_server_answer_impl ::
  "bool \<Rightarrow> (RData \<Rightarrow> 'ip option) \<Rightarrow> span \<Rightarrow> Header \<Rightarrow> Question \<Rightarrow> int \<Rightarrow> nat \<Rightarrow> ResponseDecoder \<Rightarrow>
   ((nat, RequestError) result \<times> 'ip ResolvedAddress list) option" where
  "process_server_answer_impl little pick mem header question send_time space d =
     Option.bind (validate_response mem header question d) (\<lambda>(r, d). case r of
       Nothing \<Rightarrow> None
     | Failure e \<Rightarrow> Some (Failure (Resolve_Failure e), [])
     | Ok _ \<Rightarrow>
         Option.bind (answers_loop little pick send_time (unat (hdr_ancount header)) space [] d) (\<lambda>(r, out, d). case r of
           Nothing \<Rightarrow> None
         | Failure e \<Rightarrow> Some (Failure (Resolve_Failure (Decode_Error e)), out)
         | Ok _ \<Rightarrow>
             Option.bind (void_consume_ns_ar_rrs little header d) (\<lambda>(r, d). case r of
               Nothing \<Rightarrow> None
             | Failure e \<Rightarrow> Some (Failure (Resolve_Failure (Decode_Error e)), out)
             | Ok _ \<Rightarrow> Some (Ok (length out), out))))"

section \<open>Requests\<close>

text \<open>
  The buffer of a request: its size, and the addresses written to it. The two alternatives are
  the two instances of the class template \<^verbatim>\<open>PendingRequest\<close>.
\<close>

datatype out_span =
    Out_Ipv4 nat "Ipv4Addr ResolvedAddress list"
  | Out_Ipv6 nat "Ipv6Addr ResolvedAddress list"

record PendingRequest =
  req_result :: "(nat, RequestError) result"
  req_send_time :: int
  req_question :: Question
  req_out :: out_span

text \<open>
  Pending requests in the order of the multiset, and the requests handed to the reactor.
\<close>

record CachelessResolver =
  m_rand_gen :: ChaCha20RandomGenerator
  m_pending_requests :: "PendingRequest list"
  m_scheduled_requests :: "PendingRequest list"

definition CachelessResolver_make :: "bool \<Rightarrow> u32 list \<Rightarrow> u8 list \<Rightarrow> CachelessResolver" where
  "CachelessResolver_make little garbage rand_seed =
     \<lparr>m_rand_gen = ChaCha20_make little garbage rand_seed (0, 0, 0) 0,
      m_pending_requests = [], m_scheduled_requests = []\<rparr>"

abbreviation req_id :: "PendingRequest \<Rightarrow> u16" where
  "req_id p \<equiv> q_id (req_question p)"

definition process_server_answer ::
  "bool \<Rightarrow> span \<Rightarrow> Header \<Rightarrow> ResponseDecoder \<Rightarrow> PendingRequest \<Rightarrow> PendingRequest option" where
  "process_server_answer little mem header d p =
     (case req_out p of
        Out_Ipv4 n _ \<Rightarrow>
          map_option (\<lambda>(r, out). p\<lparr>req_result := r, req_out := Out_Ipv4 n out\<rparr>)
            (process_server_answer_impl little pick_ipv4 mem header (req_question p) (req_send_time p) n d)
      | Out_Ipv6 n _ \<Rightarrow>
          map_option (\<lambda>(r, out). p\<lparr>req_result := r, req_out := Out_Ipv6 n out\<rparr>)
            (process_server_answer_impl little pick_ipv6 mem header (req_question p) (req_send_time p) n d))"

definition request_ready :: "PendingRequest \<Rightarrow> bool" where
  "request_ready p \<longleftrightarrow> \<not> is_nothing (req_result p)"

text \<open>
  The multiset of pending requests, ordered by identifier: \<^verbatim>\<open>find\<close> gives the first element with
  the identifier, \<^verbatim>\<open>insert\<close> puts a new one behind its equals.
\<close>

definition find_request :: "u16 \<Rightarrow> PendingRequest list \<Rightarrow> nat" where
  "find_request i ps = length (takeWhile (\<lambda>p. req_id p \<noteq> i) ps)"

definition insert_request :: "PendingRequest \<Rightarrow> PendingRequest list \<Rightarrow> PendingRequest list" where
  "insert_request p ps =
     takeWhile (\<lambda>q. req_id q \<le> req_id p) ps @ p # dropWhile (\<lambda>q. req_id q \<le> req_id p) ps"

text \<open>The loop of \<^verbatim>\<open>process_request\<close> that is to avoid collisions of identifiers.\<close>

partial_function (option) skip_collisions :: "u16 \<Rightarrow> PendingRequest list \<Rightarrow> nat \<Rightarrow> nat option" where
  "skip_collisions i ps it =
     (if it < length ps \<and> i = req_id (ps ! it)
      then (if i = 0xFFFF then skip_collisions i ps 0 else skip_collisions i ps (it + 1))
      else Some it)"

text \<open>
  \<^verbatim>\<open>process_request\<close> until it waits for the answer: the octets to send, or the error of the
  encoder, which destroys the request and with it unlinks it.
\<close>

definition process_request ::
  "bool \<Rightarrow> (octets \<Rightarrow> u64) \<Rightarrow> (nat \<Rightarrow> bool) \<Rightarrow> PendingRequest \<Rightarrow> CachelessResolver \<Rightarrow>
   ((octets, RequestError) result \<times> CachelessResolver) option" where
  "process_request little hash grow request res = do {
     (bs, gen) \<leftarrow> generate_bytes little 2 (m_rand_gen res);
     let request = request\<lparr>req_question := (req_question request)\<lparr>q_id := of_mem_bytes little bs\<rparr>\<rparr>;
     let res = res\<lparr>m_rand_gen := gen\<rparr>;
     _ \<leftarrow> skip_collisions (req_id request) (m_pending_requests res)
            (find_request (req_id request) (m_pending_requests res));
     encoded \<leftarrow> encode_question hash grow (req_question request);
     case encoded of
       Nothing \<Rightarrow> None
     | Failure e \<Rightarrow> Some (Failure (Resolve_Failure (Encode_Error e)), res)
     | Ok msg \<Rightarrow> Some (Ok msg, res\<lparr>m_pending_requests := insert_request request (m_pending_requests res)\<rparr>)
   }"

definition formulate_and_process_request ::
  "bool \<Rightarrow> (octets \<Rightarrow> u64) \<Rightarrow> (nat \<Rightarrow> bool) \<Rightarrow> SockaddrStorage list \<Rightarrow> octets \<Rightarrow> out_span \<Rightarrow> CachelessResolver \<Rightarrow>
   ((octets, RequestError) result \<times> CachelessResolver) option" where
  "formulate_and_process_request little hash grow dns_server_addrs ascii_name out res =
     (if length (m_pending_requests res) = 0xFFFF
      then Some (Failure (Resolve_Failure (Code_Error TOO_MANY_PARALLEL_REQUESTS)), res)
      else if dns_server_addrs = [] then Some (Failure (Resolve_Failure (Code_Error NO_SERVERS_PROVIDED)), res)
      else process_request little hash grow
        \<lparr>req_result = Nothing, req_send_time = 0,
         req_question =
           \<lparr>q_id = 0, q_opcode = QueryOpcode_value OP_STANDARD, q_recursion_desired = True, q_name = ascii_name,
            q_qtype = QueryType_value (case out of Out_Ipv6 _ _ \<Rightarrow> QT_AAAA | Out_Ipv4 _ _ \<Rightarrow> QT_A),
            q_qclass = QueryClass_value QC_IN\<rparr>,
         req_out = out\<rparr> res)"

section \<open>Datagrams\<close>

text \<open>
  One iteration of \<^verbatim>\<open>receive_server_answers\<close> after the system call: \<^term>\<open>mem\<close> is the buffer of
  512 octets, \<^term>\<open>response_size\<close> the number returned.
\<close>

definition receive_datagram ::
  "bool \<Rightarrow> span \<Rightarrow> nat \<Rightarrow> CachelessResolver \<Rightarrow> CachelessResolver option" where
  "receive_datagram little mem response_size res =
     (let response_size = min response_size (span_size mem);
          decoder = ResponseDecoder_make (Span (span_data mem) (take response_size (span_bytes mem)))
      in case consume_header decoder of
           (Ok header, decoder) \<Rightarrow>
             (let ps = m_pending_requests res; it = find_request (hdr_id header) ps in
              if it = length ps then Some res
              else map_option (\<lambda>p. res\<lparr>m_pending_requests := take it ps @ drop (it + 1) ps,
                                      m_scheduled_requests := m_scheduled_requests res @ [p]\<rparr>)
                     (process_server_answer little mem header decoder (ps ! it)))
         | _ \<Rightarrow> Some res)"

text \<open>The branch of \<^verbatim>\<open>periodic_background_send\<close> for a failed system call.\<close>

definition send_failed :: "RequestError \<Rightarrow> nat \<Rightarrow> CachelessResolver \<Rightarrow> CachelessResolver" where
  "send_failed e it res =
     (let ps = m_pending_requests res in
      res\<lparr>m_pending_requests := take it ps @ drop (it + 1) ps,
          m_scheduled_requests := m_scheduled_requests res @ [(ps ! it)\<lparr>req_result := Failure e\<rparr>]\<rparr>)"

end
