(* ===== verification/Corosig_Dns_Names.thy ===== *)
theory Corosig_Dns_Names
  imports Corosig_Dns_Decode
begin

text \<open>
  What it means for a message to hold a domain name at a position (RFC 1035, 4.1.4), and that
  \<^verbatim>\<open>parse_domain_name\<close> recognises exactly this for names of at most 255 octets.
\<close>

section \<open>The abstract name\<close>

text \<open>
  \<^term>\<open>name_at m pos labels n h\<close>: at \<^term>\<open>pos\<close> the message \<^term>\<open>m\<close> holds the name
  \<^term>\<open>labels\<close>; \<^term>\<open>n\<close> octets of it lie at \<^term>\<open>pos\<close> itself, up to the root label or the
  first pointer, and \<^term>\<open>h\<close> pointers have to be followed before the first label.
\<close>

inductive name_at :: "octets \<Rightarrow> nat \<Rightarrow> octets list \<Rightarrow> nat \<Rightarrow> nat \<Rightarrow> bool" for m where
  root: "pos < length m \<Longrightarrow> m ! pos = 0 \<Longrightarrow> name_at m pos [] 1 0"
| label: "pos < length m \<Longrightarrow> 0 < len \<Longrightarrow> len \<le> 63 \<Longrightarrow> unat (m ! pos) = len \<Longrightarrow> pos + 1 + len \<le> length m \<Longrightarrow>
    name_at m (pos + 1 + len) labels n h \<Longrightarrow>
    name_at m pos (take len (drop (pos + 1) m) # labels) (1 + len + n) 0"
| ptr: "decode_compression_ptr (drop pos m) = Some offset \<Longrightarrow> unat offset < length m \<Longrightarrow>
    name_at m (unat offset) labels n h \<Longrightarrow> name_at m pos labels 2 (Suc h)"

inductive_cases name_atE: "name_at m pos labels n h"

definition name_len :: "octets list \<Rightarrow> nat" where
  "name_len labels = sum_list (map (\<lambda>l. length l + 1) labels) + 1"

lemma name_len_simps [simp]:
  "name_len [] = 1" "name_len (l # ls) = length l + 1 + name_len ls"
  by (simp_all add: name_len_def)

lemma name_len_pos [simp]: "0 < name_len ls"
  by (simp add: name_len_def)

section \<open>Pointers and labels\<close>

lemma small_no_high_bit: "(b :: u8) \<le> 63 \<Longrightarrow> \<not> bit b 7"
proof
  assume "b \<le> 63" and "bit b 7"
  then have "bit (unat b) 7"
    by (simp add: bit_unsigned_iff)
  then have "odd (unat b div 2 ^ 7)"
    by (simp add: bit_iff_odd)
  moreover have "unat b div 2 ^ 7 = 0"
    using \<open>b \<le> 63\<close> by (simp add: word_le_nat_alt)
  ultimately show False
    by simp
qed

lemma decode_ptr_small:
  assumes "b \<le> 63"
  shows "decode_compression_ptr (b # bs) = None"
proof (cases bs)
  case (Cons c cs)
  have "\<not> bit (read_ntoh [b, c] AND MARKER_BITS) 15"
    using small_no_high_bit[OF assms]
    by (auto simp: read_ntoh_def bit_simps MARKER_BITS_def dest: bit_imp_le_length)
  moreover have "bit MARKER_BITS 15"
    by (simp add: MARKER_BITS_def)
  ultimately have "read_ntoh [b, c] AND MARKER_BITS \<noteq> MARKER_BITS"
    by metis
  then show ?thesis
    by (simp add: decode_compression_ptr_def Cons)
qed (simp add: decode_compression_ptr_def)

lemma decode_ptr_not_marker: "decode_compression_ptr bs = Some off \<Longrightarrow> off \<noteq> - 1"
proof
  assume "decode_compression_ptr bs = Some off" "off = - 1"
  moreover have "\<not> bit (x AND NOT MARKER_BITS :: u16) 15" for x
    by (simp add: bit_simps MARKER_BITS_def)
  moreover have "bit (- 1 :: u16) 15"
    by simp
  ultimately show False
    unfolding decode_compression_ptr_def Let_def by (metis option.distinct(1) option.inject)
qed

lemma decode_ptr_length: "decode_compression_ptr bs = Some off \<Longrightarrow> 2 \<le> length bs"
  by (auto simp: decode_compression_ptr_def split: if_splits)

text \<open>The part of the message from a position on, as the decoder holds it.\<close>

definition at :: "span \<Rightarrow> nat \<Rightarrow> span" where
  "at s pos = Span (span_data s + pos) (drop pos (span_bytes s))"

lemma at_simps [simp]:
  "span_bytes (at s pos) = drop pos (span_bytes s)" "span_data (at s pos) = span_data s + pos"
  "span_size (at s pos) = span_size s - pos" "at (at s pos) k = at s (pos + k)"
  by (simp_all add: at_def span_size_def add.commute add.assoc)

lemma subspan_at: "k \<le> span_size s \<Longrightarrow> subspan k s = Some (at s k)"
  by (simp add: subspan_def at_def)

lemma decode_label_at:
  assumes "pos < span_size s"
  shows "decode_label (at s pos) =
    (let len = unat (span_bytes s ! pos) in
     if 63 < len then Failure LABEL_LEN_TOO_BIG
     else if span_size s - pos < len + 1 then Failure LABEL_LEN_OOB
     else Ok (Span (span_data s + pos + 1) (take len (drop (pos + 1) (span_bytes s)))))"
proof -
  let ?b = "span_bytes s ! pos"
  have d: "drop pos (span_bytes s) = ?b # drop (Suc pos) (span_bytes s)"
    using assms by (simp add: Cons_nth_drop_Suc span_size_def)
  have "unat (?b + 1) = unat ?b + 1" if "unat ?b \<le> 63"
    using that by (simp add: unat_word_ariths)
  then show ?thesis
    using d by (auto simp: decode_label_def Let_def word_less_nat_alt not_less span_size_def)
qed

lemma name_at_in_message: "name_at m pos ls n h \<Longrightarrow> pos < length m"
  by (induction rule: name_at.induct) (auto dest: decode_ptr_length)

text \<open>A message holds at most one name at a position.\<close>

lemma label_no_ptr:
  assumes "pos < length m" and "unat (m ! pos) \<le> 63"
  shows "decode_compression_ptr (drop pos m) = None"
  using assms decode_ptr_small[of "m ! pos" "drop (Suc pos) m"]
  by (simp add: word_le_nat_alt Cons_nth_drop_Suc)

lemma name_at_unique:
  assumes "name_at m pos ls n h" and "name_at m pos ls' n' h'"
  shows "ls' = ls \<and> n' = n \<and> h' = h"
  using assms
proof (induction arbitrary: ls' n' h' rule: name_at.induct)
  case (root pos)
  show ?case
    using root.prems root.hyps label_no_ptr[of pos m] by (cases rule: name_atE) auto
next
  case (label pos len labels n h)
  show ?case
    using label.prems label.hyps(1-5) label_no_ptr[of pos m]
    by (cases rule: name_atE) (use label.IH in auto)
next
  case (ptr pos offset labels n h)
  have "pos < length m"
    using decode_ptr_length[OF ptr.hyps(1)] by simp
  then have "\<not> unat (m ! pos) \<le> 63"
    using ptr.hyps(1) label_no_ptr by fastforce
  then show ?case
    using ptr.prems ptr.hyps(1) by (cases rule: name_atE) (use ptr.IH in auto)
qed

section \<open>Completeness: every name of at most 255 octets is recognised\<close>

lemma name_at_hops: "name_at m pos ls n h \<Longrightarrow> h \<noteq> 0 \<Longrightarrow> word_of_nat n = (2 :: u8)"
  by (erule name_atE) auto

lemma follow_ptrs_complete:
  assumes "name_at (span_bytes s) pos ls n h" and "span_size s < 2 ^ 64"
    and "first = - 1 \<or> (\<exists>ls' n' hf. name_at (span_bytes s) (unat first) ls' n' hf \<and> h \<le> hf)"
  shows "\<exists>pos' n'. follow_ptrs s first fp btc (at s pos) =
             Some (Ok (at s pos', fp \<and> h = 0, if fp \<and> h \<noteq> 0 then btc + 2 else btc)) \<and>
           name_at (span_bytes s) pos' ls n' 0 \<and> (h = 0 \<longrightarrow> pos' = pos \<and> n' = n)"
  using assms
proof (induction arbitrary: first fp btc rule: name_at.induct)
  case (root pos)
  then show ?case
    using label_no_ptr[of pos "span_bytes s"]
    by - (rule exI[of _ pos], rule exI[of _ 1], auto simp: follow_ptrs.simps[of s first] intro: name_at.root[unfolded One_nat_def])
next
  case (label pos len labels n h)
  then show ?case
    using label_no_ptr[of pos "span_bytes s"] name_at.label[OF label.hyps(1-6)]
    by - (rule exI[of _ pos], rule exI[of _ "1 + len + n"], auto simp: follow_ptrs.simps[of s first])
next
  case (ptr pos offset labels n h)
  have ne: "offset \<noteq> first"
    using ptr.prems(2) decode_ptr_not_marker[OF ptr.hyps(1)] name_at_unique[OF ptr.hyps(3)] by force
  have "\<not> unat offset > size_sub (span_size s) 1"
    using ptr.hyps(2) ptr.prems(1) by (simp add: size_sub_id span_size_def)
  then have step: "follow_ptrs s first fp btc (at s pos) =
      (if fp then follow_ptrs s offset False (btc + 2) (at s (unat offset))
       else follow_ptrs s first fp btc (at s (unat offset)))"
    using ptr.hyps(1,2) ne by (subst follow_ptrs.simps) (simp add: subspan_at span_size_def)
  show ?case
  proof (cases fp)
    case True
    then show ?thesis
      using ptr.IH[OF ptr.prems(1), of offset False "btc + 2"] ptr.hyps(3) step by auto
  next
    case False
    have "first = - 1 \<or> (\<exists>ls' n' hf. name_at (span_bytes s) (unat first) ls' n' hf \<and> h \<le> hf)"
      using ptr.prems(2) by (auto intro: Suc_leD)
    then show ?thesis
      using ptr.IH[OF ptr.prems(1), of first False btc] False step by auto
  qed
qed

definition name_result :: "span \<Rightarrow> nat \<Rightarrow> DomainName" where
  "name_result s start = \<lparr>m_original_message_start = span_data s, m_self_start = start\<rparr>"

lemma parse_name_loop_complete:
  assumes "name_at (span_bytes s) pos ls n h" and "span_size s < 2 ^ 64" and "len + name_len ls \<le> 255"
  shows "parse_name_loop s start fp btc len (at s pos) =
           Some (Ok (if fp then btc + word_of_nat n else btc, name_result s start))"
  using assms
proof (induction ls arbitrary: pos n h fp btc len)
  case Nil
  obtain pos' n' where f: "follow_ptrs s (- 1) fp btc (at s pos) =
        Some (Ok (at s pos', fp \<and> h = 0, if fp \<and> h \<noteq> 0 then btc + 2 else btc))"
      "name_at (span_bytes s) pos' [] n' 0" "h = 0 \<longrightarrow> pos' = pos \<and> n' = n"
    using follow_ptrs_complete[OF Nil.prems(1,2), of "- 1" fp btc] by auto
  have r: "pos' < span_size s" "span_bytes s ! pos' = 0" "n' = 1"
    using f(2) by (auto elim: name_atE simp: span_size_def)
  then show ?case
    using f name_at_hops[OF Nil.prems(1)] Nil.prems(3) name_at_in_message[OF Nil.prems(1)]
    by (auto simp: parse_name_loop.simps[of s start] decode_label_at name_result_def
        FQDN_MAX_OCTET_LEN_def span_size_def)
next
  case (Cons l ls)
  obtain pos' n' where f: "follow_ptrs s (- 1) fp btc (at s pos) =
        Some (Ok (at s pos', fp \<and> h = 0, if fp \<and> h \<noteq> 0 then btc + 2 else btc))"
      "name_at (span_bytes s) pos' (l # ls) n' 0" "h = 0 \<longrightarrow> pos' = pos \<and> n' = n"
    using follow_ptrs_complete[OF Cons.prems(1,2), of "- 1" fp btc] by auto
  obtain k n'' h'' where k: "pos' < span_size s" "0 < k" "k \<le> 63" "unat (span_bytes s ! pos') = k"
      "pos' + 1 + k \<le> span_size s" "l = take k (drop (pos' + 1) (span_bytes s))" "n' = 1 + k + n''"
      "name_at (span_bytes s) (pos' + 1 + k) ls n'' h''"
    using f(2) by (cases rule: name_atE) (auto simp: span_size_def)
  have l: "length l = k" "l \<noteq> []"
    using k(2,5,6) by (auto simp: span_size_def)
  have w: "unat (word_of_nat k + 1 :: u8) = k + 1"
    using k(3) by (simp add: unat_word_ariths unat_of_nat take_bit_eq_mod)
  have fits: "\<not> span_size s - pos' < Suc k"
    using k(5) by simp
  let ?fp = "fp \<and> h = 0" and ?btc = "if fp \<and> h \<noteq> 0 then btc + 2 else btc"
  have "parse_name_loop s start fp btc len (at s pos) =
      parse_name_loop s start ?fp (if ?fp then ?btc + (word_of_nat k + 1) else ?btc) (len + (k + 1))
        (at s (pos' + 1 + k))"
    using f(1) k l w fits Cons.prems name_at_in_message[OF Cons.prems(1)]
    by (subst parse_name_loop.simps) (simp add: decode_label_at subspan_at Let_def FQDN_MAX_OCTET_LEN_def
        span_size_def[of "Span _ _"] add.assoc add.commute flip: k(6))
  also have "\<dots> = Some (Ok (if ?fp then ?btc + (word_of_nat k + 1) + word_of_nat n'' else ?btc, name_result s start))"
    using Cons.IH[OF k(8) Cons.prems(2), of "len + (k + 1)" ?fp "if ?fp then ?btc + (word_of_nat k + 1) else ?btc"]
      Cons.prems(3) l(1) by simp
  finally have *: "parse_name_loop s start fp btc len (at s pos) =
      Some (Ok (if ?fp then ?btc + (word_of_nat k + 1) + word_of_nat n'' else ?btc, name_result s start))" .
  show ?case
  proof (cases "h = 0")
    case True
    then have "word_of_nat n = (1 + word_of_nat k + word_of_nat n'' :: u8)"
      using f(3) k(7) by auto
    then show ?thesis
      using * True by (simp add: add_ac)
  qed (use * name_at_hops[OF Cons.prems(1)] in auto)
qed

section \<open>Soundness: what is accepted is a name\<close>

lemmas follow_ptrs_induct = follow_ptrs.raw_induct [rotated 1, consumes 1, case_names step]
lemmas parse_name_loop_induct = parse_name_loop.raw_induct [rotated 1, consumes 1, case_names step]

lemma follow_ptrs_sound:
  assumes "follow_ptrs s first fp btc p = Some r"
  shows "\<forall>pos p' fp' btc'. p = at s pos \<longrightarrow> r = Ok (p', fp', btc') \<longrightarrow>
           (\<exists>pos'. p' = at s pos' \<and> decode_compression_ptr (drop pos' (span_bytes s)) = None \<and>
             (\<forall>ls n h. name_at (span_bytes s) pos' ls n h \<longrightarrow> (\<exists>n h. name_at (span_bytes s) pos ls n h)))"
  using assms
proof (induction rule: follow_ptrs_induct)
  case (step rec s first fp btc p r)
  show ?case
  proof (cases "decode_compression_ptr (span_bytes p)")
    case None
    then show ?thesis
      using step(2) by auto
  next
    case (Some offset)
    show ?thesis
    proof (intro allI impI)
      fix pos p' fp' btc'
      assume p: "p = at s pos" and r: "r = Ok (p', fp', btc')"
      let ?first = "if fp then offset else first" and ?btc = "if fp then btc + 2 else btc"
      have o: "unat offset \<le> size_sub (span_size s) 1" "unat offset \<le> span_size s"
        and rec: "rec s ?first False ?btc (at s (unat offset)) = Some r"
        using step(2) Some r by (auto simp: subspan_def at_def split: if_splits)
      obtain pos' where *: "p' = at s pos'" "decode_compression_ptr (drop pos' (span_bytes s)) = None"
          "\<And>ls n h. name_at (span_bytes s) pos' ls n h \<Longrightarrow> \<exists>n h. name_at (span_bytes s) (unat offset) ls n h"
        using step(1)[OF rec] r by blast
      have "\<exists>n h. name_at (span_bytes s) pos ls n h" if "name_at (span_bytes s) pos' ls n h" for ls n h
        using *(3)[OF that] name_at_in_message name_at.ptr[of pos "span_bytes s" offset ls] Some p
        by (metis at_simps(1))
      then show "\<exists>pos'. p' = at s pos' \<and> decode_compression_ptr (drop pos' (span_bytes s)) = None \<and>
             (\<forall>ls n h. name_at (span_bytes s) pos' ls n h \<longrightarrow> (\<exists>n h. name_at (span_bytes s) pos ls n h))"
        using * by blast
    qed
  qed
qed

lemma parse_name_loop_sound:
  assumes "parse_name_loop s start fp btc len p = Some r"
  shows "\<forall>pos btc' nm. p = at s pos \<longrightarrow> r = Ok (btc', nm) \<longrightarrow>
           (\<exists>ls n h. name_at (span_bytes s) pos ls n h \<and> len + name_len ls \<le> 255)"
  using assms
proof (induction rule: parse_name_loop_induct)
  case (step rec s start fp btc len p r)
  show ?case
  proof (intro allI impI)
    fix pos btc' nm
    assume p: "p = at s pos" and r: "r = Ok (btc', nm)"
    obtain p' fp' btc'' where f: "follow_ptrs s (- 1) fp btc p = Some (Ok (p', fp', btc''))"
      using step(2) r by (auto split: bind_splits result.splits if_splits)
    then obtain pos' where pos': "p' = at s pos'" "decode_compression_ptr (drop pos' (span_bytes s)) = None"
        "\<And>ls n h. name_at (span_bytes s) pos' ls n h \<Longrightarrow> \<exists>n h. name_at (span_bytes s) pos ls n h"
      using follow_ptrs_sound[OF f] p by blast
    obtain l where l: "decode_label (at s pos') = Ok l"
      using step(2) r f pos'(1) by (auto split: bind_splits result.splits if_splits)
    have in_msg: "pos' < span_size s"
      using l by (auto simp: decode_label_def span_size_def split: if_splits)
    define k where "k = unat (span_bytes s ! pos')"
    have k: "k \<le> 63" "pos' + 1 + k \<le> span_size s" "span_bytes l = take k (drop (pos' + 1) (span_bytes s))"
      using l in_msg by (auto simp: decode_label_at k_def[symmetric] Let_def split: if_splits)
    have sz: "span_size l = k"
      using k by (simp add: span_size_def)
    have w: "unat (word_of_nat k + 1 :: u8) = k + 1"
      using k(1) by (simp add: unat_word_ariths unat_of_nat take_bit_eq_mod)
    have len: "len + (k + 1) \<le> 255"
      using step(2) r f pos'(1) l sz w by (auto simp: FQDN_MAX_OCTET_LEN_def Let_def split: if_splits)
    have "\<exists>ls n h. name_at (span_bytes s) pos' ls n h \<and> len + name_len ls \<le> 255"
    proof (cases "k = 0")
      case True
      then show ?thesis
        using name_at.root[of pos' "span_bytes s"] in_msg k_def len
        by (intro exI[of _ "[]"]) (auto simp: span_size_def unat_eq_0)
    next
      case False
      then have "span_bytes l \<noteq> []"
        using sz by (auto simp: span_size_def)
      moreover have sub: "subspan (Suc k) (at s pos') = Some (at s (pos' + Suc k))"
        using subspan_at[of "Suc k" "at s pos'"] k(2) by simp
      ultimately have "rec s start fp' (if fp' then btc'' + (word_of_nat k + 1) else btc'') (len + (k + 1))
          (at s (pos' + (k + 1))) = Some r"
        using step(2) f pos'(1) l sz w len r sub
        by (simp add: Let_def FQDN_MAX_OCTET_LEN_def split: if_split_asm)
      from step(1)[OF this] r obtain ls n h where
        tail: "name_at (span_bytes s) (pos' + 1 + k) ls n h" "len + (k + 1) + name_len ls \<le> 255"
        by (auto simp: add_ac)
      have "name_at (span_bytes s) pos' (span_bytes l # ls) (1 + k + n) 0"
        unfolding k(3) using tail(1) in_msg k(1,2) False k_def
        by (intro name_at.label) (simp_all add: span_size_def)
      then show ?thesis
        using tail(2) sz by (intro exI[of _ "span_bytes l # ls"]) (auto simp: span_size_def)
    qed
    then show "\<exists>ls n h. name_at (span_bytes s) pos ls n h \<and> len + name_len ls \<le> 255"
      using pos'(3) by blast
  qed
qed

section \<open>Termination when the pointers point backwards\<close>

text \<open>
  Names inside of resource record data are read from a window that ends before the message
  does; after the first pointer the window is the rest of the message.
\<close>

definition window :: "span \<Rightarrow> nat \<Rightarrow> nat \<Rightarrow> span" where
  "window s p e = Span (span_data s + p) (take (e - p) (drop p (span_bytes s)))"

lemma window_simps [simp]:
  "span_bytes (window s p e) = take (e - p) (drop p (span_bytes s))" "span_data (window s p e) = span_data s + p"
  by (simp_all add: window_def)

lemma window_size: "e \<le> span_size s \<Longrightarrow> span_size (window s p e) = e - p"
  by (auto simp: window_def span_size_def min_def)

lemma at_window: "at s p = window s p (span_size s)"
  by (simp add: at_def window_def span_size_def)

lemma window_nth: "p < e \<Longrightarrow> e \<le> span_size s \<Longrightarrow> span_bytes (window s p e) = span_bytes s ! p # take (e - Suc p) (drop (Suc p) (span_bytes s))"
  by (simp add: span_size_def take_Cons' Cons_nth_drop_Suc[symmetric])

lemma subspan_window:
  assumes "p + k \<le> e" and "e \<le> span_size s"
  shows "subspan k (window s p e) = Some (window s (p + k) e)"
proof -
  have "e - p - k = e - (p + k)"
    by simp
  then show ?thesis
    using assms window_size[OF assms(2), of p]
    by (simp add: subspan_def, simp add: window_def drop_take add.commute add.assoc)
qed

lemma subspan_window_Some:
  assumes "subspan k (window s p e) = Some r" and "e \<le> span_size s" and "p \<le> e"
  shows "r = window s (p + k) e \<and> p + k \<le> e"
proof -
  have "k \<le> e - p"
    using assms(1) window_size[OF assms(2), of p] by (simp add: subspan_def split: if_splits)
  then have "p + k \<le> e"
    using assms(3) by simp
  then show ?thesis
    using subspan_window[OF _ assms(2), of p k] assms(1) by simp
qed

lemma decode_ptr_window:
  assumes "decode_compression_ptr (take (e - p) (drop p m)) = Some offset"
  shows "decode_compression_ptr (drop p m) = Some offset" "p + 2 \<le> e"
  using assms by (auto simp: decode_compression_ptr_def min_def split: if_splits)

text \<open>The positions a walk over a name passes.\<close>

inductive passes :: "octets \<Rightarrow> nat \<Rightarrow> nat \<Rightarrow> bool" for m pos where
  here: "passes m pos pos"
| label: "passes m pos p \<Longrightarrow> p < length m \<Longrightarrow> decode_compression_ptr (drop p m) = None \<Longrightarrow>
    0 < unat (m ! p) \<Longrightarrow> passes m pos (p + 1 + unat (m ! p))"
| ptr: "passes m pos p \<Longrightarrow> decode_compression_ptr (drop p m) = Some offset \<Longrightarrow> passes m pos (unat offset)"

definition ptrs_backward :: "octets \<Rightarrow> nat \<Rightarrow> bool" where
  "ptrs_backward m pos \<longleftrightarrow> (\<forall>p offset. passes m pos p \<longrightarrow>
     decode_compression_ptr (drop p m) = Some offset \<longrightarrow> unat offset < p)"

lemma unat_add_le: "unat (x + y :: 'a::len word) \<le> unat x + unat y"
  by (simp add: unat_word_ariths)

text \<open>
  The outcome of the inner loop: an error, or a position at which a label starts, and at most
  the octets left in the window are consumed.
\<close>

definition follow_ptrs_post :: "span \<Rightarrow> nat \<Rightarrow> nat \<Rightarrow> nat \<Rightarrow> bool \<Rightarrow> u8 \<Rightarrow> (span \<times> bool \<times> u8, ResponseDecodeError) result \<Rightarrow> bool" where
  "follow_ptrs_post s pos p e fp btc r = (case r of Nothing \<Rightarrow> False | Failure _ \<Rightarrow> True | Ok (w, fp', btc') \<Rightarrow>
     \<exists>p' e'. w = window s p' e' \<and> e' \<le> span_size s \<and> p' < e' \<and> passes (span_bytes s) pos p' \<and>
       (fp' \<longrightarrow> fp \<and> p' = p \<and> e' = e \<and> btc' = btc) \<and>
       (\<not> fp' \<longrightarrow> unat btc' \<le> unat btc + (if fp then e - p else 0)))"

lemma follow_ptrs_terminates:
  assumes "ptrs_backward (span_bytes s) pos" and "passes (span_bytes s) pos p"
    and "p < e" and "e \<le> span_size s" and "span_size s < 2 ^ 64"
  shows "\<exists>r. follow_ptrs s first fp btc (window s p e) = Some r \<and> follow_ptrs_post s pos p e fp btc r"
  using assms(2,3,4)
proof (induction p arbitrary: first fp btc e rule: less_induct)
  case (less p)
  show ?case
  proof (cases "decode_compression_ptr (span_bytes (window s p e))")
    case None
    then show ?thesis
      using less.prems by (subst follow_ptrs.simps) (auto simp: follow_ptrs_post_def)
  next
    case (Some offset)
    then have d: "decode_compression_ptr (drop p (span_bytes s)) = Some offset" "p + 2 \<le> e"
      using decode_ptr_window[of e p "span_bytes s"] by auto
    have b: "unat offset < p" "passes (span_bytes s) pos (unat offset)"
      using assms(1) less.prems(1) d(1) by (auto simp: ptrs_backward_def intro: passes.ptr)
    have b': "unat offset < span_size s"
      using b(1) less.prems(2,3) by simp
    show ?thesis
    proof (cases fp)
      case True
      obtain r where r: "follow_ptrs s offset False (btc + 2) (window s (unat offset) (span_size s)) = Some r"
          "follow_ptrs_post s pos (unat offset) (span_size s) False (btc + 2) r"
        using less.IH[OF b b' order_refl, of offset False "btc + 2"] by blast
      have "follow_ptrs_post s pos p e True btc r"
        using r(2) d(2) unat_add_le[of btc 2]
        by (fastforce simp: follow_ptrs_post_def split: result.splits)
      then show ?thesis
        using r Some True b' by (subst follow_ptrs.simps) (auto simp: subspan_at at_window follow_ptrs_post_def)
    next
      case False
      obtain r where r: "follow_ptrs s first False btc (window s (unat offset) (span_size s)) = Some r"
          "follow_ptrs_post s pos (unat offset) (span_size s) False btc r"
        using less.IH[OF b b' order_refl, of first False btc] by blast
      have "follow_ptrs_post s pos p e False btc r"
        using r(2) by (fastforce simp: follow_ptrs_post_def split: result.splits)
      then show ?thesis
        using r Some False b' by (subst follow_ptrs.simps) (auto simp: subspan_at at_window follow_ptrs_post_def)
    qed
  qed
qed

lemma decode_label_window:
  assumes "decode_label (window s p e) = Ok l" and "p < e" and "e \<le> span_size s"
  defines "k \<equiv> unat (span_bytes s ! p)"
  shows "k \<le> 63" "p + 1 + k \<le> e" "span_size l = k"
    "decode_compression_ptr (drop p (span_bytes s)) = None"
proof -
  let ?b = "span_bytes s ! p"
  have hd: "hd (span_bytes (window s p e)) = ?b" "span_bytes (window s p e) \<noteq> []"
    "drop 1 (span_bytes (window s p e)) = take (e - Suc p) (drop (Suc p) (span_bytes s))"
    by (subst window_nth[OF assms(2,3)], simp)+
  show k: "k \<le> 63"
    using assms(1) hd by (auto simp: decode_label_def Let_def k_def word_less_nat_alt split: if_splits)
  then have "unat (?b + 1) = k + 1"
    by (simp add: k_def unat_word_ariths)
  then show 2: "p + 1 + k \<le> e" 
    using assms(1-3) hd window_size[OF assms(3), of p] by (auto simp: decode_label_def Let_def split: if_splits)
  have "span_bytes l = take k (take (e - Suc p) (drop (Suc p) (span_bytes s)))"
    using assms(1) hd by (auto simp: decode_label_def Let_def k_def split: if_splits)
  then show "span_size l = k"
    using 2 assms(3) by (simp add: span_size_def)
  show "decode_compression_ptr (drop p (span_bytes s)) = None"
    using label_no_ptr[of p "span_bytes s"] k assms(2,3) by (simp add: k_def span_size_def)
qed

lemma decode_label_not_Nothing: "decode_label w \<noteq> Nothing"
  by (simp add: decode_label_def Let_def)

definition parse_name_post :: "nat \<Rightarrow> nat \<Rightarrow> bool \<Rightarrow> u8 \<Rightarrow> (u8 \<times> DomainName, ResponseDecodeError) result \<Rightarrow> bool" where
  "parse_name_post p e fp btc r =
     (case r of Nothing \<Rightarrow> False | Failure _ \<Rightarrow> True | Ok (n, _) \<Rightarrow> unat n \<le> unat btc + (if fp then e - p else 0))"

lemma parse_name_post_mono:
  assumes "parse_name_post p' e' fp' btc' r"
    and "unat btc' + (if fp' then e' - p' else 0) \<le> unat btc + (if fp then e - p else 0)"
  shows "parse_name_post p e fp btc r"
proof (cases r)
  case (Ok t)
  then show ?thesis
    using assms by (cases t) (simp add: parse_name_post_def)
qed (use assms in \<open>auto simp: parse_name_post_def\<close>)

lemma parse_name_loop_terminates:
  assumes "ptrs_backward (span_bytes s) pos" and "passes (span_bytes s) pos p"
    and "p \<le> e" and "e \<le> span_size s" and "span_size s < 2 ^ 64"
  shows "\<exists>r. parse_name_loop s start fp btc len (window s p e) = Some r \<and> parse_name_post p e fp btc r"
  using assms(2,3,4)
proof (induction "256 - len" arbitrary: len p fp btc e rule: less_induct)
  case less
  show ?case
  proof (cases "p < e")
    case False
    then show ?thesis
      by (simp add: parse_name_loop.simps[of s start] parse_name_post_def)
  next
    case True
    have ne: "span_bytes (window s p e) \<noteq> []"
      using window_nth[OF True less.prems(3)] by simp
    obtain r where f: "follow_ptrs s (- 1) fp btc (window s p e) = Some r" and post: "follow_ptrs_post s pos p e fp btc r"
      using follow_ptrs_terminates[OF assms(1) less.prems(1) True less.prems(3) assms(5), of "- 1" fp btc] by blast
    show ?thesis
    proof (cases r)
      case Nothing
      then show ?thesis
        using post by (simp add: follow_ptrs_post_def)
    next
      case (Failure err)
      then show ?thesis
        using f ne by (simp add: parse_name_loop.simps[of s start] parse_name_post_def)
    next
      case (Ok t)
      obtain p' e' fp' btc' where t: "t = (window s p' e', fp', btc')" and p': "e' \<le> span_size s" "p' < e'"
          "passes (span_bytes s) pos p'" "fp' \<Longrightarrow> fp \<and> p' = p \<and> e' = e \<and> btc' = btc"
          "\<not> fp' \<Longrightarrow> unat btc' \<le> unat btc + (if fp then e - p else 0)"
        using post Ok by (cases t) (auto simp: follow_ptrs_post_def)
      show ?thesis
      proof (cases "decode_label (window s p' e')")
        case (Failure err)
        then show ?thesis
          using f ne Ok t by (simp add: parse_name_loop.simps[of s start] parse_name_post_def)
      next
        case l: (Ok l)
        define k where "k = unat (span_bytes s ! p')"
        note k = decode_label_window[OF l p'(2,1), folded k_def]
        have w: "unat (word_of_nat k + 1 :: u8) = Suc k"
          using k(1) by (simp add: unat_word_ariths unat_of_nat take_bit_eq_mod)
        define btc'' where "btc'' = (if fp' then btc' + (word_of_nat k + 1) else btc')"
        have le: "unat btc'' + (if fp' then e' - (p' + Suc k) else 0) \<le> unat btc + (if fp then e - p else 0)"
          using p'(4,5) k(2) w unat_add_le[of btc' "word_of_nat k + 1"] by (auto simp: btc''_def)
        have step: "parse_name_loop s start fp btc len (window s p e) =
            (if len + Suc k > 255 then Some (Failure NAME_LEN_TOO_BIG)
             else if k \<noteq> 0 then parse_name_loop s start fp' btc'' (len + Suc k) (window s (p' + Suc k) e')
             else Some (Ok (btc'', name_result s start)))"
          using f ne Ok t l k(3) w subspan_window[of p' "Suc k" e' s] k(2) p'(1)
          by (subst parse_name_loop.simps)
             (auto simp: Let_def FQDN_MAX_OCTET_LEN_def btc''_def name_result_def span_size_def[of l])
        show ?thesis
        proof (cases "k \<noteq> 0 \<and> len + Suc k \<le> 255")
          case True
          have dec: "256 - (len + Suc k) < 256 - len"
            using True by linarith
          have ps: "passes (span_bytes s) pos (p' + Suc k)"
            using passes.label[OF p'(3) _ k(4)] True p'(1,2) by (simp add: k_def span_size_def)
          obtain r' where "parse_name_loop s start fp' btc'' (len + Suc k) (window s (p' + Suc k) e') = Some r'"
              "parse_name_post (p' + Suc k) e' fp' btc'' r'"
            using less.hyps[of "len + Suc k" "p' + Suc k" e' fp' btc'', OF dec ps _ p'(1)] k(2) by auto
          then show ?thesis
            using step True parse_name_post_mono[OF _ le] by auto
        next
          case False
          then show ?thesis
            using step le by (auto simp: parse_name_post_def)
        qed
      qed (simp add: decode_label_not_Nothing)
    qed
  qed
qed

end
