(* ===== verification/Corosig_Dns_Claims.thy ===== *)
theory Corosig_Dns_Claims
  imports Corosig_Dns_Names
begin

text \<open>
  The properties of the DNS message code: which octets the name decoder accepts, when it
  returns, what the label iterator yields, the header flags, and that the encoder's questions
  decode to what was encoded.
\<close>

section \<open>Names\<close>

text \<open>
  Claim C3. \<^verbatim>\<open>parse_domain_name\<close> accepts exactly the domain names: it succeeds at a position
  if and only if the message holds there a sequence of labels, possibly continued through
  in-bounds compression pointers, that ends with the root label and has at most 255 octets; the
  count of octets to consume is the number of octets at the position itself, as \<^verbatim>\<open>uint8_t\<close>.
\<close>

theorem parse_domain_name_iff:
  assumes "span_size s < 2 ^ 64"
  shows "parse_domain_name s (at s pos) = Some (Ok (n8, nm)) \<longleftrightarrow>
    (\<exists>labels n h. name_at (span_bytes s) pos labels n h \<and> name_len labels \<le> 255 \<and>
       n8 = word_of_nat n \<and> nm = name_result s (span_data s + pos))"
proof
  assume "parse_domain_name s (at s pos) = Some (Ok (n8, nm))"
  then have loop: "parse_name_loop s (span_data s + pos) True 0 0 (at s pos) = Some (Ok (n8, nm))"
    by (simp add: parse_domain_name_def)
  then obtain labels n h where n: "name_at (span_bytes s) pos labels n h" "name_len labels \<le> 255"
    using parse_name_loop_sound[OF loop] by auto
  moreover have "n8 = word_of_nat n \<and> nm = name_result s (span_data s + pos)"
    using loop parse_name_loop_complete[OF n(1) assms, of 0 "span_data s + pos" True 0] n(2) by simp
  ultimately show "\<exists>labels n h. name_at (span_bytes s) pos labels n h \<and> name_len labels \<le> 255 \<and>
       n8 = word_of_nat n \<and> nm = name_result s (span_data s + pos)"
    by blast
next
  assume "\<exists>labels n h. name_at (span_bytes s) pos labels n h \<and> name_len labels \<le> 255 \<and>
       n8 = word_of_nat n \<and> nm = name_result s (span_data s + pos)"
  then show "parse_domain_name s (at s pos) = Some (Ok (n8, nm))"
    using parse_name_loop_complete[OF _ assms, of pos _ _ _ 0 "span_data s + pos" True 0]
    by (auto simp: parse_domain_name_def)
qed

definition demo_message :: span where
  "demo_message = Span 1000 [1, 0x61, 0, 1, 0x62, 0xC0, 0, 7]"

lemma demo_name_at:
  "name_at (span_bytes demo_message) 0 [[0x61]] 3 0"
  "name_at (span_bytes demo_message) 3 [[0x62], [0x61]] 4 0"
proof -
  let ?m = "span_bytes demo_message"
  have r: "name_at ?m 2 [] 1 0"
    by (rule name_at.root) (simp_all add: demo_message_def)
  have p: "decode_compression_ptr (drop 5 ?m) = Some 0"
    by code_simp
  show a: "name_at ?m 0 [[0x61]] 3 0"
    using name_at.label[of 0 ?m 1 "[]" 1 0] r by (simp add: demo_message_def eval_nat_numeral)
  have "name_at ?m 5 [[0x61]] 2 1"
    using name_at.ptr[OF p, of "[[0x61]]" 3 0] a by (simp add: demo_message_def)
  then show "name_at ?m 3 [[0x62], [0x61]] 4 0"
    using name_at.label[of 3 ?m 1 "[[0x61]]" 2 1] by (simp add: demo_message_def eval_nat_numeral)
qed

theorem parse_domain_name_iff_witness:
  "span_size demo_message < 2 ^ 64 \<and>
   parse_domain_name demo_message (at demo_message 3) = Some (Ok (4, name_result demo_message 1003))"
proof -
  have s: "span_size demo_message < 2 ^ 64"
    by (simp add: demo_message_def span_size_def)
  have "\<exists>labels n h. name_at (span_bytes demo_message) 3 labels n h \<and> name_len labels \<le> 255 \<and>
      (4 :: u8) = word_of_nat n \<and> name_result demo_message 1003 = name_result demo_message (span_data demo_message + 3)"
    using demo_name_at(2) by (intro exI[of _ "[[0x62], [0x61]]"] exI[of _ 4] exI[of _ 0]) (simp add: demo_message_def)
  then show ?thesis
    using parse_domain_name_iff[OF s, of 3 4 "name_result demo_message 1003"] s by blast
qed

lemma passes_demo: "passes (span_bytes demo_message) 3 p \<Longrightarrow> p \<in> {0, 2, 3, 5}"
proof (induction rule: passes.induct)
  case (label p)
  have "decode_compression_ptr (drop 5 (span_bytes demo_message)) = Some 0"
    by code_simp
  with label show ?case
    by (auto simp: demo_message_def)
next
  case (ptr p offset)
  have "map (\<lambda>p. decode_compression_ptr (drop p (span_bytes demo_message))) [0, 2, 3, 5] = [None, None, None, Some 0]"
    by code_simp
  with ptr show ?case
    by auto
qed simp

lemma demo_ptrs_backward: "ptrs_backward (span_bytes demo_message) 3"
proof -
  have "map (\<lambda>p. decode_compression_ptr (drop p (span_bytes demo_message))) [0, 2, 3, 5] = [None, None, None, Some 0]"
    by code_simp
  then show ?thesis
    by (auto simp: ptrs_backward_def dest!: passes_demo)
qed

text \<open>
  Claim C34. \<^verbatim>\<open>parse_domain_name\<close> terminates, without an access outside of the message, on
  every message in which each compression pointer met on the way points to an earlier position.
\<close>

theorem parse_domain_name_terminates:
  assumes "ptrs_backward (span_bytes s) pos" and "pos \<le> span_size s" and "span_size s < 2 ^ 64"
  shows "\<exists>r. parse_domain_name s (at s pos) = Some r \<and> r \<noteq> Nothing"
  using parse_name_loop_terminates[OF assms(1) passes.here assms(2) order_refl assms(3)]
  by (fastforce simp: parse_domain_name_def at_window parse_name_post_def)

theorem parse_domain_name_terminates_witness:
  "ptrs_backward (span_bytes demo_message) 3 \<and> 3 \<le> span_size demo_message \<and>
   span_size demo_message < 2 ^ 64 \<and>
   (\<exists>r. parse_domain_name demo_message (at demo_message 3) = Some r \<and> r \<noteq> Nothing)"
  using parse_domain_name_terminates[OF demo_ptrs_backward] demo_ptrs_backward
  by (simp add: demo_message_def span_size_def)

definition loop_message :: "nat \<Rightarrow> span" where
  "loop_message a = Span a [0xC0, 2, 1, 0x61, 0xC0, 4]"

lemma loop_message_simps [simp]:
  "span_size (loop_message a) = 6" "span_data (loop_message a) = a" "at (loop_message a) 0 = loop_message a"
  "size_sub 6 1 = 5"
  by (simp_all add: loop_message_def span_size_def at_def size_sub_id)

lemma loop_message_ptrs [simp]:
  "decode_compression_ptr (span_bytes (loop_message a)) = Some 2"
  "decode_compression_ptr (drop 2 (span_bytes (loop_message a))) = None"
  "decode_compression_ptr (drop 4 (span_bytes (loop_message a))) = Some 4"
  unfolding loop_message_def span.sel by code_simp+

lemma follow_ptrs_loop_message:
  assumes "follow_ptrs s first fp btc p = Some r"
    and "s = loop_message a" and "first = - 1" and "\<not> fp" and "p = at (loop_message a) 4"
  shows False
  using assms
proof (induction rule: follow_ptrs_induct)
  case (step rec s first fp btc p r)
  have "rec s first fp btc p = Some r"
    using step(2-) by (simp add: subspan_at del: One_nat_def)
  then show ?case
    using step(1,3-) by blast
qed

text \<open>
  Without this condition the decoder need not return: the pointer at offset 4 of this
  message points to itself, but it is the second pointer of the name at offset 0, and the loop
  detection only remembers the first one.
\<close>

theorem parse_domain_name_diverges: "parse_domain_name (loop_message a) (loop_message a) = None"
proof -
  let ?s = "loop_message a"
  have f0: "follow_ptrs ?s (- 1) True 0 ?s = Some (Ok (at ?s 2, False, 2))"
    by (subst follow_ptrs.simps, subst follow_ptrs.simps) (simp add: subspan_at del: One_nat_def)
  have f4: "follow_ptrs ?s (- 1) False 2 (at ?s 4) = None"
    using follow_ptrs_loop_message[of ?s "- 1" False 2 "at ?s 4"]
    by (cases "follow_ptrs ?s (- 1) False 2 (at ?s 4)") auto
  have "decode_label (at ?s 2) = Ok (Span (a + 3) [0x61])"
    by (simp add: decode_label_def loop_message_def at_def span_size_def)
  then have "parse_name_loop ?s a True 0 0 ?s = parse_name_loop ?s a False 2 2 (at ?s 4)"
    using f0 subspan_at[of 2 "at ?s 2"] by (subst parse_name_loop.simps)
      (simp add: FQDN_MAX_OCTET_LEN_def span_size_def[of "Span _ _"], simp add: loop_message_def)
  also have "\<dots> = None"
    using f4 by (subst parse_name_loop.simps) (simp add: loop_message_def)
  finally show ?thesis
    by (simp add: parse_domain_name_def)
qed

section \<open>The labels of a decoded name\<close>

lemma load_inside:
  "span_data mem = a \<Longrightarrow> i < span_size mem \<Longrightarrow> load mem (a + i) = Some (span_bytes mem ! i)"
  by (simp add: load_def)

lemma decode_ptr_two:
  assumes "Suc pos < length m"
  shows "decode_compression_ptr [m ! pos, m ! Suc pos] = decode_compression_ptr (drop pos m)"
proof -
  have "drop pos m = m ! pos # m ! Suc pos # drop (Suc (Suc pos)) m"
    using assms by (metis Cons_nth_drop_Suc Suc_lessD)
  then show ?thesis
    by (simp add: decode_compression_ptr_def)
qed

lemma labels_complete:
  assumes "name_at m pos ls n h" and "span_bytes mem = m @ extra" and "extra \<noteq> []"
    and "m_original_message_start nm = span_data mem"
  shows "Option.bind (adwance mem (span_data mem) (span_data mem + pos)) (labels_from mem nm) = Some ls"
  using assms
proof (induction rule: name_at.induct)
  case (root pos)
  then have "Suc pos < length m + length extra"
    by (cases extra) auto
  then show ?case
    using root decode_ptr_small[of 0] load_inside[of mem "span_data mem" "Suc pos"]
    by (simp add: adwance.simps[of mem] load_inside span_size_def nth_append labels_from.simps)
next
  case (label pos len labels n h)
  have sz: "Suc pos < span_size mem" "pos + 1 + len < span_size mem"
    using label.hyps(2,5) label.prems(1,2) by (cases extra; simp add: span_size_def)+
  have b: "span_bytes mem ! pos = m ! pos" "0 < m ! pos" "m ! pos \<le> 63"
    using label.hyps(1-4) label.prems(1) by (auto simp: nth_append word_less_nat_alt word_le_nat_alt)
  have "adwance mem (span_data mem) (span_data mem + pos) = Some (Some (span_data mem + pos))"
    using b sz load_inside[of mem "span_data mem" pos] load_inside[of mem "span_data mem" "Suc pos"]
    by (subst adwance.simps) (simp add: decode_ptr_small)
  moreover have "labels_deref mem (Some (span_data mem + pos)) = Some (take len (drop (pos + 1) m))"
    using b sz label.hyps(4,5) label.prems(1) load_inside[of mem "span_data mem" pos]
    by (simp add: labels_deref_def add.commute)
  moreover have "labels_next mem nm (Some (span_data mem + pos)) =
      adwance mem (span_data mem) (span_data mem + (pos + 1 + len))"
    using b sz label.hyps(4) label.prems(3) load_inside[of mem "span_data mem" pos]
    by (simp add: labels_next_def add_ac)
  ultimately show ?case
    using label.IH[OF label.prems] by (simp add: labels_from.simps[of mem nm] bind_eq_Some_conv)
next
  case (ptr pos offset labels n h)
  have l: "Suc pos < length m"
    using decode_ptr_length[OF ptr.hyps(1)] by simp
  then have "adwance mem (span_data mem) (span_data mem + pos) =
      adwance mem (span_data mem) (span_data mem + unat offset)"
    using load_inside[of mem "span_data mem" pos] load_inside[of mem "span_data mem" "Suc pos"]
      ptr.prems(1) ptr.hyps(1) decode_ptr_two[OF l]
    by (subst adwance.simps) (simp add: span_size_def nth_append)
  then show ?case
    using ptr.IH[OF ptr.prems] by simp
qed

text \<open>
  Claim C35. Iterating over a decoded name yields exactly the labels of the name and ends,
  provided at least one octet follows the message part that holds the name.
\<close>

theorem DomainName_labels_correct:
  assumes "name_at m pos labels n h" and "extra \<noteq> []"
  shows "DomainName_labels (Span a (m @ extra)) (name_result (Span a (m @ extra)) (a + pos)) = Some labels"
  using labels_complete[OF assms(1), of "Span a (m @ extra)" extra "name_result (Span a (m @ extra)) (a + pos)"] assms(2)
  by (simp add: DomainName_labels_def labels_begin_def name_result_def)

lemma demo_name_at_short: "name_at [1, 0x61, 0, 1, 0x62, 0xC0, 0] 3 [[0x62], [0x61]] 4 0"
proof -
  let ?m = "[1, 0x61, 0, 1, 0x62, 0xC0, 0] :: octets"
  have r: "name_at ?m 2 [] 1 0"
    by (rule name_at.root) simp_all
  have p: "decode_compression_ptr (drop 5 ?m) = Some 0"
    by code_simp
  have a: "name_at ?m 0 [[0x61]] 3 0"
    using name_at.label[of 0 ?m 1 "[]" 1 0] r by (simp add: eval_nat_numeral)
  have "name_at ?m 5 [[0x61]] 2 1"
    using name_at.ptr[OF p, of "[[0x61]]" 3 0] a by simp
  then show "name_at ?m 3 [[0x62], [0x61]] 4 0"
    using name_at.label[of 3 ?m 1 "[[0x61]]" 2 1] by (simp add: eval_nat_numeral)
qed

theorem DomainName_labels_correct_witness:
  "name_at [1, 0x61, 0, 1, 0x62, 0xC0, 0] 3 [[0x62], [0x61]] 4 0 \<and> [7 :: u8] \<noteq> [] \<and>
   DomainName_labels (Span 1000 ([1, 0x61, 0, 1, 0x62, 0xC0, 0] @ [7]))
     (name_result (Span 1000 ([1, 0x61, 0, 1, 0x62, 0xC0, 0] @ [7])) (1000 + 3)) = Some [[0x62], [0x61]]"
  using DomainName_labels_correct[OF demo_name_at_short, of "[7]" 1000] demo_name_at_short by blast

text \<open>
  When the root label is the last octet of the message, the iterator reads the octet
  behind the message before it looks at the label.
\<close>

theorem labels_overread: "DomainName_labels (Span a (m @ [0])) (name_result (Span a (m @ [0])) (a + length m)) = None"
  by (simp add: DomainName_labels_def labels_begin_def name_result_def adwance.simps load_def span_size_def)

section \<open>The encoder\<close>

definition name_wire :: "octets list \<Rightarrow> octets" where
  "name_wire labels = concat (map (\<lambda>l. word_of_nat (length l) # l) labels) @ [0]"

definition label_ok :: "octets \<Rightarrow> bool" where
  "label_ok l \<longleftrightarrow> l \<noteq> [] \<and> length l \<le> 63"

lemma length_name_wire [simp]: "length (name_wire ls) = name_len ls"
  by (induction ls) (simp_all add: name_wire_def)

text \<open>Entries of the map are longer than what is left of the name, so no suffix is ever found.\<close>

lemma CompressionMap_find_None:
  assumes "\<forall>nd \<in> set buckets. length (node_str nd) > length (node_str n)"
  shows "CompressionMap_find n buckets = None"
  using assms unfolding CompressionMap_find_def Let_def node_eq_def by (metis nth_mem order_less_irrefl)

lemma CompressionMap_insert_set: "set (CompressionMap_insert grow n buckets) \<subseteq> insert n (set buckets)"
  by (auto simp: CompressionMap_insert_def Let_def dest: in_set_takeD in_set_dropD)

fun first_bad :: "octets list \<Rightarrow> QuestionEncodeError option" where
  "first_bad [] = None"
| "first_bad (l # ls) = (if l = [] then Some EMPTY_LABEL
     else if length l > 63 then Some TOO_LONG_DOMAIN_NAME_LABEL else first_bad ls)"

lemma first_bad_None: "first_bad ls = None \<longleftrightarrow> list_all label_ok ls"
  by (induction ls) (auto simp: label_ok_def)

lemma encode_labels_spec:
  assumes "\<forall>nd \<in> set cm. length (node_str nd) > length rest" and "sum_list (map (\<lambda>l. length l + 1) ls) \<le> length rest + 1"
  shows "(case first_bad ls of
            Some e \<Rightarrow> encode_labels hash grow ls rest out cm = Some (Failure e)
          | None \<Rightarrow> \<exists>cm'. encode_labels hash grow ls rest out cm = Some (Ok (out @ name_wire ls, cm')))"
  using assms
proof (induction ls arbitrary: rest out cm)
  case Nil
  then show ?case
    by (simp add: name_wire_def)
next
  case (Cons l ls)
  show ?case
  proof (cases "label_ok l")
    case False
    then show ?thesis
      by (auto simp: label_ok_def write_label_def)
  next
    case True
    let ?nd = "make_Node hash rest (word_of_nat (length out))"
    let ?cm = "if length out \<le> unat MAX_VALUE then CompressionMap_insert grow ?nd cm else cm"
    let ?rest = "drop (length l + 1) rest" and ?out = "out @ word_of_nat (length l) # l"
    have nd: "node_str ?nd = rest"
      by (simp add: make_Node_def)
    then have find: "CompressionMap_find ?nd cm = None"
      using Cons.prems(1) by (intro CompressionMap_find_None) simp
    have ok: "l \<noteq> []" "length l \<le> 63"
      using True by (auto simp: label_ok_def)
    have step: "encode_labels hash grow (l # ls) rest out cm = encode_labels hash grow ls ?rest ?out ?cm"
      using ok find by (simp add: write_label_def Let_def)
    have "rest \<noteq> []"
      using Cons.prems(2) ok by (cases rest) auto
    then have shorter: "length ?rest < length rest"
      by simp
    have "set ?cm \<subseteq> insert ?nd (set cm)"
      using CompressionMap_insert_set[of grow ?nd cm] by auto
    then have "\<forall>nd \<in> set ?cm. length (node_str nd) > length ?rest"
      using Cons.prems(1) nd shorter by (metis (no_types, lifting) insertE order_less_trans subsetD)
    moreover have "sum_list (map (\<lambda>l. length l + 1) ls) \<le> length ?rest + 1"
      using Cons.prems(2) ok by (cases ls) auto
    ultimately have "(case first_bad ls of
            Some e \<Rightarrow> encode_labels hash grow ls ?rest ?out ?cm = Some (Failure e)
          | None \<Rightarrow> \<exists>cm'. encode_labels hash grow ls ?rest ?out ?cm = Some (Ok (?out @ name_wire ls, cm')))"
      by (rule Cons.IH)
    then show ?thesis
      using step ok by (auto simp: name_wire_def split: option.splits)
  qed
qed

lemma split_into_labels_length:
  "sum_list (map (\<lambda>l. length l + 1) (split_into_labels name)) \<le> length name + 1"
proof -
  let ?n = "if ends_with 0x2E name then butlast name else name"
  have "sum_list (map (\<lambda>l. length l + 1) (split_pieces 0x2E ?n)) = length ?n + 1"
    using length_join[OF split_pieces_not_Nil[of "0x2E" ?n], of "0x2E"] by (simp only: join_split_pieces)
  moreover have "length ?n \<le> length name"
    by simp
  ultimately show ?thesis
    by (simp add: split_into_labels_def views_split_def del: split_pieces.simps)
qed

lemma encode_domain_name_spec:
  "case (if length name > 255 then Some TOO_LONG_DOMAIN_NAME else first_bad (split_into_labels name)) of
     Some e \<Rightarrow> encode_domain_name hash grow out name [] = Some (Failure e)
   | None \<Rightarrow> \<exists>cm. encode_domain_name hash grow out name [] =
        Some (Ok (out @ name_wire (split_into_labels name), cm))"
  using encode_labels_spec[of "[]" name "split_into_labels name" hash grow out] split_into_labels_length[of name]
  by (auto simp: encode_domain_name_def FQDN_MAX_OCTET_LEN_def split: option.splits)

text \<open>
  Claim C36. Whatever the hash function and however little memory the compression map gets, a
  single name is encoded as its labels, each preceded by its length, and the root label; a name
  over 255 octets, an empty label and a label over 63 octets are refused with their own error,
  the first one in the order of the labels.
\<close>

theorem encode_domain_name_correct:
  "case (if length name > 255 then Some TOO_LONG_DOMAIN_NAME else first_bad (split_into_labels name)) of
     Some e \<Rightarrow> encode_domain_name hash grow out name [] = Some (Failure e)
   | None \<Rightarrow> \<exists>cm. encode_domain_name hash grow out name [] =
        Some (Ok (out @ name_wire (split_into_labels name), cm))"
  by (rule encode_domain_name_spec)

section \<open>Header flags\<close>

lemma bitfields:
  "QR = push_bit 15 (mask 1)" "OPCODE = push_bit 11 (mask 4)" "AA = push_bit 10 (mask 1)"
  "TC = push_bit 9 (mask 1)" "RD = push_bit 8 (mask 1)" "RA = push_bit 7 (mask 1)" "RCODE = push_bit 0 (mask 4)"
  by (simp_all add: QR_def OPCODE_def AA_def TC_def RD_def RA_def RCODE_def mask_eq_exp_minus_1)

lemma bitfield_layout:
  assumes "F \<in> set [QR, OPCODE, AA, TC, RD, RA, RCODE]"
  shows "\<exists>k w. F = push_bit k (mask w) \<and> k + w \<le> 16 \<and> 0 < w \<and> w \<le> 8 \<and> countr_zero16 F = k \<and> popcount16 F = w"
proof -
  have c: "map countr_zero16 [QR, OPCODE, AA, TC, RD, RA, RCODE] = [15, 11, 10, 9, 8, 7, 0]"
    "map popcount16 [QR, OPCODE, AA, TC, RD, RA, RCODE] = [1, 4, 1, 1, 1, 1, 4]"
    by code_simp+
  have "F = push_bit (countr_zero16 F) (mask (popcount16 F)) \<and> countr_zero16 F + popcount16 F \<le> 16 \<and>
      0 < popcount16 F \<and> popcount16 F \<le> 8"
    using assms c by (auto simp: bitfields)
  then show ?thesis
    by blast
qed

lemma unat_small_no_bit:
  assumes "unat (v :: u8) < 2 ^ w" and "w \<le> i"
  shows "\<not> bit v i"
proof
  assume "bit v i"
  then have "odd (unat v div 2 ^ i)"
    by (simp add: bit_unsigned_iff flip: bit_iff_odd)
  moreover have "unat v < 2 ^ i"
    using assms power_increasing[of w i "2 :: nat"] by linarith
  ultimately show False
    by simp
qed

lemma get_set_bitfield:
  assumes "F = push_bit k (mask w)" "k + w \<le> 16" "w \<le> 8" "countr_zero16 F = k" "popcount16 F = w"
    and "unat v < 2 ^ w"
  shows "map_option (get_bitfield F) (set_bitfield F m v) = Some v"
proof -
  have v: "\<not> bit v i" if "w \<le> i" for i
    using assms(6) that unat_small_no_bit[of v w i] by simp
  let ?F = "push_bit k (mask w) :: u16"
  have "(ucast (drop_bit k (((m AND NOT ?F) OR push_bit k (ucast v AND mask w)) AND ?F)) :: u8) = v"
  proof (rule bit_eqI)
    fix n
    assume "possible_bit TYPE(u8) n"
    then show "bit (ucast (drop_bit k (((m AND NOT ?F) OR push_bit k (ucast v AND mask w)) AND ?F)) :: u8) n = bit v n"
      using v[of n] assms(2) by (cases "n < w") (auto simp: bit_simps)
  qed
  then have "get_bitfield F ((m AND NOT F) OR push_bit k (ucast v AND mask w)) = v"
    using assms(1,4) by (simp add: get_bitfield_def)
  then show ?thesis
    using assms(4-6) by (simp add: set_bitfield_def Let_def)
qed

lemma get_set_other_bitfield:
  assumes "F = push_bit k (mask w)" "G AND F = 0" "countr_zero16 F = k" "popcount16 F = w"
    and "unat v < 2 ^ w"
  shows "map_option (get_bitfield G) (set_bitfield F m v) = Some (get_bitfield G m)"
proof -
  have "\<not> (bit G i \<and> bit F i)" for i
    using assms(2) by (metis bit_and_iff bit_0_eq bot_apply bot_bool_def)
  then have "((m AND NOT F) OR push_bit k (ucast v AND mask w)) AND G = m AND G"
    unfolding assms(1) by (intro bit_eqI) (auto simp: bit_simps)
  then show ?thesis
    using assms(3-5) by (simp add: set_bitfield_def get_bitfield_def Let_def)
qed

lemma bitfields_disjoint:
  assumes "F \<in> set [QR, OPCODE, AA, TC, RD, RA, RCODE]" "G \<in> set [QR, OPCODE, AA, TC, RD, RA, RCODE]" "F \<noteq> G"
  shows "G AND F = 0"
  using assms by (auto simp: QR_def OPCODE_def AA_def TC_def RD_def RA_def RCODE_def)

lemma bitfield_get_set:
  assumes "F \<in> set [QR, OPCODE, AA, TC, RD, RA, RCODE]" and "unat v < 2 ^ popcount16 F"
  shows "map_option (get_bitfield F) (set_bitfield F m v) = Some v"
  using bitfield_layout[OF assms(1)] assms(2) get_set_bitfield by metis

lemma bitfield_get_set_other:
  assumes "F \<in> set [QR, OPCODE, AA, TC, RD, RA, RCODE]" and "unat v < 2 ^ popcount16 F"
    and "G \<in> set [QR, OPCODE, AA, TC, RD, RA, RCODE]" and "G \<noteq> F"
  shows "map_option (get_bitfield G) (set_bitfield F m v) = Some (get_bitfield G m)"
  using bitfield_layout[OF assms(1)] assms(2) get_set_other_bitfield bitfields_disjoint[OF assms(1,3)] assms(4) by metis

text \<open>
  Every header flag field reads back what was written to it, as long as the value fits
  into the field (the setter asserts it), and writing one field leaves every other field as it is.
\<close>

theorem header_flags_correct:
  assumes "F \<in> set [QR, OPCODE, AA, TC, RD, RA, RCODE]" and "unat v < 2 ^ popcount16 F"
  shows "map_option (get_bitfield F) (set_bitfield F m v) = Some v \<and>
    (\<forall>G \<in> set [QR, OPCODE, AA, TC, RD, RA, RCODE] - {F}.
       map_option (get_bitfield G) (set_bitfield F m v) = Some (get_bitfield G m))"
  using bitfield_get_set[OF assms] bitfield_get_set_other[OF assms] by blast

theorem header_flags_correct_witness:
  "OPCODE \<in> set [QR, OPCODE, AA, TC, RD, RA, RCODE] \<and> unat (2 :: u8) < 2 ^ popcount16 OPCODE \<and>
   map_option (get_bitfield OPCODE) (set_bitfield OPCODE 0x8100 2) = Some 2 \<and>
   map_option (get_bitfield RD) (set_bitfield OPCODE 0x8100 2) = Some (get_bitfield RD 0x8100)"
proof -
  have "popcount16 OPCODE = 4"
    by code_simp
  moreover have "RD \<noteq> OPCODE"
    by (simp add: RD_def OPCODE_def)
  ultimately show ?thesis
    using header_flags_correct[of OPCODE 2 "0x8100"] by auto
qed

section \<open>Questions\<close>

lemma name_at_wire:
  assumes "list_all label_ok ls"
  shows "name_at (pre @ name_wire ls @ post) (length pre) ls (name_len ls) 0"
  using assms
proof (induction ls arbitrary: pre)
  case Nil
  then show ?case
    using name_at.root[of "length pre" "pre @ name_wire [] @ post"] by (simp add: name_wire_def)
next
  case (Cons l ls)
  let ?pre = "pre @ word_of_nat (length l) # l" and ?m = "pre @ name_wire (l # ls) @ post"
  have m: "?m = ?pre @ name_wire ls @ post"
    by (simp add: name_wire_def)
  have l: "0 < length l" "length l \<le> 63"
    using Cons.prems by (auto simp: label_ok_def)
  have nth: "?m ! length pre = word_of_nat (length l)"
    by (simp add: name_wire_def nth_append)
  have tail: "name_at ?m (length pre + 1 + length l) ls (name_len ls) 0"
    using Cons.IH[of ?pre] Cons.prems unfolding m by simp
  have "take (length l) (drop (length pre + 1) ?m) = l"
    by (simp add: name_wire_def)
  moreover have "length pre + 1 + length l \<le> length ?m" "length pre < length ?m"
    by (simp_all add: name_wire_def)
  moreover have "unat (?m ! length pre) = length l"
    using l(2) by (simp add: nth unat_of_nat take_bit_eq_mod)
  ultimately show ?case
    using name_at.label[OF _ l _ _ tail] by simp
qed

lemma ucast_u8_u16_u8 [simp]: "ucast (ucast (x :: u8) :: u16) = x"
  by (rule bit_eqI) (auto simp: bit_simps)

lemma question_flags:
  assumes "set_opcode opc 0 = Some f" and "set_recursion_desired b f = Some g"
  shows "opcode g = opc \<and> recursion_desired g = b \<and> \<not> is_response g"
proof -
  have p: "popcount16 OPCODE = 4" "popcount16 RD = 1" "QR \<noteq> OPCODE" "QR \<noteq> RD" "OPCODE \<noteq> RD"
    by code_simp+
  have v: "unat opc < 2 ^ popcount16 OPCODE" "unat (of_flag b) < 2 ^ popcount16 RD"
    using assms p(1) by (auto simp: set_opcode_def set_bitfield_def of_flag_def p(2) Let_def split: if_splits)
  let ?all = "[QR, OPCODE, AA, TC, RD, RA, RCODE]"
  have 1: "get_bitfield OPCODE f = opc" "get_bitfield QR f = get_bitfield QR 0"
    using bitfield_get_set[of OPCODE opc 0] bitfield_get_set_other[of OPCODE opc QR 0] v(1) assms(1) p
    by (auto simp: set_opcode_def)
  have 2: "get_bitfield RD g = of_flag b" "get_bitfield OPCODE g = get_bitfield OPCODE f"
      "get_bitfield QR g = get_bitfield QR f"
    using bitfield_get_set[of RD "of_flag b" f] bitfield_get_set_other[of RD "of_flag b" QR f]
      bitfield_get_set_other[of RD "of_flag b" OPCODE f] v(2) assms(2) p
    by (auto simp: set_recursion_desired_def)
  show ?thesis
    using 1 2 by (auto simp: opcode_def recursion_desired_def is_response_def of_flag_def get_bitfield_def[of QR 0])
qed

lemma encode_question_Ok:
  assumes "encode_question hash grow q = Some (Ok bytes)"
  obtains f g where "set_opcode (q_opcode q) 0 = Some f" "set_recursion_desired (q_recursion_desired q) f = Some g"
    "list_all label_ok (split_into_labels (q_name q))"
    "bytes = encode_header [] \<lparr>hdr_id = q_id q, hdr_flags = g, hdr_qdcount = 1, hdr_ancount = 0, hdr_nscount = 0,
       hdr_arcount = 0\<rparr> @ name_wire (split_into_labels (q_name q)) @
       write_hton (ucast (q_qtype q)) @ write_hton (ucast (q_qclass q))"
proof -
  obtain f g where fg: "set_opcode (q_opcode q) 0 = Some f" "set_recursion_desired (q_recursion_desired q) f = Some g"
    using assms by (auto simp: encode_question_def split: bind_split_asm)
  let ?h = "encode_header [] \<lparr>hdr_id = q_id q, hdr_flags = g, hdr_qdcount = 1, hdr_ancount = 0, hdr_nscount = 0,
       hdr_arcount = 0\<rparr>"
  obtain out cm where o: "encode_domain_name hash grow ?h (q_name q) [] = Some (Ok (out, cm))"
      "bytes = out @ write_hton (ucast (q_qtype q)) @ write_hton (ucast (q_qclass q))"
    using assms fg by (auto simp: encode_question_def COROSIG_TRY_Ok)
  have "length (q_name q) \<le> 255 \<and> first_bad (split_into_labels (q_name q)) = None \<and>
      out = ?h @ name_wire (split_into_labels (q_name q))"
    using o(1) encode_domain_name_spec[where name = "q_name q" and hash = hash and grow = grow and out = ?h] by (auto split: if_splits option.splits)
  then show ?thesis
    using that[OF fg] o(2) by (simp add: first_bad_None)
qed

lemma parse_domain_name_at:
  assumes "name_at (span_bytes s) pos labels n h" and "name_len labels \<le> 255" and "span_size s < 2 ^ 64"
  shows "parse_domain_name s (at s pos) = Some (Ok (word_of_nat n, name_result s (span_data s + pos)))"
  using parse_name_loop_complete[OF assms(1,3), of 0 "span_data s + pos" True 0] assms(2)
  by (simp add: parse_domain_name_def)

lemma encode_header_parts:
  "length (encode_header [] h) = 12"
  "take 2 (encode_header [] h) = write_hton (hdr_id h)"
  "take 2 (drop 2 (encode_header [] h)) = write_hton (hdr_flags h)"
  "take 2 (drop 4 (encode_header [] h)) = write_hton (hdr_qdcount h)"
  "take 2 (drop 6 (encode_header [] h)) = write_hton (hdr_ancount h)"
  "take 2 (drop 8 (encode_header [] h)) = write_hton (hdr_nscount h)"
  "take 2 (drop 10 (encode_header [] h)) = write_hton (hdr_arcount h)"
  by (simp_all add: encode_header_def write_hton_def)

lemma consume_encode_header:
  assumes "m_remaining_message d = Span a (encode_header [] h @ rest)"
  shows "consume_header d = (Ok h, d\<lparr>m_remaining_message := Span (a + 12) rest\<rparr>)"
  using assms encode_header_parts[of h]
  by (simp add: consume_header_def span_size_def Let_def)

lemma consume_hton_2:
  "consume_2_octets (Span a (write_hton v @ rest)) = Some (v, Span (a + 2) rest)"
  by (simp add: consume_2_octets_def span_size_def)

lemma DomainName_labels_at:
  assumes "name_at m pos labels n h" and "span_bytes s = m @ extra" and "extra \<noteq> []"
  shows "DomainName_labels s (name_result s (span_data s + pos)) = Some labels"
  using labels_complete[OF assms, of "name_result s (span_data s + pos)"]
  by (simp add: DomainName_labels_def labels_begin_def name_result_def)

text \<open>
  Claim C23. What \<^verbatim>\<open>encode_question\<close> writes, the decoder reads back: the header with the same
  identifier, operation code and recursion flag and the four counts, then the question with the
  same labels, type and class, and nothing remains. The hypothesis on the length of the name in
  its wire format is needed: the encoder checks the length of the textual name only.
\<close>

theorem encode_question_roundtrip:
  assumes "encode_question hash grow q = Some (Ok bytes)"
    and "name_len (split_into_labels (q_name q)) \<le> 255"
  shows "\<exists>h d nm d'. consume_header (ResponseDecoder_make (Span a bytes)) = (Ok h, d) \<and>
    hdr_id h = q_id q \<and> opcode (hdr_flags h) = q_opcode q \<and> \<not> is_response (hdr_flags h) \<and>
    recursion_desired (hdr_flags h) = q_recursion_desired q \<and> hdr_qdcount h = 1 \<and>
    hdr_ancount h = 0 \<and> hdr_nscount h = 0 \<and> hdr_arcount h = 0 \<and>
    consume_question_entry d =
      Some (Ok \<lparr>dq_name = nm, dq_qtype = q_qtype q, dq_qclass = q_qclass q\<rparr>, d') \<and>
    DomainName_labels (Span a bytes) nm = Some (split_into_labels (q_name q)) \<and>
    span_bytes (m_remaining_message d') = []"
proof -
  let ?ls = "split_into_labels (q_name q)"
  obtain f g where fg: "set_opcode (q_opcode q) 0 = Some f" "set_recursion_desired (q_recursion_desired q) f = Some g"
    and ok: "list_all label_ok ?ls"
    and b: "bytes = encode_header [] \<lparr>hdr_id = q_id q, hdr_flags = g, hdr_qdcount = 1, hdr_ancount = 0, hdr_nscount = 0,
       hdr_arcount = 0\<rparr> @ name_wire ?ls @ write_hton (ucast (q_qtype q)) @ write_hton (ucast (q_qclass q))"
      (is "_ = encode_header [] ?h @ _ @ ?post")
    using encode_question_Ok[OF assms(1)] by metis
  let ?s = "Span a bytes" and ?d = "ResponseDecoder_make (Span a bytes)\<lparr>m_remaining_message := Span (a + 12) (name_wire ?ls @ ?post)\<rparr>"
  have hdr: "consume_header (ResponseDecoder_make ?s) = (Ok ?h, ?d)"
    using consume_encode_header[of "ResponseDecoder_make ?s" a ?h] b by (simp add: ResponseDecoder_make_def)
  have name: "name_at bytes 12 ?ls (name_len ?ls) 0"
    using name_at_wire[OF ok, of "encode_header [] ?h" ?post] b encode_header_parts(1)[of ?h] by simp
  have name': "name_at (encode_header [] ?h @ name_wire ?ls) 12 ?ls (name_len ?ls) 0"
    using name_at_wire[OF ok, of "encode_header [] ?h" "[]"] encode_header_parts(1)[of ?h] by simp
  have rem: "Span (a + 12) (name_wire ?ls @ ?post) = at ?s 12"
    using b encode_header_parts(1)[of ?h] by (simp add: at_def)
  have len: "length bytes = 16 + name_len ?ls"
    using b encode_header_parts(1)[of ?h] by simp
  have parse: "parse_domain_name ?s (at ?s 12) = Some (Ok (word_of_nat (name_len ?ls), name_result ?s (a + 12)))"
    using parse_domain_name_at[of ?s 12 ?ls "name_len ?ls" 0] name assms(2) len by (simp add: span_size_def)
  have w: "unat (word_of_nat (name_len ?ls) :: u8) = name_len ?ls"
    using assms(2) by (simp add: unat_of_nat take_bit_eq_mod)
  have sub: "subspan (name_len ?ls) (at ?s 12) = Some (Span (a + 12 + name_len ?ls) ?post)"
    unfolding rem[symmetric] by (simp add: subspan_def span_size_def)
  have lab: "DomainName_labels ?s (name_result ?s (a + 12)) = Some ?ls"
    using DomainName_labels_at[OF name', of ?s ?post] b by (simp add: write_hton_def)
  have q: "consume_question_entry ?d =
      Some (Ok \<lparr>dq_name = name_result ?s (a + 12), dq_qtype = q_qtype q, dq_qclass = q_qclass q\<rparr>,
            ?d\<lparr>m_remaining_message := Span (a + 12 + name_len ?ls + 2 + 2) []\<rparr>)"
    unfolding rem using parse w sub consume_hton_2[of _ _ "[]"]
    by (simp add: consume_question_entry_def ResponseDecoder_make_def consume_hton_2)
  show ?thesis
    using hdr q lab question_flags[OF fg]
    by (intro exI[of _ ?h] exI[of _ ?d] exI[of _ "name_result ?s (a + 12)"]
          exI[of _ "?d\<lparr>m_remaining_message := Span (a + 12 + name_len ?ls + 2 + 2) []\<rparr>"]) simp
qed

definition demo_question :: Question where
  "demo_question = \<lparr>q_id = 7, q_opcode = 0, q_recursion_desired = True, q_name = [0x61, 0x2E, 0x62],
     q_qtype = 1, q_qclass = 1\<rparr>"

theorem encode_question_roundtrip_witness:
  "\<exists>bytes. encode_question (\<lambda>_. 0) (\<lambda>_. True) demo_question = Some (Ok bytes) \<and>
     name_len (split_into_labels (q_name demo_question)) \<le> 255 \<and>
     (\<exists>h d. consume_header (ResponseDecoder_make (Span 64 bytes)) = (Ok h, d) \<and> hdr_id h = 7)"
proof -
  obtain bytes where b: "encode_question (\<lambda>_. 0) (\<lambda>_. True) demo_question = Some (Ok bytes)"
  proof -
    have "encode_question (\<lambda>_. 0) (\<lambda>_. True) demo_question =
       Some (Ok [0, 7, 1, 0, 0, 1, 0, 0, 0, 0, 0, 0, 1, 0x61, 1, 0x62, 0, 0, 1, 0, 1])"
      by code_simp
    then show ?thesis
      using that by blast
  qed
  have l: "name_len (split_into_labels (q_name demo_question)) \<le> 255"
    by code_simp
  show ?thesis
    using b l encode_question_roundtrip[OF b l, of 64] by (auto simp: demo_question_def)
qed

end
