(* ===== verification/Corosig_Dns_Decoder_Claims.thy ===== *)
theory Corosig_Dns_Decoder_Claims
  imports Corosig_Dns_Claims
begin

text \<open>
  The whole response decoder on arbitrary input: its three operations keep the remaining part a
  suffix of the message, never leave the message, return when the pointers of the names they
  parse point backwards, and an error of the last two leaves a decoder that holds nothing.
\<close>

section \<open>The invariant of the decoder\<close>

definition decoder_inv :: "ResponseDecoder \<Rightarrow> bool" where
  "decoder_inv d \<longleftrightarrow> span_size (m_original_message d) < 2 ^ 64 \<and>
     (\<exists>p \<le> span_size (m_original_message d). m_remaining_message d = at (m_original_message d) p)"

text \<open>
  Termination needs that the compression pointers met while parsing a name point backwards. The
  positions at which the names of a resource record at \<^term>\<open>p\<close> start: its owner and, for the
  types whose data hold names, those; other octets, such as addresses, are never followed.
\<close>

definition two_names :: "span \<Rightarrow> nat \<Rightarrow> nat \<Rightarrow> nat list" where
  "two_names s p e = p # (case parse_domain_name s (window s p e) of Some (Ok (n, _)) \<Rightarrow> [p + unat n] | _ \<Rightarrow> [])"

definition rdata_names :: "span \<Rightarrow> u16 \<Rightarrow> nat \<Rightarrow> nat \<Rightarrow> nat list" where
  "rdata_names s rtype p e = (case RdataType_of rtype of
     Some RT_NS \<Rightarrow> [p] | Some RT_CNAME \<Rightarrow> [p] | Some RT_MB \<Rightarrow> [p] | Some RT_MG \<Rightarrow> [p] | Some RT_MR \<Rightarrow> [p]
   | Some RT_PTR \<Rightarrow> [p] | Some RT_MX \<Rightarrow> [p + 2]
   | Some RT_MINFO \<Rightarrow> two_names s p e | Some RT_SOA \<Rightarrow> two_names s p e | _ \<Rightarrow> [])"

definition record_names :: "span \<Rightarrow> nat \<Rightarrow> nat list" where
  "record_names s p = p # (case parse_domain_name s (at s p) of
     Some (Ok (n, _)) \<Rightarrow>
       (let q = p + unat n; rest = drop q (span_bytes s)
        in rdata_names s (read_ntoh (take 2 rest)) (q + 10) (q + 10 + unat (read_ntoh (take 2 (drop 8 rest)) :: u16)))
   | _ \<Rightarrow> [])"

definition remaining_pos :: "ResponseDecoder \<Rightarrow> nat" where
  "remaining_pos d = span_size (m_original_message d) - span_size (m_remaining_message d)"

definition question_backward :: "ResponseDecoder \<Rightarrow> bool" where
  "question_backward d \<longleftrightarrow> ptrs_backward (span_bytes (m_original_message d)) (remaining_pos d)"

definition record_backward :: "ResponseDecoder \<Rightarrow> bool" where
  "record_backward d \<longleftrightarrow> (\<forall>q \<in> set (record_names (m_original_message d) (remaining_pos d)).
     ptrs_backward (span_bytes (m_original_message d)) q)"

lemma decoder_inv_invalidate [simp]: "decoder_inv (invalidate d)"
  by (simp add: decoder_inv_def invalidate_def empty_span_def span_size_def at_def)

lemma decoder_inv_make: "span_size s < 2 ^ 64 \<Longrightarrow> decoder_inv (ResponseDecoder_make s)"
  by (auto simp: decoder_inv_def ResponseDecoder_make_def at_def intro!: exI[of _ 0])

lemma decoder_inv_rest:
  assumes "decoder_inv d" and "p \<le> span_size (m_original_message d)"
  shows "decoder_inv (d\<lparr>m_remaining_message := window (m_original_message d) p (span_size (m_original_message d))\<rparr>)"
  using assms by (auto simp: decoder_inv_def at_window)

section \<open>Every step stays in its window\<close>

lemma window_bytes: "e \<le> span_size s \<Longrightarrow> p \<le> e \<Longrightarrow> k \<le> e - p \<Longrightarrow>
    Span (span_data (window s p e) + k) (drop k (span_bytes (window s p e))) = window s (p + k) e"
  using subspan_window[of p k e s] window_size[of e s p] by (auto simp: subspan_def)

lemma consume_window:
  assumes "p \<le> e" and "e \<le> span_size s"
  shows "(consume_2_octets (window s p e) = None \<and> e < p + 2) \<or>
           (\<exists>v. consume_2_octets (window s p e) = Some (v, window s (p + 2) e) \<and> p + 2 \<le> e)"
    and "p + 2 \<le> e \<Longrightarrow> consume_2_octets (window s p e) = Some (read_ntoh (take 2 (drop p (span_bytes s))), window s (p + 2) e)"
    and "(consume_4_octets (window s p e) = None \<and> e < p + 4) \<or>
           (\<exists>v. consume_4_octets (window s p e) = Some (v, window s (p + 4) e) \<and> p + 4 \<le> e)"
  using window_bytes[OF assms(2,1), of 2] window_bytes[OF assms(2,1), of 4] window_size[OF assms(2), of p] assms(1)
    take_take[of 2 "e - p" "drop p (span_bytes s)"] window_def[of s p e]
  unfolding consume_2_octets_def consume_4_octets_def by auto

lemma parse_name_window:
  assumes "ptrs_backward (span_bytes s) p" and "p \<le> e" and "e \<le> span_size s" and "span_size s < 2 ^ 64"
  shows "(\<exists>err. parse_domain_name s (window s p e) = Some (Failure err)) \<or>
         (\<exists>n nm. parse_domain_name s (window s p e) = Some (Ok (n, nm)) \<and> p + unat n \<le> e)"
proof -
  obtain r where "parse_domain_name s (window s p e) = Some r" "parse_name_post p e True 0 r"
    using parse_name_loop_terminates[OF assms(1) passes.here assms(2-4)]
    unfolding parse_domain_name_def by blast
  then show ?thesis
    using assms(2) by (cases r) (auto simp: parse_name_post_def)
qed

lemma character_string_window:
  assumes "p \<le> e" and "e \<le> span_size s" and "parse_character_string (window s p e) = Some c"
  shows "p + (span_size (cs_data c) + 1) \<le> e"
proof -
  have ne: "p < e"
    using assms by (cases "p < e") (auto simp: parse_character_string_def)
  then show ?thesis
    using assms(2,3) window_size[OF assms(2), of p] window_nth[OF ne assms(2)]
    by (auto simp: parse_character_string_def Let_def span_size_def[of "Span _ _"] split: if_splits)
qed

section \<open>Every parser returns\<close>

definition returns :: "('a, 'e) result option \<Rightarrow> bool" where
  "returns m \<longleftrightarrow> (\<exists>r. m = Some r \<and> r \<noteq> Nothing)"

lemma returns_simps [simp]: "returns (Some (Ok v))" "returns (Some (Failure e))" "\<not> returns None"
  by (simp_all add: returns_def)

lemma returns_TRY:
  assumes "returns m" and "\<And>v. m = Some (Ok v) \<Longrightarrow> returns (k v)"
  shows "returns (COROSIG_TRY m k)"
proof -
  obtain r where "m = Some r" "r \<noteq> Nothing"
    using assms(1) by (auto simp: returns_def)
  then show ?thesis
    using assms(2) by (cases r) auto
qed

lemma require_Ok [simp]: "require e x = Some (Ok v) \<longleftrightarrow> x = Some v" "returns (require e x)"
  by (auto simp: require_def split: option.splits)

lemma or_fail_Ok: "or_fail e m = Some (Ok v) \<longleftrightarrow> m = Some (Ok v)"
proof (cases m)
  case (Some r)
  then show ?thesis by (cases r) (auto simp: or_fail_def)
qed (simp add: or_fail_def)

lemma returns_or_fail: "returns m \<Longrightarrow> returns (or_fail e m)"
proof (cases m)
  case (Some r)
  then show ?thesis by (cases r) (auto simp: or_fail_def)
qed simp

lemma lift_option_Ok [simp]: "lift_option x = Some (Ok v) \<longleftrightarrow> x = Some v" "returns (lift_option x) \<longleftrightarrow> x \<noteq> None"
  by (auto simp: lift_option_def returns_def)

lemma returns_parse_name:
  assumes "ptrs_backward (span_bytes s) p" and "p \<le> e" and "e \<le> span_size s" and "span_size s < 2 ^ 64"
  shows "returns (parse_domain_name s (window s p e))"
  using parse_name_window[OF assms] by (auto simp: returns_def)

lemma parse_name_bound:
  assumes "ptrs_backward (span_bytes s) p" and "p \<le> e" and "e \<le> span_size s" and "span_size s < 2 ^ 64"
    and "parse_domain_name s (window s p e) = Some (Ok (n, nm))"
  shows "p + unat n \<le> e"
  using parse_name_window[OF assms(1-4)] assms(5) by auto

lemma consume_4_bound:
  assumes "p \<le> e" and "e \<le> span_size s" and "consume_4_octets (window s p e) = Some (v, w)"
  shows "w = window s (p + 4) e \<and> p + 4 \<le> e"
  using consume_window(3)[OF assms(1,2)] assms(3) by auto

lemma returns_parse_rdata:
  assumes pe: "p \<le> e" and e: "e \<le> span_size s" and s: "span_size s < 2 ^ 64"
  shows "ptrs_backward (span_bytes s) p \<Longrightarrow> returns (parse_rdata_one_domain_name C err s (window s p e))"
    and "\<forall>q \<in> set (two_names s p e). ptrs_backward (span_bytes s) q \<Longrightarrow> returns (parse_rdata_soa s (window s p e))"
    and "returns (parse_rdata_hinfo (window s p e))"
    and "\<forall>q \<in> set (two_names s p e). ptrs_backward (span_bytes s) q \<Longrightarrow> returns (parse_rdata_minfo s (window s p e))"
    and "ptrs_backward (span_bytes s) (p + 2) \<Longrightarrow> returns (parse_rdata_mx s (window s p e))"
proof -
  note nm = returns_parse_name[OF _ _ e s] parse_name_bound[OF _ _ e s]
  show "returns (parse_rdata_one_domain_name C err s (window s p e))" if bk: "ptrs_backward (span_bytes s) p"
    unfolding parse_rdata_one_domain_name_def
    by (intro returns_TRY returns_or_fail nm pe bk) auto
  have two: "returns (COROSIG_TRY (or_fail b (parse_domain_name s (window s p e))) (\<lambda>(n, x).
      COROSIG_TRY (lift_option (subspan (unat n) (window s p e))) (\<lambda>w.
      COROSIG_TRY (or_fail b (parse_domain_name s w)) (\<lambda>(n, y). k x w n y))))"
    if bk: "\<forall>q \<in> set (two_names s p e). ptrs_backward (span_bytes s) q"
      and k: "\<And>x p n y. p \<le> e \<Longrightarrow> p + unat n \<le> e \<Longrightarrow> returns (k x (window s p e) n y)"
    for b :: ResponseDecodeError and k :: "DomainName \<Rightarrow> span \<Rightarrow> u8 \<Rightarrow> DomainName \<Rightarrow> (RData, ResponseDecodeError) result option"
  proof -
    have bk1: "ptrs_backward (span_bytes s) p"
      using bk by (simp add: two_names_def)
    show ?thesis
    proof (rule returns_TRY, rule returns_or_fail, rule nm(1)[OF bk1 pe], clarsimp simp: or_fail_Ok)
      fix n x
      assume parsed: "parse_domain_name s (window s p e) = Some (Ok (n, x))"
      then have n: "p + unat n \<le> e"
        by (rule nm(2)[OF bk1 pe])
      have bk2: "ptrs_backward (span_bytes s) (p + unat n)"
        using bk parsed by (simp add: two_names_def)
      show "returns (COROSIG_TRY (lift_option (subspan (unat n) (window s p e))) (\<lambda>w.
        COROSIG_TRY (or_fail b (parse_domain_name s w)) (\<lambda>(n, y). k x w n y)))"
        using subspan_window[OF n e] nm(2)[OF bk2 n] k[OF n]
        by (intro returns_TRY) (auto simp: or_fail_Ok intro!: returns_TRY returns_or_fail nm(1)[OF bk2 n])
    qed
  qed
  show "returns (parse_rdata_minfo s (window s p e))" if "\<forall>q \<in> set (two_names s p e). ptrs_backward (span_bytes s) q"
    unfolding parse_rdata_minfo_def Let_def by (rule two[OF that]) simp
  have c4: "returns (COROSIG_TRY (require b (consume_4_octets (window s p e))) (\<lambda>(v, w). k v w))"
    if "p \<le> e" "\<And>v p. p \<le> e \<Longrightarrow> returns (k v (window s p e))"
    for b :: ResponseDecodeError and k :: "u32 \<Rightarrow> span \<Rightarrow> (RData, ResponseDecodeError) result option" and p
    using that consume_4_bound[OF that(1) e] by (intro returns_TRY) auto
  show "returns (parse_rdata_soa s (window s p e))" if "\<forall>q \<in> set (two_names s p e). ptrs_backward (span_bytes s) q"
    unfolding parse_rdata_soa_def Let_def
  proof (rule two[OF that])
    fix x p n y
    assume "p \<le> e" and n: "p + unat n \<le> e"
    show "returns (COROSIG_TRY (lift_option (subspan (unat n) (window s p e))) (\<lambda>rdata_raw.
      COROSIG_TRY (require RESOURCE_RECORD_DATA_BAD_SOA (consume_4_octets rdata_raw)) (\<lambda>(serial, rdata_raw).
      COROSIG_TRY (require RESOURCE_RECORD_DATA_BAD_SOA (consume_4_octets rdata_raw)) (\<lambda>(refresh, rdata_raw).
      COROSIG_TRY (require RESOURCE_RECORD_DATA_BAD_SOA (consume_4_octets rdata_raw)) (\<lambda>(retry, rdata_raw).
      COROSIG_TRY (require RESOURCE_RECORD_DATA_BAD_SOA (consume_4_octets rdata_raw)) (\<lambda>(expire, rdata_raw).
      COROSIG_TRY (require RESOURCE_RECORD_DATA_BAD_SOA (consume_4_octets rdata_raw)) (\<lambda>(minimum, rdata_raw).
        Some (Ok (RDataStartOfAuthority x y serial refresh retry expire minimum)))))))))"
      using subspan_window[OF n e] n by - (rule returns_TRY, auto intro!: c4)
  qed
  show "returns (parse_rdata_hinfo (window s p e))"
    unfolding parse_rdata_hinfo_def Let_def
    using character_string_window[OF pe e] subspan_window[OF _ e, of p]
    by (intro returns_TRY) auto
  show "returns (parse_rdata_mx s (window s p e))" if bk: "ptrs_backward (span_bytes s) (p + 2)"
    unfolding parse_rdata_mx_def Let_def
    using consume_window(1)[OF pe e]
    by (intro returns_TRY) (auto simp: or_fail_Ok intro!: returns_TRY returns_or_fail nm(1)[OF bk[simplified]])
qed

lemma returns_parse_rdata_any:
  assumes "p \<le> e" and "e \<le> span_size s" and "span_size s < 2 ^ 64"
    and "\<forall>q \<in> set (rdata_names s rtype p e). ptrs_backward (span_bytes s) q"
  shows "returns (parse_rdata little s rtype (window s p e))"
  using returns_parse_rdata[OF assms(1-3)] assms(4)
  by (auto simp: parse_rdata_def parse_rdata_ipv4_def parse_rdata_ipv6_def rdata_names_def
      split: option.splits RdataType.splits)

section \<open>The operations of the decoder\<close>

definition step_ok :: "ResponseDecoder \<Rightarrow> (('a, ResponseDecodeError) result \<times> ResponseDecoder) option \<Rightarrow> bool" where
  "step_ok d m \<longleftrightarrow> (\<exists>r d'. m = Some (r, d') \<and> r \<noteq> Nothing \<and> decoder_inv d' \<and>
     (is_ok r \<longrightarrow> m_original_message d' = m_original_message d) \<and> (\<not> is_ok r \<longrightarrow> d' = invalidate d))"

lemma step_ok_invalidate [simp]: "step_ok d (Some (Failure e, invalidate d))"
  by (simp add: step_ok_def)

lemma step_ok_rest:
  assumes "decoder_inv d" and "p \<le> span_size (m_original_message d)"
  shows "step_ok d (Some (Ok v, d\<lparr>m_remaining_message := window (m_original_message d) p (span_size (m_original_message d))\<rparr>))"
  using decoder_inv_rest[OF assms] by (simp add: step_ok_def)

lemma decoder_inv_pos:
  assumes "decoder_inv d"
  shows "remaining_pos d \<le> span_size (m_original_message d)"
    and "m_remaining_message d = window (m_original_message d) (remaining_pos d) (span_size (m_original_message d))"
  using assms window_size[of "span_size (m_original_message d)" "m_original_message d"]
  by (auto simp: decoder_inv_def at_window remaining_pos_def)

text \<open>Consuming the octets of a name, then two octets at a time: an error invalidates.\<close>

lemma step_ok_name:
  assumes inv: "decoder_inv d" and bk: "question_backward d"
    and k: "\<And>n nm. parse_domain_name (m_original_message d) (at (m_original_message d) (remaining_pos d)) = Some (Ok (n, nm)) \<Longrightarrow>
      remaining_pos d + unat n \<le> span_size (m_original_message d) \<Longrightarrow>
      step_ok d (k nm (window (m_original_message d) (remaining_pos d + unat n) (span_size (m_original_message d))))"
  shows "step_ok d (Option.bind (parse_domain_name (m_original_message d) (m_remaining_message d)) (\<lambda>r. case r of
       Nothing \<Rightarrow> None
     | Failure e \<Rightarrow> Some (Failure e, invalidate d)
     | Ok (n, name) \<Rightarrow> Option.bind (subspan (unat n) (m_remaining_message d)) (\<lambda>rest. k name rest)))"
proof -
  note pos = decoder_inv_pos[OF inv]
  have sz: "span_size (m_original_message d) < 2 ^ 64"
    using inv by (simp add: decoder_inv_def)
  show ?thesis
    using parse_name_window[OF bk[unfolded question_backward_def] pos(1) order_refl sz]
      subspan_window[of "remaining_pos d" _ "span_size (m_original_message d)" "m_original_message d"] k pos(2)
    by (auto simp: at_window)
qed

lemma step_ok_consume_2:
  assumes "p \<le> span_size s"
    and "p + 2 \<le> span_size s \<Longrightarrow> step_ok d (k (read_ntoh (take 2 (drop p (span_bytes s)))) (window s (p + 2) (span_size s)))"
  shows "step_ok d (case consume_2_octets (window s p (span_size s)) of
      None \<Rightarrow> Some (Failure e, invalidate d) | Some (v, w) \<Rightarrow> k v w)"
  using consume_window(1,2)[OF assms(1) order_refl] assms(2) by auto

lemma step_ok_consume_4:
  assumes "p \<le> span_size s"
    and "\<And>v. p + 4 \<le> span_size s \<Longrightarrow> step_ok d (k v (window s (p + 4) (span_size s)))"
  shows "step_ok d (case consume_4_octets (window s p (span_size s)) of
      None \<Rightarrow> Some (Failure e, invalidate d) | Some (v, w) \<Rightarrow> k v w)"
  using consume_window(3)[OF assms(1) order_refl] assms(2) by auto

lemma step_ok_question:
  assumes "decoder_inv d" and "question_backward d"
  shows "step_ok d (consume_question_entry d)"
  unfolding consume_question_entry_def
  by (rule step_ok_name[OF assms] step_ok_consume_2 step_ok_rest[OF assms(1)] | assumption)+

lemma record_question_backward: "record_backward d \<Longrightarrow> question_backward d"
  by (simp add: record_backward_def question_backward_def record_names_def)

lemma step_ok_rdata:
  assumes inv: "decoder_inv d" and p: "p \<le> span_size (m_original_message d)"
    and bk: "\<forall>q \<in> set (rdata_names (m_original_message d) rtype p (p + unat rdlen)).
      ptrs_backward (span_bytes (m_original_message d)) q"
  defines "w \<equiv> window (m_original_message d) p (span_size (m_original_message d))"
  shows "step_ok d (if unat rdlen > span_size w then Some (Failure RESOURCE_RECORD_DATA_LEN_OOB, invalidate d)
               else
                 Option.bind (span_first (unat rdlen) w) (\<lambda>rdata_raw.
                 Option.bind (subspan (unat rdlen) w) (\<lambda>rest.
                 Option.bind (parse_rdata little (m_original_message d) rtype rdata_raw) (\<lambda>rdata.
                   case rdata of
                     Nothing \<Rightarrow> None
                   | Failure e \<Rightarrow> Some (Failure e, invalidate d)
                   | Ok rd \<Rightarrow> Some (Ok \<lparr>rr_name = name, rr_rdata = rd, rr_ttl = ttl\<rparr>,
                                    d\<lparr>m_remaining_message := rest\<rparr>)))))"
proof (cases "unat rdlen > span_size w")
  case False
  let ?s = "m_original_message d" and ?e = "span_size (m_original_message d)"
  have q: "p + unat rdlen \<le> ?e"
    using False p window_size[of ?e ?s p] by (simp add: w_def)
  have first: "span_first (unat rdlen) w = Some (window ?s p (p + unat rdlen))"
    using False q by (simp add: span_first_def window_def w_def)
  have sz: "?e < 2 ^ 64"
    using inv by (simp add: decoder_inv_def)
  obtain r where "parse_rdata little ?s rtype (window ?s p (p + unat rdlen)) = Some r" "r \<noteq> Nothing"
    using returns_parse_rdata_any[OF _ q sz bk, of little] by (auto simp: returns_def)
  then show ?thesis
    using False first subspan_window[OF q order_refl] step_ok_rest[OF inv q] by (cases r) (auto simp: w_def)
qed simp

lemma step_ok_resource_record:
  assumes inv: "decoder_inv d" and bk: "record_backward d"
  shows "step_ok d (consume_resource_record little d)"
proof -
  let ?s = "m_original_message d"
  have rdata: "\<forall>q \<in> set (rdata_names ?s (read_ntoh (take 2 (drop p (span_bytes ?s)))) (p + 2 + 2 + 4 + 2)
      (p + 2 + 2 + 4 + 2 + unat (read_ntoh (take 2 (drop (p + 2 + 2 + 4) (span_bytes ?s))) :: u16))).
      ptrs_backward (span_bytes ?s) q"
    if "parse_domain_name ?s (at ?s (remaining_pos d)) = Some (Ok (n, nm))" "p = remaining_pos d + unat n" for n nm p
    using bk that by (simp add: record_backward_def record_names_def Let_def add.commute numeral_eq_Suc)
  show ?thesis
    unfolding consume_resource_record_def
    by (rule step_ok_name[OF inv record_question_backward[OF bk]] step_ok_consume_2 step_ok_consume_4
        step_ok_rdata[OF inv] rdata refl | assumption)+
qed

text \<open>
  Claim C25. Each operation of the decoder returns a value or an error and reads no octet outside
  of the response, whatever the octets are: the header always, a question when the pointers met
  while parsing its name point backwards, a resource record when those met while parsing its
  owner and the names in its data do. The remaining part stays a suffix of the response. A
  header that is too short leaves the decoder as it was; after an error of the other two
  operations both spans of the decoder are empty.
\<close>

theorem decoder_safe:
  assumes "decoder_inv d"
  shows "decoder_inv (snd (consume_header d)) \<and> fst (consume_header d) \<noteq> Nothing \<and>
    (\<not> is_ok (fst (consume_header d)) \<longrightarrow> snd (consume_header d) = d) \<and>
    (question_backward d \<longrightarrow> step_ok d (consume_question_entry d)) \<and>
    (record_backward d \<longrightarrow> step_ok d (consume_resource_record little d))"
proof -
  note pos = decoder_inv_pos[OF assms]
  have "decoder_inv (snd (consume_header d)) \<and> fst (consume_header d) \<noteq> Nothing \<and>
      (\<not> is_ok (fst (consume_header d)) \<longrightarrow> snd (consume_header d) = d)"
    using assms pos decoder_inv_rest[OF assms, of "remaining_pos d + 12"]
      window_bytes[of "span_size (m_original_message d)" "m_original_message d" "remaining_pos d" 12]
      window_size[of "span_size (m_original_message d)" "m_original_message d" "remaining_pos d"]
    by (auto simp: consume_header_def Let_def not_less is_ok_def)
  then show ?thesis
    using step_ok_question[OF assms] step_ok_resource_record[OF assms] by blast
qed

text \<open>That pointers point backwards can be computed: a set of positions closed under the walk.\<close>

definition walk_step :: "octets \<Rightarrow> nat \<Rightarrow> nat list" where
  "walk_step m p = (case decode_compression_ptr (drop p m) of
     Some offset \<Rightarrow> [unat offset]
   | None \<Rightarrow> if p < length m \<and> 0 < unat (m ! p) then [p + 1 + unat (m ! p)] else [])"

definition closed_walk :: "octets \<Rightarrow> nat list \<Rightarrow> bool" where
  "closed_walk m ps = list_all (\<lambda>p. list_all (\<lambda>q. List.member ps q) (walk_step m p) \<and>
     (case decode_compression_ptr (drop p m) of Some offset \<Rightarrow> unat offset < p | None \<Rightarrow> True)) ps"

lemma closed_walk_backward:
  assumes "closed_walk m ps" and "p0 \<in> set ps"
  shows "ptrs_backward m p0"
proof -
  have "p \<in> set ps" if "passes m p0 p" for p
    using that
  proof induction
    case (label p)
    then show ?case
      using assms(1) by (auto simp: closed_walk_def list_all_iff walk_step_def)
  next
    case (ptr p offset)
    then show ?case
      using assms(1) by (auto simp: closed_walk_def list_all_iff walk_step_def)
  qed (rule assms(2))
  then show ?thesis
    using assms(1) by (fastforce simp: ptrs_backward_def closed_walk_def list_all_iff)
qed

text \<open>
  A response to a request for the addresses of \<^verbatim>\<open>a\<close>: its identifier and the address in its
  answer hold octets that would be pointers if they stood in a name, and the owner of the answer
  is a pointer to the name of the question.
\<close>

definition sample_response :: octets where
  "sample_response =
     [0xC0, 0xDE, 0x81, 0x80, 0, 1, 0, 1, 0, 0, 0, 0,
      1, 0x61, 0, 0, 1, 0, 1,
      0xC0, 12, 0, 1, 0, 1, 0, 0, 0x0E, 0x10, 0, 4, 192, 168, 0xC0, 7]"

definition sample_decoder :: "nat \<Rightarrow> ResponseDecoder" where
  "sample_decoder p = \<lparr>m_original_message = Span 64 sample_response,
     m_remaining_message = at (Span 64 sample_response) p\<rparr>"

lemma sample_walk: "closed_walk sample_response [12, 14, 19]"
  by code_simp

lemma sample_names:
  "name_at sample_response 12 [[0x61]] 3 0" "name_at sample_response 19 [[0x61]] 2 1"
proof -
  have root: "name_at sample_response 14 [] 1 0"
    by (rule name_at.root) (simp_all add: sample_response_def)
  then show q: "name_at sample_response 12 [[0x61]] 3 0"
    using name_at.label[of 12 sample_response 1 "[]" 1 0] by (simp add: sample_response_def eval_nat_numeral)
  have "decode_compression_ptr (drop 19 sample_response) = Some 12"
    by code_simp
  then show "name_at sample_response 19 [[0x61]] 2 1"
    using name_at.ptr[of 19 sample_response 12 "[[0x61]]" 3 0] q by (simp add: sample_response_def)
qed

lemma sample_steps:
  "record_names (Span 64 sample_response) 19 = [19]"
  "remaining_pos (sample_decoder 12) = 12" "remaining_pos (sample_decoder 19) = 19"
proof -
  have "parse_domain_name (Span 64 sample_response) (at (Span 64 sample_response) 19) =
      Some (Ok (2, name_result (Span 64 sample_response) 83))"
    using parse_domain_name_at[of "Span 64 sample_response" 19 "[[0x61]]" 2 1] sample_names(2)
    by (simp add: sample_response_def span_size_def)
  moreover have "rdata_names (Span 64 sample_response) (read_ntoh (take 2 (drop 21 sample_response))) 31 35 = []"
    and "unat (read_ntoh (take 2 (drop 29 sample_response)) :: u16) = 4"
    by code_simp+
  ultimately show "record_names (Span 64 sample_response) 19 = [19]"
    by (simp add: record_names_def Let_def)
  show "remaining_pos (sample_decoder 12) = 12" "remaining_pos (sample_decoder 19) = 19"
    by (simp_all add: remaining_pos_def sample_decoder_def sample_response_def span_size_def at_def)
qed

lemma sample_backward: "question_backward (sample_decoder 12)" "record_backward (sample_decoder 19)"
  using closed_walk_backward[OF sample_walk] sample_steps
  by (simp_all add: question_backward_def record_backward_def sample_decoder_def)

lemma sample_inv: "p \<le> 35 \<Longrightarrow> decoder_inv (sample_decoder p)"
  unfolding decoder_inv_def sample_decoder_def
  by (auto simp: sample_response_def span_size_def intro!: exI[of _ p])

theorem decoder_safe_witness:
  "decoder_inv (sample_decoder 12) \<and> decoder_inv (sample_decoder 19) \<and>
   step_ok (sample_decoder 12) (consume_question_entry (sample_decoder 12)) \<and>
   step_ok (sample_decoder 19) (consume_resource_record True (sample_decoder 19))"
  using decoder_safe[OF sample_inv[of 12], of True] decoder_safe[OF sample_inv[of 19], of True] sample_backward sample_inv
  by simp

section \<open>Narrow integers\<close>

text \<open>
  A record type is cut to its low octet before the parser is chosen: data of type 257
  (CAA) is parsed as the address of a type 1 record.
\<close>

theorem parse_rdata_truncates_type:
  "parse_rdata little s 257 (Span a [w, x, y, z]) =
     Some (Ok (RDataIpv4 (Ipv4Addr_from_bytes little [w, x, y, z])))"
proof -
  have "RdataType_of 257 = Some RT_A"
    by code_simp
  then show ?thesis
    by (simp add: parse_rdata_def parse_rdata_ipv4_def span_size_def)
qed

lemma name_at_labels:
  assumes "list_all label_ok ls" and "m = pre @ concat (map (\<lambda>l. word_of_nat (length l) # l) ls) @ post"
    and "name_at m (length m - length post) ls' n h"
  shows "\<exists>h'. name_at m (length pre) (ls @ ls') (sum_list (map (\<lambda>l. length l + 1) ls) + n) h'"
  using assms
proof (induction ls arbitrary: pre)
  case (Cons l ls)
  let ?pre = "pre @ word_of_nat (length l) # l"
  have l: "0 < length l" "length l \<le> 63"
    using Cons.prems(1) by (auto simp: label_ok_def)
  obtain h' where tail: "name_at m (length pre + 1 + length l) (ls @ ls') (sum_list (map (\<lambda>l. length l + 1) ls) + n) h'"
    using Cons.IH[of ?pre] Cons.prems by auto
  have "m ! length pre = word_of_nat (length l)" "take (length l) (drop (length pre + 1) m) = l"
      "length pre + 1 + length l \<le> length m" "length pre < length m"
    using Cons.prems(2) by (simp_all add: nth_append)
  moreover have "unat (word_of_nat (length l) :: u8) = length l"
    using l(2) by (simp add: unat_of_nat take_bit_eq_mod)
  ultimately show ?case
    using name_at.label[OF _ l _ _ tail] by (auto simp: add.assoc)
qed auto

definition wrap_labels :: "octets list" where
  "wrap_labels = [replicate 63 0x61, replicate 63 0x61, replicate 63 0x61, replicate 61 0x61]"

definition wrap_message :: octets where
  "wrap_message = 0 # concat (map (\<lambda>l. word_of_nat (length l) # l) wrap_labels) @ [0xC0, 0]"

text \<open>
  The count of octets to consume is a \<^verbatim>\<open>uint8_t\<close>: a valid name of 254 octets and a
  pointer occupies 256 octets of the message, and the decoder consumes none of them.
\<close>

theorem parse_domain_name_count_wraps:
  "parse_domain_name (Span a wrap_message) (at (Span a wrap_message) 1) =
     Some (Ok (0, name_result (Span a wrap_message) (a + 1)))"
proof -
  have len: "length wrap_message = 257"
    by (simp add: wrap_message_def wrap_labels_def)
  have root: "name_at wrap_message 0 [] 1 0"
    by (rule name_at.root) (simp_all add: wrap_message_def)
  have "drop 255 wrap_message = [0xC0, 0]"
    by (simp add: wrap_message_def wrap_labels_def)
  then have "decode_compression_ptr (drop 255 wrap_message) = Some 0"
    by (simp only:) code_simp
  then have p: "name_at wrap_message 255 [] 2 1"
    using name_at.ptr[of 255 wrap_message 0 "[]" 1 0] root len by simp
  have "list_all label_ok wrap_labels"
    by (simp add: wrap_labels_def label_ok_def)
  then obtain h where "name_at wrap_message 1 wrap_labels 256 h"
    using name_at_labels[of wrap_labels wrap_message "[0]" "[0xC0, 0]" "[]" 2 1] p len
    by (auto simp: wrap_message_def wrap_labels_def)
  then show ?thesis
    using parse_domain_name_at[of "Span a wrap_message" 1 wrap_labels 256 h] len
    by (simp add: span_size_def wrap_labels_def)
qed

end
