(* ===== verification/Corosig_Dns_Resolver_Claims.thy ===== *)
theory Corosig_Dns_Resolver_Claims
  imports Corosig_Dns_Resolver Corosig_Dns_Decoder_Claims
begin

text \<open>
  Properties of the resolver: when an answer is accepted and which addresses it gives, that no
  datagram whose names have backward pointers breaks the receiver, the invariant of the pending requests,
  and what the search for a free identifier does.
\<close>

section \<open>Accepted answers\<close>

text \<open>Comparing labels one by one against collecting them all.\<close>

lemma labels_equal_True: "labels_equal mem name it ls = Some True \<Longrightarrow> labels_from mem name it = Some ls"
proof (induction ls arbitrary: it)
  case Nil
  then show ?case
    by (simp add: labels_from.simps)
next
  case (Cons l ls)
  then show ?case
    by (subst labels_from.simps) (auto split: if_splits option.splits simp: bind_eq_Some_conv)
qed

lemma labels_equal_total:
  "labels_from mem name it = Some ls' \<Longrightarrow> labels_equal mem name it ls = Some (ls' = ls)"
proof (induction ls arbitrary: it ls')
  case Nil
  then show ?case
    by (subst (asm) labels_from.simps) (auto split: option.splits simp: bind_eq_Some_conv)
next
  case (Cons l ls)
  show ?case
  proof (cases it)
    case None
    then show ?thesis
      using Cons.prems by (subst (asm) labels_from.simps) simp
  next
    case (Some p)
    then obtain label it' labels where l: "labels_deref mem it = Some label" "labels_next mem name it = Some it'"
        "labels_from mem name it' = Some labels" "ls' = label # labels"
      using Cons.prems by (subst (asm) labels_from.simps) (auto simp: bind_eq_Some_conv)
    then show ?thesis
      using Some Cons.IH[OF l(3)] by simp
  qed
qed

lemma same_name_True: "same_name mem name ls = Some True \<longleftrightarrow> DomainName_labels mem name = Some ls"
  using labels_equal_total[of mem name _ ls ls]
  by (auto simp: same_name_def DomainName_labels_def bind_eq_Some_conv dest: labels_equal_True)

text \<open>Reading a number of resource records in sequence, and the addresses among them.\<close>

primrec read_rrs :: "bool \<Rightarrow> nat \<Rightarrow> ResponseDecoder \<Rightarrow> (ResourceRecord list \<times> ResponseDecoder) option" where
  "read_rrs little 0 d = Some ([], d)"
| "read_rrs little (Suc n) d = (case consume_resource_record little d of
     Some (Ok rr, d) \<Rightarrow> map_option (\<lambda>(rrs, d). (rr # rrs, d)) (read_rrs little n d)
   | _ \<Rightarrow> None)"

definition rr_address :: "(RData \<Rightarrow> 'ip option) \<Rightarrow> int \<Rightarrow> ResourceRecord \<Rightarrow> 'ip ResolvedAddress option" where
  "rr_address pick send_time rr =
     map_option (\<lambda>a. \<lparr>address = a, expires_at = expiry send_time (rr_ttl rr)\<rparr>) (pick (rr_rdata rr))"

lemma read_rrs_add:
  "read_rrs little (m + n) d = Option.bind (read_rrs little m d)
     (\<lambda>(xs, d). map_option (\<lambda>(ys, d). (xs @ ys, d)) (read_rrs little n d))"
  by (induction m arbitrary: d)
     (auto split: option.splits result.splits prod.splits simp: map_option_case bind_eq_Some_conv)

lemma consume_rrs_Ok: "consume_rrs little n d = Some (Ok (), d') \<longleftrightarrow> (\<exists>rrs. read_rrs little n d = Some (rrs, d'))"
  by (induction n arbitrary: d)
     (auto simp: bind_eq_Some_conv split: option.splits result.splits prod.splits)

lemma void_consume_Ok:
  "void_consume_ns_ar_rrs little h d = Some (Ok (), d') \<longleftrightarrow>
     (\<exists>rrs. read_rrs little (unat (hdr_nscount h) + unat (hdr_arcount h)) d = Some (rrs, d'))"
proof -
  have "void_consume_ns_ar_rrs little h d = Some (Ok (), d') \<longleftrightarrow>
    (\<exists>d1. consume_rrs little (unat (hdr_nscount h)) d = Some (Ok (), d1) \<and>
          consume_rrs little (unat (hdr_arcount h)) d1 = Some (Ok (), d'))"
    by (auto simp: void_consume_ns_ar_rrs_def bind_eq_Some_conv split: result.splits) (metis old.unit.exhaust result.exhaust)
  then show ?thesis
    unfolding consume_rrs_Ok read_rrs_add by (fastforce simp: bind_eq_Some_conv)
qed

lemma answers_loop_Ok:
  "answers_loop little pick t n sp out d = Some (Ok (), out', d') \<longleftrightarrow>
     (\<exists>rrs. read_rrs little n d = Some (rrs, d') \<and> out' = out @ take sp (List.map_filter (rr_address pick t) rrs))"
proof (induction n arbitrary: sp out d)
  case 0
  show ?case
    by (auto simp: map_filter_simps)
next
  case (Suc n)
  show ?case
    by (cases sp) (auto simp: bind_eq_Some_conv Suc map_filter_simps rr_address_def
        split: option.splits result.splits prod.splits)
qed


text \<open>An error is passed on: success comes from success.\<close>

lemma try_Ok:
  "(case r of Nothing \<Rightarrow> None | Ok v \<Rightarrow> k v | Failure e \<Rightarrow> Some (Failure (f e), g e)) = Some (Ok x, y) \<longleftrightarrow>
     (\<exists>v. r = Ok v \<and> k v = Some (Ok x, y))"
  by (cases r) simp_all

lemma validate_response_Ok:
  "validate_response mem h q d = Some (Ok (), d') \<longleftrightarrow>
     get_rcode (hdr_flags h) = 0 \<and> is_response (hdr_flags h) \<and> \<not> truncated (hdr_flags h) \<and> hdr_qdcount h = 1 \<and>
     (\<exists>entry. consume_question_entry d = Some (Ok entry, d') \<and>
        DomainName_labels mem (dq_name entry) = Some (split_into_labels (q_name q)) \<and>
        dq_qclass entry = q_qclass q \<and> dq_qtype entry = q_qtype q)"
  unfolding same_name_True[symmetric]
  by (auto simp: validate_response_def Let_def THE_ONLY_VALID_QDCOUNT_def bind_eq_Some_conv try_Ok split: if_splits)

text \<open>
  Claim C5. Exactly when a response is accepted and with which addresses: the response code is
  zero, it is a response, not truncated, with one question whose labels, type and class are
  those of the request, and all its resource records can be decoded; the addresses are those of
  the requested family among the answers, in their order, up to the size of the buffer, each
  with its lifetime added to the time of sending, and their number is returned.
\<close>

theorem process_server_answer_iff:
  "process_server_answer_impl little pick mem h q t sp d = Some (Ok n, out) \<longleftrightarrow>
     get_rcode (hdr_flags h) = 0 \<and> is_response (hdr_flags h) \<and> \<not> truncated (hdr_flags h) \<and> hdr_qdcount h = 1 \<and>
     (\<exists>entry d1 answers d2 others d3. consume_question_entry d = Some (Ok entry, d1) \<and>
        DomainName_labels mem (dq_name entry) = Some (split_into_labels (q_name q)) \<and>
        dq_qclass entry = q_qclass q \<and> dq_qtype entry = q_qtype q \<and>
        read_rrs little (unat (hdr_ancount h)) d1 = Some (answers, d2) \<and>
        read_rrs little (unat (hdr_nscount h) + unat (hdr_arcount h)) d2 = Some (others, d3) \<and>
        out = take sp (List.map_filter (rr_address pick t) answers)) \<and> n = length out"
proof -
  have "process_server_answer_impl little pick mem h q t sp d = Some (Ok n, out) \<longleftrightarrow>
    (\<exists>d1 d2 d3. validate_response mem h q d = Some (Ok (), d1) \<and>
       answers_loop little pick t (unat (hdr_ancount h)) sp [] d1 = Some (Ok (), out, d2) \<and>
       void_consume_ns_ar_rrs little h d2 = Some (Ok (), d3)) \<and> n = length out"
    by (auto simp: process_server_answer_impl_def bind_eq_Some_conv try_Ok)
  then show ?thesis
    unfolding validate_response_Ok answers_loop_Ok void_consume_Ok by auto
qed


section \<open>Any datagram is survived\<close>

text \<open>A decoder on a part of the receive buffer that does not reach its end.\<close>

definition decodes :: "span \<Rightarrow> ResponseDecoder \<Rightarrow> bool" where
  "decodes mem d \<longleftrightarrow> decoder_inv d \<and> span_data (m_original_message d) = span_data mem \<and>
     (\<exists>extra. extra \<noteq> [] \<and> span_bytes mem = span_bytes (m_original_message d) @ extra)"

text \<open>
  The pointers met while decoding a datagram point backwards: those of the question's name and
  those of the records that are read, as many as the header announces. Nothing is asked of octets
  that are not read as a part of a name.
\<close>

primrec records_backward :: "bool \<Rightarrow> nat \<Rightarrow> ResponseDecoder \<Rightarrow> bool" where
  "records_backward little 0 d = True"
| "records_backward little (Suc n) d = (record_backward d \<and>
     (case consume_resource_record little d of Some (Ok _, d') \<Rightarrow> records_backward little n d' | _ \<Rightarrow> True))"

definition datagram_backward :: "bool \<Rightarrow> span \<Rightarrow> bool" where
  "datagram_backward little s = (case consume_header (ResponseDecoder_make s) of
     (Ok h, d) \<Rightarrow> question_backward d \<and> (case consume_question_entry d of
         Some (Ok _, d') \<Rightarrow> records_backward little (unat (hdr_ancount h) + (unat (hdr_nscount h) + unat (hdr_arcount h))) d'
       | _ \<Rightarrow> True)
   | _ \<Rightarrow> True)"

lemma records_backward_add:
  "records_backward little (m + n) d \<longleftrightarrow> records_backward little m d \<and>
     (\<forall>rrs d'. read_rrs little m d = Some (rrs, d') \<longrightarrow> records_backward little n d')"
  by (induction m arbitrary: d) (fastforce split: option.splits result.splits prod.splits)+

lemma step_ok_decodes:
  assumes "step_ok d m" and "decodes mem d"
  obtains (ok) v d' where "m = Some (Ok v, d')" and "decodes mem d'"
  | (failed) e d' where "m = Some (Failure e, d')"
  using assms by (cases m) (auto simp: step_ok_def decodes_def is_ok_def split: result.splits; metis result.exhaust)+

lemma decodes_record: "decodes mem d \<Longrightarrow> record_backward d \<Longrightarrow> step_ok d (consume_resource_record little d)"
  by (simp add: decodes_def step_ok_resource_record)

lemma decodes_question: "decodes mem d \<Longrightarrow> question_backward d \<Longrightarrow> step_ok d (consume_question_entry d)"
  by (simp add: decodes_def step_ok_question)

lemma consume_rrs_returns:
  "decodes mem d \<Longrightarrow> records_backward little n d \<Longrightarrow>
     \<exists>r d'. consume_rrs little n d = Some (r, d') \<and> r \<noteq> Nothing \<and> (is_ok r \<longrightarrow> decodes mem d')"
proof (induction n arbitrary: d)
  case (Suc n)
  have bk: "record_backward d"
    using Suc.prems(2) by simp
  show ?case
    using decodes_record[OF Suc.prems(1) bk, of little] Suc.prems(1)
    by (cases rule: step_ok_decodes) (use Suc.IH Suc.prems(2) in \<open>auto simp: is_ok_def\<close>)
qed (simp add: is_ok_def)

lemma void_consume_returns:
  assumes "decodes mem d" and bk: "records_backward little (unat (hdr_nscount h) + unat (hdr_arcount h)) d"
  shows "\<exists>r d'. void_consume_ns_ar_rrs little h d = Some (r, d') \<and> r \<noteq> Nothing"
proof -
  obtain r d' where r: "consume_rrs little (unat (hdr_nscount h)) d = Some (r, d')" "r \<noteq> Nothing" "is_ok r \<longrightarrow> decodes mem d'"
    using consume_rrs_returns[OF assms(1), of little "unat (hdr_nscount h)"] bk unfolding records_backward_add by blast
  have "is_ok r \<longrightarrow> records_backward little (unat (hdr_arcount h)) d'"
    using bk r(1) by (cases r) (auto simp: records_backward_add consume_rrs_Ok is_ok_def)
  then show ?thesis
    using r consume_rrs_returns[of mem d' little "unat (hdr_arcount h)"]
    by (cases r) (auto simp: void_consume_ns_ar_rrs_def is_ok_def)
qed

lemma answers_loop_returns:
  "decodes mem d \<Longrightarrow> records_backward little n d \<Longrightarrow>
     \<exists>r out' d'. answers_loop little pick t n sp out d = Some (r, out', d') \<and> r \<noteq> Nothing \<and>
     (is_ok r \<longrightarrow> decodes mem d')"
proof (induction n arbitrary: d sp out)
  case (Suc n)
  have bk: "record_backward d"
    using Suc.prems(2) by simp
  show ?case
    using decodes_record[OF Suc.prems(1) bk, of little] Suc.prems(1)
    by (cases rule: step_ok_decodes) (use Suc.IH Suc.prems(2) in \<open>auto simp: is_ok_def split: option.splits\<close>)
qed (simp add: is_ok_def)

text \<open>The name of a decoded question can be compared.\<close>

lemma question_name_readable:
  assumes "decodes mem d" and "consume_question_entry d = Some (Ok entry, d')"
  shows "\<exists>b. same_name mem (dq_name entry) ls = Some b"
proof -
  let ?s = "m_original_message d"
  obtain p where p: "m_remaining_message d = at ?s p"
    using assms(1) by (auto simp: decodes_def decoder_inv_def)
  obtain n where "parse_domain_name ?s (at ?s p) = Some (Ok (n, dq_name entry))"
  proof (cases "parse_domain_name ?s (at ?s p)")
    case (Some r)
    then show ?thesis
      using assms(2) that unfolding p consume_question_entry_def
      by (cases r) (auto simp: bind_eq_Some_conv split: option.split_asm prod.split_asm, metis DecodeQuestionEntrySuccess.select_convs(1))
  qed (use assms(2) in \<open>simp add: p consume_question_entry_def\<close>)
  then have loop: "parse_name_loop ?s (span_data ?s + p) True 0 0 (at ?s p) = Some (Ok (n, dq_name entry))"
    by (simp add: parse_domain_name_def)
  then obtain labels k h where l: "name_at (span_bytes ?s) p labels k h" "name_len labels \<le> 255"
    using parse_name_loop_sound[OF loop] by auto
  have sz: "span_size ?s < 2 ^ 64"
    using assms(1) by (simp add: decodes_def decoder_inv_def)
  have nm: "dq_name entry = name_result ?s (span_data ?s + p)"
    using loop parse_name_loop_complete[OF l(1) sz, of 0 "span_data ?s + p" True 0] l(2) by simp
  obtain extra where e: "extra \<noteq> []" "span_bytes mem = span_bytes ?s @ extra" "span_data ?s = span_data mem"
    using assms(1) by (auto simp: decodes_def)
  have "Option.bind (adwance mem (span_data mem) (span_data mem + p)) (labels_from mem (dq_name entry)) = Some labels"
    using labels_complete[OF l(1) e(2,1), of "dq_name entry"] nm e(3) by (simp add: name_result_def)
  then obtain it where it: "adwance mem (span_data mem) (span_data mem + p) = Some it"
      "labels_from mem (dq_name entry) it = Some labels"
    by (auto simp: bind_eq_Some_conv)
  then show ?thesis
    using labels_equal_total[OF it(2), of ls] nm e(3)
    by (simp add: same_name_def labels_begin_def name_result_def)
qed

lemma validate_returns:
  assumes "decodes mem d" and bk: "question_backward d"
  shows "\<exists>r d'. validate_response mem h q d = Some (r, d') \<and> r \<noteq> Nothing \<and> (is_ok r \<longrightarrow> decodes mem d')"
proof -
  have "\<exists>r d'. Option.bind (consume_question_entry d) (\<lambda>(r, d). case r of
        Nothing \<Rightarrow> None
      | Failure e \<Rightarrow> Some (Failure (Decode_Error e), d)
      | Ok entry \<Rightarrow> Option.bind (same_name mem (dq_name entry) (split_into_labels (q_name q))) (\<lambda>same.
          Some (if \<not> same \<or> dq_qclass entry \<noteq> q_qclass q \<or> dq_qtype entry \<noteq> q_qtype q
                then Failure (Code_Error QUESTION_VALUE_MISMATCH) else Ok (), d))) = Some (r, d') \<and>
      r \<noteq> Nothing \<and> (is_ok r \<longrightarrow> decodes mem d')"
    using decodes_question[OF assms] assms(1)
  proof (cases rule: step_ok_decodes)
    case (ok entry d')
    then show ?thesis
      using question_name_readable[OF assms(1) ok(1), of "split_into_labels (q_name q)"] by (auto simp: is_ok_def)
  qed (auto simp: is_ok_def)
  then show ?thesis
    unfolding validate_response_def Let_def by (simp add: is_ok_def)
qed

definition answer_backward :: "bool \<Rightarrow> Header \<Rightarrow> ResponseDecoder \<Rightarrow> bool" where
  "answer_backward little h d \<longleftrightarrow> question_backward d \<and> (case consume_question_entry d of
     Some (Ok _, d') \<Rightarrow> records_backward little (unat (hdr_ancount h) + (unat (hdr_nscount h) + unat (hdr_arcount h))) d'
   | _ \<Rightarrow> True)"

lemma process_answer_returns:
  assumes dec: "decodes mem d" and bk: "answer_backward little h d"
  shows "\<exists>r out. process_server_answer_impl little pick mem h q t sp d = Some (r, out) \<and> r \<noteq> Nothing"
proof -
  obtain r d1 where v: "validate_response mem h q d = Some (r, d1)" "r \<noteq> Nothing" "is_ok r \<longrightarrow> decodes mem d1"
    using validate_returns[OF dec, of h q] bk unfolding answer_backward_def by blast
  show ?thesis
  proof (cases r)
    case (Ok u)
    then have d1: "decodes mem d1"
      using v(3) by (simp add: is_ok_def)
    obtain entry where "consume_question_entry d = Some (Ok entry, d1)"
      using v(1) validate_response_Ok[of mem h q d d1] Ok by auto
    then have rbk: "records_backward little (unat (hdr_ancount h) + (unat (hdr_nscount h) + unat (hdr_arcount h))) d1"
      using bk by (simp add: answer_backward_def)
    then obtain s out d2 where a: "answers_loop little pick t (unat (hdr_ancount h)) sp [] d1 = Some (s, out, d2)"
        "s \<noteq> Nothing" "is_ok s \<longrightarrow> decodes mem d2"
      using answers_loop_returns[OF d1, of little "unat (hdr_ancount h)" pick t sp "[]"]
      unfolding records_backward_add[of _ "unat (hdr_ancount h)"] by blast
    show ?thesis
    proof (cases s)
      case (Ok u')
      then have d2: "decodes mem d2"
        using a(3) by (simp add: is_ok_def)
      have "records_backward little (unat (hdr_nscount h) + unat (hdr_arcount h)) d2"
        using rbk a(1) Ok by (auto simp: records_backward_add[of _ "unat (hdr_ancount h)"] answers_loop_Ok)
      then obtain s' d3 where "void_consume_ns_ar_rrs little h d2 = Some (s', d3)" "s' \<noteq> Nothing"
        using void_consume_returns[OF d2] by blast
      then show ?thesis
        using v(1) a(1) \<open>r = Ok u\<close> \<open>s = Ok u'\<close> by (cases s') (auto simp: process_server_answer_impl_def)
    qed (use v a \<open>r = Ok u\<close> in \<open>auto simp: process_server_answer_impl_def\<close>)
  qed (use v in \<open>auto simp: process_server_answer_impl_def\<close>)
qed

lemma pending_answer_returns:
  assumes dec: "decodes mem d" and bk: "answer_backward little h d"
  shows "\<exists>p'. process_server_answer little mem h d p = Some p' \<and> req_result p' \<noteq> Nothing \<and>
    req_question p' = req_question p"
proof (cases "req_out p")
  case (Out_Ipv4 n out)
  then show ?thesis
    using process_answer_returns[OF dec bk, where pick = pick_ipv4 and q = "req_question p" and t = "req_send_time p" and sp = n]
    by (auto simp: process_server_answer_def)
next
  case (Out_Ipv6 n out)
  then show ?thesis
    using process_answer_returns[OF dec bk, where pick = pick_ipv6 and q = "req_question p" and t = "req_send_time p" and sp = n]
    by (auto simp: process_server_answer_def)
qed

lemma find_request_first:
  assumes "find_request x ps < length ps"
  shows "req_id (ps ! find_request x ps) = x" and "\<forall>j < find_request x ps. req_id (ps ! j) \<noteq> x"
proof -
  show "req_id (ps ! find_request x ps) = x"
    using assms nth_length_takeWhile[of "\<lambda>p. req_id p \<noteq> x" ps] by (simp add: find_request_def)
  show "\<forall>j < find_request x ps. req_id (ps ! j) \<noteq> x"
    unfolding find_request_def by (metis (mono_tags, lifting) nth_mem set_takeWhileD takeWhile_nth)
qed

text \<open>
  Claim C26. Whatever octets a datagram holds, as long as it is shorter than the receive buffer
  and the compression pointers met while reading the names of its question and of the records
  its header announces point backwards, handling it returns without reading outside of the
  buffer. It either changes nothing, or it takes the first pending request with the
  identifier in its first two octets out of the pending requests and hands it, with a result and
  its question unchanged, to the reactor; no other request is touched.
\<close>

theorem receive_datagram_safe:
  assumes "n < span_size mem" and "span_size mem < 2 ^ 64" and "datagram_backward little (Span (span_data mem) (take n (span_bytes mem)))"
  shows "\<exists>res'. receive_datagram little mem n res = Some res' \<and>
    (res' = res \<or>
     (\<exists>i p. 12 \<le> n \<and> i < length (m_pending_requests res) \<and>
        req_id (m_pending_requests res ! i) = read_ntoh (take 2 (span_bytes mem)) \<and>
        (\<forall>j < i. req_id (m_pending_requests res ! j) \<noteq> read_ntoh (take 2 (span_bytes mem))) \<and>
        req_result p \<noteq> Nothing \<and> req_question p = req_question (m_pending_requests res ! i) \<and>
        res' = res\<lparr>m_pending_requests := take i (m_pending_requests res) @ drop (i + 1) (m_pending_requests res),
                  m_scheduled_requests := m_scheduled_requests res @ [p]\<rparr>))"
proof -
  let ?ps = "m_pending_requests res" and ?s = "Span (span_data mem) (take n (span_bytes mem))"
  let ?d = "ResponseDecoder_make ?s"
  have mn: "min n (span_size mem) = n"
    using assms(1) by simp
  show ?thesis
  proof (cases "12 \<le> n")
    case False
    then have "consume_header ?d = (Failure WRONG_HEADER_BYTES_COUNT, ?d)"
      using assms(1) by (simp add: consume_header_def ResponseDecoder_make_def span_size_def)
    then show ?thesis
      by (simp add: receive_datagram_def mn Let_def)
  next
    case True
    then obtain h d where h: "consume_header ?d = (Ok h, d)" "hdr_id h = read_ntoh (take 2 (span_bytes mem))"
        "d = ?d\<lparr>m_remaining_message := at ?s 12\<rparr>"
      using assms(1) by (simp add: consume_header_def ResponseDecoder_make_def span_size_def at_def Let_def)
    have dec: "decodes mem d"
      using assms True h(3) unfolding decodes_def decoder_inv_def
      by (auto simp: ResponseDecoder_make_def span_size_def intro!: exI[of _ 12] exI[of _ "drop n (span_bytes mem)"])
    have bk: "answer_backward little h d"
      using assms(3) by (simp add: datagram_backward_def answer_backward_def h(1))
    let ?i = "find_request (hdr_id h) ?ps"
    show ?thesis
    proof (cases "?i = length ?ps")
      case True
      then show ?thesis
        by (simp add: receive_datagram_def mn Let_def h(1))
    next
      case False
      have "?i \<le> length ?ps"
        unfolding find_request_def by (rule length_takeWhile_le)
      then have i: "?i < length ?ps"
        using False by (rule le_neq_implies_less)
      note f = find_request_first[OF i]
      obtain p where p: "process_server_answer little mem h d (?ps ! ?i) = Some p" "req_result p \<noteq> Nothing"
          "req_question p = req_question (?ps ! ?i)"
        using pending_answer_returns[OF dec bk] by blast
      then show ?thesis
        using i f h(2) True False
        by (intro exI[of _ "res\<lparr>m_pending_requests := take ?i ?ps @ drop (?i + 1) ?ps,
              m_scheduled_requests := m_scheduled_requests res @ [p]\<rparr>"] conjI disjI2 exI[of _ ?i] exI[of _ p])
           (simp_all add: receive_datagram_def mn h(1) Let_def)
    qed
  qed
qed


definition demo_pending :: PendingRequest where
  "demo_pending =
     \<lparr>req_result = Nothing, req_send_time = 0,
      req_question = \<lparr>q_id = 0, q_opcode = 0, q_recursion_desired = True, q_name = [0x61], q_qtype = 1, q_qclass = 1\<rparr>,
      req_out = Out_Ipv4 1 []\<rparr>"

definition demo_resolver :: CachelessResolver where
  "demo_resolver =
     \<lparr>m_rand_gen = \<lparr>m_state = replicate 16 0, m_working_state = replicate 16 0, m_pos = 0\<rparr>,
      m_pending_requests = [demo_pending],
      m_scheduled_requests = []\<rparr>"

text \<open>A resolver waiting for \<^term>\<open>sample_response\<close>, and that response in a receive buffer.\<close>

definition sample_resolver :: CachelessResolver where
  "sample_resolver = demo_resolver\<lparr>m_pending_requests :=
     [demo_pending\<lparr>req_question := (req_question demo_pending)\<lparr>q_id := 0xC0DE\<rparr>\<rparr>]\<rparr>"

definition sample_buffer :: span where
  "sample_buffer = Span 64 (sample_response @ replicate 477 0)"

lemma sample_question: "consume_question_entry (sample_decoder 12) =
    Some (Ok \<lparr>dq_name = name_result (Span 64 sample_response) 76, dq_qtype = 1, dq_qclass = 1\<rparr>, sample_decoder 19)"
proof -
  let ?s = "Span 64 sample_response"
  have "parse_domain_name ?s (at ?s 12) = Some (Ok (3, name_result ?s 76))"
    using parse_domain_name_at[of ?s 12 "[[0x61]]" 3 0] sample_names(1) by (simp add: sample_response_def span_size_def)
  moreover have "Option.bind (subspan 3 (at ?s 12)) (\<lambda>rest. Option.bind (consume_2_octets rest) (\<lambda>(x, rest).
      map_option (Pair x) (consume_2_octets rest))) = Some (1, 1, at ?s 19)"
    by code_simp
  ultimately show ?thesis
    by (auto simp: consume_question_entry_def sample_decoder_def bind_eq_Some_conv)
qed

lemma sample_datagram_backward: "datagram_backward True (Span 64 sample_response)"
proof -
  have "fst (consume_header (ResponseDecoder_make (Span 64 sample_response))) = Ok \<lparr>hdr_id = 0xC0DE,
      hdr_flags = 0x8180, hdr_qdcount = 1, hdr_ancount = 1, hdr_nscount = 0, hdr_arcount = 0\<rparr> \<and>
    m_remaining_message (snd (consume_header (ResponseDecoder_make (Span 64 sample_response)))) =
      m_remaining_message (sample_decoder 12) \<and>
    m_original_message (snd (consume_header (ResponseDecoder_make (Span 64 sample_response)))) = Span 64 sample_response"
    by code_simp
  then have "consume_header (ResponseDecoder_make (Span 64 sample_response)) = (Ok \<lparr>hdr_id = 0xC0DE,
      hdr_flags = 0x8180, hdr_qdcount = 1, hdr_ancount = 1, hdr_nscount = 0, hdr_arcount = 0\<rparr>, sample_decoder 12)"
    by (simp add: prod_eq_iff sample_decoder_def)
  then show ?thesis
    using sample_backward by (simp add: datagram_backward_def sample_question split: option.split result.split)
qed

theorem receive_datagram_safe_witness:
  "35 < span_size sample_buffer \<and> span_size sample_buffer < 2 ^ 64 \<and> 
   datagram_backward True (Span (span_data sample_buffer) (take 35 (span_bytes sample_buffer))) \<and>
   (\<exists>res'. receive_datagram True sample_buffer 35 sample_resolver = Some res')"
proof -
  have size: "35 < span_size sample_buffer" "span_size sample_buffer < 2 ^ 64" and
    octets: "take 35 (span_bytes sample_buffer) = sample_response" "span_data sample_buffer = 64"
    by (simp_all add: sample_buffer_def sample_response_def span_size_def)
  show ?thesis
    using receive_datagram_safe[OF size, of True sample_resolver] sample_datagram_backward size octets by auto
qed

section \<open>The pending requests\<close>

definition resolver_inv :: "CachelessResolver \<Rightarrow> bool" where
  "resolver_inv res \<longleftrightarrow> gen_ok (m_rand_gen res) \<and> sorted (map req_id (m_pending_requests res)) \<and>
     length (m_pending_requests res) \<le> 0xFFFF \<and>
     (\<forall>p \<in> set (m_pending_requests res). \<not> request_ready p) \<and> (\<forall>p \<in> set (m_scheduled_requests res). request_ready p)"

definition same_but_time :: "PendingRequest list \<Rightarrow> PendingRequest list \<Rightarrow> bool" where
  "same_but_time = list_all2 (\<lambda>p q. \<exists>t. q = p\<lparr>req_send_time := t\<rparr>)"

text \<open>
  What can happen between two suspension points: a request is started, a datagram arrives, sending
  for a pending request fails, the reactor resumes a scheduled request, or requests are sent again,
  which changes their times of sending.
\<close>

inductive resolver_step :: "CachelessResolver \<Rightarrow> CachelessResolver \<Rightarrow> bool" where
  request: "formulate_and_process_request little hash grow addrs name out res = Some (r, res') \<Longrightarrow>
    resolver_step res res'"
| datagram: "receive_datagram little mem n res = Some res' \<Longrightarrow> resolver_step res res'"
| failed_send: "it < length (m_pending_requests res) \<Longrightarrow> resolver_step res (send_failed e it res)"
| resume: "m_scheduled_requests res = ps @ p # ps' \<Longrightarrow>
    resolver_step res (res\<lparr>m_scheduled_requests := ps @ ps'\<rparr>)"
| sent: "same_but_time (m_pending_requests res) ps \<Longrightarrow> same_but_time (m_scheduled_requests res) qs \<Longrightarrow>
    resolver_step res (res\<lparr>m_pending_requests := ps, m_scheduled_requests := qs\<rparr>)"

inductive resolver_run :: "CachelessResolver \<Rightarrow> bool" where
  start: "length seed = 32 \<Longrightarrow> resolver_run (CachelessResolver_make little garbage seed)"
| step: "resolver_run res \<Longrightarrow> resolver_step res res' \<Longrightarrow> resolver_run res'"

lemma set_insert_request: "set (insert_request p ps) = insert p (set ps)"
  using takeWhile_dropWhile_id[of "\<lambda>q. req_id q \<le> req_id p" ps] unfolding insert_request_def
  by (metis Un_insert_right list.simps(15) set_append)

lemma length_insert_request: "length (insert_request p ps) = Suc (length ps)"
  using takeWhile_dropWhile_id[of "\<lambda>q. req_id q \<le> req_id p" ps] unfolding insert_request_def
  by (metis add_Suc_right length_Cons length_append)

lemma sorted_insert_request: "sorted (map req_id ps) \<Longrightarrow> sorted (map req_id (insert_request p ps))"
proof (induction ps)
  case (Cons q ps)
  show ?case
  proof (cases "req_id q \<le> req_id p")
    case True
    then have "insert_request p (q # ps) = q # insert_request p ps"
      by (simp add: insert_request_def)
    then show ?thesis
      using Cons True set_insert_request[of p ps] by auto
  next
    case False
    then show ?thesis
      using Cons.prems by (auto simp: insert_request_def)
  qed
qed (simp add: insert_request_def)

lemma remove_request:
  "sorted (map req_id ps) \<Longrightarrow> sorted (map req_id (take i ps @ drop (i + 1) ps))"
  "set (take i ps @ drop (i + 1) ps) \<subseteq> set ps" "length (take i ps @ drop (i + 1) ps) \<le> length ps"
  using sorted_append[of "take i (map req_id ps)" "drop i (map req_id ps)"] set_drop_subset_set_drop[of i "i + 1" "map req_id ps"]
  by (auto simp: sorted_append take_map[symmetric] drop_map[symmetric] sorted_wrt_drop sorted_wrt_take
      dest: in_set_takeD in_set_dropD)

lemma try_Nothing:
  "(case r of Nothing \<Rightarrow> None | Ok v \<Rightarrow> k v | Failure e \<Rightarrow> Some (Failure (f e), g e)) = Some (Nothing, y) \<longleftrightarrow>
     (\<exists>v. r = Ok v \<and> k v = Some (Nothing, y))"
  by (cases r) simp_all

lemma process_answer_not_Nothing:
  "process_server_answer_impl little pick mem h q t n d = Some (r, out) \<Longrightarrow> r \<noteq> Nothing"
  by (auto simp: process_server_answer_impl_def bind_eq_Some_conv try_Nothing)

lemma answer_not_Nothing: "process_server_answer little mem h d p = Some p' \<Longrightarrow> request_ready p'"
  by (auto simp: process_server_answer_def request_ready_def is_nothing_def
      split: out_span.splits result.splits dest: process_answer_not_Nothing)

lemma process_request_inv:
  assumes "process_request little hash grow p res = Some (r, res')" and "resolver_inv res"
    and "length (m_pending_requests res) \<noteq> 0xFFFF" and "req_result p = Nothing"
  shows "resolver_inv res'"
proof -
  obtain bs gen msg where g: "generate_bytes little 2 (m_rand_gen res) = Some (bs, gen)"
    and res': "res' = res\<lparr>m_rand_gen := gen\<rparr> \<or>
      res' = res\<lparr>m_rand_gen := gen, m_pending_requests :=
        insert_request (p\<lparr>req_question := (req_question p)\<lparr>q_id := of_mem_bytes little bs\<rparr>\<rparr>) (m_pending_requests res)\<rparr>"
    using assms(1) by (auto simp: process_request_def bind_eq_Some_conv Let_def split: result.splits) (metis result.exhaust)
  have "gen_ok gen"
    using generate_loop_ok[of "m_rand_gen res" little 2 "[]"] g assms(2)
    by (auto simp: generate_bytes_def resolver_inv_def)
  then show ?thesis
    using res' assms(2-4) sorted_insert_request
    by (auto simp: resolver_inv_def set_insert_request length_insert_request request_ready_def is_nothing_def)
qed

lemma resolver_inv_taken:
  assumes "resolver_inv res" and "request_ready p"
  shows "resolver_inv (res\<lparr>m_pending_requests := take i (m_pending_requests res) @ drop (i + 1) (m_pending_requests res),
    m_scheduled_requests := m_scheduled_requests res @ [p]\<rparr>)"
proof -
  note r = remove_request[where ps = "m_pending_requests res" and i = i]
  have "\<forall>q \<in> set (take i (m_pending_requests res) @ drop (i + 1) (m_pending_requests res)). \<not> request_ready q"
    using assms(1) r(2) by (auto simp: resolver_inv_def)
  moreover have "sorted (map req_id (take i (m_pending_requests res) @ drop (i + 1) (m_pending_requests res)))"
    using assms(1) r(1) by (simp add: resolver_inv_def)
  moreover have "length (take i (m_pending_requests res) @ drop (i + 1) (m_pending_requests res)) \<le> 0xFFFF"
    using assms(1) r(3) unfolding resolver_inv_def by linarith
  ultimately show ?thesis
    using assms unfolding resolver_inv_def by simp
qed

lemma same_but_time_facts:
  assumes "same_but_time ps qs"
  shows "map req_id qs = map req_id ps" and "(\<forall>q \<in> set qs. request_ready q) \<longleftrightarrow> (\<forall>p \<in> set ps. request_ready p)"
    and "(\<forall>q \<in> set qs. \<not> request_ready q) \<longleftrightarrow> (\<forall>p \<in> set ps. \<not> request_ready p)" and "length qs = length ps"
proof -
  note l = assms[unfolded same_but_time_def]
  show "map req_id qs = map req_id ps" "(\<forall>q \<in> set qs. request_ready q) \<longleftrightarrow> (\<forall>p \<in> set ps. request_ready p)"
    "(\<forall>q \<in> set qs. \<not> request_ready q) \<longleftrightarrow> (\<forall>p \<in> set ps. \<not> request_ready p)" "length qs = length ps"
    using l by (induction rule: list_all2_induct) (auto simp: request_ready_def)
qed

lemma resolver_step_inv: "resolver_step res res' \<Longrightarrow> resolver_inv res \<Longrightarrow> resolver_inv res'"
proof (induction rule: resolver_step.induct)
  case (request little hash grow addrs name out res r res')
  then show ?case
    by (auto simp: formulate_and_process_request_def split: if_splits intro: process_request_inv)
next
  case (datagram little mem n res res')
  then show ?case
    using resolver_inv_taken[OF datagram(2)]
    by (auto simp: receive_datagram_def Let_def answer_not_Nothing simp del: append_take_drop_id
        split: result.splits prod.splits if_splits)
next
  case (failed_send it res e)
  then show ?case
    using resolver_inv_taken[of res "(m_pending_requests res ! it)\<lparr>req_result := Failure e\<rparr>" it]
    by (simp add: send_failed_def Let_def request_ready_def is_nothing_def)
next
  case (resume res ps p ps')
  then show ?case
    by (auto simp: resolver_inv_def)
next
  case (sent res ps qs)
  then show ?case
    using same_but_time_facts[OF sent(1)] same_but_time_facts[OF sent(2)] by (simp add: resolver_inv_def)
qed

lemma resolver_run_inv: "resolver_run res \<Longrightarrow> resolver_inv res"
proof (induction rule: resolver_run.induct)
  case (start seed little garbage)
  then show ?case
    by (simp add: resolver_inv_def CachelessResolver_make_def gen_ok_make)
qed (rule resolver_step_inv)

text \<open>
  Claim C33. In every run of the resolver the pending requests are ordered by identifier, at most
  65535, and wait without a result, while every request handed to the reactor has one, so that
  it does not suspend again.
\<close>

theorem resolver_run_invariant:
  "resolver_run res \<Longrightarrow> sorted (map req_id (m_pending_requests res)) \<and> length (m_pending_requests res) \<le> 65535 \<and>
     (\<forall>p \<in> set (m_pending_requests res). \<not> request_ready p) \<and> (\<forall>p \<in> set (m_scheduled_requests res). request_ready p)"
  using resolver_run_inv by (simp add: resolver_inv_def)

lemma demo_run: "resolver_run (CachelessResolver_make True [] (replicate 32 0))"
  by (rule resolver_run.start) simp

theorem resolver_run_invariant_witness:
  "resolver_run (CachelessResolver_make True [] (replicate 32 0)) \<and>
   m_pending_requests (CachelessResolver_make True [] (replicate 32 0)) = [] \<and>
   length (m_pending_requests (CachelessResolver_make True [] (replicate 32 0))) \<le> 65535"
  using resolver_run_invariant[OF demo_run] demo_run by (simp add: CachelessResolver_make_def)

section \<open>Identifiers\<close>

lemmas skip_collisions_induct = skip_collisions.raw_induct [rotated 1, consumes 1, case_names step]

lemma skip_collisions_end: "i \<noteq> 0xFFFF \<Longrightarrow> \<exists>it'. skip_collisions i ps it = Some it'"
proof (induction "length ps - it" arbitrary: it rule: less_induct)
  case less
  show ?case
  proof (cases "it < length ps \<and> i = req_id (ps ! it)")
    case True
    then show ?thesis
      using less.hyps[of "it + 1"] less.prems True by (subst skip_collisions.simps) (simp add: diff_less_mono2)
  qed (subst skip_collisions.simps, auto)
qed

lemma skip_collisions_stuck:
  assumes "ps \<noteq> []" and "\<forall>p \<in> set ps. req_id p = 0xFFFF"
  shows "skip_collisions 0xFFFF ps 0 = None"
proof -
  have "False" if "skip_collisions i ps' it = Some r" "i = 0xFFFF" "ps' = ps" "it = 0" for i ps' it r
    using that
  proof (induction rule: skip_collisions_induct)
    case (step go i ps' it r)
    then show ?case
      using assms by (auto split: if_splits)
  qed
  then show ?thesis
    by (cases "skip_collisions 0xFFFF ps 0") auto
qed

text \<open>
  The loop that is to avoid collisions of identifiers ends with a position and never
  with another identifier; and it does not end at all when the identifier drawn is 65535 and
  exactly the requests with this identifier are pending.
\<close>

theorem skip_collisions_diverges_iff:
  assumes "sorted (map req_id ps)"
  shows "skip_collisions i ps (find_request i ps) = None \<longleftrightarrow>
    i = 0xFFFF \<and> ps \<noteq> [] \<and> (\<forall>p \<in> set ps. req_id p = 0xFFFF)"
proof (cases "i = 0xFFFF \<and> ps \<noteq> [] \<and> (\<forall>p \<in> set ps. req_id p = 0xFFFF)")
  case True
  then have "find_request i ps = 0"
    by (cases ps) (simp_all add: find_request_def)
  then show ?thesis
    using True skip_collisions_stuck by simp
next
  case False
  have "\<exists>it'. skip_collisions i ps (find_request i ps) = Some it'"
  proof (cases "i = 0xFFFF \<and> ps \<noteq> []")
    case True
    then obtain p where p: "p \<in> set ps" "req_id p \<noteq> 0xFFFF"
      using False by blast
    have "req_id (ps ! 0) \<le> req_id p"
      using assms p(1) True by (cases ps) auto
    moreover have "req_id p < 0xFFFF"
      using p(2) unsigned_less[of "req_id p", where ?'a = nat] by (simp add: order_less_le word_le_nat_alt)
    ultimately have "skip_collisions i ps 0 = Some 0"
      using True by (subst skip_collisions.simps) auto
    then show ?thesis
      using True by (subst skip_collisions.simps) simp
  next
    case False
    then show ?thesis
      using skip_collisions_end[of i ps] skip_collisions.simps[of i "[]"] by (cases "i = 0xFFFF") auto
  qed
  then show ?thesis
    using False by auto
qed

theorem skip_collisions_diverges_iff_witness:
  "sorted (map req_id (m_pending_requests demo_resolver)) \<and>
   skip_collisions 0xFFFF (m_pending_requests demo_resolver) (find_request 0xFFFF (m_pending_requests demo_resolver)) \<noteq> None"
  using skip_collisions_diverges_iff[of "m_pending_requests demo_resolver" "0xFFFF"]
  by (simp add: demo_resolver_def demo_pending_def)

text \<open>
  Nothing keeps two pending requests from having the same identifier: a request that
  draws the identifier of a pending one is inserted with it.
\<close>

theorem process_request_duplicates:
  "\<exists>msg res'. process_request True (\<lambda>_. 0) (\<lambda>_. True) demo_pending demo_resolver = Some (Ok msg, res') \<and>
     map req_id (m_pending_requests res') = [0, 0]"
proof -
  have g: "generate_bytes True 2 (m_rand_gen demo_resolver) = Some ([0, 0], (m_rand_gen demo_resolver)\<lparr>m_pos := 2\<rparr>)"
  proof -
    have "gen_ok (m_rand_gen demo_resolver)"
      by (simp add: gen_ok_def demo_resolver_def)
    moreover have "take_bytes True 2 (m_rand_gen demo_resolver) = ([0, 0], (m_rand_gen demo_resolver)\<lparr>m_pos := 2\<rparr>)"
      by code_simp
    ultimately show ?thesis
      using generate_loop_ok[of "m_rand_gen demo_resolver" True 2 "[]"] by (auto simp: generate_bytes_def)
  qed
  have i: "of_mem_bytes True [0, 0] = (0 :: u16)"
    by code_simp
  have q: "req_id demo_pending = 0"
      "m_pending_requests demo_resolver = [demo_pending]"
    by (simp_all add: demo_pending_def demo_resolver_def)
  obtain it where it: "skip_collisions 0 [demo_pending] (find_request 0 [demo_pending]) = Some it"
    using skip_collisions_end[of 0 "[demo_pending]"] by auto
  have e: "encode_question (\<lambda>_. 0) (\<lambda>_. True) ((req_question demo_pending)\<lparr>q_id := 0\<rparr>) =
      Some (Ok [0, 0, 1, 0, 0, 1, 0, 0, 0, 0, 0, 0, 1, 0x61, 0, 0, 1, 0, 1])"
    by code_simp
  show ?thesis
    using q it e by (simp add: process_request_def g i insert_request_def Let_def)
qed

end
