(* ===== verification/Corosig_Dns_Cache.thy ===== *)
theory Corosig_Dns_Cache
  imports Corosig_Dns_Hosts Corosig_Vector
begin

text \<open>
  The memory cache: \<^verbatim>\<open>io/dns/MemoryCache.hpp\<close> and \<^verbatim>\<open>io/dns/MemoryCache.cpp\<close>, and the cache that
  combines it with the hosts file, \<^verbatim>\<open>io/dns/Cache.hpp\<close>. A node is a chunk of the allocator with
  a header at its address, so a node is named by its address: the set of names and the multiset
  of address nodes are the sequences of addresses in their order, the list \<^verbatim>\<open>ips\<close> of a name is the
  sequence of its address nodes, and the headers lie in a store. The sizes and alignments of the
  headers are parameters, like the sorting of \<^verbatim>\<open>std::ranges::sort\<close>, which fixes no order of equal
  elements.
\<close>

section \<open>Headers\<close>

record AddrStorageHeader =
  m_parent :: nat
  m_expires_at :: int
  ipv4s :: "Ipv4Addr list"
  ipv6s :: "Ipv6Addr list"

record NameStorageHeader =
  name :: octets
  ips :: "nat list"

text \<open>The cache with its store; \<^term>\<open>m_alloc\<close> is the state of the allocator.\<close>

record 's MemoryCache =
  m_alloc :: 's
  m_names :: "nat list"
  m_addrs_by_expire_time :: "nat list"
  name_store :: "nat \<Rightarrow> NameStorageHeader option"
  addr_store :: "nat \<Rightarrow> AddrStorageHeader option"

record 's cache_env =
  cache_allocate :: "u64 \<Rightarrow> u64 \<Rightarrow> 's \<Rightarrow> (nat option \<times> 's) option"
  cache_deallocate :: "nat option \<Rightarrow> 's \<Rightarrow> 's option"
  sizeof_name :: nat
  alignof_name :: u64
  sizeof_addr :: nat
  alignof_addr :: u64
  sizeof_resolved :: nat
  alignof_resolved :: u64

definition MemoryCache_make :: "'s \<Rightarrow> 's MemoryCache" where
  "MemoryCache_make alloc =
     \<lparr>m_alloc = alloc, m_names = [], m_addrs_by_expire_time = [], name_store = (\<lambda>_. None), addr_store = (\<lambda>_. None)\<rparr>"

abbreviation name_of :: "'s MemoryCache \<Rightarrow> nat \<Rightarrow> octets" where
  "name_of mc n \<equiv> name (the (name_store mc n))"

abbreviation ips_of :: "'s MemoryCache \<Rightarrow> nat \<Rightarrow> nat list" where
  "ips_of mc n \<equiv> ips (the (name_store mc n))"

abbreviation expiry_of :: "'s MemoryCache \<Rightarrow> nat \<Rightarrow> int" where
  "expiry_of mc p \<equiv> m_expires_at (the (addr_store mc p))"

abbreviation set_ips :: "nat \<Rightarrow> nat list \<Rightarrow> 's MemoryCache \<Rightarrow> 's MemoryCache" where
  "set_ips n ps mc \<equiv> mc\<lparr>name_store := (name_store mc)(n \<mapsto> (the (name_store mc n))\<lparr>ips := ps\<rparr>)\<rparr>"

section \<open>Nodes\<close>

definition name_header :: "octets \<Rightarrow> NameStorageHeader" where
  "name_header nm = \<lparr>name = map to_lower nm, ips = []\<rparr>"

text \<open>
  \<^verbatim>\<open>NameStorageHeader::make\<close>: the name is stored in lower case. The node is not linked yet.
\<close>

definition make_name ::
  "'s cache_env \<Rightarrow> octets \<Rightarrow> 's MemoryCache \<Rightarrow> (nat option \<times> 's MemoryCache) option" where
  "make_name E nm mc =
     map_option (\<lambda>(r, s). case r of
         None \<Rightarrow> (None, mc\<lparr>m_alloc := s\<rparr>)
       | Some p \<Rightarrow> (Some p, mc\<lparr>m_alloc := s, name_store := (name_store mc)(p \<mapsto> name_header nm)\<rparr>))
       (cache_allocate E (word_of_nat (sizeof_name E) + word_of_nat (length nm)) (alignof_name E) (m_alloc mc))"

text \<open>The constructor of an address node puts the node in front of the list of its parent.\<close>

definition put_header ::
  "nat \<Rightarrow> nat \<Rightarrow> int \<Rightarrow> Ipv4Addr list \<Rightarrow> Ipv6Addr list \<Rightarrow> 's MemoryCache \<Rightarrow> 's MemoryCache option" where
  "put_header p parent expires v4s v6s mc =
     c_assert (length v4s \<le> 2 ^ 32 - 1 \<and> length v6s \<le> 2 ^ 32 - 1)
       (let header = \<lparr>m_parent = parent, m_expires_at = expires, ipv4s = v4s, ipv6s = v6s\<rparr>;
            mc = mc\<lparr>addr_store := (addr_store mc)(p \<mapsto> header)\<rparr>
        in Some (set_ips parent (p # ips_of mc parent) mc))"

text \<open>\<^verbatim>\<open>AddrStorageHeader::make\<close>: room for the header and the addresses behind it.\<close>

definition make_addr ::
  "'s cache_env \<Rightarrow> nat \<Rightarrow> int \<Rightarrow> Ipv4Addr list \<Rightarrow> Ipv6Addr list \<Rightarrow> 's MemoryCache \<Rightarrow>
   (nat option \<times> 's MemoryCache) option" where
  "make_addr E parent expires v4s v6s mc =
     (let allocation_size = (word_of_nat (sizeof_addr E) + word_of_nat (length v4s) * 4 + word_of_nat (length v6s) * 16 :: u64)
      in Option.bind (cache_allocate E allocation_size (alignof_addr E) (m_alloc mc)) (\<lambda>(r, s). case r of
           None \<Rightarrow> Some (None, mc\<lparr>m_alloc := s\<rparr>)
         | Some p \<Rightarrow> map_option (Pair (Some p)) (put_header p parent expires v4s v6s (mc\<lparr>m_alloc := s\<rparr>))))"

text \<open>The overloads for one family of addresses give an empty list for the other.\<close>

definition store_ipv4 :: "Ipv4Addr list \<Rightarrow> Ipv4Addr list \<times> Ipv6Addr list" where
  "store_ipv4 = (\<lambda>addrs. (addrs, []))"

definition store_ipv6 :: "Ipv6Addr list \<Rightarrow> Ipv4Addr list \<times> Ipv6Addr list" where
  "store_ipv6 = (\<lambda>addrs. ([], addrs))"

text \<open>
  \<^verbatim>\<open>AllocatorBoundDeleter\<close> on a node: the destructor unlinks it from where it is linked, then the
  chunk is released.
\<close>

definition delete_addr :: "'s cache_env \<Rightarrow> nat \<Rightarrow> 's MemoryCache \<Rightarrow> 's MemoryCache option" where
  "delete_addr E p mc =
     (let parent = m_parent (the (addr_store mc p));
          mc = set_ips parent (remove1 p (ips_of mc parent)) mc;
          mc = mc\<lparr>addr_store := (addr_store mc)(p := None), m_addrs_by_expire_time := remove1 p (m_addrs_by_expire_time mc)\<rparr>
      in map_option (\<lambda>s. mc\<lparr>m_alloc := s\<rparr>) (cache_deallocate E (Some p) (m_alloc mc)))"

definition delete_name :: "'s cache_env \<Rightarrow> nat \<Rightarrow> 's MemoryCache \<Rightarrow> 's MemoryCache option" where
  "delete_name E n mc =
     (let mc = mc\<lparr>name_store := (name_store mc)(n := None), m_names := remove1 n (m_names mc)\<rparr>
      in map_option (\<lambda>s. mc\<lparr>m_alloc := s\<rparr>) (cache_deallocate E (Some n) (m_alloc mc)))"

primrec delete_addrs :: "'s cache_env \<Rightarrow> nat list \<Rightarrow> 's MemoryCache \<Rightarrow> 's MemoryCache option" where
  "delete_addrs E [] mc = Some mc"
| "delete_addrs E (p # ps) mc = Option.bind (delete_addr E p mc) (delete_addrs E ps)"

section \<open>Ordered containers\<close>

text \<open>
  \<^verbatim>\<open>lower_bound\<close>, \<^verbatim>\<open>find\<close> and \<^verbatim>\<open>insert_before\<close> of the ordered set of names, and the insertion into the
  multiset, which goes behind its equals.
\<close>

definition names_lower_bound :: "octets \<Rightarrow> 's MemoryCache \<Rightarrow> nat" where
  "names_lower_bound nm mc = lower_bound (\<lambda>n key. sv_less (name_of mc n) key) (m_names mc) nm"

definition names_find :: "octets \<Rightarrow> 's MemoryCache \<Rightarrow> nat option" where
  "names_find nm mc =
     (let i = names_lower_bound nm mc
      in if i < length (m_names mc) \<and> \<not> sv_less nm (name_of mc (m_names mc ! i)) then Some (m_names mc ! i) else None)"

definition insert_name :: "nat \<Rightarrow> nat \<Rightarrow> 's MemoryCache \<Rightarrow> 's MemoryCache" where
  "insert_name i n mc = mc\<lparr>m_names := take i (m_names mc) @ n # drop i (m_names mc)\<rparr>"

definition insert_addr :: "nat \<Rightarrow> 's MemoryCache \<Rightarrow> 's MemoryCache" where
  "insert_addr p mc =
     (let i = upper_bound (\<lambda>e q. e < expiry_of mc q) (m_addrs_by_expire_time mc) (expiry_of mc p)
      in mc\<lparr>m_addrs_by_expire_time := take i (m_addrs_by_expire_time mc) @ p # drop i (m_addrs_by_expire_time mc)\<rparr>)"

section \<open>Storing addresses\<close>

text \<open>
  The loop over the sorted addresses: each run of equal expiry times becomes one node.
\<close>

function expiry_groups :: "'ip ResolvedAddress list \<Rightarrow> (int \<times> 'ip list) list" where
  "expiry_groups [] = []"
| "expiry_groups (a # as) =
     (let same = (\<lambda>b. \<not> expires_at a < expires_at b)
      in (expires_at a, map address (takeWhile same (a # as))) # expiry_groups (dropWhile same (a # as)))"
  by pat_completeness auto
termination
  by (relation "measure length") (auto simp: less_Suc_eq_le intro: length_dropWhile_le)

text \<open>
  The nodes made so far are those of the guard's set, in \<^term>\<open>made\<close>. The result says whether
  every node could be allocated. \<^term>\<open>store\<close> is the overload of \<^verbatim>\<open>make\<close> for the address type.
\<close>

primrec make_groups ::
  "'s cache_env \<Rightarrow> ('ip list \<Rightarrow> Ipv4Addr list \<times> Ipv6Addr list) \<Rightarrow> nat \<Rightarrow> (int \<times> 'ip list) list \<Rightarrow> nat list \<Rightarrow>
   's MemoryCache \<Rightarrow> (bool \<times> nat list \<times> 's MemoryCache) option" where
  "make_groups E store parent [] made mc = Some (True, made, mc)"
| "make_groups E store parent (g # gs) made mc =
     Option.bind (make_addr E parent (fst g) (fst (store (snd g))) (snd (store (snd g))) mc) (\<lambda>(r, mc). case r of
       None \<Rightarrow> Some (False, made, mc)
     | Some p \<Rightarrow> make_groups E store parent gs (made @ [p]) mc)"

text \<open>
  The scratch vector of \<^verbatim>\<open>push_impl\<close>: its buffer, or nothing for an empty vector.
\<close>

definition scratch_allocate :: "'s cache_env \<Rightarrow> nat \<Rightarrow> 's MemoryCache \<Rightarrow> ((nat option, AllocationError) result \<times> 's MemoryCache) option" where
  "scratch_allocate E count mc =
     (if count = 0 then Some (Ok None, mc)
      else map_option (\<lambda>(r, s). (case r of None \<Rightarrow> Failure AllocationError | Some buf \<Rightarrow> Ok (Some buf), mc\<lparr>m_alloc := s\<rparr>))
             (cache_allocate E (word_of_nat count * word_of_nat (sizeof_resolved E)) (alignof_resolved E) (m_alloc mc)))"

text \<open>
  What \<^verbatim>\<open>push_impl\<close> does once it has the name node: \<^term>\<open>new_name_store\<close> is the node it made, which is
  deleted again when an allocation fails.
\<close>

definition push_addrs ::
  "'s cache_env \<Rightarrow> ('ip ResolvedAddress list \<Rightarrow> 'ip ResolvedAddress list) \<Rightarrow>
   ('ip list \<Rightarrow> Ipv4Addr list \<times> Ipv6Addr list) \<Rightarrow> nat option \<Rightarrow> nat \<Rightarrow> 'ip ResolvedAddress list \<Rightarrow> int \<Rightarrow>
   's MemoryCache \<Rightarrow> ((unit, AllocationError) result \<times> 's MemoryCache) option" where
  "push_addrs E srt store new_name_store name_it addrs now mc =
     (let undo = (\<lambda>mc. map_option (\<lambda>mc. (Failure AllocationError, mc))
                     (case new_name_store of None \<Rightarrow> Some mc | Some n \<Rightarrow> delete_name E n mc))
      in Option.bind (scratch_allocate E (length addrs) mc) (\<lambda>(r, mc). case r of
           Nothing \<Rightarrow> None
         | Failure e \<Rightarrow> undo mc
         | Ok buf \<Rightarrow> do {
             let sorted_addrs = srt (filter (\<lambda>a. expires_at a > now) addrs);
             (complete, made, mc) \<leftarrow> make_groups E store name_it (expiry_groups sorted_addrs) [] mc;
             mc \<leftarrow> (if complete then Some (fold insert_addr made mc) else delete_addrs E made mc);
             s \<leftarrow> cache_deallocate E buf (m_alloc mc);
             let mc = mc\<lparr>m_alloc := s\<rparr>;
             (if complete then Some (Ok (), mc) else undo mc)
           }))"

definition push_impl ::
  "'s cache_env \<Rightarrow> ('ip ResolvedAddress list \<Rightarrow> 'ip ResolvedAddress list) \<Rightarrow>
   ('ip list \<Rightarrow> Ipv4Addr list \<times> Ipv6Addr list) \<Rightarrow> octets \<Rightarrow> 'ip ResolvedAddress list \<Rightarrow> int \<Rightarrow>
   's MemoryCache \<Rightarrow> ((unit, AllocationError) result \<times> 's MemoryCache) option" where
  "push_impl E srt store ascii_name addrs now mc =
     (let i = names_lower_bound ascii_name mc in
      if i = length (m_names mc) \<or> name_of mc (m_names mc ! i) \<noteq> ascii_name
      then Option.bind (make_name E ascii_name mc) (\<lambda>(r, mc). case r of
             None \<Rightarrow> Some (Failure AllocationError, mc)
           | Some n \<Rightarrow> push_addrs E srt store (Some n) n addrs now (insert_name i n mc))
      else push_addrs E srt store None (m_names mc ! i) addrs now mc)"

definition push_ipv4 where
  "push_ipv4 E srt = push_impl E srt store_ipv4"

definition push_ipv6 where
  "push_ipv6 E srt = push_impl E srt store_ipv6"

section \<open>Looking up\<close>

text \<open>The loop over the nodes of a name; the first number is the room left in \<^verbatim>\<open>out\<close>.\<close>

primrec pull_ips ::
  "(AddrStorageHeader \<Rightarrow> 'ip list) \<Rightarrow> int \<Rightarrow> 's MemoryCache \<Rightarrow> nat \<Rightarrow> nat list \<Rightarrow> 'ip ResolvedAddress list" where
  "pull_ips ip_source now mc left [] = []"
| "pull_ips ip_source now mc left (p # ps) =
     (if left = 0 then []
      else if expiry_of mc p \<le> now then pull_ips ip_source now mc left ps
      else let addrs = take (min left (length (ip_source (the (addr_store mc p))))) (ip_source (the (addr_store mc p)))
           in map (\<lambda>a. \<lparr>address = a, expires_at = expiry_of mc p\<rparr>) addrs @
              pull_ips ip_source now mc (left - length addrs) ps)"

definition memory_cache_pull_impl ::
  "(AddrStorageHeader \<Rightarrow> 'ip list) \<Rightarrow> octets \<Rightarrow> nat \<Rightarrow> int \<Rightarrow> 's MemoryCache \<Rightarrow> 'ip ResolvedAddress list option" where
  "memory_cache_pull_impl ip_source ascii_name left now mc =
     c_assert (debug_is_ascii ascii_name)
       (if length ascii_name > FQDN_MAX_OCTET_LEN then Some []
        else case names_find (map to_lower ascii_name) mc of
               None \<Rightarrow> Some []
             | Some n \<Rightarrow> Some (pull_ips ip_source now mc left (ips_of mc n)))"

definition pull_ipv4 where "pull_ipv4 = memory_cache_pull_impl ipv4s"

definition pull_ipv6 where "pull_ipv6 = memory_cache_pull_impl ipv6s"

section \<open>Removing expired addresses\<close>

text \<open>The loop of \<^verbatim>\<open>prune\<close>: one node per iteration, from the front of the multiset.\<close>

primrec prune_nodes :: "'s cache_env \<Rightarrow> int \<Rightarrow> nat list \<Rightarrow> 's MemoryCache \<Rightarrow> 's MemoryCache option" where
  "prune_nodes E now [] mc = Some mc"
| "prune_nodes E now (p # ps) mc =
     (if expiry_of mc p \<le> now then do {
        let parent = m_parent (the (addr_store mc p));
        mc \<leftarrow> delete_addr E p mc;
        mc \<leftarrow> (if ips_of mc parent = [] then delete_name E parent mc else Some mc);
        prune_nodes E now ps mc
      } else Some mc)"

definition prune :: "'s cache_env \<Rightarrow> int \<Rightarrow> 's MemoryCache \<Rightarrow> 's MemoryCache option" where
  "prune E now mc = prune_nodes E now (m_addrs_by_expire_time mc) mc"

text \<open>The destructor releases the chunks of all nodes.\<close>

definition MemoryCache_destroy :: "'s cache_env \<Rightarrow> 's MemoryCache \<Rightarrow> 's option" where
  "MemoryCache_destroy E mc =
     Option.bind (free_all (cache_deallocate E) (m_addrs_by_expire_time mc) (m_alloc mc))
       (free_all (cache_deallocate E) (m_names mc))"

section \<open>Hosts file and memory cache together\<close>

text \<open>
  \<^verbatim>\<open>Cache::pull_impl\<close>: the hosts file first; the memory cache when that fails or has nothing.
  \<^term>\<open>hosts\<close> is what the hosts file gave.
\<close>

definition cache_pull_impl ::
  "(AddrStorageHeader \<Rightarrow> 'ip list) \<Rightarrow> ('ip ResolvedAddress list, 'h) result \<Rightarrow> octets \<Rightarrow> nat \<Rightarrow> int \<Rightarrow>
   's MemoryCache \<Rightarrow> ('ip ResolvedAddress list, 'h) result option" where
  "cache_pull_impl ip_source hosts ascii_name left now mc =
     c_assert (debug_is_ascii ascii_name)
       (case hosts of
          Ok (a # as) \<Rightarrow> Some (Ok (a # as))
        | _ \<Rightarrow> map_option Ok (memory_cache_pull_impl ip_source ascii_name left now mc))"

end
