(* ===== verification/Corosig_Lists.thy ===== *)
theory Corosig_Lists
  imports Main "HOL-Library.Multiset"
begin

text \<open>
  Lemmas on insertion into sorted lists, shared by the containers that keep their elements in
  order: where \<^verbatim>\<open>lower_bound\<close> and \<^verbatim>\<open>upper_bound\<close> split a list, and what the list with one more
  element looks like.
\<close>

lemma mset_split_insert: "mset (takeWhile P xs @ x # dropWhile P xs) = add_mset x (mset xs)"
proof -
  have "mset xs = mset (takeWhile P xs) + mset (dropWhile P xs)"
    by (metis mset_append takeWhile_dropWhile_id)
  then show ?thesis
    by simp
qed

lemma distinct_split_insert: "distinct (takeWhile P xs @ x # dropWhile P xs) \<longleftrightarrow> distinct (x # xs)"
  using mset_split_insert[of P xs x] by (metis mset.simps(2) mset_eq_imp_distinct_iff)

lemma set_split_insert: "set (takeWhile P xs @ x # dropWhile P xs) = insert x (set xs)"
  using mset_split_insert[of P xs x] by (metis mset.simps(2) set_mset_mset list.simps(15))

lemma sorted_map_cong: "\<forall>x \<in> set xs. f x = g x \<Longrightarrow> sorted (map f xs) = sorted (map g xs)"
  by (metis map_cong)

lemma sorted_wrt_remove1: "sorted_wrt P xs \<Longrightarrow> sorted_wrt P (remove1 x xs)"
  by (induction xs) (auto dest: notin_set_remove1)

lemma sorted_split_insert:
  fixes f :: "'a \<Rightarrow> 'b :: linorder"
  assumes "sorted (map f xs)"
  shows "sorted (map f (takeWhile (\<lambda>y. \<not> f x < f y) xs @ x # dropWhile (\<lambda>y. \<not> f x < f y) xs))"
proof -
  let ?P = "\<lambda>y. \<not> f x < f y"
  have "sorted (map f (takeWhile ?P xs) @ map f (dropWhile ?P xs))"
    using assms by (metis map_append takeWhile_dropWhile_id)
  moreover have "\<forall>y \<in> set (takeWhile ?P xs). f y \<le> f x"
    by (auto dest: set_takeWhileD)
  moreover have "\<forall>y \<in> set (dropWhile ?P xs). f x \<le> f y"
  proof (cases "dropWhile ?P xs")
    case (Cons y ys)
    have "f x < f y"
      using hd_dropWhile[of ?P xs] Cons by simp
    moreover have "sorted (map f (y # ys))"
      using assms Cons by (metis dropWhile_eq_drop drop_map sorted_wrt_drop)
    ultimately show ?thesis
      using Cons by auto
  qed (metis empty_iff list.set(1))
  ultimately show ?thesis
    by (auto simp: sorted_append)
qed

end
