(* ===== verification/Corosig_Dns_Cache_Inv.thy ===== *)
theory Corosig_Dns_Cache_Inv
  imports Corosig_Dns_Cache Corosig_Allocator_Claims Corosig_Lists
begin

text \<open>
  The linked structure of the memory cache: names strictly ordered, addresses ordered by expiry
  time, and the list of a name holding exactly the address nodes whose parent it is. Each
  elementary change of the structure, linking or unlinking one node, keeps it.
\<close>

section \<open>The order of names\<close>

lemma sv_less_irrefl [simp]: "\<not> sv_less x x"
  by (induction x) simp_all

lemma sv_less_trans: "sv_less x y \<Longrightarrow> sv_less y z \<Longrightarrow> sv_less x z"
proof (induction x y arbitrary: z rule: sv_less.induct)
  case (2 y ys)
  then show ?case
    by (cases z) simp_all
next
  case (4 x xs y ys)
  then show ?case
    by (cases z) auto
qed simp_all

lemma sv_less_total: "x \<noteq> y \<Longrightarrow> sv_less x y \<or> sv_less y x"
  by (induction x y rule: sv_less.induct) auto

section \<open>The linked structure\<close>

text \<open>
  \<^term>\<open>made\<close> are address nodes that are in the store and in the list of their parent but not yet in
  the multiset.
\<close>

definition cache_shape :: "nat list \<Rightarrow> 's MemoryCache \<Rightarrow> bool" where
  "cache_shape made mc \<longleftrightarrow>
     distinct (m_names mc @ m_addrs_by_expire_time mc @ made) \<and>
     dom (name_store mc) = set (m_names mc) \<and> dom (addr_store mc) = set (m_addrs_by_expire_time mc @ made) \<and>
     sorted_wrt sv_less (map (name_of mc) (m_names mc)) \<and>
     sorted (map (expiry_of mc) (m_addrs_by_expire_time mc)) \<and>
     (\<forall>n \<in> set (m_names mc). distinct (ips_of mc n) \<and>
        set (ips_of mc n) = {p \<in> set (m_addrs_by_expire_time mc @ made). m_parent (the (addr_store mc p)) = n}) \<and>
     (\<forall>p \<in> set (m_addrs_by_expire_time mc @ made). m_parent (the (addr_store mc p)) \<in> set (m_names mc))"

lemma cache_shapeD:
  assumes "cache_shape made mc"
  shows "distinct (m_names mc @ m_addrs_by_expire_time mc @ made)" "dom (name_store mc) = set (m_names mc)"
    "dom (addr_store mc) = set (m_addrs_by_expire_time mc @ made)"
    "sorted_wrt sv_less (map (name_of mc) (m_names mc))"
    "sorted (map (expiry_of mc) (m_addrs_by_expire_time mc))"
    "n \<in> set (m_names mc) \<Longrightarrow> distinct (ips_of mc n)"
    "n \<in> set (m_names mc) \<Longrightarrow>
       set (ips_of mc n) = {p \<in> set (m_addrs_by_expire_time mc @ made). m_parent (the (addr_store mc p)) = n}"
    "p \<in> set (m_addrs_by_expire_time mc @ made) \<Longrightarrow> m_parent (the (addr_store mc p)) \<in> set (m_names mc)"
  using assms by (simp_all add: cache_shape_def)

lemma cache_shapeI:
  assumes "distinct (m_names mc @ m_addrs_by_expire_time mc @ made)" "dom (name_store mc) = set (m_names mc)"
    "dom (addr_store mc) = set (m_addrs_by_expire_time mc @ made)"
    "sorted_wrt sv_less (map (name_of mc) (m_names mc))"
    "sorted (map (expiry_of mc) (m_addrs_by_expire_time mc))"
    "\<And>n. n \<in> set (m_names mc) \<Longrightarrow> distinct (ips_of mc n) \<and>
       set (ips_of mc n) = {p \<in> set (m_addrs_by_expire_time mc @ made). m_parent (the (addr_store mc p)) = n}"
    "\<And>p. p \<in> set (m_addrs_by_expire_time mc @ made) \<Longrightarrow> m_parent (the (addr_store mc p)) \<in> set (m_names mc)"
  shows "cache_shape made mc"
  using assms by (simp add: cache_shape_def)

lemma cache_shape_cong:
  "cache_shape made (mc\<lparr>m_alloc := s\<rparr>) = cache_shape made mc"
  by (simp add: cache_shape_def)

definition nodes :: "nat list \<Rightarrow> 's MemoryCache \<Rightarrow> nat set" where
  "nodes made mc = set (m_names mc @ m_addrs_by_expire_time mc @ made)"

definition put_addr :: "nat \<Rightarrow> nat \<Rightarrow> int \<Rightarrow> Ipv4Addr list \<Rightarrow> Ipv6Addr list \<Rightarrow> 's MemoryCache \<Rightarrow> 's MemoryCache" where
  "put_addr p parent e v4s v6s mc =
     set_ips parent (p # ips_of mc parent)
       (mc\<lparr>addr_store := (addr_store mc)(p \<mapsto> \<lparr>m_parent = parent, m_expires_at = e, ipv4s = v4s, ipv6s = v6s\<rparr>)\<rparr>)"

definition drop_addr :: "nat \<Rightarrow> 's MemoryCache \<Rightarrow> 's MemoryCache" where
  "drop_addr p mc =
     (let parent = m_parent (the (addr_store mc p)) in
      (set_ips parent (remove1 p (ips_of mc parent)) mc)
        \<lparr>addr_store := (addr_store mc)(p := None), m_addrs_by_expire_time := remove1 p (m_addrs_by_expire_time mc)\<rparr>)"

definition drop_name :: "nat \<Rightarrow> 's MemoryCache \<Rightarrow> 's MemoryCache" where
  "drop_name n mc = mc\<lparr>name_store := (name_store mc)(n := None), m_names := remove1 n (m_names mc)\<rparr>"

lemma put_addr_simps [simp]:
  "m_names (put_addr p parent e v4s v6s mc) = m_names mc"
  "m_addrs_by_expire_time (put_addr p parent e v4s v6s mc) = m_addrs_by_expire_time mc"
  "m_alloc (put_addr p parent e v4s v6s mc) = m_alloc mc"
  "addr_store (put_addr p parent e v4s v6s mc) =
     (addr_store mc)(p \<mapsto> \<lparr>m_parent = parent, m_expires_at = e, ipv4s = v4s, ipv6s = v6s\<rparr>)"
  "name_of (put_addr p parent e v4s v6s mc) n = name_of mc n"
  "ips_of (put_addr p parent e v4s v6s mc) n = (if n = parent then p # ips_of mc n else ips_of mc n)"
  "dom (name_store (put_addr p parent e v4s v6s mc)) = insert parent (dom (name_store mc))"
  by (simp_all add: put_addr_def)

lemma drop_addr_simps [simp]:
  "m_names (drop_addr p mc) = m_names mc"
  "m_addrs_by_expire_time (drop_addr p mc) = remove1 p (m_addrs_by_expire_time mc)"
  "m_alloc (drop_addr p mc) = m_alloc mc"
  "addr_store (drop_addr p mc) = (addr_store mc)(p := None)"
  "name_of (drop_addr p mc) n = name_of mc n"
  "ips_of (drop_addr p mc) n = (if n = m_parent (the (addr_store mc p)) then remove1 p (ips_of mc n) else ips_of mc n)"
  "dom (name_store (drop_addr p mc)) = insert (m_parent (the (addr_store mc p))) (dom (name_store mc))"
  by (simp_all add: drop_addr_def Let_def)

lemma put_addr_shape:
  assumes "cache_shape made mc" and "parent \<in> set (m_names mc)" and "p \<notin> nodes made mc"
  shows "cache_shape (made @ [p]) (put_addr p parent e v4s v6s mc)"
proof -
  note s = cache_shapeD[OF assms(1)]
  have p: "p \<notin> set (m_names mc)" "p \<notin> set (m_addrs_by_expire_time mc)" "p \<notin> set made"
    using assms(3) by (auto simp: nodes_def)
  show ?thesis
  proof (rule cache_shapeI, goal_cases)
    case 5
    show ?case
      using s(5) p(2) by (subst sorted_map_cong[where g = "expiry_of mc"]) auto
  next
    case (6 n)
    then show ?case
      using s(6,7)[of n] p by auto
  next
    case (7 q)
    then show ?case
      using s(8)[of q] assms(2) by auto
  qed (use s(1-4) p assms(2) in auto)
qed

lemma drop_addr_shape:
  assumes "cache_shape made mc" and "p \<in> set (m_addrs_by_expire_time mc @ made)"
  shows "cache_shape (remove1 p made) (drop_addr p mc)"
proof -
  let ?as = "m_addrs_by_expire_time mc"
  note s = cache_shapeD[OF assms(1)]
  have d: "distinct ?as" "distinct made" "set (remove1 p ?as) = set ?as - {p}" "set (remove1 p made) = set made - {p}"
    using s(1) by simp_all
  show ?thesis
  proof (rule cache_shapeI, goal_cases)
    case 1
    then show ?case
      using s(1) d by auto
  next
    case 2
    then show ?case
      using s(2) s(8)[OF assms(2)] by auto
  next
    case 3
    then show ?case
      using s(3) d by auto
  next
    case 5
    have "sorted (map (expiry_of mc) (remove1 p ?as))"
      using s(5) by (simp add: sorted_map_remove1)
    then show ?case
      using d(3) by (subst sorted_map_cong[where g = "expiry_of mc"]) auto
  next
    case (6 n)
    then have n: "distinct (ips_of mc n)"
        "set (ips_of mc n) = {p \<in> set (?as @ made). m_parent (the (addr_store mc p)) = n}"
      using s(6,7)[of n] by simp_all
    then show ?case
      using d(3,4) by auto
  next
    case (7 q)
    then have "q \<in> set (?as @ made)" "q \<noteq> p"
      using d(3,4) by auto
    then show ?case
      using s(8)[of q] by simp
  qed (use s(4) in simp)
qed

lemma drop_name_shape:
  assumes "cache_shape made mc" and "n \<in> set (m_names mc)" and "ips_of mc n = []"
  shows "cache_shape made (drop_name n mc)"
proof -
  note s = cache_shapeD[OF assms(1)]
  have d: "set (remove1 n (m_names mc)) = set (m_names mc) - {n}"
    using s(1) by simp
  have f: "m_names (drop_name n mc) = remove1 n (m_names mc)"
      "m_addrs_by_expire_time (drop_name n mc) = m_addrs_by_expire_time mc" "addr_store (drop_name n mc) = addr_store mc"
      "name_store (drop_name n mc) = (name_store mc)(n := None)"
    by (simp_all add: drop_name_def)
  show ?thesis
  proof (rule cache_shapeI, unfold f, goal_cases)
    case 1
    then show ?case
      using s(1) d by auto
  next
    case 2
    then show ?case
      using s(2) d by auto
  next
    case 4
    have "sorted_wrt sv_less (map (name_of mc) (remove1 n (m_names mc)))"
      using s(4) by (simp add: sorted_wrt_map sorted_wrt_remove1)
    moreover have "map (\<lambda>m. name (the (((name_store mc)(n := None)) m))) (remove1 n (m_names mc)) =
        map (name_of mc) (remove1 n (m_names mc))"
      using d by auto
    ultimately show ?case
      by (simp only:)
  next
    case (6 m)
    then show ?case
      using s(6,7)[of m] d by auto
  next
    case (7 q)
    then show ?case
      using s(8)[of q] s(7)[OF assms(2)] assms(3) d by auto
  qed (use s(3,5) in simp_all)
qed

lemma insert_addr_shape:
  assumes "cache_shape (p # made) mc"
  shows "cache_shape made (insert_addr p mc)"
proof -
  let ?as = "m_addrs_by_expire_time mc" and ?P = "\<lambda>q. \<not> expiry_of mc p < expiry_of mc q"
  note s = cache_shapeD[OF assms]
  have as: "m_addrs_by_expire_time (insert_addr p mc) = takeWhile ?P ?as @ p # dropWhile ?P ?as"
    by (simp add: insert_addr_def upper_bound_def Let_def flip: takeWhile_eq_take dropWhile_eq_drop)
  have f: "m_names (insert_addr p mc) = m_names mc" "name_store (insert_addr p mc) = name_store mc"
      "addr_store (insert_addr p mc) = addr_store mc"
    by (simp_all add: insert_addr_def Let_def)
  have st: "set (takeWhile ?P ?as @ p # dropWhile ?P ?as) = insert p (set ?as)"
    by (rule set_split_insert)
  then have st': "set ((takeWhile ?P ?as @ p # dropWhile ?P ?as) @ made) = insert p (set ?as) \<union> set made"
    by (simp only: set_append)
  have "sorted (map (expiry_of mc) (takeWhile ?P ?as @ p # dropWhile ?P ?as))"
    by (rule sorted_split_insert[OF s(5)])
  moreover have "distinct (m_names mc @ (takeWhile ?P ?as @ p # dropWhile ?P ?as) @ made)"
  proof -
    have "mset (takeWhile ?P ?as @ p # dropWhile ?P ?as) = mset (p # ?as)"
      by (simp only: mset_split_insert) simp
    then have "mset (m_names mc @ (takeWhile ?P ?as @ p # dropWhile ?P ?as) @ made) = mset (m_names mc @ ?as @ p # made)"
      by simp
    then show ?thesis
      using s(1) by (metis mset_eq_imp_distinct_iff)
  qed
  ultimately show ?thesis
  proof (intro cache_shapeI, goal_cases)
    case 1
    then show ?case
      unfolding as f by (simp only: append_assoc)
  next
    case 3
    then show ?case
      using s(3) unfolding as f st' by auto
  next
    case 5
    then show ?case
      unfolding as f by (simp only:)
  next
    case (6 n)
    then show ?case
      using s(6,7)[of n] unfolding as f st' by auto
  next
    case (7 q)
    then show ?case
      using s(8)[of q] unfolding as f st' by auto
  qed (use s(2,4) in \<open>simp_all add: f\<close>)
qed

lemma insert_name_shape:
  assumes "cache_shape [] mc" and "n \<notin> nodes [] mc" and "nm \<notin> name_of mc ` set (m_names mc)"
  shows "cache_shape [] (insert_name (names_lower_bound nm mc) n (mc\<lparr>name_store := (name_store mc)(n \<mapsto> \<lparr>name = nm, ips = []\<rparr>)\<rparr>))"
proof -
  let ?P = "\<lambda>m. sv_less (name_of mc m) nm" and ?ns = "m_names mc"
  let ?mc = "insert_name (names_lower_bound nm mc) n (mc\<lparr>name_store := (name_store mc)(n \<mapsto> \<lparr>name = nm, ips = []\<rparr>)\<rparr>)"
  note s = cache_shapeD[OF assms(1)]
  have ns: "m_names ?mc = takeWhile ?P ?ns @ n # dropWhile ?P ?ns"
    by (simp add: insert_name_def names_lower_bound_def lower_bound_def flip: takeWhile_eq_take dropWhile_eq_drop)
  have f: "m_addrs_by_expire_time ?mc = m_addrs_by_expire_time mc" "addr_store ?mc = addr_store mc"
      "name_store ?mc = (name_store mc)(n \<mapsto> \<lparr>name = nm, ips = []\<rparr>)"
    by (simp_all add: insert_name_def)
  have st: "set (takeWhile ?P ?ns @ n # dropWhile ?P ?ns) = insert n (set ?ns)"
    by (rule set_split_insert)
  have n: "n \<notin> set ?ns" "n \<notin> set (m_addrs_by_expire_time mc)"
    using assms(2) by (auto simp: nodes_def)
  have so: "sorted_wrt sv_less (map (name_of mc) (takeWhile ?P ?ns) @ map (name_of mc) (dropWhile ?P ?ns))"
    using s(4) by (simp flip: map_append)
  have gt: "\<forall>m \<in> set (dropWhile ?P ?ns). sv_less nm (name_of mc m)"
  proof (cases "dropWhile ?P ?ns")
    case (Cons q qs)
    have "\<not> ?P q" "q \<in> set ?ns"
      using hd_dropWhile[of ?P ?ns] Cons set_dropWhileD[of q ?P ?ns] by auto
    then have "sv_less nm (name_of mc q)"
      using sv_less_total[of nm "name_of mc q"] assms(3) by auto
    moreover have "\<forall>m \<in> set qs. sv_less (name_of mc q) (name_of mc m)"
      using so Cons by (auto simp: sorted_wrt_append)
    ultimately show ?thesis
      using Cons sv_less_trans by auto
  qed (metis empty_iff list.set(1))
  have "map (name_of ?mc) (takeWhile ?P ?ns @ n # dropWhile ?P ?ns) =
      map (name_of mc) (takeWhile ?P ?ns) @ nm # map (name_of mc) (dropWhile ?P ?ns)"
    using n(1) by (auto simp: f dest: set_takeWhileD set_dropWhileD)
  moreover have "sorted_wrt sv_less (map (name_of mc) (takeWhile ?P ?ns) @ nm # map (name_of mc) (dropWhile ?P ?ns))"
    using so gt by (auto simp: sorted_wrt_append dest: set_takeWhileD)
  moreover have "distinct (takeWhile ?P ?ns @ n # dropWhile ?P ?ns)"
    using s(1) n(1) unfolding distinct_split_insert by simp
  moreover have "set ?ns \<inter> set (m_addrs_by_expire_time mc) = {}"
    using s(1) by auto
  ultimately show ?thesis
  proof (intro cache_shapeI, goal_cases)
    case 1
    then show ?case
      using s(1) n st unfolding ns f distinct_append[of "takeWhile _ _ @ _ # dropWhile _ _"] st by simp
  next
    case 2
    then show ?case
      using s(2) unfolding ns f set_split_insert by simp
  next
    case 3
    then show ?case
      using s(3) unfolding f by simp
  next
    case 4
    then show ?case
      unfolding ns by (simp only:)
  next
    case 5
    then show ?case
      using s(5) unfolding f by simp
  next
    case (6 m)
    then show ?case
      using s(6,7)[of m] s(8) n unfolding ns f set_split_insert by auto
  next
    case (7 q)
    then show ?case
      using s(8)[of q] unfolding ns f set_split_insert by simp
  qed
qed

end
