(* ===== verification/Corosig_Dns_Cache_Push.thy ===== *)
theory Corosig_Dns_Cache_Push
  imports Corosig_Dns_Cache_Inv
begin

text \<open>
  The operations of the memory cache that make and delete nodes, for every allocator that keeps
  the contract of \<^verbatim>\<open>an_allocator\<close> and accepts the requests the cache makes: who owns which
  chunk, what a run of node allocations has changed, and that a push which fails half way takes
  back what it did.
\<close>

section \<open>Ownership of the nodes\<close>

definition cache_ok :: "('s \<Rightarrow> bool) \<Rightarrow> ('s \<Rightarrow> (nat \<times> nat) set) \<Rightarrow> nat list \<Rightarrow> 's MemoryCache \<Rightarrow> bool" where
  "cache_ok good live made mc \<longleftrightarrow> cache_shape made mc \<and> good (m_alloc mc) \<and>
     (\<forall>p \<in> nodes made mc. \<exists>c>0. (p, c) \<in> live (m_alloc mc))"

text \<open>The chunks of everyone else.\<close>

definition foreign :: "('s \<Rightarrow> (nat \<times> nat) set) \<Rightarrow> nat list \<Rightarrow> 's MemoryCache \<Rightarrow> (nat \<times> nat) set" where
  "foreign live made mc = {x \<in> live (m_alloc mc). fst x \<notin> nodes made mc}"

text \<open>The requests of the cache: node sizes and alignments as a compiler gives them.\<close>

definition cache_sizes :: "'s cache_env \<Rightarrow> bool" where
  "cache_sizes E \<longleftrightarrow>
     {alignof_name E, alignof_addr E, alignof_resolved E} \<subseteq> {4, 8, 16} \<and>
     {sizeof_name E, sizeof_addr E, sizeof_resolved E} \<subseteq> {1..<2 ^ 16}"

lemma unat_size:
  assumes "n < 2 ^ 64"
  shows "unat (word_of_nat n :: u64) = n"
  using assms by (simp add: unat_of_nat take_bit_eq_mod)

locale cache_allocator = an_allocator alloc dealloc inv live ok
  for alloc :: "u64 \<Rightarrow> u64 \<Rightarrow> 's \<Rightarrow> (nat option \<times> 's) option"
    and dealloc :: "nat option \<Rightarrow> 's \<Rightarrow> 's option"
    and inv :: "'s \<Rightarrow> bool"
    and live :: "'s \<Rightarrow> (nat \<times> nat) set"
    and ok :: "u64 \<Rightarrow> u64 \<Rightarrow> bool" +
  assumes request_law: "al \<in> {4, 8, 16} \<Longrightarrow> unat sz < 2 ^ 48 \<Longrightarrow> ok sz al"

definition cache_env_on :: "(u64 \<Rightarrow> u64 \<Rightarrow> 's \<Rightarrow> (nat option \<times> 's) option) \<Rightarrow> (nat option \<Rightarrow> 's \<Rightarrow> 's option) \<Rightarrow>
    's cache_env \<Rightarrow> bool" where
  "cache_env_on al de E \<longleftrightarrow> cache_allocate E = al \<and> cache_deallocate E = de \<and> cache_sizes E"

section \<open>The nodes one by one\<close>

lemma nodes_put_addr [simp]: "nodes (made @ [p]) (put_addr p parent e v4s v6s mc) = insert p (nodes made mc)"
  by (auto simp: nodes_def)

lemma nodes_alloc [simp]: "nodes made (mc\<lparr>m_alloc := s\<rparr>) = nodes made mc"
  by (simp add: nodes_def)

lemma alloc_alloc [simp]: "mc\<lparr>m_alloc := s\<rparr>\<lparr>m_alloc := t\<rparr> = mc\<lparr>m_alloc := t\<rparr>"
  by simp

lemma put_addr_alloc [simp]:
  "m_alloc (put_addr p parent e v4s v6s mc) = m_alloc mc"
  by simp

lemma nodes_drop_addr:
  assumes "cache_shape made mc" and "p \<in> set (m_addrs_by_expire_time mc @ made)"
  shows "nodes (remove1 p made) (drop_addr p mc) = nodes made mc - {p}"
proof -
  note s = cache_shapeD(1)[OF assms(1)]
  have "set (remove1 p (m_addrs_by_expire_time mc)) = set (m_addrs_by_expire_time mc) - {p}"
      "set (remove1 p made) = set made - {p}" "p \<notin> set (m_names mc)"
    using s assms(2) by auto
  then show ?thesis
    by (auto simp: nodes_def)
qed

lemma nodes_drop_name:
  assumes "cache_shape made mc" and "n \<in> set (m_names mc)"
  shows "nodes made (drop_name n mc) = nodes made mc - {n}"
  using cache_shapeD(1)[OF assms(1)] assms(2) by (auto simp: nodes_def drop_name_def)

section \<open>Several nodes\<close>

lemma insert_addr_fields [simp]:
  "m_names (insert_addr p mc) = m_names mc" "name_store (insert_addr p mc) = name_store mc"
  "addr_store (insert_addr p mc) = addr_store mc" "m_alloc (insert_addr p mc) = m_alloc mc"
  by (simp_all add: insert_addr_def Let_def)

lemma mset_insert_addr: "mset (m_addrs_by_expire_time (insert_addr p mc)) = add_mset p (mset (m_addrs_by_expire_time mc))"
proof -
  have "m_addrs_by_expire_time (insert_addr p mc) =
      takeWhile (\<lambda>q. \<not> expiry_of mc p < expiry_of mc q) (m_addrs_by_expire_time mc) @
      p # dropWhile (\<lambda>q. \<not> expiry_of mc p < expiry_of mc q) (m_addrs_by_expire_time mc)"
    by (simp add: insert_addr_def upper_bound_def Let_def flip: takeWhile_eq_take dropWhile_eq_drop)
  then show ?thesis
    by (simp only: mset_split_insert)
qed

lemma insert_addrs_fields:
  "m_names (fold insert_addr ps mc) = m_names mc" "name_store (fold insert_addr ps mc) = name_store mc"
  "addr_store (fold insert_addr ps mc) = addr_store mc" "m_alloc (fold insert_addr ps mc) = m_alloc mc"
  "mset (m_addrs_by_expire_time (fold insert_addr ps mc)) = mset ps + mset (m_addrs_by_expire_time mc)"
  by (induction ps arbitrary: mc) (simp_all add: mset_insert_addr)

text \<open>What a run of \<^term>\<open>make_groups\<close> that made the nodes \<^term>\<open>ps\<close> has changed.\<close>

definition grown :: "('ip list \<Rightarrow> Ipv4Addr list \<times> Ipv6Addr list) \<Rightarrow> nat \<Rightarrow> (int \<times> 'ip list) list \<Rightarrow> nat list \<Rightarrow> nat list \<Rightarrow>
    bool \<Rightarrow> 's MemoryCache \<Rightarrow> 's MemoryCache \<Rightarrow> bool" where
  "grown store parent gs made ps b mc mc' \<longleftrightarrow>
     m_names mc' = m_names mc \<and> m_addrs_by_expire_time mc' = m_addrs_by_expire_time mc \<and>
     name_store mc' = (name_store mc)(parent \<mapsto> (the (name_store mc parent))\<lparr>ips := rev ps @ ips_of mc parent\<rparr>) \<and>
     (\<forall>q. q \<notin> set ps \<longrightarrow> addr_store mc' q = addr_store mc q) \<and>
     list_all2 (\<lambda>p g. addr_store mc' p = Some \<lparr>m_parent = parent, m_expires_at = fst g,
         ipv4s = fst (store (snd g)), ipv6s = snd (store (snd g))\<rparr>) ps (take (length ps) gs) \<and>
     (b \<longrightarrow> length ps = length gs) \<and> distinct ps \<and> set ps \<inter> nodes made mc = {}"

lemma grown_Cons:
  assumes "p \<notin> nodes made mc"
    and "grown store parent gs (made @ [p]) ps b
       ((put_addr p parent (fst g) (fst (store (snd g))) (snd (store (snd g))) mc)\<lparr>m_alloc := s\<rparr>) mc'"
  shows "grown store parent (g # gs) made (p # ps) b mc mc'"
proof -
  note g = assms(2)[unfolded grown_def]
  have p: "p \<notin> set ps" "set ps \<inter> nodes made mc = {}"
    using g by auto
  have "addr_store mc' p = Some \<lparr>m_parent = parent, m_expires_at = fst g,
         ipv4s = fst (store (snd g)), ipv6s = snd (store (snd g))\<rparr>"
    using g p(1) by simp
  then show ?thesis
    using g p assms(1) by (auto simp: grown_def put_addr_def)
qed

lemma grown_alloc: "grown store parent gs made ps b (mc\<lparr>m_alloc := s\<rparr>) mc' = grown store parent gs made ps b mc mc'"
  by (simp add: grown_def)

definition cut_addrs :: "nat list \<Rightarrow> nat \<Rightarrow> 's MemoryCache \<Rightarrow> 's MemoryCache" where
  "cut_addrs ps n mc = mc
     \<lparr>addr_store := (addr_store mc) |` (- set ps),
      name_store := (name_store mc)(n \<mapsto> (the (name_store mc n))\<lparr>ips := filter (\<lambda>p. p \<notin> set ps) (ips_of mc n)\<rparr>)\<rparr>"

lemma cut_addrs_Nil: "name_store mc n \<noteq> None \<Longrightarrow> cut_addrs [] n mc = mc"
  by (auto simp: cut_addrs_def restrict_map_def)

lemma cut_addrs_Cons:
  "(cut_addrs ps n ((cut_addrs [p] n mc)\<lparr>m_alloc := s\<rparr>))\<lparr>m_alloc := t\<rparr> = (cut_addrs (p # ps) n mc)\<lparr>m_alloc := t\<rparr>"
  by (auto simp: cut_addrs_def restrict_map_def fun_eq_iff intro!: arg_cong[where f = "\<lambda>x. _\<lparr>ips := x\<rparr>"] filter_cong)

lemma drop_addr_cut:
  assumes "cache_shape made mc" and "p \<in> set made" and "m_parent (the (addr_store mc p)) = n"
  shows "drop_addr p mc = cut_addrs [p] n mc"
proof -
  note s = cache_shapeD[OF assms(1)]
  have "p \<notin> set (m_addrs_by_expire_time mc)"
    using s(1) assms(2) by auto
  moreover have "n \<in> set (m_names mc)"
    using s(8)[of p] assms(2,3) by auto
  then have "remove1 p (ips_of mc n) = filter (\<lambda>q. q \<noteq> p) (ips_of mc n)"
    using s(6) by (simp add: distinct_remove1_removeAll removeAll_filter_not_eq) metis
  ultimately show ?thesis
    using assms(3) by (simp add: drop_addr_def cut_addrs_def restrict_map_def remove1_idem Let_def fun_eq_iff)
qed

lemma cut_grown:
  assumes "grown store parent gs made ps b mc mc'" and "cache_shape made mc" and "parent \<in> set (m_names mc)"
  shows "(cut_addrs ps parent mc')\<lparr>m_alloc := s\<rparr> = mc\<lparr>m_alloc := s\<rparr>"
proof -
  note g = assms(1)[unfolded grown_def]
  have new: "q \<in> set ps \<Longrightarrow> addr_store mc q = None" for q
  proof -
    assume "q \<in> set ps"
    then have "q \<notin> nodes made mc"
      using g by auto
    then have "q \<notin> dom (addr_store mc)"
      using cache_shapeD(3)[OF assms(2)] by (auto simp: nodes_def)
    then show "addr_store mc q = None"
      by auto
  qed
  have "addr_store mc' |` (- set ps) = addr_store mc"
  proof
    fix q show "(addr_store mc' |` (- set ps)) q = addr_store mc q"
      using g new[of q] by (cases "q \<in> set ps") (auto simp: restrict_map_def)
  qed
  moreover have "set (ips_of mc parent) \<inter> set ps = {}"
    using g cache_shapeD(7)[OF assms(2,3)] by (auto simp: nodes_def)
  then have "filter (\<lambda>p. p \<notin> set ps) (rev ps @ ips_of mc parent) = ips_of mc parent"
    by (auto simp: filter_empty_conv filter_id_conv)
  moreover have "name_store mc parent \<noteq> None"
    using cache_shapeD(2)[OF assms(2)] assms(3) by auto
  ultimately show ?thesis
    using g by (auto intro!: MemoryCache.equality simp: cut_addrs_def)
qed

context cache_allocator
begin

abbreviation good :: "nat list \<Rightarrow> 's MemoryCache \<Rightarrow> bool" where
  "good \<equiv> cache_ok inv live"

lemma cache_alloc_cases:
  assumes "good made mc" and "al \<in> {4, 8, 16}" and "n < 2 ^ 48"
  obtains (null) "alloc (word_of_nat n) al (m_alloc mc) = Some (None, m_alloc mc)"
  | (chunk) p s c where "alloc (word_of_nat n) al (m_alloc mc) = Some (Some p, s)" and "inv s" and "p \<notin> nodes made mc"
      and "p \<notin> fst ` live (m_alloc mc)" and "n \<le> c" and "live s = insert (p, c) (live (m_alloc mc))"
proof -
  have u: "unat (word_of_nat n :: u64) = n"
    using assms(3) by (intro unat_size) simp
  then have ok: "ok (word_of_nat n) al"
    using assms(2,3) by (intro request_law) simp_all
  have i: "inv (m_alloc mc)"
    using assms(1) by (simp add: cache_ok_def)
  from i ok show ?thesis
  proof (cases rule: alloc_cases)
    case null
    then show ?thesis using that(1) by blast
  next
    case (chunk p s c)
    have "\<forall>q \<in> nodes made mc. q \<in> fst ` live (m_alloc mc)"
      using assms(1) by (force simp: cache_ok_def)
    then have "p \<notin> nodes made mc"
      using chunk(4) by blast
    then show ?thesis
      using chunk(5) that(2)[OF chunk(1,2) _ chunk(4) _ chunk(6)] unfolding u by blast
  qed
qed

lemma good_grow:
  assumes "good made mc" and "cache_shape made' mc'" and "nodes made' mc' = insert p (nodes made mc)"
    and "inv s" and "p \<notin> fst ` live (m_alloc mc)" and "0 < c" and "live s = insert (p, c) (live (m_alloc mc))"
  shows "good made' (mc'\<lparr>m_alloc := s\<rparr>)" and "foreign live made' (mc'\<lparr>m_alloc := s\<rparr>) = foreign live made mc"
  using assms by (auto simp: cache_ok_def foreign_def cache_shape_cong)

lemma good_shrink:
  assumes "good made mc" and "cache_shape made' mc'" and "nodes made' mc' = nodes made mc - {p}" and "p \<in> nodes made mc"
  shows "\<exists>s. dealloc (Some p) (m_alloc mc) = Some s \<and> good made' (mc'\<lparr>m_alloc := s\<rparr>) \<and>
    foreign live made' (mc'\<lparr>m_alloc := s\<rparr>) = foreign live made mc"
proof -
  obtain c where c: "(p, c) \<in> live (m_alloc mc)" "0 < c" and i: "inv (m_alloc mc)"
    using assms(1,4) by (auto simp: cache_ok_def)
  obtain s where s: "dealloc (Some p) (m_alloc mc) = Some s" "inv s" "live s = live (m_alloc mc) - {(p, c)}"
    using dealloc_law[OF i c] by blast
  have l: "(q, d) \<in> live s \<longleftrightarrow> (q, d) \<in> live (m_alloc mc) \<and> q \<noteq> p" for q d
    using live_unique[OF i c(1), of d] by (cases "q = p") (auto simp: s(3))
  have "\<exists>d>0. (q, d) \<in> live s" if "q \<in> nodes made' mc'" for q
    using assms(1,3) that l by (auto simp: cache_ok_def)
  moreover have "x \<in> live s \<and> fst x \<notin> nodes made' mc' \<longleftrightarrow> x \<in> live (m_alloc mc) \<and> fst x \<notin> nodes made mc" for x
    using assms(3,4) by (cases x) (auto simp: l)
  ultimately show ?thesis
    using s(1,2) assms(2) by (simp add: cache_ok_def foreign_def cache_shape_cong)
qed

lemma make_addr_ok:
  assumes "good made mc" and "cache_env_on alloc dealloc E" and "parent \<in> set (m_names mc)"
    and "length v4s < 2 ^ 32" and "length v6s < 2 ^ 32"
  shows "make_addr E parent e v4s v6s mc = Some (None, mc) \<or>
    (\<exists>p s. make_addr E parent e v4s v6s mc = Some (Some p, (put_addr p parent e v4s v6s mc)\<lparr>m_alloc := s\<rparr>) \<and>
       p \<notin> nodes made mc \<and> good (made @ [p]) ((put_addr p parent e v4s v6s mc)\<lparr>m_alloc := s\<rparr>) \<and>
       foreign live (made @ [p]) ((put_addr p parent e v4s v6s mc)\<lparr>m_alloc := s\<rparr>) = foreign live made mc)"
proof -
  let ?n = "sizeof_addr E + length v4s * 4 + length v6s * 16"
  have E: "cache_allocate E = alloc" "alignof_addr E \<in> {4, 8, 16}" "0 < sizeof_addr E" "sizeof_addr E < 2 ^ 16"
    using assms(2) by (auto simp: cache_env_on_def cache_sizes_def)
  have n: "?n < 2 ^ 48"
    using E(4) assms(4,5) by simp
  have w: "(word_of_nat (sizeof_addr E) + word_of_nat (length v4s) * 4 + word_of_nat (length v6s) * 16 :: u64) = word_of_nat ?n"
    by simp
  have len: "length v4s \<le> 2 ^ 32 - 1 \<and> length v6s \<le> 2 ^ 32 - 1"
    using assms(4,5) by simp
  from assms(1) E(2) n show ?thesis
  proof (cases rule: cache_alloc_cases)
    case null
    then show ?thesis
      by (simp add: make_addr_def E(1) w[symmetric] del: of_nat_add of_nat_mult)
  next
    case (chunk p s c)
    have sh: "cache_shape (made @ [p]) (put_addr p parent e v4s v6s mc)"
      using put_addr_shape[OF _ assms(3) chunk(3)] assms(1) by (simp add: cache_ok_def)
    have c: "0 < c"
      using chunk(5) E(3) by simp
    have "make_addr E parent e v4s v6s mc = Some (Some p, (put_addr p parent e v4s v6s mc)\<lparr>m_alloc := s\<rparr>)"
      using chunk(1) len by (simp add: make_addr_def put_header_def E(1) w put_addr_def Let_def del: of_nat_add of_nat_mult)
    then show ?thesis
      using good_grow[OF assms(1) sh nodes_put_addr chunk(2,4) c chunk(6)] chunk(3) by blast
  qed
qed

lemma delete_addr_ok:
  assumes "good made mc" and "cache_env_on alloc dealloc E" and "p \<in> set (m_addrs_by_expire_time mc @ made)"
  shows "\<exists>s. delete_addr E p mc = Some ((drop_addr p mc)\<lparr>m_alloc := s\<rparr>) \<and>
    good (remove1 p made) ((drop_addr p mc)\<lparr>m_alloc := s\<rparr>) \<and>
    foreign live (remove1 p made) ((drop_addr p mc)\<lparr>m_alloc := s\<rparr>) = foreign live made mc"
proof -
  have sh: "cache_shape made mc"
    using assms(1) by (simp add: cache_ok_def)
  have p: "p \<in> nodes made mc"
    using assms(3) by (auto simp: nodes_def)
  have E: "cache_deallocate E = dealloc"
    using assms(2) by (simp add: cache_env_on_def)
  obtain s where s: "dealloc (Some p) (m_alloc mc) = Some s" "good (remove1 p made) ((drop_addr p mc)\<lparr>m_alloc := s\<rparr>)"
      "foreign live (remove1 p made) ((drop_addr p mc)\<lparr>m_alloc := s\<rparr>) = foreign live made mc"
    using good_shrink[OF assms(1) drop_addr_shape[OF sh assms(3)] nodes_drop_addr[OF sh assms(3)] p] by blast
  have "delete_addr E p mc = Some ((drop_addr p mc)\<lparr>m_alloc := s\<rparr>)"
    using s(1) by (simp add: delete_addr_def drop_addr_def Let_def E)
  then show ?thesis
    using s by blast
qed

lemma delete_name_ok:
  assumes "good made mc" and "cache_env_on alloc dealloc E" and "n \<in> set (m_names mc)" and "ips_of mc n = []"
  shows "\<exists>s. delete_name E n mc = Some ((drop_name n mc)\<lparr>m_alloc := s\<rparr>) \<and> good made ((drop_name n mc)\<lparr>m_alloc := s\<rparr>) \<and>
    foreign live made ((drop_name n mc)\<lparr>m_alloc := s\<rparr>) = foreign live made mc"
proof -
  have sh: "cache_shape made mc"
    using assms(1) by (simp add: cache_ok_def)
  have n: "n \<in> nodes made mc"
    using assms(3) by (auto simp: nodes_def)
  have E: "cache_deallocate E = dealloc"
    using assms(2) by (simp add: cache_env_on_def)
  obtain s where s: "dealloc (Some n) (m_alloc mc) = Some s" "good made ((drop_name n mc)\<lparr>m_alloc := s\<rparr>)"
      "foreign live made ((drop_name n mc)\<lparr>m_alloc := s\<rparr>) = foreign live made mc"
    using good_shrink[OF assms(1) drop_name_shape[OF sh assms(3,4)] nodes_drop_name[OF sh assms(3)] n] by blast
  have "delete_name E n mc = Some ((drop_name n mc)\<lparr>m_alloc := s\<rparr>)"
    using s(1) by (simp add: delete_name_def drop_name_def Let_def E)
  then show ?thesis
    using s by blast
qed

lemma insert_addr_ok:
  assumes "good (p # made) mc"
  shows "good made (insert_addr p mc) \<and> foreign live made (insert_addr p mc) = foreign live (p # made) mc"
proof -
  have "nodes made (insert_addr p mc) = nodes (p # made) mc" "m_alloc (insert_addr p mc) = m_alloc mc"
    using arg_cong[of _ _ set_mset, OF mset_insert_addr[of p mc]] by (auto simp: nodes_def)
  then show ?thesis
    using assms insert_addr_shape[of p made mc] by (simp add: cache_ok_def foreign_def)
qed

lemma insert_addrs_ok:
  assumes "good made mc"
  shows "good [] (fold insert_addr made mc) \<and> foreign live [] (fold insert_addr made mc) = foreign live made mc"
  using assms
proof (induction made arbitrary: mc)
  case (Cons p made)
  then show ?case
    using insert_addr_ok[OF Cons.prems] by simp
qed simp

lemma make_groups_ok:
  assumes "good made mc" and "cache_env_on alloc dealloc E" and "parent \<in> set (m_names mc)"
    and "\<forall>g \<in> set gs. length (fst (store (snd g))) < 2 ^ 32 \<and> length (snd (store (snd g))) < 2 ^ 32"
  shows "\<exists>b ps mc'. make_groups E store parent gs made mc = Some (b, made @ ps, mc') \<and> good (made @ ps) mc' \<and>
    foreign live (made @ ps) mc' = foreign live made mc \<and> grown store parent gs made ps b mc mc'"
  using assms
proof (induction gs arbitrary: made mc)
  case Nil
  have "name_store mc parent \<noteq> None"
    using Nil.prems(1,3) by (auto simp: cache_ok_def cache_shape_def)
  then show ?case
    using Nil.prems(1) by (auto simp: grown_def)
next
  case (Cons g gs)
  have pn: "name_store mc parent \<noteq> None"
    using Cons.prems(1,3) by (auto simp: cache_ok_def cache_shape_def)
  let ?mk = "make_addr E parent (fst g) (fst (store (snd g))) (snd (store (snd g))) mc"
  let ?put = "put_addr"
  from make_addr_ok[OF Cons.prems(1-3), of "fst (store (snd g))" "snd (store (snd g))" "fst g"] Cons.prems(4)
  consider (null) "?mk = Some (None, mc)"
    | (node) p s where "?mk = Some (Some p, (put_addr p parent (fst g) (fst (store (snd g))) (snd (store (snd g))) mc)\<lparr>m_alloc := s\<rparr>)"
        "p \<notin> nodes made mc"
        "good (made @ [p]) ((put_addr p parent (fst g) (fst (store (snd g))) (snd (store (snd g))) mc)\<lparr>m_alloc := s\<rparr>)"
        "foreign live (made @ [p]) ((put_addr p parent (fst g) (fst (store (snd g))) (snd (store (snd g))) mc)\<lparr>m_alloc := s\<rparr>) =
         foreign live made mc"
    by auto
  then show ?case
  proof cases
    case null
    then have "make_groups E store parent (g # gs) made mc = Some (False, made @ [], mc)"
      by simp
    moreover have "grown store parent (g # gs) made [] False mc mc"
      using pn by (auto simp: grown_def)
    ultimately show ?thesis
      using Cons.prems(1) append_Nil2 by metis
  next
    case (node p s)
    let ?mc = "(put_addr p parent (fst g) (fst (store (snd g))) (snd (store (snd g))) mc)\<lparr>m_alloc := s\<rparr>"
    obtain b ps mc' where r: "make_groups E store parent gs (made @ [p]) ?mc = Some (b, (made @ [p]) @ ps, mc')"
        "good ((made @ [p]) @ ps) mc'" "foreign live ((made @ [p]) @ ps) mc' = foreign live (made @ [p]) ?mc"
        "grown store parent gs (made @ [p]) ps b ?mc mc'"
      using Cons.IH[OF node(3) Cons.prems(2)] Cons.prems(3,4) by auto
    have "grown store parent (g # gs) made (p # ps) b mc mc'"
      using grown_Cons[OF node(2) r(4)] .
    moreover have "make_groups E store parent (g # gs) made mc = Some (b, made @ p # ps, mc')"
      using node(1) r(1) by simp
    ultimately show ?thesis
      using r(2,3) node(4) by auto
  qed
qed

lemma delete_addrs_ok:
  assumes "good made mc" and "cache_env_on alloc dealloc E" and "set ps \<subseteq> set made" and "distinct ps"
    and "n \<in> set (m_names mc)" and "\<forall>p \<in> set ps. m_parent (the (addr_store mc p)) = n"
  shows "\<exists>s. delete_addrs E ps mc = Some ((cut_addrs ps n mc)\<lparr>m_alloc := s\<rparr>) \<and>
    good (filter (\<lambda>p. p \<notin> set ps) made) ((cut_addrs ps n mc)\<lparr>m_alloc := s\<rparr>) \<and>
    foreign live (filter (\<lambda>p. p \<notin> set ps) made) ((cut_addrs ps n mc)\<lparr>m_alloc := s\<rparr>) = foreign live made mc"
  using assms
proof (induction ps arbitrary: made mc)
  case Nil
  then have "cut_addrs [] n mc = mc"
    by (intro cut_addrs_Nil) (auto simp: cache_ok_def cache_shape_def)
  then have "delete_addrs E [] mc = Some ((cut_addrs [] n mc)\<lparr>m_alloc := m_alloc mc\<rparr>)" "(cut_addrs [] n mc)\<lparr>m_alloc := m_alloc mc\<rparr> = mc"
    by simp_all
  then show ?case
    using Nil.prems(1) by (intro exI[of _ "m_alloc mc"]) simp
next
  case (Cons p ps)
  have sh: "cache_shape made mc"
    using Cons.prems(1) by (simp add: cache_ok_def)
  have dp: "p \<in> set made" "m_parent (the (addr_store mc p)) = n"
    using Cons.prems(3,6) by auto
  have cut: "drop_addr p mc = cut_addrs [p] n mc"
    using drop_addr_cut[OF sh dp] .
  obtain s where s: "delete_addr E p mc = Some ((drop_addr p mc)\<lparr>m_alloc := s\<rparr>)"
      "good (remove1 p made) ((drop_addr p mc)\<lparr>m_alloc := s\<rparr>)"
      "foreign live (remove1 p made) ((drop_addr p mc)\<lparr>m_alloc := s\<rparr>) = foreign live made mc"
    using delete_addr_ok[OF Cons.prems(1,2), of p] dp(1) by auto
  let ?mc = "(drop_addr p mc)\<lparr>m_alloc := s\<rparr>"
  have d: "distinct made"
    using cache_shapeD(1)[OF sh] by simp
  have m: "remove1 p made = filter (\<lambda>q. q \<noteq> p) made"
    using d by (simp add: distinct_remove1_removeAll removeAll_filter_not_eq) metis
  have "set ps \<subseteq> set (remove1 p made)"
    using Cons.prems(3,4) d by auto
  moreover have "\<forall>q \<in> set ps. m_parent (the (addr_store ?mc q)) = n"
    using Cons.prems(4,6) by auto
  ultimately obtain t where t: "delete_addrs E ps ?mc = Some ((cut_addrs ps n ?mc)\<lparr>m_alloc := t\<rparr>)"
      "good (filter (\<lambda>q. q \<notin> set ps) (remove1 p made)) ((cut_addrs ps n ?mc)\<lparr>m_alloc := t\<rparr>)"
      "foreign live (filter (\<lambda>q. q \<notin> set ps) (remove1 p made)) ((cut_addrs ps n ?mc)\<lparr>m_alloc := t\<rparr>) =
       foreign live (remove1 p made) ?mc"
    using Cons.IH[OF s(2) Cons.prems(2)] Cons.prems(4,5) by auto
  moreover have "(cut_addrs ps n ?mc)\<lparr>m_alloc := t\<rparr> = (cut_addrs (p # ps) n mc)\<lparr>m_alloc := t\<rparr>"
    unfolding cut by (rule cut_addrs_Cons)
  moreover have "filter (\<lambda>q. q \<notin> set ps) (remove1 p made) = filter (\<lambda>q. q \<notin> set (p # ps)) made"
    unfolding m by (simp add: conj_commute)
  ultimately show ?case
    using s(1,3) by auto
qed

end

section \<open>The entries\<close>

lemma sorted_names_inj: "cache_shape made mc \<Longrightarrow> inj_on (name_of mc) (set (m_names mc))"
proof -
  have "sorted_wrt sv_less xs \<Longrightarrow> distinct xs" for xs
    by (induction xs) auto
  then show "cache_shape made mc \<Longrightarrow> inj_on (name_of mc) (set (m_names mc))"
    using cache_shapeD(4) by (metis distinct_map)
qed

lemma names_lower_bound_cases:
  assumes "cache_shape made mc"
  obtains (new) "nm \<notin> name_of mc ` set (m_names mc)"
      and "names_lower_bound nm mc = length (m_names mc) \<or> name_of mc (m_names mc ! names_lower_bound nm mc) \<noteq> nm"
  | (old) n where "n \<in> set (m_names mc)" and "name_of mc n = nm" and "m_names mc ! names_lower_bound nm mc = n"
      and "names_lower_bound nm mc < length (m_names mc)"
proof -
  let ?P = "\<lambda>m. sv_less (name_of mc m) nm" and ?ns = "m_names mc"
  have i: "names_lower_bound nm mc = length (takeWhile ?P ?ns)"
    by (simp add: names_lower_bound_def lower_bound_def)
  have so: "sorted_wrt sv_less (map (name_of mc) (takeWhile ?P ?ns) @ map (name_of mc) (dropWhile ?P ?ns))"
    using cache_shapeD(4)[OF assms] by (simp flip: map_append)
  show thesis
  proof (cases "nm \<in> name_of mc ` set ?ns")
    case True
    then obtain m where m: "m \<in> set ?ns" "name_of mc m = nm"
      by auto
    then have "m \<notin> set (takeWhile ?P ?ns)"
      by (auto dest: set_takeWhileD)
    then have md: "m \<in> set (dropWhile ?P ?ns)"
      using m(1) by (metis Un_iff set_append takeWhile_dropWhile_id)
    then obtain q qs where q: "dropWhile ?P ?ns = q # qs"
      by (cases "dropWhile ?P ?ns") auto
    have "\<not> ?P q"
      using hd_dropWhile[of ?P ?ns] q by simp
    then have "m = q"
      using md so q m(2) by (auto simp: sorted_wrt_append)
    moreover have "length (takeWhile ?P ?ns) < length ?ns" "?ns ! length (takeWhile ?P ?ns) = q"
      using q by (metis length_append length_Cons less_add_Suc1 add_Suc_right takeWhile_dropWhile_id)
        (metis q nth_append_length takeWhile_dropWhile_id)
    ultimately show thesis
      using old m i by simp
  next
    case False
    then have "names_lower_bound nm mc = length ?ns \<or> name_of mc (?ns ! names_lower_bound nm mc) \<noteq> nm"
      unfolding i using length_takeWhile_le[of ?P ?ns] nth_mem[of "length (takeWhile ?P ?ns)" ?ns]
      by (metis (no_types, lifting) imageI le_neq_implies_less)
    then show thesis
      using new False by blast
  qed
qed

lemma names_find_iff:
  assumes "cache_shape made mc"
  shows "names_find nm mc = Some n \<longleftrightarrow> n \<in> set (m_names mc) \<and> name_of mc n = nm"
  using assms
proof (cases rule: names_lower_bound_cases[of made mc nm])
  case new
  have "\<not> (names_lower_bound nm mc < length (m_names mc) \<and>
      \<not> sv_less nm (name_of mc (m_names mc ! names_lower_bound nm mc)))"
  proof
    assume a: "names_lower_bound nm mc < length (m_names mc) \<and>
      \<not> sv_less nm (name_of mc (m_names mc ! names_lower_bound nm mc))"
    then have "\<not> sv_less (name_of mc (m_names mc ! names_lower_bound nm mc)) nm"
      using nth_length_takeWhile[of "\<lambda>m. sv_less (name_of mc m) nm" "m_names mc"]
      by (simp add: names_lower_bound_def lower_bound_def)
    then show False
      using a new(2) sv_less_total by (metis less_irrefl)
  qed
  then show ?thesis
    using new(1) by (auto simp: names_find_def Let_def)
next
  case (old m)
  then have "names_find nm mc = Some m"
    by (simp add: names_find_def Let_def)
  then show ?thesis
    using old(1,2) sorted_names_inj[OF assms] by (auto dest: inj_onD)
qed

text \<open>An entry: a name, an expiry time and an address. \<^term>\<open>src\<close> selects the family.\<close>

definition entries_at :: "(AddrStorageHeader \<Rightarrow> 'ip list) \<Rightarrow> 's MemoryCache \<Rightarrow> nat \<Rightarrow> (octets \<times> int \<times> 'ip) list" where
  "entries_at src mc p =
     map (\<lambda>a. (name_of mc (m_parent (the (addr_store mc p))), expiry_of mc p, a)) (src (the (addr_store mc p)))"

definition entries :: "(AddrStorageHeader \<Rightarrow> 'ip list) \<Rightarrow> 's MemoryCache \<Rightarrow> (octets \<times> int \<times> 'ip) multiset" where
  "entries src mc = (\<Sum>p \<in># mset (m_addrs_by_expire_time mc). mset (entries_at src mc p))"

text \<open>What a push adds: the addresses that have not expired.\<close>

definition new_entries :: "octets \<Rightarrow> int \<Rightarrow> 'ip ResolvedAddress list \<Rightarrow> (octets \<times> int \<times> 'ip) multiset" where
  "new_entries nm now addrs = {# (nm, expires_at a, address a). a \<in># filter_mset (\<lambda>a. now < expires_at a) (mset addrs) #}"

definition sorts_by_expiry :: "('ip ResolvedAddress list \<Rightarrow> 'ip ResolvedAddress list) \<Rightarrow> bool" where
  "sorts_by_expiry srt \<longleftrightarrow> (\<forall>xs. mset (srt xs) = mset xs \<and> sorted (map expires_at (srt xs)))"

lemma entries_alloc [simp]: "entries src (mc\<lparr>m_alloc := s\<rparr>) = entries src mc"
  by (simp add: entries_def entries_at_def)

lemma expiry_groups_flat:
  "sorted (map expires_at as) \<Longrightarrow>
     concat (map (\<lambda>g. map (Pair (fst g)) (snd g)) (expiry_groups as)) = map (\<lambda>a. (expires_at a, address a)) as"
proof (induction as rule: expiry_groups.induct)
  case (2 a as)
  let ?same = "\<lambda>b. \<not> expires_at a < expires_at b"
  have "sorted (map expires_at (dropWhile ?same (a # as)))"
    using 2(2) by (metis dropWhile_eq_drop drop_map sorted_wrt_drop)
  then have "concat (map (\<lambda>g. map (Pair (fst g)) (snd g)) (expiry_groups (a # as))) =
      map (Pair (expires_at a)) (map address (takeWhile ?same (a # as))) @
      map (\<lambda>a. (expires_at a, address a)) (dropWhile ?same (a # as))"
    using 2(1)[OF refl] by (simp only: expiry_groups.simps Let_def list.map concat.simps fst_conv snd_conv)
  moreover have "map (Pair (expires_at a)) (map address (takeWhile ?same (a # as))) =
      map (\<lambda>a. (expires_at a, address a)) (takeWhile ?same (a # as))"
    using 2(2) by (auto dest!: set_takeWhileD intro: antisym)
  ultimately show ?case
    by (simp only: map_append[symmetric] takeWhile_dropWhile_id)
qed simp

lemma expiry_groups_length: "g \<in> set (expiry_groups as) \<Longrightarrow> length (snd g) \<le> length as"
proof (induction as rule: expiry_groups.induct)
  case (2 a as)
  let ?same = "\<lambda>b. \<not> expires_at a < expires_at b"
  have "g = (expires_at a, map address (takeWhile ?same (a # as))) \<or> g \<in> set (expiry_groups (dropWhile ?same (a # as)))"
    using 2(2) by (simp only: expiry_groups.simps Let_def set_simps insert_iff)
  then show ?case
  proof
    assume "g = (expires_at a, map address (takeWhile ?same (a # as)))"
    then show ?thesis
      using length_takeWhile_le[of ?same "a # as"] by (simp only: snd_conv length_map)
  next
    assume "g \<in> set (expiry_groups (dropWhile ?same (a # as)))"
    then show ?thesis
      using 2(1)[OF refl] length_dropWhile_le[of ?same "a # as"] by (meson le_trans)
  qed
qed simp

lemma entries_grown:
  assumes "grown store parent gs [] ps True mc mc'" and "cache_shape [] mc" and "parent \<in> set (m_names mc)"
    and "name_of mc parent = nm"
    and "\<And>e xs. src \<lparr>m_parent = parent, m_expires_at = e, ipv4s = fst (store xs), ipv6s = snd (store xs)\<rparr> = sel xs"
  shows "entries src (fold insert_addr ps mc') =
    entries src mc + mset (concat (map (\<lambda>g. map (\<lambda>a. (nm, fst g, a)) (sel (snd g))) gs))"
proof -
  note g = assms(1)[unfolded grown_def]
  have nm: "name_of mc' q = name_of mc q" for q
    using g by simp
  have at: "entries_at src (fold insert_addr ps mc') = entries_at src mc'"
    by (simp add: entries_at_def insert_addrs_fields fun_eq_iff)
  have old: "entries_at src mc' q = entries_at src mc q" if "q \<in> set (m_addrs_by_expire_time mc)" for q
  proof -
    have "q \<in> nodes [] mc"
      using that by (simp add: nodes_def)
    then have "q \<notin> set ps"
      using g by blast
    then have "addr_store mc' q = addr_store mc q"
      using g by blast
    then show ?thesis
      by (simp add: entries_at_def nm)
  qed
  have len: "length ps = length gs"
    using g by blast
  have "list_all2 (\<lambda>p g. addr_store mc' p = Some \<lparr>m_parent = parent, m_expires_at = fst g,
         ipv4s = fst (store (snd g)), ipv6s = snd (store (snd g))\<rparr>) ps (take (length ps) gs)"
    using g by blast
  then have "list_all2 (\<lambda>p g. entries_at src mc' p = map (\<lambda>a. (nm, fst g, a)) (sel (snd g))) ps gs"
    unfolding len take_all[OF order_refl] by (rule list_all2_mono) (simp add: entries_at_def nm assms(4,5))
  then have "map (entries_at src mc') ps = map (\<lambda>g. map (\<lambda>a. (nm, fst g, a)) (sel (snd g))) gs"
    by (induction rule: list_all2_induct) simp_all
  moreover have "(\<Sum>p \<in># mset ps. mset (entries_at src mc' p)) = mset (concat (map (entries_at src mc') ps))"
    by (induction ps) simp_all
  moreover have "(\<Sum>p \<in># mset (m_addrs_by_expire_time mc). mset (entries_at src mc' p)) = entries src mc"
    using old by (auto simp: entries_def intro!: arg_cong[where f = sum_mset] image_mset_cong)
  moreover have "m_addrs_by_expire_time mc' = m_addrs_by_expire_time mc"
    using g by simp
  ultimately show ?thesis
    unfolding entries_def at insert_addrs_fields by (simp add: add.commute)
qed

section \<open>Storing addresses\<close>

definition undone :: "nat option \<Rightarrow> 's MemoryCache \<Rightarrow> 's MemoryCache" where
  "undone new mc = (case new of None \<Rightarrow> mc | Some n \<Rightarrow> drop_name n mc)"

text \<open>
  What a push that returns \<^term>\<open>r\<close> has done: nothing but for the new name node when it fails, and
  otherwise it has added the entries of the groups.
\<close>

definition pushed :: "nat \<Rightarrow> nat option \<Rightarrow> ('ip list \<Rightarrow> Ipv4Addr list \<times> Ipv6Addr list) \<Rightarrow> (int \<times> 'ip list) list \<Rightarrow>
    's MemoryCache \<Rightarrow> (unit, AllocationError) result \<Rightarrow> 's MemoryCache \<Rightarrow> bool" where
  "pushed n new store gs mc r mc' \<longleftrightarrow>
     (r = Failure AllocationError \<and> (\<exists>s. mc' = (undone new mc)\<lparr>m_alloc := s\<rparr>)) \<or>
     (r = Ok () \<and> (\<exists>ps mc1 s. grown store n gs [] ps True mc mc1 \<and> mc' = (fold insert_addr ps mc1)\<lparr>m_alloc := s\<rparr>))"

context cache_allocator
begin

lemma scratch_cases:
  assumes "good [] mc" and "cache_env_on alloc dealloc E" and "k < 2 ^ 32"
  obtains (null) "scratch_allocate E k mc = Some (Failure AllocationError, mc)"
  | (buf) b s where "scratch_allocate E k mc = Some (Ok b, mc\<lparr>m_alloc := s\<rparr>)" and "good [] (mc\<lparr>m_alloc := s\<rparr>)"
      and "b = None \<and> foreign live [] (mc\<lparr>m_alloc := s\<rparr>) = foreign live [] mc \<or>
        (\<exists>p c. b = Some p \<and> 0 < c \<and> p \<notin> fst ` foreign live [] mc \<and>
           foreign live [] (mc\<lparr>m_alloc := s\<rparr>) = insert (p, c) (foreign live [] mc))"
proof (cases "k = 0")
  case True
  then show thesis
    using buf[of None "m_alloc mc"] assms(1) by (simp add: scratch_allocate_def)
next
  case False
  have E: "cache_allocate E = alloc" "alignof_resolved E \<in> {4, 8, 16}" "0 < sizeof_resolved E" "sizeof_resolved E < 2 ^ 16"
    using assms(2) by (auto simp: cache_env_on_def cache_sizes_def)
  have n: "k * sizeof_resolved E < 2 ^ 48"
    using mult_strict_mono[OF assms(3) E(4)] by simp
  from assms(1) E(2) n show thesis
  proof (cases rule: cache_alloc_cases)
    case null
    then show thesis
      using that(1) False by (simp add: scratch_allocate_def E(1))
  next
    case (chunk p s c)
    have c: "0 < c"
      using chunk(5) False E(3) by (cases c) auto
    have "good [] (mc\<lparr>m_alloc := s\<rparr>)" "foreign live [] (mc\<lparr>m_alloc := s\<rparr>) = insert (p, c) (foreign live [] mc)"
      "p \<notin> fst ` foreign live [] mc"
      using assms(1) chunk by (auto simp: cache_ok_def cache_shape_cong foreign_def)
    moreover have "scratch_allocate E k mc = Some (Ok (Some p), mc\<lparr>m_alloc := s\<rparr>)"
      using chunk(1) False by (simp add: scratch_allocate_def E(1))
    ultimately show thesis
      using that(2)[of "Some p" s] c by blast
  qed
qed

lemma scratch_free:
  assumes "good [] mc" and "cache_env_on alloc dealloc E"
    and "b = None \<and> foreign live [] mc = F \<or>
      (\<exists>p c. b = Some p \<and> 0 < c \<and> p \<notin> fst ` F \<and> foreign live [] mc = insert (p, c) F)"
  shows "\<exists>s. cache_deallocate E b (m_alloc mc) = Some s \<and> good [] (mc\<lparr>m_alloc := s\<rparr>) \<and> foreign live [] (mc\<lparr>m_alloc := s\<rparr>) = F"
  using assms(3)
proof (elim disjE exE conjE)
  assume "b = None" "foreign live [] mc = F"
  then show ?thesis
    using assms(1,2) dealloc_null by (intro exI[of _ "m_alloc mc"]) (simp add: cache_env_on_def)
next
  fix p c assume p: "b = Some p" "0 < c" "p \<notin> fst ` F" "foreign live [] mc = insert (p, c) F"
  have "(p, c) \<in> foreign live [] mc"
    using p(4) by simp
  then have i: "inv (m_alloc mc)" and pc: "(p, c) \<in> live (m_alloc mc)" and pn: "p \<notin> nodes [] mc"
    using assms(1) by (simp_all add: cache_ok_def foreign_def)
  obtain s where s: "dealloc (Some p) (m_alloc mc) = Some s" "inv s" "live s = live (m_alloc mc) - {(p, c)}"
    using dealloc_law[OF i pc p(2)] by blast
  have "\<exists>d>0. (q, d) \<in> live s" if "q \<in> nodes [] mc" for q
    using assms(1) that pn s(3) by (auto simp: cache_ok_def)
  then have "good [] (mc\<lparr>m_alloc := s\<rparr>)"
    using assms(1) s(2) by (simp add: cache_ok_def cache_shape_cong)
  moreover have "foreign live [] (mc\<lparr>m_alloc := s\<rparr>) = foreign live [] mc - {(p, c)}"
    using s(3) by (auto simp: foreign_def)
  then have "foreign live [] (mc\<lparr>m_alloc := s\<rparr>) = F"
    using p(3,4) by force
  ultimately show ?thesis
    using s(1) p(1) assms(2) by (auto simp: cache_env_on_def)
qed

lemma undo_ok:
  assumes "good [] mc" and "cache_env_on alloc dealloc E" and "new = None \<or> new = Some n \<and> n \<in> set (m_names mc) \<and> ips_of mc n = []"
  shows "\<exists>s. (case new of None \<Rightarrow> Some mc | Some n \<Rightarrow> delete_name E n mc) = Some ((undone new mc)\<lparr>m_alloc := s\<rparr>) \<and>
    good [] ((undone new mc)\<lparr>m_alloc := s\<rparr>) \<and> foreign live [] ((undone new mc)\<lparr>m_alloc := s\<rparr>) = foreign live [] mc"
  using assms(3)
proof (elim disjE conjE)
  assume "new = None"
  then show ?thesis
    using assms(1) by (intro exI[of _ "m_alloc mc"]) (simp add: undone_def)
next
  assume "new = Some n" "n \<in> set (m_names mc)" "ips_of mc n = []"
  then show ?thesis
    using delete_name_ok[OF assms(1,2), of n] by (simp add: undone_def)
qed

lemma push_groups_ok:
  assumes "good [] mc" and "cache_env_on alloc dealloc E" and "n \<in> set (m_names mc)"
    and "\<forall>g \<in> set gs. length (fst (store (snd g))) < 2 ^ 32 \<and> length (snd (store (snd g))) < 2 ^ 32"
  shows "\<exists>b ps mc1 mc2. make_groups E store n gs [] mc = Some (b, ps, mc1) \<and>
    (if b then Some (fold insert_addr ps mc1) else delete_addrs E ps mc1) = Some mc2 \<and> good [] mc2 \<and>
    foreign live [] mc2 = foreign live [] mc \<and> grown store n gs [] ps b mc mc1 \<and> (b \<longrightarrow> mc2 = fold insert_addr ps mc1) \<and>
    (\<not> b \<longrightarrow> mc2 = mc\<lparr>m_alloc := m_alloc mc2\<rparr>)"
proof -
  obtain b ps mc1 where r: "make_groups E store n gs [] mc = Some (b, ps, mc1)" "good ps mc1"
      "foreign live ps mc1 = foreign live [] mc" "grown store n gs [] ps b mc mc1"
    using make_groups_ok[OF assms] by auto
  note g = r(4)[unfolded grown_def]
  have sh: "cache_shape [] mc"
    using assms(1) by (simp add: cache_ok_def)
  show ?thesis
  proof (cases b)
    case True
    then show ?thesis
      using r insert_addrs_ok[OF r(2)] by auto
  next
    case False
    have names: "n \<in> set (m_names mc1)"
      using g assms(3) by simp
    have "distinct ps"
      using g by blast
    moreover have "\<forall>p \<in> set ps. m_parent (the (addr_store mc1 p)) = n"
    proof
      fix p assume "p \<in> set ps"
      moreover have "list_all2 (\<lambda>p g. addr_store mc1 p = Some \<lparr>m_parent = n, m_expires_at = fst g,
         ipv4s = fst (store (snd g)), ipv6s = snd (store (snd g))\<rparr>) ps (take (length ps) gs)"
        using g by blast
      ultimately show "m_parent (the (addr_store mc1 p)) = n"
        by (auto simp: list_all2_conv_all_nth in_set_conv_nth)
    qed
    ultimately obtain s where s: "delete_addrs E ps mc1 = Some ((cut_addrs ps n mc1)\<lparr>m_alloc := s\<rparr>)"
        "good (filter (\<lambda>p. p \<notin> set ps) ps) ((cut_addrs ps n mc1)\<lparr>m_alloc := s\<rparr>)"
        "foreign live (filter (\<lambda>p. p \<notin> set ps) ps) ((cut_addrs ps n mc1)\<lparr>m_alloc := s\<rparr>) = foreign live ps mc1"
      using delete_addrs_ok[OF r(2) assms(2) order_refl _ names] by blast
    have "filter (\<lambda>p. p \<notin> set ps) ps = []"
      by (simp add: filter_empty_conv)
    with s show ?thesis
      using r False unfolding cut_grown[OF r(4) sh assms(3)]
      by (intro exI[of _ False] exI[of _ ps] exI[of _ mc1] exI[of _ "mc\<lparr>m_alloc := s\<rparr>"]) simp
  qed
qed

lemma push_addrs_ok:
  assumes "good [] mc" and "cache_env_on alloc dealloc E" and "n \<in> set (m_names mc)" and "length addrs < 2 ^ 32"
    and "new = None \<or> new = Some n \<and> ips_of mc n = []" and "sorts_by_expiry srt"
    and "\<forall>xs. length (fst (store xs)) \<le> length xs \<and> length (snd (store xs)) \<le> length xs"
  shows "\<exists>r mc'. push_addrs E srt store new n addrs now mc = Some (r, mc') \<and> good [] mc' \<and>
    foreign live [] mc' = foreign live [] mc \<and>
    pushed n new store (expiry_groups (srt (filter (\<lambda>a. now < expires_at a) addrs))) mc r mc'"
  using assms(1,2,4)
proof (cases rule: scratch_cases)
  case null
  then show ?thesis
    using undo_ok[OF assms(1,2), of new n] assms(3,5) by (auto simp: push_addrs_def pushed_def)
next
  case (buf b s)
  let ?as = "srt (filter (\<lambda>a. now < expires_at a) addrs)" and ?mc = "mc\<lparr>m_alloc := s\<rparr>"
  have "length ?as \<le> length addrs"
    using assms(6) by (metis sorts_by_expiry_def length_filter_le size_mset)
  then have "\<forall>g \<in> set (expiry_groups ?as). length (snd g) < 2 ^ 32"
    using expiry_groups_length[of _ ?as] assms(4) by (meson le_less_trans)
  then have "\<forall>g \<in> set (expiry_groups ?as). length (fst (store (snd g))) < 2 ^ 32 \<and> length (snd (store (snd g))) < 2 ^ 32"
    using assms(7) by (meson le_less_trans)
  then obtain c ps mc1 mc2 where r: "make_groups E store n (expiry_groups ?as) [] ?mc = Some (c, ps, mc1)"
      "(if c then Some (fold insert_addr ps mc1) else delete_addrs E ps mc1) = Some mc2" "good [] mc2"
      "foreign live [] mc2 = foreign live [] ?mc" "grown store n (expiry_groups ?as) [] ps c ?mc mc1"
      "c \<Longrightarrow> mc2 = fold insert_addr ps mc1" "\<not> c \<Longrightarrow> mc2 = ?mc\<lparr>m_alloc := m_alloc mc2\<rparr>"
    using push_groups_ok[OF buf(2) assms(2), of n "expiry_groups ?as" store] assms(3) by auto
  have F: "b = None \<and> foreign live [] mc2 = foreign live [] mc \<or>
      (\<exists>p c. b = Some p \<and> 0 < c \<and> p \<notin> fst ` foreign live [] mc \<and> foreign live [] mc2 = insert (p, c) (foreign live [] mc))"
    using buf(3) unfolding r(4) .
  obtain t where t: "cache_deallocate E b (m_alloc mc2) = Some t" "good [] (mc2\<lparr>m_alloc := t\<rparr>)"
      "foreign live [] (mc2\<lparr>m_alloc := t\<rparr>) = foreign live [] mc"
    using scratch_free[OF r(3) assms(2) F] by blast
  show ?thesis
  proof (cases c)
    case True
    have "push_addrs E srt store new n addrs now mc = Some (Ok (), mc2\<lparr>m_alloc := t\<rparr>)"
      using buf(1) r(1,2) t(1) True by (simp add: push_addrs_def Let_def)
    moreover have "grown store n (expiry_groups ?as) [] ps True mc mc1"
      using r(5) True by (simp only: grown_alloc)
    ultimately show ?thesis
      using t(2,3) r(6) True by (auto simp: pushed_def)
  next
    case False
    have eq: "mc2\<lparr>m_alloc := t\<rparr> = mc\<lparr>m_alloc := t\<rparr>"
      using arg_cong[OF r(7)[OF False], of "\<lambda>m. m\<lparr>m_alloc := t\<rparr>"] by simp
    have new: "new = None \<or> new = Some n \<and> n \<in> set (m_names (mc\<lparr>m_alloc := t\<rparr>)) \<and> ips_of (mc\<lparr>m_alloc := t\<rparr>) n = []"
      using assms(3,5) by simp
    obtain u where u: "(case new of None \<Rightarrow> Some (mc\<lparr>m_alloc := t\<rparr>) | Some n \<Rightarrow> delete_name E n (mc\<lparr>m_alloc := t\<rparr>)) =
          Some ((undone new (mc\<lparr>m_alloc := t\<rparr>))\<lparr>m_alloc := u\<rparr>)" "good [] ((undone new (mc\<lparr>m_alloc := t\<rparr>))\<lparr>m_alloc := u\<rparr>)"
        "foreign live [] ((undone new (mc\<lparr>m_alloc := t\<rparr>))\<lparr>m_alloc := u\<rparr>) = foreign live [] (mc\<lparr>m_alloc := t\<rparr>)"
      using undo_ok[OF t(2)[unfolded eq] assms(2) new] by blast
    have "push_addrs E srt store new n addrs now mc = Some (Failure AllocationError, (undone new (mc\<lparr>m_alloc := t\<rparr>))\<lparr>m_alloc := u\<rparr>)"
      using buf(1) r(1,2) t(1) False u(1) eq by (simp add: push_addrs_def Let_def)
    moreover have "(undone new (mc\<lparr>m_alloc := t\<rparr>))\<lparr>m_alloc := u\<rparr> = (undone new mc)\<lparr>m_alloc := u\<rparr>"
      by (simp add: undone_def drop_name_def split: option.splits)
    ultimately show ?thesis
      using u(2,3) t(3) eq by (auto simp: pushed_def)
  qed
qed

end

text \<open>What a successful push of the groups \<^term>\<open>gs\<close> under the name \<^term>\<open>nm\<close> has done.\<close>

definition stored :: "('ip list \<Rightarrow> Ipv4Addr list \<times> Ipv6Addr list) \<Rightarrow> octets \<Rightarrow> (int \<times> 'ip list) list \<Rightarrow>
    's MemoryCache \<Rightarrow> 's MemoryCache \<Rightarrow> bool" where
  "stored store nm gs mc mc' \<longleftrightarrow> (\<exists>n ps mc0 mc1 s.
     cache_shape [] mc \<and> cache_shape [] mc0 \<and> n \<in> set (m_names mc0) \<and> name_of mc0 n = nm \<and>
     m_addrs_by_expire_time mc0 = m_addrs_by_expire_time mc \<and> addr_store mc0 = addr_store mc \<and>
     (\<forall>q \<in> set (m_names mc). name_of mc0 q = name_of mc q) \<and>
     grown store n gs [] ps True mc0 mc1 \<and> mc' = (fold insert_addr ps mc1)\<lparr>m_alloc := s\<rparr>)"

lemma stored_entries:
  assumes "stored store nm gs mc mc'"
    and "\<And>par e xs. src \<lparr>m_parent = par, m_expires_at = e, ipv4s = fst (store xs), ipv6s = snd (store xs)\<rparr> = sel xs"
  shows "entries src mc' = entries src mc + mset (concat (map (\<lambda>g. map (\<lambda>a. (nm, fst g, a)) (sel (snd g))) gs))"
proof -
  obtain n ps mc0 mc1 s where d: "cache_shape [] mc" "cache_shape [] mc0" "n \<in> set (m_names mc0)" "name_of mc0 n = nm"
      "m_addrs_by_expire_time mc0 = m_addrs_by_expire_time mc" "addr_store mc0 = addr_store mc"
      "\<forall>q \<in> set (m_names mc). name_of mc0 q = name_of mc q" "grown store n gs [] ps True mc0 mc1"
      "mc' = (fold insert_addr ps mc1)\<lparr>m_alloc := s\<rparr>"
    using assms(1) unfolding stored_def by blast
  have "entries_at src mc0 p = entries_at src mc p" if "p \<in> set (m_addrs_by_expire_time mc)" for p
    using cache_shapeD(8)[OF d(1), of p] that d(6,7) by (simp add: entries_at_def)
  then have "entries src mc0 = entries src mc"
    unfolding entries_def d(5) by (intro arg_cong[where f = sum_mset] image_mset_cong) simp
  then show ?thesis
    using entries_grown[OF d(8,2-4), of src sel] assms(2) by (simp add: d(9))
qed

context cache_allocator
begin

lemma push_old_ok:
  assumes "good [] mc" and "cache_env_on alloc dealloc E" and "n \<in> set (m_names mc)" and "name_of mc n = nm"
    and "length addrs < 2 ^ 32" and "sorts_by_expiry srt"
    and "\<forall>xs. length (fst (store xs)) \<le> length xs \<and> length (snd (store xs)) \<le> length xs"
  shows "\<exists>r mc'. push_addrs E srt store None n addrs now mc = Some (r, mc') \<and> good [] mc' \<and>
    foreign live [] mc' = foreign live [] mc \<and>
    ((r = Failure AllocationError \<and> (\<exists>s. mc' = mc\<lparr>m_alloc := s\<rparr>)) \<or>
     (r = Ok () \<and> stored store nm (expiry_groups (srt (filter (\<lambda>a. now < expires_at a) addrs))) mc mc'))"
proof -
  have sh: "cache_shape [] mc"
    using assms(1) by (simp add: cache_ok_def)
  obtain r mc' where r: "push_addrs E srt store None n addrs now mc = Some (r, mc')" "good [] mc'"
      "foreign live [] mc' = foreign live [] mc"
      "pushed n None store (expiry_groups (srt (filter (\<lambda>a. now < expires_at a) addrs))) mc r mc'"
    using push_addrs_ok[OF assms(1-3,5) _ assms(6,7), of None now] by blast
  from r(4) show ?thesis
    unfolding pushed_def
  proof (elim disjE conjE exE)
    fix s assume "r = Failure AllocationError" "mc' = (undone None mc)\<lparr>m_alloc := s\<rparr>"
    then show ?thesis
      using r(1-3) by (simp add: undone_def) blast
  next
    fix ps mc1 s
    assume "r = Ok ()" and p: "grown store n (expiry_groups (srt (filter (\<lambda>a. now < expires_at a) addrs))) [] ps True mc mc1"
      "mc' = (fold insert_addr ps mc1)\<lparr>m_alloc := s\<rparr>"
    moreover have "stored store nm (expiry_groups (srt (filter (\<lambda>a. now < expires_at a) addrs))) mc mc'"
      unfolding stored_def using sh assms(3,4) p by blast
    ultimately show ?thesis
      using r(1-3) by blast
  qed
qed

lemma push_new_ok:
  assumes "good [] mc" and "cache_env_on alloc dealloc E" and "nm \<notin> name_of mc ` set (m_names mc)"
    and "length addrs < 2 ^ 32" and "sorts_by_expiry srt" and "map to_lower nm = nm" and "length nm < 2 ^ 32"
    and "\<forall>xs. length (fst (store xs)) \<le> length xs \<and> length (snd (store xs)) \<le> length xs"
  shows "make_name E nm mc = Some (None, mc) \<or>
    (\<exists>n mc0 r mc'. make_name E nm mc = Some (Some n, mc0) \<and>
      push_addrs E srt store (Some n) n addrs now (insert_name (names_lower_bound nm mc) n mc0) = Some (r, mc') \<and> good [] mc' \<and>
      foreign live [] mc' = foreign live [] mc \<and>
      ((r = Failure AllocationError \<and> (\<exists>s. mc' = mc\<lparr>m_alloc := s\<rparr>)) \<or>
       (r = Ok () \<and> stored store nm (expiry_groups (srt (filter (\<lambda>a. now < expires_at a) addrs))) mc mc')))"
proof -
  let ?n = "sizeof_name E + length nm"
  have sh: "cache_shape [] mc"
    using assms(1) by (simp add: cache_ok_def)
  have E: "cache_allocate E = alloc" "alignof_name E \<in> {4, 8, 16}" "0 < sizeof_name E" "sizeof_name E < 2 ^ 16"
    using assms(2) by (auto simp: cache_env_on_def cache_sizes_def)
  have n: "?n < 2 ^ 48"
    using E(4) assms(7) by simp
  have w: "(word_of_nat (sizeof_name E) + word_of_nat (length nm) :: u64) = word_of_nat ?n"
    by simp
  from assms(1) E(2) n show ?thesis
  proof (cases rule: cache_alloc_cases)
    case null
    then show ?thesis
      by (simp add: make_name_def E(1) w del: of_nat_add)
  next
    case (chunk p s c)
    let ?mc0 = "mc\<lparr>m_alloc := s, name_store := (name_store mc)(p \<mapsto> \<lparr>name = nm, ips = []\<rparr>)\<rparr>"
    let ?mc1 = "insert_name (names_lower_bound nm mc) p (mc\<lparr>name_store := (name_store mc)(p \<mapsto> \<lparr>name = nm, ips = []\<rparr>)\<rparr>)"
    let ?mc2 = "insert_name (names_lower_bound nm mc) p ?mc0"
    have mk: "make_name E nm mc = Some (Some p, ?mc0)"
      using chunk(1) by (simp add: make_name_def name_header_def E(1) w assms(6) del: of_nat_add)
    have mc2: "?mc2 = ?mc1\<lparr>m_alloc := s\<rparr>"
      by (simp add: insert_name_def)
    have sh1: "cache_shape [] ?mc1"
      using insert_name_shape[OF sh chunk(3) assms(3)] .
    let ?i = "names_lower_bound nm mc"
    have ns: "m_names ?mc1 = take ?i (m_names mc) @ p # drop ?i (m_names mc)"
      by (simp add: insert_name_def)
    have st: "set (m_names ?mc1) = insert p (set (m_names mc))"
      unfolding ns using set_append[of "take ?i (m_names mc)" "drop ?i (m_names mc)"] by auto
    have "nodes [] ?mc1 = insert p (nodes [] mc)"
      using st by (auto simp: nodes_def insert_name_def)
    moreover have "0 < c"
      using chunk(5) E(3) by simp
    ultimately have g2: "good [] ?mc2" "foreign live [] ?mc2 = foreign live [] mc"
      unfolding mc2 using good_grow[OF assms(1) sh1 _ chunk(2,4) _ chunk(6)] by blast+
    have p: "p \<in> set (m_names ?mc2)" "ips_of ?mc2 p = []" "name_of ?mc2 p = nm"
      using st unfolding mc2 by (simp_all add: insert_name_def)
    obtain r mc' where r: "push_addrs E srt store (Some p) p addrs now ?mc2 = Some (r, mc')" "good [] mc'"
        "foreign live [] mc' = foreign live [] ?mc2"
        "pushed p (Some p) store (expiry_groups (srt (filter (\<lambda>a. now < expires_at a) addrs))) ?mc2 r mc'"
      using push_addrs_ok[OF g2(1) assms(2) p(1) assms(4) _ assms(5,8), of "Some p" now] p(2) by blast
    have pn: "p \<notin> set (m_names mc)" "name_store mc p = None"
      using chunk(3) cache_shapeD(2)[OF sh] by (auto simp: nodes_def)
    have "undone (Some p) ?mc2 = mc\<lparr>m_alloc := s\<rparr>"
    proof -
      have "remove1 p (take ?i (m_names mc) @ p # drop ?i (m_names mc)) = m_names mc"
        using pn(1) by (simp add: remove1_append) (metis in_set_takeD)
      moreover have "(name_store mc)(p := None) = name_store mc"
        using pn(2) by auto
      ultimately show ?thesis
        by (simp add: undone_def drop_name_def insert_name_def)
    qed
    then have undone: "(undone (Some p) ?mc2)\<lparr>m_alloc := t\<rparr> = mc\<lparr>m_alloc := t\<rparr>" for t
      by simp
    from r(4) have "(r = Failure AllocationError \<and> (\<exists>s. mc' = mc\<lparr>m_alloc := s\<rparr>)) \<or>
       (r = Ok () \<and> stored store nm (expiry_groups (srt (filter (\<lambda>a. now < expires_at a) addrs))) mc mc')"
      unfolding pushed_def undone
    proof (elim disjE conjE exE)
      fix ps mc3 t
      assume "r = Ok ()" and g: "grown store p (expiry_groups (srt (filter (\<lambda>a. now < expires_at a) addrs))) [] ps True ?mc2 mc3"
        "mc' = (fold insert_addr ps mc3)\<lparr>m_alloc := t\<rparr>"
      have "cache_shape [] ?mc2"
        using g2(1) by (simp add: cache_ok_def)
      moreover have "m_addrs_by_expire_time ?mc2 = m_addrs_by_expire_time mc" "addr_store ?mc2 = addr_store mc"
          "\<forall>q \<in> set (m_names mc). name_of ?mc2 q = name_of mc q"
        using pn(1) by (auto simp: insert_name_def)
      ultimately have "stored store nm (expiry_groups (srt (filter (\<lambda>a. now < expires_at a) addrs))) mc mc'"
        unfolding stored_def using sh p(1,3) g by blast
      with \<open>r = Ok ()\<close> show ?thesis
        by blast
    qed blast
    then show ?thesis
      using mk r(1,2) r(3)[unfolded g2(2)] by blast
  qed
qed

lemma push_impl_ok:
  assumes "good [] mc" and "cache_env_on alloc dealloc E"
    and "length addrs < 2 ^ 32" and "sorts_by_expiry srt" and "map to_lower nm = nm" and "length nm < 2 ^ 32"
    and "\<forall>xs. length (fst (store xs)) \<le> length xs \<and> length (snd (store xs)) \<le> length xs"
  shows "\<exists>r mc'. push_impl E srt store nm addrs now mc = Some (r, mc') \<and> good [] mc' \<and>
    foreign live [] mc' = foreign live [] mc \<and>
    ((r = Failure AllocationError \<and> (\<exists>s. mc' = mc\<lparr>m_alloc := s\<rparr>)) \<or>
     (r = Ok () \<and> stored store nm (expiry_groups (srt (filter (\<lambda>a. now < expires_at a) addrs))) mc mc'))"
proof -
  have sh: "cache_shape [] mc"
    using assms(1) by (simp add: cache_ok_def)
  from sh show ?thesis
  proof (cases rule: names_lower_bound_cases[of "[]" mc nm])
    case new
    let ?stored = "stored store nm (expiry_groups (srt (filter (\<lambda>a. now < expires_at a) addrs))) mc"
    have eq: "push_impl E srt store nm addrs now mc = Option.bind (make_name E nm mc) (\<lambda>(r, mc0). case r of
             None \<Rightarrow> Some (Failure AllocationError, mc0)
           | Some n \<Rightarrow> push_addrs E srt store (Some n) n addrs now (insert_name (names_lower_bound nm mc) n mc0))"
      using new(2) by (simp add: push_impl_def Let_def)
    from push_new_ok[OF assms(1,2) new(1) assms(3-7), of now]
    consider (null) "make_name E nm mc = Some (None, mc)"
      | (node) n mc0 r mc' where "make_name E nm mc = Some (Some n, mc0)"
          "push_addrs E srt store (Some n) n addrs now (insert_name (names_lower_bound nm mc) n mc0) = Some (r, mc')"
          "good [] mc' \<and> foreign live [] mc' = foreign live [] mc \<and>
           ((r = Failure AllocationError \<and> (\<exists>s. mc' = mc\<lparr>m_alloc := s\<rparr>)) \<or> (r = Ok () \<and> ?stored mc'))"
      by blast
    then show ?thesis
    proof cases
      case null
      have "mc = mc\<lparr>m_alloc := m_alloc mc\<rparr>"
        by simp
      then show ?thesis
        using assms(1) unfolding eq null bind.bind_lunit prod.case option.case by blast
    next
      case node
      then show ?thesis
        unfolding eq by simp
    qed
  next
    case (old n)
    have "push_impl E srt store nm addrs now mc = push_addrs E srt store None n addrs now mc"
      using old by (simp add: push_impl_def Let_def)
    then show ?thesis
      using push_old_ok[OF assms(1,2) old(1,2) assms(3,4,7), of now] by simp
  qed
qed

end

end
