(* ===== verification/Corosig_Dns_Cache_Claims.thy ===== *)
theory Corosig_Dns_Cache_Claims
  imports Corosig_Dns_Cache_Push
begin

text \<open>
  The memory cache against the multiset of its entries, on the fixed-pool allocator: a failed
  push changes nothing, expired entries are never given out, pruning removes exactly them, and
  the destructor gives back every chunk.
\<close>

section \<open>Looking up\<close>


lemma filter_mset_sum: "filter_mset P (\<Sum>p \<in># M. f p) = (\<Sum>p \<in># M. filter_mset P (f p))"
  by (induction M) simp_all

lemma sum_mset_if: "(\<Sum>p \<in># M. if Q p then f p else {#}) = (\<Sum>p \<in># filter_mset Q M. f p)"
  by (induction M) simp_all


lemma filter_mset_const: "(\<And>x. x \<in># M \<Longrightarrow> P x = b) \<Longrightarrow> filter_mset P M = (if b then M else {#})"
  by (induction M) auto

lemma entries_at_filter:
  "filter_mset (\<lambda>(m, e, a). P m e) (mset (entries_at src mc p)) =
     (if P (name_of mc (m_parent (the (addr_store mc p)))) (expiry_of mc p) then mset (entries_at src mc p) else {#})"
  by (rule filter_mset_const) (auto simp: entries_at_def)



section \<open>Removing expired addresses\<close>

text \<open>What is left after \<^term>\<open>prune\<close>: a name stays while it has an unexpired node or never had any.\<close>

definition pruned :: "int \<Rightarrow> 's MemoryCache \<Rightarrow> 's MemoryCache \<Rightarrow> bool" where
  "pruned now mc mc' \<longleftrightarrow>
     m_addrs_by_expire_time mc' = filter (\<lambda>p. now < expiry_of mc p) (m_addrs_by_expire_time mc) \<and>
     set (m_names mc') = {n \<in> set (m_names mc). ips_of mc n = [] \<or> (\<exists>p \<in> set (ips_of mc n). now < expiry_of mc p)} \<and>
     (\<forall>p \<in> set (m_addrs_by_expire_time mc'). addr_store mc' p = addr_store mc p) \<and>
     (\<forall>n \<in> set (m_names mc'). name_of mc' n = name_of mc n)"

lemma pruned_entries:
  assumes "pruned now mc mc'" and "cache_shape [] mc'"
  shows "entries src mc' = filter_mset (\<lambda>(m, e, a). now < e) (entries src mc)"
proof -
  note p = assms(1)[unfolded pruned_def]
  have at: "entries_at src mc' p = entries_at src mc p" if "p \<in> set (m_addrs_by_expire_time mc')" for p
  proof -
    have "addr_store mc' p = addr_store mc p"
      using p that by blast
    moreover have "m_parent (the (addr_store mc' p)) \<in> set (m_names mc')"
      using cache_shapeD(8)[OF assms(2), of p] that by simp
    then have "name_of mc' (m_parent (the (addr_store mc' p))) = name_of mc (m_parent (the (addr_store mc' p)))"
      using p by blast
    ultimately show ?thesis
      by (simp add: entries_at_def)
  qed
  have "filter_mset (\<lambda>(m, e, a). now < e) (mset (entries_at src mc q)) =
      (if now < expiry_of mc q then mset (entries_at src mc q) else {#})" for q
    by (rule entries_at_filter)
  then have "filter_mset (\<lambda>(m, e, a). now < e) (entries src mc) =
      (\<Sum>p \<in># filter_mset (\<lambda>p. now < expiry_of mc p) (mset (m_addrs_by_expire_time mc)). mset (entries_at src mc p))"
    unfolding entries_def filter_mset_sum by (simp only: sum_mset_if)
  moreover have "filter_mset (\<lambda>p. now < expiry_of mc p) (mset (m_addrs_by_expire_time mc)) = mset (m_addrs_by_expire_time mc')"
    using p by simp
  ultimately show ?thesis
    unfolding entries_def using at by (auto intro!: arg_cong[where f = sum_mset] image_mset_cong)
qed

context cache_allocator
begin

lemma prune_step_ok:
  assumes "good [] mc" and "cache_env_on alloc dealloc E" and "m_addrs_by_expire_time mc = p # ps"
  shows "\<exists>s mc1. delete_addr E p mc = Some ((drop_addr p mc)\<lparr>m_alloc := s\<rparr>) \<and>
    (if remove1 p (ips_of mc (m_parent (the (addr_store mc p)))) = []
     then delete_name E (m_parent (the (addr_store mc p))) ((drop_addr p mc)\<lparr>m_alloc := s\<rparr>)
     else Some ((drop_addr p mc)\<lparr>m_alloc := s\<rparr>)) = Some mc1 \<and> good [] mc1 \<and>
    foreign live [] mc1 = foreign live [] mc \<and>
    (\<exists>t. mc1 = (if remove1 p (ips_of mc (m_parent (the (addr_store mc p)))) = []
       then drop_name (m_parent (the (addr_store mc p))) (drop_addr p mc) else drop_addr p mc)\<lparr>m_alloc := t\<rparr>)"
proof -
  let ?n = "m_parent (the (addr_store mc p))"
  have sh: "cache_shape [] mc"
    using assms(1) by (simp add: cache_ok_def)
  have n: "?n \<in> set (m_names mc)"
    using cache_shapeD(8)[OF sh, of p] assms(3) by simp
  obtain s where s: "delete_addr E p mc = Some ((drop_addr p mc)\<lparr>m_alloc := s\<rparr>)"
      "good [] ((drop_addr p mc)\<lparr>m_alloc := s\<rparr>)" "foreign live [] ((drop_addr p mc)\<lparr>m_alloc := s\<rparr>) = foreign live [] mc"
    using delete_addr_ok[OF assms(1,2), of p] assms(3) by auto
  show ?thesis
  proof (cases "remove1 p (ips_of mc ?n) = []")
    case True
    let ?mc = "(drop_addr p mc)\<lparr>m_alloc := s\<rparr>"
    have "?n \<in> set (m_names ?mc)" "ips_of ?mc ?n = []"
      using n True by simp_all
    then obtain t where t: "delete_name E ?n ?mc = Some ((drop_name ?n ?mc)\<lparr>m_alloc := t\<rparr>)"
        "good [] ((drop_name ?n ?mc)\<lparr>m_alloc := t\<rparr>)"
        "foreign live [] ((drop_name ?n ?mc)\<lparr>m_alloc := t\<rparr>) = foreign live [] ?mc"
      using delete_name_ok[OF s(2) assms(2)] by blast
    have "(drop_name ?n ?mc)\<lparr>m_alloc := t\<rparr> = (drop_name ?n (drop_addr p mc))\<lparr>m_alloc := t\<rparr>"
      by (simp add: drop_name_def)
    then show ?thesis
      using s(1,3) t True by auto
  next
    case False
    then show ?thesis
      using s by auto
  qed
qed

end

text \<open>One iteration of the loop of \<^term>\<open>prune\<close> and the rest of it.\<close>

lemma pruned_step:
  assumes "cache_shape [] mc" and "m_addrs_by_expire_time mc = p # ps" and "expiry_of mc p \<le> now"
    and "mc1 = (if remove1 p (ips_of mc (m_parent (the (addr_store mc p)))) = []
       then drop_name (m_parent (the (addr_store mc p))) (drop_addr p mc) else drop_addr p mc)\<lparr>m_alloc := t\<rparr>"
    and "pruned now mc1 mc'"
  shows "pruned now mc mc'"
proof -
  let ?n = "m_parent (the (addr_store mc p))"
  note s = cache_shapeD[OF assms(1)]
  have n: "?n \<in> set (m_names mc)" and d: "distinct (m_names mc)" "p \<notin> set ps"
    using s(8)[of p] s(1) assms(2) by auto
  have dn: "distinct (ips_of mc ?n)" and pn: "p \<in> set (ips_of mc ?n)"
    using s(6,7)[OF n] assms(2) by auto
  have f: "m_addrs_by_expire_time mc1 = ps" "addr_store mc1 = (addr_store mc)(p := None)"
    using assms(2,4) by (auto simp: drop_name_def)
  have nm: "set (m_names mc1) = (if remove1 p (ips_of mc ?n) = [] then set (m_names mc) - {?n} else set (m_names mc))"
    using assms(4) d(1) by (simp add: drop_name_def)
  have ip: "name_of mc1 m = name_of mc m \<and> ips_of mc1 m = (if m = ?n then remove1 p (ips_of mc m) else ips_of mc m)"
    if "m \<in> set (m_names mc1)" for m
  proof (cases "remove1 p (ips_of mc ?n) = []")
    case True
    then have "m \<noteq> ?n"
      using that nm by simp
    then show ?thesis
      using assms(4) by (simp add: drop_name_def)
  next
    case False
    then show ?thesis
      using assms(4) by simp
  qed
  note p = assms(5)[unfolded pruned_def]
  have 1: "m_addrs_by_expire_time mc' = filter (\<lambda>p. now < expiry_of mc p) (m_addrs_by_expire_time mc)"
  proof -
    have "filter (\<lambda>p. now < expiry_of mc1 p) ps = filter (\<lambda>p. now < expiry_of mc p) ps"
      using d(2) by (intro filter_cong) (auto simp: f(2))
    then show ?thesis
      using p assms(2,3) f(1) by simp
  qed
  have 2: "addr_store mc' q = addr_store mc q" if "q \<in> set (m_addrs_by_expire_time mc')" for q
  proof -
    have "q \<noteq> p"
      using that 1 assms(2,3) d(2) by auto
    moreover have "addr_store mc' q = addr_store mc1 q"
      using p that by blast
    ultimately show ?thesis
      by (simp add: f(2))
  qed
  have alive: "(\<exists>q \<in> set (ips_of mc1 m). now < expiry_of mc1 q) \<longleftrightarrow> (\<exists>q \<in> set (ips_of mc m). now < expiry_of mc q)"
    if m: "m \<in> set (m_names mc1)" for m
  proof -
    have mm: "m \<in> set (m_names mc)"
      using m nm by (simp split: if_splits)
    have "set (ips_of mc1 m) = set (ips_of mc m) - {p}"
      using ip[OF m] dn s(7)[OF mm] by auto
    then show ?thesis
      using assms(3) by (force simp: f(2))
  qed
  have "m \<in> set (m_names mc') \<longleftrightarrow> m \<in> set (m_names mc) \<and> (ips_of mc m = [] \<or> (\<exists>q \<in> set (ips_of mc m). now < expiry_of mc q))" for m
  proof (cases "m \<in> set (m_names mc1)")
    case True
    then have "m \<in> set (m_names mc)"
      using nm by (simp split: if_splits)
    moreover have "m \<in> set (m_names mc') \<longleftrightarrow> ips_of mc1 m = [] \<or> (\<exists>q \<in> set (ips_of mc m). now < expiry_of mc q)"
      using p True alive[OF True] by auto
    moreover have "ips_of mc1 m = [] \<longleftrightarrow> ips_of mc m = []"
      using ip[OF True] nm True by (auto split: if_splits)
    ultimately show ?thesis
      by simp
  next
    case False
    then have "m \<notin> set (m_names mc')"
      using p by auto
    moreover have "m = ?n \<and> remove1 p (ips_of mc ?n) = []" if "m \<in> set (m_names mc)"
      using that False nm by (simp split: if_splits)
    then have "ips_of mc m = [p]" if "m \<in> set (m_names mc)"
      using that pn by (cases "ips_of mc ?n") (auto split: if_splits)
    ultimately show ?thesis
      using assms(3) by auto
  qed
  moreover have "name_of mc' m = name_of mc m" if "m \<in> set (m_names mc')" for m
    using p that ip[of m] by auto
  ultimately show ?thesis
    unfolding pruned_def using 1 2 by blast
qed

context cache_allocator
begin

lemma prune_nodes_ok:
  assumes "good [] mc" and "cache_env_on alloc dealloc E" and "m_addrs_by_expire_time mc = ps"
  shows "\<exists>mc'. prune_nodes E now ps mc = Some mc' \<and> good [] mc' \<and> foreign live [] mc' = foreign live [] mc \<and> pruned now mc mc'"
  using assms
proof (induction ps arbitrary: mc)
  case Nil
  have "cache_shape [] mc"
    using Nil(1) by (simp add: cache_ok_def)
  then have "ips_of mc n = []" if "n \<in> set (m_names mc)" for n
    using cache_shapeD(7)[of "[]" mc n] that Nil(3) by simp
  then show ?case
    using Nil by (auto simp: pruned_def)
next
  case (Cons p ps)
  have sh: "cache_shape [] mc"
    using Cons.prems(1) by (simp add: cache_ok_def)
  show ?case
  proof (cases "expiry_of mc p \<le> now")
    case True
    obtain s mc1 t where r: "delete_addr E p mc = Some ((drop_addr p mc)\<lparr>m_alloc := s\<rparr>)"
        "(if remove1 p (ips_of mc (m_parent (the (addr_store mc p)))) = []
          then delete_name E (m_parent (the (addr_store mc p))) ((drop_addr p mc)\<lparr>m_alloc := s\<rparr>)
          else Some ((drop_addr p mc)\<lparr>m_alloc := s\<rparr>)) = Some mc1" "good [] mc1"
        "foreign live [] mc1 = foreign live [] mc"
        "mc1 = (if remove1 p (ips_of mc (m_parent (the (addr_store mc p)))) = []
          then drop_name (m_parent (the (addr_store mc p))) (drop_addr p mc) else drop_addr p mc)\<lparr>m_alloc := t\<rparr>"
      using prune_step_ok[OF Cons.prems] by blast
    have "m_addrs_by_expire_time mc1 = ps"
      using r(5) Cons.prems(3) by (simp add: drop_name_def)
    then obtain mc' where mc': "prune_nodes E now ps mc1 = Some mc'" "good [] mc'"
        "foreign live [] mc' = foreign live [] mc1" "pruned now mc1 mc'"
      using Cons.IH[OF r(3) Cons.prems(2)] by blast
    have "prune_nodes E now (p # ps) mc = Some mc'"
      using r(1,2) mc'(1) True by (simp add: Let_def)
    moreover have "pruned now mc mc'"
      using pruned_step[OF sh Cons.prems(3) True r(5) mc'(4)] .
    ultimately show ?thesis
      using mc'(2,3) r(4) by auto
  next
    case False
    have later: "now < expiry_of mc q" if "q \<in> set (p # ps)" for q
      using cache_shapeD(5)[OF sh] Cons.prems(3) that False by auto
    have "(\<exists>q \<in> set (ips_of mc n). now < expiry_of mc q) \<or> ips_of mc n = []" if "n \<in> set (m_names mc)" for n
    proof (cases "ips_of mc n")
      case (Cons q qs)
      then have "q \<in> set (p # ps)"
        using cache_shapeD(7)[OF sh that] Cons.prems(3) by auto
      then show ?thesis
        using later Cons by auto
    qed simp
    then have "pruned now mc mc"
      using Cons.prems(3) later by (auto simp: pruned_def)
    then show ?thesis
      using Cons.prems(1) False by simp
  qed
qed

lemma destroy_ok:
  assumes "good [] mc" and "cache_env_on alloc dealloc E"
  shows "\<exists>s. MemoryCache_destroy E mc = Some s \<and> inv s \<and> live s = foreign live [] mc"
proof -
  let ?as = "m_addrs_by_expire_time mc"
  have E: "cache_deallocate E = dealloc"
    using assms(2) by (simp add: cache_env_on_def)
  have d: "distinct (m_names mc @ ?as)" and i: "inv (m_alloc mc)"
    and own: "\<forall>p \<in> set (m_names mc @ ?as). \<exists>c. (p, c) \<in> live (m_alloc mc) \<and> 0 < c"
    using assms(1) by (auto simp: cache_ok_def cache_shape_def nodes_def)
  obtain s where s: "free_all dealloc ?as (m_alloc mc) = Some s" "inv s" "live s = {x \<in> live (m_alloc mc). fst x \<notin> set ?as}"
    using free_all_ok[OF i, of ?as] d own by auto
  have "\<forall>p \<in> set (m_names mc). \<exists>c. (p, c) \<in> live s \<and> 0 < c"
  proof
    fix p assume p: "p \<in> set (m_names mc)"
    then have "p \<notin> set ?as"
      using d by auto
    then show "\<exists>c. (p, c) \<in> live s \<and> 0 < c"
      using own p s(3) by auto
  qed
  then obtain t where t: "free_all dealloc (m_names mc) s = Some t" "inv t" "live t = {x \<in> live s. fst x \<notin> set (m_names mc)}"
    using free_all_ok[OF s(2), of "m_names mc"] d by auto
  have "live t = foreign live [] mc"
    using s(3) t(3) by (auto simp: foreign_def nodes_def)
  then show ?thesis
    using s(1) t(1,2) by (simp add: MemoryCache_destroy_def E)
qed

end

section \<open>On the fixed-pool allocator\<close>

lemma pool_request_ok: "al \<in> {4, 8, 16} \<Longrightarrow> unat sz < 2 ^ 48 \<Longrightarrow> request_ok sz al"
proof -
  have "has_single_bit (4 :: u64)" "has_single_bit (8 :: u64)" "has_single_bit (16 :: u64)"
    unfolding has_single_bit_def list_ex_iff by (rule bexI[of _ 2], simp, simp) (rule bexI[of _ 3], simp, simp, rule bexI[of _ 4], simp, simp)
  then show "al \<in> {4, 8, 16} \<Longrightarrow> unat sz < 2 ^ 48 \<Longrightarrow> request_ok sz al"
    by (auto simp: request_ok_def BLOCK_SIZE_def)
qed

interpretation pool_cache: cache_allocator allocate deallocate alloc_valid live_chunks request_ok
  by unfold_locales (rule pool_request_ok)

text \<open>A cache on the pool, and the pool's chunks that are not nodes of the cache.\<close>

definition pool_cache_ok :: "Allocator MemoryCache \<Rightarrow> bool" where
  "pool_cache_ok = cache_ok alloc_valid live_chunks []"

definition pool_foreign :: "Allocator MemoryCache \<Rightarrow> (nat \<times> nat) set" where
  "pool_foreign = foreign live_chunks []"

lemmas pool_defs = pool_cache_ok_def pool_foreign_def

lemma pushed_entries:
  assumes "sorts_by_expiry srt" and "stored store nm (expiry_groups (srt (filter (\<lambda>a. now < expires_at a) addrs))) mc mc'"
    and "\<And>par e xs. src \<lparr>m_parent = par, m_expires_at = e, ipv4s = fst (store xs), ipv6s = snd (store xs)\<rparr> = xs"
  shows "entries src mc' = entries src mc + new_entries nm now addrs"
proof -
  let ?as = "srt (filter (\<lambda>a. now < expires_at a) addrs)"
  have so: "sorted (map expires_at ?as)" and ms: "mset ?as = filter_mset (\<lambda>a. now < expires_at a) (mset addrs)"
    using assms(1) by (simp_all add: sorts_by_expiry_def)
  have "concat (map (\<lambda>g. map (\<lambda>a. (nm, fst g, a)) (snd g)) (expiry_groups ?as)) =
      map (Pair nm) (concat (map (\<lambda>g. map (Pair (fst g)) (snd g)) (expiry_groups ?as)))"
    by (simp add: map_concat comp_def)
  also have "\<dots> = map (\<lambda>a. (nm, expires_at a, address a)) ?as"
    unfolding expiry_groups_flat[OF so] by simp
  finally have "mset (concat (map (\<lambda>g. map (\<lambda>a. (nm, fst g, a)) (snd g)) (expiry_groups ?as))) = new_entries nm now addrs"
    by (simp add: new_entries_def flip: ms)
  then show ?thesis
    using stored_entries[OF assms(2), of src "\<lambda>xs. xs"] assms(3) by simp
qed

lemma pushed_other_entries:
  assumes "stored store nm gs mc mc'"
    and "\<And>par e xs. src \<lparr>m_parent = par, m_expires_at = e, ipv4s = fst (store xs), ipv6s = snd (store xs)\<rparr> = []"
  shows "entries src mc' = entries src mc"
  using stored_entries[OF assms(1), of src "\<lambda>_. []"] assms(2) by simp

text \<open>Pushing, for the address kind with the source \<open>src\<close>; the other kind has the source \<open>src'\<close>.\<close>

lemma push_entries:
  assumes "pool_cache_ok mc" and "cache_env_on allocate deallocate E" and "sorts_by_expiry srt"
    and "map to_lower nm = nm" and "length nm < 2 ^ 32" and "length addrs < 2 ^ 32"
    and len: "\<forall>xs. length (fst (store xs)) \<le> length xs \<and> length (snd (store xs)) \<le> length xs"
    and src: "\<And>par e xs. src \<lparr>m_parent = par, m_expires_at = e, ipv4s = fst (store xs), ipv6s = snd (store xs)\<rparr> = xs"
    and src': "\<And>par e xs. src' \<lparr>m_parent = par, m_expires_at = e, ipv4s = fst (store xs), ipv6s = snd (store xs)\<rparr> = []"
  shows "\<exists>r mc'. push_impl E srt store nm addrs now mc = Some (r, mc') \<and> pool_cache_ok mc' \<and> pool_foreign mc' = pool_foreign mc \<and>
    (r = Failure AllocationError \<and> (\<exists>a. mc' = mc\<lparr>m_alloc := a\<rparr>) \<or>
     r = Ok () \<and> entries src mc' = entries src mc + new_entries nm now addrs \<and> entries src' mc' = entries src' mc)"
proof -
  obtain r mc' where r: "push_impl E srt store nm addrs now mc = Some (r, mc')" "pool_cache_ok mc'"
      "pool_foreign mc' = pool_foreign mc"
      "(r = Failure AllocationError \<and> (\<exists>a. mc' = mc\<lparr>m_alloc := a\<rparr>)) \<or>
       (r = Ok () \<and> stored store nm (expiry_groups (srt (filter (\<lambda>a. now < expires_at a) addrs))) mc mc')"
    using pool_cache.push_impl_ok[OF assms(1)[unfolded pool_defs] assms(2,6,3-5) len, of now]
    by (fastforce simp: pool_defs)
  from r(4) have "r = Failure AllocationError \<and> (\<exists>a. mc' = mc\<lparr>m_alloc := a\<rparr>) \<or>
     r = Ok () \<and> entries src mc' = entries src mc + new_entries nm now addrs \<and> entries src' mc' = entries src' mc"
    using pushed_entries[OF assms(3) _ src, of nm now addrs mc mc'] pushed_other_entries[of store nm _ mc mc' src', OF _ src']
    by blast
  with r show ?thesis
    by blast
qed

text \<open>
  Claim C9. Pushing addresses of either kind, fewer than 2^32, under a name of less than 2^32
  octets without upper case letters never fails an assertion. It either adds exactly the addresses that have not expired, each with its name and
  its expiry time, or reports the failed allocation with the cache as it was: the nodes made so
  far and a new name node are taken back. The allocator's other chunks are untouched in both
  cases. (For a name with an upper case letter see the end of this theory.)
\<close>

theorem MemoryCache_push_correct:
  assumes "pool_cache_ok mc" and "cache_env_on allocate deallocate E"
    and "sorts_by_expiry srt4" and "sorts_by_expiry srt6"
    and "map to_lower nm = nm" and "length nm < 2 ^ 32"
    and "length addrs4 < 2 ^ 32" and "length addrs6 < 2 ^ 32"
  shows "(\<exists>r mc'. push_ipv4 E srt4 nm addrs4 now mc = Some (r, mc') \<and> pool_cache_ok mc' \<and>
      pool_foreign mc' = pool_foreign mc \<and>
      (r = Failure AllocationError \<and> (\<exists>a. mc' = mc\<lparr>m_alloc := a\<rparr>) \<or>
       r = Ok () \<and> entries ipv4s mc' = entries ipv4s mc + new_entries nm now addrs4 \<and> entries ipv6s mc' = entries ipv6s mc)) \<and>
    (\<exists>r mc'. push_ipv6 E srt6 nm addrs6 now mc = Some (r, mc') \<and> pool_cache_ok mc' \<and>
      pool_foreign mc' = pool_foreign mc \<and>
      (r = Failure AllocationError \<and> (\<exists>a. mc' = mc\<lparr>m_alloc := a\<rparr>) \<or>
       r = Ok () \<and> entries ipv6s mc' = entries ipv6s mc + new_entries nm now addrs6 \<and> entries ipv4s mc' = entries ipv4s mc))"
  unfolding push_ipv4_def push_ipv6_def
  by (intro conjI push_entries[OF assms(1,2,3,5,6,7)] push_entries[OF assms(1,2,4,5,6,8)])
    (simp_all add: store_ipv4_def store_ipv6_def)


text \<open>
  Claim C18. Pruning removes exactly the expired entries and releases their chunks. A name stays
  while it has an unexpired address, and also when it never had any address.
\<close>

theorem MemoryCache_prune_correct:
  assumes "pool_cache_ok mc" and "cache_env_on allocate deallocate E"
  shows "\<exists>mc'. prune E now mc = Some mc' \<and> pool_cache_ok mc' \<and> pool_foreign mc' = pool_foreign mc \<and>
    entries ipv4s mc' = filter_mset (\<lambda>(m, e, a). now < e) (entries ipv4s mc) \<and>
    entries ipv6s mc' = filter_mset (\<lambda>(m, e, a). now < e) (entries ipv6s mc) \<and>
    set (m_names mc') = {n \<in> set (m_names mc). ips_of mc n = [] \<or> (\<exists>p \<in> set (ips_of mc n). now < expiry_of mc p)}"
proof -
  obtain mc' where r: "prune_nodes E now (m_addrs_by_expire_time mc) mc = Some mc'" "pool_cache_ok mc'"
      "pool_foreign mc' = pool_foreign mc" "pruned now mc mc'"
    using pool_cache.prune_nodes_ok[OF assms(1)[unfolded pool_defs] assms(2) refl, of now] by (auto simp: pool_defs)
  have "cache_shape [] mc'"
    using r(2) by (simp add: pool_defs cache_ok_def)
  from pruned_entries[OF r(4) this, of ipv4s] pruned_entries[OF r(4) this, of ipv6s] r show ?thesis
    by (auto simp: prune_def pruned_def)
qed

section \<open>Histories\<close>

datatype cache_op =
    Push4 octets "Ipv4Addr ResolvedAddress list" int
  | Push6 octets "Ipv6Addr ResolvedAddress list" int
  | Prune int

fun cache_op_ok :: "cache_op \<Rightarrow> bool" where
  "cache_op_ok (Push4 nm addrs now) = (map to_lower nm = nm \<and> length nm < 2 ^ 32 \<and> length addrs < 2 ^ 32)"
| "cache_op_ok (Push6 nm addrs now) = (map to_lower nm = nm \<and> length nm < 2 ^ 32 \<and> length addrs < 2 ^ 32)"
| "cache_op_ok (Prune now) = True"

fun cache_step where
  "cache_step E srt4 srt6 (Push4 nm addrs now) mc = map_option snd (push_ipv4 E srt4 nm addrs now mc)"
| "cache_step E srt4 srt6 (Push6 nm addrs now) mc = map_option snd (push_ipv6 E srt6 nm addrs now mc)"
| "cache_step E srt4 srt6 (Prune now) mc = prune E now mc"

primrec cache_run where
  "cache_run E srt4 srt6 [] mc = Some mc"
| "cache_run E srt4 srt6 (op # ops) mc = Option.bind (cache_step E srt4 srt6 op mc) (cache_run E srt4 srt6 ops)"

lemma cache_step_ok:
  assumes "pool_cache_ok mc" and "cache_env_on allocate deallocate E" and "sorts_by_expiry srt4" and "sorts_by_expiry srt6"
    and "cache_op_ok op"
  shows "\<exists>mc'. cache_step E srt4 srt6 op mc = Some mc' \<and> pool_cache_ok mc' \<and> pool_foreign mc' = pool_foreign mc"
proof (cases op)
  case (Push4 nm addrs now)
  then show ?thesis
    using pool_cache.push_impl_ok[OF assms(1)[unfolded pool_defs] assms(2) _ assms(3), of addrs nm
        "\<lambda>addrs. (addrs, [])" now] assms(5)
    by (auto simp: push_ipv4_def store_ipv4_def pool_defs)
next
  case (Push6 nm addrs now)
  then show ?thesis
    using pool_cache.push_impl_ok[OF assms(1)[unfolded pool_defs] assms(2) _ assms(4), of addrs nm
        "\<lambda>addrs. ([], addrs)" now] assms(5)
    by (auto simp: push_ipv6_def store_ipv6_def pool_defs)
next
  case (Prune now)
  then show ?thesis
    using pool_cache.prune_nodes_ok[OF assms(1)[unfolded pool_defs] assms(2) refl, of now]
    by (auto simp: prune_def pool_defs)
qed

lemma cache_run_ok:
  assumes "pool_cache_ok mc" and "cache_env_on allocate deallocate E" and "sorts_by_expiry srt4" and "sorts_by_expiry srt6"
    and "list_all cache_op_ok ops"
  shows "\<exists>mc'. cache_run E srt4 srt6 ops mc = Some mc' \<and> pool_cache_ok mc' \<and> pool_foreign mc' = pool_foreign mc"
  using assms
proof (induction ops arbitrary: mc)
  case (Cons op ops)
  then obtain mc1 where "cache_step E srt4 srt6 op mc = Some mc1" "pool_cache_ok mc1" "pool_foreign mc1 = pool_foreign mc"
    using cache_step_ok[OF Cons.prems(1-4), of op] by auto
  then show ?case
    using Cons.IH[of mc1] Cons.prems by auto
qed simp

lemma MemoryCache_make_ok: "alloc_valid a \<Longrightarrow> pool_cache_ok (MemoryCache_make a) \<and> pool_foreign (MemoryCache_make a) = live_chunks a"
  by (auto simp: pool_defs cache_ok_def cache_shape_def nodes_def foreign_def MemoryCache_make_def)

text \<open>
  Claim C20. Whatever is pushed, under names without upper case letters (of less than 2^32 octets,
  fewer than 2^32 addresses at a time), and pruned in whatever order, failed pushes included, no assertion fails, and the destructor gives back every chunk the cache ever took: the pool has the live
  chunks it had before.
\<close>

theorem MemoryCache_history_releases_all:
  assumes "alloc_valid a" and "cache_env_on allocate deallocate E" and "sorts_by_expiry srt4" and "sorts_by_expiry srt6"
    and "list_all cache_op_ok ops"
  shows "\<exists>mc b. cache_run E srt4 srt6 ops (MemoryCache_make a) = Some mc \<and> MemoryCache_destroy E mc = Some b \<and>
    alloc_valid b \<and> live_chunks b = live_chunks a"
proof -
  obtain mc where mc: "cache_run E srt4 srt6 ops (MemoryCache_make a) = Some mc" "pool_cache_ok mc"
      "pool_foreign mc = live_chunks a"
    using cache_run_ok[OF _ assms(2-5), of "MemoryCache_make a"] MemoryCache_make_ok[OF assms(1)] by auto
  then show ?thesis
    using pool_cache.destroy_ok[OF mc(2)[unfolded pool_defs] assms(2)] by (auto simp: pool_defs)
qed

section \<open>Witnesses\<close>


definition demo_env :: "Allocator cache_env" where
  "demo_env = \<lparr>cache_allocate = allocate, cache_deallocate = deallocate, sizeof_name = 40, alignof_name = 8,
     sizeof_addr = 56, alignof_addr = 8, sizeof_resolved = 16, alignof_resolved = 8\<rparr>"

lemma demo_env_on: "cache_env_on allocate deallocate demo_env"
  by (simp add: demo_env_def cache_env_on_def cache_sizes_def)

lemma sorts_sort_key: "sorts_by_expiry (sort_key expires_at)"
  by (simp add: sorts_by_expiry_def)

lemma demo_cache_ok: "pool_cache_ok (MemoryCache_make demo_pool)"
  using MemoryCache_make_ok[OF demo_pool_ok(4)] by simp

theorem MemoryCache_push_correct_witness:
  "\<exists>r mc'. push_ipv4 demo_env (sort_key expires_at) [97] [\<lparr>address = \<lparr>ipv4_m_value = 0x7F000001\<rparr>, expires_at = 9\<rparr>] 5 (MemoryCache_make demo_pool) =
     Some (r, mc') \<and> (r = Ok () \<longrightarrow> entries ipv4s mc' = {# ([97], 9, \<lparr>ipv4_m_value = 0x7F000001\<rparr>) #})"
  using MemoryCache_push_correct[OF demo_cache_ok demo_env_on sorts_sort_key sorts_sort_key, of "[97]" "[\<lparr>address = \<lparr>ipv4_m_value = 0x7F000001\<rparr>, expires_at = 9\<rparr>]" "[]" 5]
  by (auto simp: to_lower_def new_entries_def entries_def MemoryCache_make_def)

lemma demo_push:
  obtains r mc where "push_ipv4 demo_env (sort_key expires_at) [97] [\<lparr>address = \<lparr>ipv4_m_value = 0x7F000001\<rparr>, expires_at = 9\<rparr>] 5
      (MemoryCache_make demo_pool) = Some (r, mc)" and "pool_cache_ok mc"
    and "r = Ok () \<Longrightarrow> entries ipv4s mc = {# ([97], 9, \<lparr>ipv4_m_value = 0x7F000001\<rparr>) #}"
proof -
  let ?addrs = "[\<lparr>address = \<lparr>ipv4_m_value = 0x7F000001\<rparr>, expires_at = 9\<rparr>]" and ?store = "\<lambda>addrs. (addrs, []) :: Ipv4Addr list \<times> Ipv6Addr list"
  obtain r mc where r: "push_ipv4 demo_env (sort_key expires_at) [97] ?addrs 5 (MemoryCache_make demo_pool) = Some (r, mc)"
      "pool_cache_ok mc" "r = Ok () \<Longrightarrow> stored ?store [97] (expiry_groups (sort_key expires_at
        (filter (\<lambda>a. 5 < expires_at a) ?addrs))) (MemoryCache_make demo_pool) mc"
    using pool_cache.push_impl_ok[OF demo_cache_ok[unfolded pool_defs] demo_env_on _ sorts_sort_key, of ?addrs "[97]" ?store 5]
    by (fastforce simp: pool_defs push_ipv4_def store_ipv4_def to_lower_def)
  then show thesis
    using that pushed_entries[OF sorts_sort_key r(3), of ipv4s]
    by (simp add: new_entries_def entries_def MemoryCache_make_def)
qed


theorem MemoryCache_prune_correct_witness:
  "\<exists>r mc mc1 mc2. push_ipv4 demo_env (sort_key expires_at) [97] [\<lparr>address = \<lparr>ipv4_m_value = 0x7F000001\<rparr>, expires_at = 9\<rparr>] 5
      (MemoryCache_make demo_pool) = Some (r, mc) \<and> prune demo_env 8 mc = Some mc1 \<and> prune demo_env 9 mc = Some mc2 \<and>
    (r = Ok () \<longrightarrow> entries ipv4s mc1 = {# ([97], 9, \<lparr>ipv4_m_value = 0x7F000001\<rparr>) #} \<and> entries ipv4s mc2 = {#})"
proof (rule demo_push)
  fix r mc
  assume p: "push_ipv4 demo_env (sort_key expires_at) [97] [\<lparr>address = \<lparr>ipv4_m_value = 0x7F000001\<rparr>, expires_at = 9\<rparr>] 5
      (MemoryCache_make demo_pool) = Some (r, mc)" "pool_cache_ok mc"
    and e: "r = Ok () \<Longrightarrow> entries ipv4s mc = {# ([97], 9, \<lparr>ipv4_m_value = 0x7F000001\<rparr>) #}"
  obtain mc1 mc2 where "prune demo_env 8 mc = Some mc1" "prune demo_env 9 mc = Some mc2"
      "entries ipv4s mc1 = filter_mset (\<lambda>(m, e, a). 8 < e) (entries ipv4s mc)"
      "entries ipv4s mc2 = filter_mset (\<lambda>(m, e, a). 9 < e) (entries ipv4s mc)"
    using MemoryCache_prune_correct[OF p(2) demo_env_on, of 8] MemoryCache_prune_correct[OF p(2) demo_env_on, of 9] by blast
  then show ?thesis
    using p(1) e by auto
qed

theorem MemoryCache_history_releases_all_witness:
  "\<exists>mc b. cache_run demo_env (sort_key expires_at) (sort_key expires_at)
      [Push4 [97] [\<lparr>address = \<lparr>ipv4_m_value = 0x7F000001\<rparr>, expires_at = 9\<rparr>] 5, Prune 7, Push6 [98] [] 8, Prune 9] (MemoryCache_make demo_pool) = Some mc \<and>
    MemoryCache_destroy demo_env mc = Some b \<and> alloc_valid b \<and> live_chunks b = {}"
  using MemoryCache_history_releases_all[OF demo_pool_ok(4) demo_env_on sorts_sort_key sorts_sort_key,
      of "[Push4 [97] [\<lparr>address = \<lparr>ipv4_m_value = 0x7F000001\<rparr>, expires_at = 9\<rparr>] 5, Prune 7, Push6 [98] [] 8, Prune 9]"]
  by (simp add: to_lower_def demo_pool_ok(3))

section \<open>Names in upper case\<close>

text \<open>
  \<^verbatim>\<open>push_impl\<close> searches with the name as given and stores it in lower case, so a name with an upper
  case letter goes to the wrong place: the name \<^verbatim>\<open>b\<close> is not found any more once \<^verbatim>\<open>C\<close> was pushed.
\<close>

definition bump_env :: "nat cache_env" where
  "bump_env = \<lparr>cache_allocate = (\<lambda>sz al s. Some (Some s, s + 256)), cache_deallocate = (\<lambda>p s. Some s), sizeof_name = 40,
     alignof_name = 8, sizeof_addr = 56, alignof_addr = 8, sizeof_resolved = 16, alignof_resolved = 8\<rparr>"

definition demo_address :: "Ipv4Addr ResolvedAddress" where
  "demo_address = \<lparr>address = \<lparr>ipv4_m_value = 0x7F000001\<rparr>, expires_at = 9\<rparr>"

definition push_demo :: "octets \<Rightarrow> nat MemoryCache \<Rightarrow> nat MemoryCache option" where
  "push_demo nm mc = map_option snd (push_ipv4 bump_env (sort_key expires_at) nm [demo_address] 5 mc)"

lemma push_upper_case_hides_name:
  "Option.bind (push_demo [98] (MemoryCache_make 0)) (pull_ipv4 [98] 3 5) = Some [demo_address]"
  "Option.bind (Option.bind (push_demo [98] (MemoryCache_make 0)) (push_demo [67])) (pull_ipv4 [98] 3 5) = Some []"
  by (simp_all add: push_demo_def push_ipv4_def store_ipv4_def push_impl_def names_lower_bound_def lower_bound_def upper_bound_def names_find_def
      make_name_def name_header_def bump_env_def demo_address_def push_addrs_def scratch_allocate_def make_addr_def put_header_def insert_addr_def insert_name_def
      MemoryCache_make_def pull_ipv4_def memory_cache_pull_impl_def debug_is_ascii_def FQDN_MAX_OCTET_LEN_def to_lower_def Let_def)

end
