(* ===== verification/Corosig_Dns_Caching.thy ===== *)
theory Corosig_Dns_Caching
  imports Corosig_Dns_Cache_Claims
begin

text \<open>
  The resolver with a cache: \<^verbatim>\<open>Resolver\<close> of \<^verbatim>\<open>io/dns/Resolver.hpp\<close> over the combined cache. What
  the hosts file and the resolver without a cache give is a parameter; the buffer \<^verbatim>\<open>out\<close> of the
  caller is a list whose front is overwritten. The three readings of the clock, in \<^verbatim>\<open>prune\<close>,
  \<^verbatim>\<open>pull\<close> and \<^verbatim>\<open>push\<close>, are arguments. So is what other coroutines do to the cache while this one is
  suspended: \<open>other1\<close> while the hosts file is read, \<open>other2\<close> from then until the resolver's answer is
  there.
\<close>

section \<open>Resolving\<close>

definition overwrite :: "'a list \<Rightarrow> 'a list \<Rightarrow> 'a list" where
  "overwrite xs out = xs @ drop (length xs) out"

text \<open>
  The hosts file and the resolver write to \<^verbatim>\<open>out\<close> as they go: a failure comes with what was written
  before it.
\<close>

type_synonym ('ip, 'e) filled = "('ip ResolvedAddress list, 'e \<times> 'ip ResolvedAddress list) result"

fun written :: "('ip, 'e) filled \<Rightarrow> 'ip ResolvedAddress list" where
  "written Nothing = []"
| "written (Failure (e, addrs)) = addrs"
| "written (Ok addrs) = addrs"

text \<open>
  \<^verbatim>\<open>resolve_name_impl\<close>; \<open>pulled\<close> tells whether the frame of the coroutine \<^verbatim>\<open>Cache::pull_impl\<close> could
  be allocated: if not, its future has failed from the start and the cache is not asked.
\<close>

definition resolve_name_impl ::
  "'s cache_env \<Rightarrow> (AddrStorageHeader \<Rightarrow> 'ip list) \<Rightarrow>
   (octets \<Rightarrow> 'ip ResolvedAddress list \<Rightarrow> int \<Rightarrow> 's MemoryCache \<Rightarrow> ((unit, AllocationError) result \<times> 's MemoryCache) option) \<Rightarrow>
   bool \<Rightarrow> ('ip, 'h) filled \<Rightarrow> ('ip, 'e) filled \<Rightarrow> octets \<Rightarrow> int \<Rightarrow> int \<Rightarrow> int \<Rightarrow>
   ('s MemoryCache \<Rightarrow> 's MemoryCache) \<Rightarrow> ('s MemoryCache \<Rightarrow> 's MemoryCache) \<Rightarrow>
   'ip ResolvedAddress list \<Rightarrow> 's MemoryCache \<Rightarrow>
   ((nat, 'e) result \<times> 'ip ResolvedAddress list \<times> 's MemoryCache) option" where
  "resolve_name_impl E ip_source push pulled hosts answer ascii_name now1 now2 now3 other1 other2 out mc =
     c_assert (debug_is_ascii ascii_name) (do {
       mc \<leftarrow> prune E now1 mc;
       (pulled_addrs, out, mc) \<leftarrow>
         (if pulled then do {
            let mc = other1 mc;
            pull_res \<leftarrow> cache_pull_impl ip_source hosts ascii_name (length out) now2 mc;
            let out = overwrite (written hosts) out;
            Some (case pull_res of Ok addrs \<Rightarrow> (addrs, overwrite addrs out, mc) | _ \<Rightarrow> ([], out, mc))
          } else Some ([], out, mc));
       if pulled_addrs \<noteq> [] then Some (Ok (length pulled_addrs), out, mc)
       else do {
         let mc = other2 mc;
         let out = overwrite (written answer) out;
         case answer of
           Nothing \<Rightarrow> None
         | Failure (e, _) \<Rightarrow> Some (Failure e, out, mc)
         | Ok addrs \<Rightarrow> map_option (\<lambda>(_, mc). (Ok (length addrs), out, mc)) (push ascii_name out now3 mc)
       }
     })"

definition resolve_name_ipv4 where
  "resolve_name_ipv4 E srt = resolve_name_impl E ipv4s (push_ipv4 E srt)"


text \<open>\<^term>\<open>unset\<close> is the content of the variable \<^verbatim>\<open>addr\<close>, which is not initialised.\<close>

definition resolve_name1_ipv4 where
  "resolve_name1_ipv4 E srt pulled hosts answer ascii_name now1 now2 now3 other1 other2 unset mc =
     map_option (\<lambda>(r, out, mc). (case r of Ok _ \<Rightarrow> Ok (hd out) | Failure e \<Rightarrow> Failure e | Nothing \<Rightarrow> Nothing, mc))
       (resolve_name_ipv4 E srt pulled hosts answer ascii_name now1 now2 now3 other1 other2 [unset] mc)"

section \<open>Misses\<close>





lemma length_overwrite [simp]: "length xs \<le> length out \<Longrightarrow> length (overwrite xs out) = length out"
  by (simp add: overwrite_def)



lemma entries_m_alloc [simp]: "entries src (mc\<lparr>m_alloc := a\<rparr>) = entries src mc"
  by (simp add: entries_def entries_at_def)



text \<open>Without an answer \<^verbatim>\<open>resolve_name1\<close> returns its variable that was never set.\<close>

lemma resolve_name1_unset:
  "map_option fst (resolve_name1_ipv4 bump_env (sort_key expires_at) True (Ok []) (Ok []) [98] 5 5 5 (\<lambda>mc. mc) (\<lambda>mc. mc) unset (MemoryCache_make 0)) = Some (Ok unset)"
  if "expires_at unset \<le> 5"
  using that
  by (simp add: resolve_name1_ipv4_def resolve_name_ipv4_def resolve_name_impl_def cache_pull_impl_def overwrite_def prune_def
      push_ipv4_def store_ipv4_def push_impl_def names_lower_bound_def lower_bound_def names_find_def
      make_name_def name_header_def bump_env_def push_addrs_def scratch_allocate_def
      insert_name_def MemoryCache_make_def memory_cache_pull_impl_def debug_is_ascii_def
      FQDN_MAX_OCTET_LEN_def to_lower_def Let_def)


end
