(* ===== verification/Corosig_Reactor.thy ===== *)
theory Corosig_Reactor
  imports Corosig_Vector Corosig_Dns_Encode "HOL-Library.Signed_Division"
begin

text \<open>
  The event loop: \<^verbatim>\<open>reactor/Reactor.hpp\<close> and \<^verbatim>\<open>Reactor.cpp\<close> with the nodes of \<^verbatim>\<open>PollList.hpp\<close>,
  \<^verbatim>\<open>SleepList.hpp\<close>, \<^verbatim>\<open>CoroList.hpp\<close> and \<^verbatim>\<open>GcList.hpp\<close>. A node is named by its address; the
  intrusive lists are lists of addresses. What a coroutine does when it is resumed, what
  destroying a node does, the clock and \<^verbatim>\<open>poll\<close> are parameters; they act on the state of the
  reactor and on a \<^term>\<open>world\<close> that holds everything else. \<^term>\<open>None\<close> is a failed assertion or an
  endless loop.
\<close>

section \<open>State\<close>

record PollListNode =
  handle :: int
  event :: u16

record pollfd =
  poll_fd :: int
  poll_events :: u16

text \<open>
  The list \<^term>\<open>taken\<close> is the local \<^verbatim>\<open>polled\<close> of \<^verbatim>\<open>poll_and_resume_impl\<close>: nodes unlink themselves
  from it too. A sleeping node is its \<^verbatim>\<open>awake_time\<close>. The method for polling is the one with the
  growing buffer unless \<^term>\<open>fallback\<close> is set.
\<close>

record ('w, 's) Reactor =
  m_gc_list :: "nat list"
  m_polled :: "nat list"
  taken :: "nat list"
  m_ready :: "nat list"
  m_sleeping :: "nat list"
  reactor_alloc :: 's
  m_previous_iteration_buffer :: nat
  m_poll_buf :: "pollfd Vector"
  fallback :: bool
  poll_node :: "nat \<Rightarrow> PollListNode"
  awake_time :: "nat \<Rightarrow> int"
  world :: 'w

record ('w, 's) reactor_env =
  resume :: "nat \<Rightarrow> ('w, 's) Reactor \<Rightarrow> ('w, 's) Reactor option"
  destroy :: "nat \<Rightarrow> ('w, 's) Reactor \<Rightarrow> ('w, 's) Reactor option"
  steady_now :: "'w \<Rightarrow> int \<times> 'w"
  sys_poll :: "pollfd list \<Rightarrow> int \<Rightarrow> 'w \<Rightarrow> int \<times> u16 list \<times> 'w"
  current_error :: "'w \<Rightarrow> SyscallError"
  pollfd_env :: "'s vector_env"

definition MIN_POLL_BUFFER :: nat where
  "MIN_POLL_BUFFER = 64"

definition Reactor_make :: "('w, 's) reactor_env \<Rightarrow> 's \<Rightarrow> 'w \<Rightarrow> ('w, 's) Reactor option" where
  "Reactor_make R alloc w =
     map_option (\<lambda>(res, buf, alloc).
       \<lparr>m_gc_list = [], m_polled = [], taken = [], m_ready = [], m_sleeping = [], reactor_alloc = alloc,
        m_previous_iteration_buffer = MIN_POLL_BUFFER, m_poll_buf = buf, fallback = (\<not> is_ok res),
        poll_node = (\<lambda>_. \<lparr>handle = - 1, event = 0\<rparr>), awake_time = (\<lambda>_. 0), world = w\<rparr>)
       (reserve (pollfd_env R) MIN_POLL_BUFFER Vector_make alloc)"

section \<open>Scheduling\<close>

text \<open>
  The hooks of the nodes are in the mode \<^verbatim>\<open>auto_unlink\<close>, whose lists assert that a node is not
  linked when it is inserted. A coroutine and a node for the garbage list share one hook.
\<close>

definition schedule :: "nat \<Rightarrow> ('w, 's) Reactor \<Rightarrow> ('w, 's) Reactor option" where
  "schedule n r = c_assert (n \<notin> set (m_ready r @ m_gc_list r)) (Some (r\<lparr>m_ready := m_ready r @ [n]\<rparr>))"

definition destroy_later :: "nat \<Rightarrow> ('w, 's) Reactor \<Rightarrow> ('w, 's) Reactor option" where
  "destroy_later n r = c_assert (n \<notin> set (m_ready r @ m_gc_list r)) (Some (r\<lparr>m_gc_list := n # m_gc_list r\<rparr>))"

definition schedule_when_ready :: "nat \<Rightarrow> ('w, 's) Reactor \<Rightarrow> ('w, 's) Reactor option" where
  "schedule_when_ready n r = c_assert (n \<notin> set (m_polled r @ taken r)) (Some (r\<lparr>m_polled := m_polled r @ [n]\<rparr>))"

definition schedule_when_time_passes :: "nat \<Rightarrow> ('w, 's) Reactor \<Rightarrow> ('w, 's) Reactor option" where
  "schedule_when_time_passes n r = c_assert (n \<notin> set (m_sleeping r))
     (let i = upper_bound (\<lambda>t m. t < awake_time r m) (m_sleeping r) (awake_time r n)
      in Some (r\<lparr>m_sleeping := take i (m_sleeping r) @ n # drop i (m_sleeping r)\<rparr>))"

definition has_active_tasks :: "('w, 's) Reactor \<Rightarrow> bool" where
  "has_active_tasks r \<longleftrightarrow> m_polled r \<noteq> [] \<or> m_ready r \<noteq> [] \<or> m_sleeping r \<noteq> []"

section \<open>Running what is due\<close>

text \<open>
  \<^verbatim>\<open>clear_and_dispose\<close> steps to the next node before it disposes of one, so destroying a node
  must leave the rest of the list alone.
\<close>

primrec gc_nodes :: "('w, 's) reactor_env \<Rightarrow> nat list \<Rightarrow> ('w, 's) Reactor \<Rightarrow> ('w, 's) Reactor option" where
  "gc_nodes R [] r = Some r"
| "gc_nodes R (n # ns) r =
     Option.bind (destroy R n (r\<lparr>m_gc_list := ns\<rparr>)) (\<lambda>r. c_assert (m_gc_list r = ns) (gc_nodes R ns r))"

definition gc :: "('w, 's) reactor_env \<Rightarrow> ('w, 's) Reactor \<Rightarrow> ('w, 's) Reactor option" where
  "gc R r = gc_nodes R (m_gc_list r) r"

text \<open>The loop works on \<^verbatim>\<open>m_ready\<close> itself: nodes scheduled by a resumed coroutine run in it too.\<close>

partial_function (option) resume_ready :: "('w, 's) reactor_env \<Rightarrow> ('w, 's) Reactor \<Rightarrow> ('w, 's) Reactor option" where
  "resume_ready R r = (case m_ready r of
       [] \<Rightarrow> Some r
     | n # ns \<Rightarrow> Option.bind (resume R n (r\<lparr>m_ready := ns\<rparr>)) (resume_ready R))"

partial_function (option) resume_sleepers_until ::
  "('w, 's) reactor_env \<Rightarrow> int \<Rightarrow> ('w, 's) Reactor \<Rightarrow> ('w, 's) Reactor option" where
  "resume_sleepers_until R now r = (case m_sleeping r of
       [] \<Rightarrow> Some r
     | n # ns \<Rightarrow>
         (if awake_time r n > now then Some r
          else Option.bind (resume R n (r\<lparr>m_sleeping := ns\<rparr>)) (resume_sleepers_until R now)))"

definition resume_ready_sleepers :: "('w, 's) reactor_env \<Rightarrow> ('w, 's) Reactor \<Rightarrow> ('w, 's) Reactor option" where
  "resume_ready_sleepers R r =
     (if m_sleeping r = [] then Some r
      else let (now, w) = steady_now R (world r) in resume_sleepers_until R now (r\<lparr>world := w\<rparr>))"

section \<open>Waiting\<close>

text \<open>
  \<^verbatim>\<open>std::chrono::ceil\<close> to milliseconds of type \<^verbatim>\<open>int\<close>: a truncating cast, then one more when that
  is below. Adding one to the largest \<^verbatim>\<open>int\<close> is undefined.
\<close>

definition ceil_to_millis :: "int \<Rightarrow> int option" where
  "ceil_to_millis nanos =
     (let t = sint (word_of_int (nanos sdiv 1000000) :: 32 word)
      in if t * 1000000 < nanos then c_assert (t < 2 ^ 31 - 1) (Some (t + 1)) else Some t)"

definition DEFAULT_TIMEOUT :: int where
  "DEFAULT_TIMEOUT = 100"

definition get_poll_timeout :: "('w, 's) reactor_env \<Rightarrow> ('w, 's) Reactor \<Rightarrow> (int \<times> ('w, 's) Reactor) option" where
  "get_poll_timeout R r =
     (if m_ready r \<noteq> [] then Some (0, r)
      else if m_sleeping r \<noteq> []
      then let (now, w) = steady_now R (world r)
           in map_option (\<lambda>t. (min (max 0 t) DEFAULT_TIMEOUT, r\<lparr>world := w\<rparr>)) (ceil_to_millis (awake_time r (hd (m_sleeping r)) - now))
      else Some (100, r))"

section \<open>Polling\<close>

definition pollfd_of :: "('w, 's) Reactor \<Rightarrow> nat \<Rightarrow> pollfd" where
  "pollfd_of r n = \<lparr>poll_fd = handle (poll_node r n), poll_events = event (poll_node r n)\<rparr>"

text \<open>
  The loop over the descriptors with what \<^verbatim>\<open>poll\<close> wrote into \<^verbatim>\<open>revents\<close>. The front node of the
  list is compared with the descriptor by its handle.
\<close>

primrec poll_loop ::
  "('w, 's) reactor_env \<Rightarrow> (pollfd \<times> u16) list \<Rightarrow> nat \<Rightarrow> nat \<Rightarrow> ('w, 's) Reactor \<Rightarrow> ('w, 's) Reactor option" where
  "poll_loop R [] ret handled r = Some r"
| "poll_loop R (f # fs) ret handled r =
     (if \<not> handled < ret then Some r
      else case taken r of
        [] \<Rightarrow> Some r
      | n # ns \<Rightarrow>
          (if poll_fd (fst f) \<noteq> handle (poll_node r n)
           then poll_loop R fs ret (if snd f \<noteq> 0 then handled + 1 else handled) r
           else if snd f = 0
           then poll_loop R fs ret handled (r\<lparr>taken := ns, m_polled := m_polled r @ [n]\<rparr>)
           else Option.bind (resume R n (r\<lparr>taken := ns\<rparr>)) (poll_loop R fs ret (handled + 1))))"

definition poll_and_resume_impl ::
  "('w, 's) reactor_env \<Rightarrow> pollfd list \<Rightarrow> int \<Rightarrow> ('w, 's) Reactor \<Rightarrow>
   ((unit, SyscallError) result \<times> ('w, 's) Reactor) option" where
  "poll_and_resume_impl R poll_fds timeout r =
     (let (ret, revents, w) = sys_poll R poll_fds timeout (world r); r = r\<lparr>world := w\<rparr>
      in if ret = - 1 then Some (Failure (current_error R w), r)
         else map_option (\<lambda>r. (Ok (), r\<lparr>m_polled := m_polled r @ taken r, taken := []\<rparr>))
                (poll_loop R (zip poll_fds revents) (nat (ret mod 2 ^ 64)) 0 (r\<lparr>taken := m_polled r, m_polled := []\<rparr>)))"

text \<open>A full buffer that cannot grow leaves the remaining nodes out.\<close>

primrec fill_poll_buf :: "('w, 's) reactor_env \<Rightarrow> nat list \<Rightarrow> ('w, 's) Reactor \<Rightarrow> ('w, 's) Reactor option" where
  "fill_poll_buf R [] r = Some r"
| "fill_poll_buf R (n # ns) r = c_assert (handle (poll_node r n) \<noteq> - 1)
     (Option.bind (push_back (pollfd_env R) (pollfd_of r n) (m_poll_buf r) (reactor_alloc r)) (\<lambda>(res, buf, alloc).
        let r = r\<lparr>m_poll_buf := buf, reactor_alloc := alloc\<rparr>
        in if is_ok res then fill_poll_buf R ns r else Some r))"

text \<open>A large buffer that was hardly used the last time is replaced by a smaller one.\<close>

definition shrink_poll_buf :: "('w, 's) reactor_env \<Rightarrow> ('w, 's) Reactor \<Rightarrow> ('w, 's) Reactor option" where
  "shrink_poll_buf R r =
     (let shrink_threshold = m_capacity (m_poll_buf r) div 4
      in if m_previous_iteration_buffer r > MIN_POLL_BUFFER \<and> m_previous_iteration_buffer r < shrink_threshold
         then do {
           (res, new_buf, alloc) \<leftarrow> reserve (pollfd_env R) shrink_threshold Vector_make (reactor_alloc r);
           (buf, new_buf, alloc) \<leftarrow> (if is_ok res
              then map_option (\<lambda>(buf, alloc). (buf, snd (Vector_move new_buf), alloc))
                     (Vector_move_assign (pollfd_env R) new_buf (m_poll_buf r, alloc))
              else Some (m_poll_buf r, new_buf, alloc));
           alloc \<leftarrow> Vector_destroy (pollfd_env R) (new_buf, alloc);
           Some (r\<lparr>m_poll_buf := buf, reactor_alloc := alloc\<rparr>)
         }
         else Some r)"

definition poll_and_resume_normal ::
  "('w, 's) reactor_env \<Rightarrow> int \<Rightarrow> ('w, 's) Reactor \<Rightarrow> ((unit, SyscallError) result \<times> ('w, 's) Reactor) option" where
  "poll_and_resume_normal R timeout r =
     (if m_polled r = [] then Some (Ok (), r)
      else do {
        r \<leftarrow> shrink_poll_buf R r;
        buf \<leftarrow> clear (m_poll_buf r);
        r \<leftarrow> fill_poll_buf R (m_polled r) (r\<lparr>m_poll_buf := buf\<rparr>);
        let r = r\<lparr>m_previous_iteration_buffer := m_size (m_poll_buf r)\<rparr>;
        poll_fds \<leftarrow> read_range 0 (m_size (m_poll_buf r)) (m_poll_buf r);
        poll_and_resume_impl R poll_fds timeout r
      })"

definition BUF_SIZE :: nat where
  "BUF_SIZE = 64"

definition poll_and_resume_fallback ::
  "('w, 's) reactor_env \<Rightarrow> int \<Rightarrow> ('w, 's) Reactor \<Rightarrow> ((unit, SyscallError) result \<times> ('w, 's) Reactor) option" where
  "poll_and_resume_fallback R timeout r =
     (if m_polled r = [] then Some (Ok (), r)
      else let polled = take BUF_SIZE (m_polled r)
           in c_assert (list_all (\<lambda>n. handle (poll_node r n) \<noteq> - 1) polled)
                (poll_and_resume_impl R (map (pollfd_of r) polled) timeout r))"

section \<open>The event loop\<close>

definition do_event_loop_iteration ::
  "('w, 's) reactor_env \<Rightarrow> ('w, 's) Reactor \<Rightarrow> ((unit, SyscallError) result \<times> ('w, 's) Reactor) option" where
  "do_event_loop_iteration R r = c_assert (has_active_tasks r) (do {
     r \<leftarrow> gc R r;
     r \<leftarrow> resume_ready_sleepers R r;
     r \<leftarrow> resume_ready R r;
     (timeout, r) \<leftarrow> get_poll_timeout R r;
     (if fallback r then poll_and_resume_fallback R timeout r else poll_and_resume_normal R timeout r)
   })"

partial_function (option) drain_remaining_tasks ::
  "('w, 's) reactor_env \<Rightarrow> ('w, 's) Reactor \<Rightarrow> ((unit, SyscallError) result \<times> ('w, 's) Reactor) option" where
  "drain_remaining_tasks R r =
     (if has_active_tasks r
      then Option.bind (do_event_loop_iteration R r) (\<lambda>(res, r).
             if is_ok res then drain_remaining_tasks R r else Some (res, r))
      else map_option (Pair (Ok ())) (gc R r))"

definition Reactor_destroy :: "('w, 's) reactor_env \<Rightarrow> ('w, 's) Reactor \<Rightarrow> 's option" where
  "Reactor_destroy R r = do {
     r \<leftarrow> gc R r;
     c_assert (m_gc_list r = [] \<and> m_polled r = [] \<and> m_ready r = [] \<and> m_sleeping r = [])
       (Vector_destroy (pollfd_env R) (m_poll_buf r, reactor_alloc r))
   }"

end
