(* ===== verification/Corosig_Reactor_Claims.thy ===== *)
theory Corosig_Reactor_Claims
  imports Corosig_Reactor Corosig_Lists
begin

text \<open>
  The event loop against arbitrary coroutines: what they may do to the reactor is a relation on
  its state, under which the lists stay consistent in every run. Polling and waking sleepers are
  compared with plain loops over the nodes, and the time to wait is bounded.
\<close>

section \<open>What coroutines do to the reactor\<close>

text \<open>
  Code outside the event loop links nodes, which fails an assertion when the node is linked
  already, nodes unlink themselves when they are destroyed, and anything may happen to the rest
  of the world.
\<close>

inductive reactor_action :: "('w, 's) Reactor \<Rightarrow> ('w, 's) Reactor \<Rightarrow> bool" where
  coro: "schedule n r = Some r' \<Longrightarrow> reactor_action r r'"
| garbage: "destroy_later n r = Some r' \<Longrightarrow> reactor_action r r'"
| poll: "schedule_when_ready n (r\<lparr>poll_node := (poll_node r)(n := nd)\<rparr>) = Some r' \<Longrightarrow> reactor_action r r'"
| sleep: "schedule_when_time_passes n (r\<lparr>awake_time := (awake_time r)(n := t)\<rparr>) = Some r' \<Longrightarrow> reactor_action r r'"
| unlink_coro: "reactor_action r (r\<lparr>m_ready := remove1 n (m_ready r), m_gc_list := remove1 n (m_gc_list r)\<rparr>)"
| unlink_poll: "reactor_action r (r\<lparr>m_polled := remove1 n (m_polled r), taken := remove1 n (taken r)\<rparr>)"
| unlink_sleep: "reactor_action r (r\<lparr>m_sleeping := remove1 n (m_sleeping r)\<rparr>)"
| other: "reactor_action r (r\<lparr>world := w, reactor_alloc := s\<rparr>)"

definition coroutines :: "('w, 's) reactor_env \<Rightarrow> bool" where
  "coroutines R \<longleftrightarrow> (\<forall>n r r'. resume R n r = Some r' \<or> destroy R n r = Some r' \<longrightarrow> reactor_action\<^sup>*\<^sup>* r r')"

definition reactor_ok :: "('w, 's) Reactor \<Rightarrow> bool" where
  "reactor_ok r \<longleftrightarrow> distinct (m_polled r @ taken r) \<and> distinct (m_ready r @ m_gc_list r) \<and> distinct (m_sleeping r) \<and>
     sorted (map (awake_time r) (m_sleeping r))"

section \<open>The order of sleepers\<close>

lemma schedule_when_time_passes_eq:
  "schedule_when_time_passes n r = c_assert (n \<notin> set (m_sleeping r)) (Some (r\<lparr>m_sleeping :=
     takeWhile (\<lambda>m. \<not> awake_time r n < awake_time r m) (m_sleeping r) @
     n # dropWhile (\<lambda>m. \<not> awake_time r n < awake_time r m) (m_sleeping r)\<rparr>))"
  by (simp add: schedule_when_time_passes_def upper_bound_def Let_def flip: takeWhile_eq_take dropWhile_eq_drop)

section \<open>The invariant\<close>

lemma sleep_ok:
  assumes "reactor_ok r" and "schedule_when_time_passes n (r\<lparr>awake_time := (awake_time r)(n := t)\<rparr>) = Some r'"
  shows "reactor_ok r'" and "n \<notin> set (m_sleeping r)" and "set (m_sleeping r') = insert n (set (m_sleeping r))"
    and "awake_time r' n = t"
proof -
  let ?f = "(awake_time r)(n := t)"
  let ?P = "\<lambda>m. \<not> ?f n < ?f m"
  have r': "n \<notin> set (m_sleeping r)"
      "r' = r\<lparr>awake_time := ?f, m_sleeping := takeWhile ?P (m_sleeping r) @ n # dropWhile ?P (m_sleeping r)\<rparr>"
    using assms(2) unfolding schedule_when_time_passes_eq by (simp_all del: fun_upd_apply split: if_splits)
  have "sorted (map ?f (m_sleeping r))"
    using assms(1) r'(1) by (subst sorted_map_cong[where g = "awake_time r"]) (auto simp: reactor_ok_def)
  note so = sorted_split_insert[OF this, of n]
  have "distinct (takeWhile (\<lambda>m. \<not> ?f n < ?f m) (m_sleeping r) @ n # dropWhile (\<lambda>m. \<not> ?f n < ?f m) (m_sleeping r))"
    unfolding distinct_split_insert using assms(1) r'(1) by (simp add: reactor_ok_def)
  with so show "reactor_ok r'"
    using assms(1) unfolding r'(2) reactor_ok_def by simp
  show "n \<notin> set (m_sleeping r)" "awake_time r' n = t"
    using r' by simp_all
  show "set (m_sleeping r') = insert n (set (m_sleeping r))"
    unfolding r'(2) by (simp, metis Un_insert_right set_append takeWhile_dropWhile_id)
qed

lemma action_ok: "reactor_action r r' \<Longrightarrow> reactor_ok r \<Longrightarrow> reactor_ok r'"
proof (induction rule: reactor_action.induct)
  case (sleep n r t r')
  then show ?case
    using sleep_ok(1) by blast
qed (auto simp: reactor_ok_def schedule_def destroy_later_def schedule_when_ready_def sorted_map_remove1
    dest: notin_set_remove1 split: if_splits)

lemma actions_ok: "reactor_action\<^sup>*\<^sup>* r r' \<Longrightarrow> reactor_ok r \<Longrightarrow> reactor_ok r'"
  by (induction rule: rtranclp_induct) (auto dest: action_ok)

lemma actions_taken: "reactor_action\<^sup>*\<^sup>* r r' \<Longrightarrow> taken r = [] \<Longrightarrow> taken r' = []"
proof (induction rule: rtranclp_induct)
  case (step r1 r2)
  from step(2) show ?case
    using step(3,4) by (induction rule: reactor_action.induct)
      (auto simp: schedule_def destroy_later_def schedule_when_ready_def schedule_when_time_passes_eq split: if_splits)
qed

text \<open>The invariant between two steps of the event loop, and how its loops keep it.\<close>

definition idle_ok :: "('w, 's) Reactor \<Rightarrow> bool" where
  "idle_ok r \<longleftrightarrow> reactor_ok r \<and> taken r = []"

lemma resume_ok:
  assumes "coroutines R" and "resume R n r = Some r' \<or> destroy R n r = Some r'"
  shows "reactor_ok r \<Longrightarrow> reactor_ok r'" and "idle_ok r \<Longrightarrow> idle_ok r'"
  using assms actions_ok[of r r'] actions_taken[of r r'] by (auto simp: coroutines_def idle_ok_def)

lemma idle_tails:
  "idle_ok r \<Longrightarrow> m_ready r = n # ns \<Longrightarrow> idle_ok (r\<lparr>m_ready := ns\<rparr>)"
  "idle_ok r \<Longrightarrow> m_sleeping r = n # ns \<Longrightarrow> idle_ok (r\<lparr>m_sleeping := ns\<rparr>)"
  "idle_ok r \<Longrightarrow> m_gc_list r = n # ns \<Longrightarrow> idle_ok (r\<lparr>m_gc_list := ns\<rparr>)"
  "idle_ok r \<Longrightarrow> idle_ok (r\<lparr>world := w\<rparr>)"
  by (auto simp: idle_ok_def reactor_ok_def)

lemma gc_nodes_ok:
  "coroutines R \<Longrightarrow> gc_nodes R ns r = Some r' \<Longrightarrow> m_gc_list r = ns \<Longrightarrow> idle_ok r \<Longrightarrow> idle_ok r'"
proof (induction ns arbitrary: r)
  case (Cons n ns)
  obtain r1 where r1: "destroy R n (r\<lparr>m_gc_list := ns\<rparr>) = Some r1" "m_gc_list r1 = ns" "gc_nodes R ns r1 = Some r'"
    using Cons.prems(2) by (auto split: if_splits bind_splits)
  then have "idle_ok r1"
    using resume_ok(2)[OF Cons.prems(1)] idle_tails(3)[OF Cons.prems(4,3)] by blast
  then show ?case
    using Cons.IH[OF Cons.prems(1) r1(3,2)] by blast
qed simp

lemmas resume_ready_induct = resume_ready.raw_induct [rotated 1, consumes 1, case_names step]
lemmas resume_sleepers_induct = resume_sleepers_until.raw_induct [rotated 1, consumes 1, case_names step]

lemma resume_ready_ok: "resume_ready R r = Some r' \<Longrightarrow> coroutines R \<Longrightarrow> idle_ok r \<Longrightarrow> idle_ok r'"
proof (induction rule: resume_ready_induct)
  case (step rr R r r')
  show ?case
  proof (cases "m_ready r")
    case (Cons n ns)
    then obtain r1 where "resume R n (r\<lparr>m_ready := ns\<rparr>) = Some r1" "rr R r1 = Some r'"
      using step(2) by (auto split: bind_splits)
    then show ?thesis
      using step(1,3) resume_ok(2)[OF step(3)] idle_tails(1)[OF step(4) Cons] by blast
  qed (use step in simp)
qed

lemma resume_sleepers_ok: "resume_sleepers_until R now r = Some r' \<Longrightarrow> coroutines R \<Longrightarrow> idle_ok r \<Longrightarrow> idle_ok r'"
proof (induction rule: resume_sleepers_induct)
  case (step rr R now r r')
  show ?case
  proof (cases "m_sleeping r")
    case (Cons n ns)
    show ?thesis
    proof (cases "awake_time r n > now")
      case False
      then obtain r1 where "resume R n (r\<lparr>m_sleeping := ns\<rparr>) = Some r1" "rr R now r1 = Some r'"
        using step(2) Cons by (auto split: bind_splits)
      then show ?thesis
        using step(1,3) resume_ok(2)[OF step(3)] idle_tails(2)[OF step(4) Cons] by blast
    qed (use step Cons in simp)
  qed (use step in simp)
qed

lemma poll_loop_ok:
  "coroutines R \<Longrightarrow> poll_loop R fs ret handled r = Some r' \<Longrightarrow> reactor_ok r \<Longrightarrow> reactor_ok r'"
proof (induction fs arbitrary: handled r)
  case (Cons f fs)
  show ?case
  proof (cases "handled < ret \<and> taken r \<noteq> []")
    case True
    then obtain n ns where t: "taken r = n # ns"
      by (cases "taken r") auto
    have ok: "reactor_ok (r\<lparr>taken := ns, m_polled := m_polled r @ [n]\<rparr>)" "reactor_ok (r\<lparr>taken := ns\<rparr>)"
      using Cons.prems(3) t by (auto simp: reactor_ok_def)
    consider "poll_fd (fst f) \<noteq> handle (poll_node r n)" | "poll_fd (fst f) = handle (poll_node r n)" "snd f = 0"
      | "poll_fd (fst f) = handle (poll_node r n)" "snd f \<noteq> 0"
      by blast
    then show ?thesis
    proof cases
      case 1
      then show ?thesis
        using Cons.IH[OF Cons.prems(1) _ Cons.prems(3)] Cons.prems(2) True t by auto
    next
      case 2
      then show ?thesis
        using Cons.IH[OF Cons.prems(1) _ ok(1)] Cons.prems(2) True t by auto
    next
      case 3
      then obtain r1 where "resume R n (r\<lparr>taken := ns\<rparr>) = Some r1" "poll_loop R fs ret (handled + 1) r1 = Some r'"
        using Cons.prems(2) True t by (auto split: bind_splits)
      then show ?thesis
        using Cons.IH[OF Cons.prems(1)] resume_ok(1)[OF Cons.prems(1) _ ok(2)] by blast
    qed
  next
    case False
    then show ?thesis
      using Cons.prems(2,3) by (auto split: if_splits)
  qed
qed simp

lemma poll_impl_ok:
  assumes "coroutines R" and "poll_and_resume_impl R fds timeout r = Some (res, r')" and "idle_ok r"
  shows "idle_ok r'"
proof -
  obtain ret revents w where p: "sys_poll R fds timeout (world r) = (ret, revents, w)"
    by (cases "sys_poll R fds timeout (world r)") auto
  show ?thesis
  proof (cases "ret = - 1")
    case True
    then show ?thesis
      using assms(2,3) p idle_tails(4) by (auto simp: poll_and_resume_impl_def)
  next
    case False
    then obtain r1 where r1: "poll_loop R (zip fds revents) (nat (ret mod 2 ^ 64)) 0
          (r\<lparr>world := w, taken := m_polled r, m_polled := []\<rparr>) = Some r1"
        "r' = r1\<lparr>m_polled := m_polled r1 @ taken r1, taken := []\<rparr>"
      using assms(2) p by (auto simp: poll_and_resume_impl_def Let_def)
    have "reactor_ok (r\<lparr>world := w, taken := m_polled r, m_polled := []\<rparr>)"
      using assms(3) by (simp add: idle_ok_def reactor_ok_def)
    then have "reactor_ok r1"
      using poll_loop_ok[OF assms(1) r1(1)] by blast
    then show ?thesis
      by (simp add: r1(2) idle_ok_def reactor_ok_def)
  qed
qed

lemma fill_poll_buf_frame:
  "fill_poll_buf R ns r = Some r' \<Longrightarrow> \<exists>buf s. r' = r\<lparr>m_poll_buf := buf, reactor_alloc := s\<rparr>"
proof (induction ns arbitrary: r)
  case Nil
  then show ?case
    by (intro exI[of _ "m_poll_buf r"] exI[of _ "reactor_alloc r"]) simp
next
  case (Cons n ns)
  obtain res buf s where p: "push_back (pollfd_env R) (pollfd_of r n) (m_poll_buf r) (reactor_alloc r) = Some (res, buf, s)"
    using Cons.prems by (auto split: if_splits bind_splits)
  then have "(if is_ok res then fill_poll_buf R ns (r\<lparr>m_poll_buf := buf, reactor_alloc := s\<rparr>)
      else Some (r\<lparr>m_poll_buf := buf, reactor_alloc := s\<rparr>)) = Some r'"
    using Cons.prems by (simp add: Let_def split: if_splits)
  then show ?case
    using Cons.IH[of "r\<lparr>m_poll_buf := buf, reactor_alloc := s\<rparr>"] by (fastforce split: if_splits)
qed

lemma buf_frame:
  "idle_ok (r\<lparr>m_poll_buf := buf, reactor_alloc := s\<rparr>) = idle_ok r" "idle_ok (r\<lparr>reactor_alloc := s\<rparr>) = idle_ok r"
  "idle_ok (r\<lparr>m_poll_buf := buf\<rparr>) = idle_ok r" "idle_ok (r\<lparr>m_previous_iteration_buffer := k\<rparr>) = idle_ok r"
  by (simp_all add: idle_ok_def reactor_ok_def)

lemma shrink_poll_buf_ok: "shrink_poll_buf R r = Some r' \<Longrightarrow> idle_ok r' = idle_ok r"
  unfolding shrink_poll_buf_def Let_def by (auto simp: buf_frame split: if_splits bind_splits prod.splits)

lemma poll_normal_ok:
  assumes "coroutines R" and "poll_and_resume_normal R timeout r = Some (res, r')" and "idle_ok r"
  shows "idle_ok r'"
proof (cases "m_polled r = []")
  case True
  then show ?thesis
    using assms(2,3) by (simp add: poll_and_resume_normal_def)
next
  case False
  with assms(2) obtain r1 buf r2 fds where s: "shrink_poll_buf R r = Some r1"
      "fill_poll_buf R (m_polled r1) (r1\<lparr>m_poll_buf := buf\<rparr>) = Some r2"
      "poll_and_resume_impl R fds timeout (r2\<lparr>m_previous_iteration_buffer := m_size (m_poll_buf r2)\<rparr>) = Some (res, r')"
    unfolding poll_and_resume_normal_def Let_def by (simp only: if_False bind_eq_Some_conv) blast
  have "idle_ok r1"
    using shrink_poll_buf_ok[OF s(1)] assms(3) by blast
  then have "idle_ok r2"
    using fill_poll_buf_frame[OF s(2)] buf_frame by fastforce
  then show ?thesis
    using poll_impl_ok[OF assms(1) s(3)] buf_frame(4) by blast
qed

lemma poll_fallback_ok:
  assumes "coroutines R" and "poll_and_resume_fallback R timeout r = Some (res, r')" and "idle_ok r"
  shows "idle_ok r'"
  using assms poll_impl_ok[OF assms(1)] by (auto simp: poll_and_resume_fallback_def Let_def split: if_splits)

lemma iteration_ok:
  assumes "coroutines R" and "do_event_loop_iteration R r = Some (res, r')" and "idle_ok r"
  shows "idle_ok r'"
proof -
  obtain r1 r2 r3 t r4 where s: "gc R r = Some r1" "resume_ready_sleepers R r1 = Some r2" "resume_ready R r2 = Some r3"
      "get_poll_timeout R r3 = Some (t, r4)"
      "(if fallback r4 then poll_and_resume_fallback R t r4 else poll_and_resume_normal R t r4) = Some (res, r')"
    using assms(2) by (auto simp: do_event_loop_iteration_def split: if_splits bind_splits)
  have "idle_ok r1"
    using gc_nodes_ok[OF assms(1) s(1)[unfolded gc_def] refl assms(3)] .
  have "idle_ok r2"
  proof (cases "m_sleeping r1 = []")
    case True
    then show ?thesis
      using s(2) \<open>idle_ok r1\<close> by (simp add: resume_ready_sleepers_def)
  next
    case False
    obtain now w where "steady_now R (world r1) = (now, w)"
      by fastforce
    then have "resume_sleepers_until R now (r1\<lparr>world := w\<rparr>) = Some r2"
      using s(2) False by (simp add: resume_ready_sleepers_def)
    then show ?thesis
      using resume_sleepers_ok[OF _ assms(1)] idle_tails(4)[OF \<open>idle_ok r1\<close>] by blast
  qed
  then have "idle_ok r3"
    using resume_ready_ok[OF s(3) assms(1)] by blast
  then have "idle_ok r4"
    using s(4) idle_tails(4) by (auto simp: get_poll_timeout_def split: if_splits prod.splits)
  then show ?thesis
    using s(5) poll_fallback_ok[OF assms(1)] poll_normal_ok[OF assms(1)] by (auto split: if_splits)
qed

section \<open>Runs\<close>

inductive reactor_run :: "('w, 's) reactor_env \<Rightarrow> ('w, 's) Reactor \<Rightarrow> bool" for R where
  start: "Reactor_make R s w = Some r \<Longrightarrow> reactor_run R r"
| outside: "reactor_run R r \<Longrightarrow> reactor_action r r' \<Longrightarrow> reactor_run R r'"
| iteration: "reactor_run R r \<Longrightarrow> do_event_loop_iteration R r = Some (res, r') \<Longrightarrow> reactor_run R r'"

lemma reactor_run_ok: "reactor_run R r \<Longrightarrow> coroutines R \<Longrightarrow> idle_ok r"
proof (induction rule: reactor_run.induct)
  case (start s w r)
  then show ?case
    by (auto simp: Reactor_make_def idle_ok_def reactor_ok_def)
next
  case (outside r r')
  then show ?case
    using actions_ok[of r r'] actions_taken[of r r'] by (auto simp: idle_ok_def)
next
  case (iteration r res r')
  then show ?case
    using iteration_ok by blast
qed

text \<open>
  Claim C12. Whatever the coroutines schedule, cancel or destroy, as long as none of them fails an
  assertion (linking a node that is linked already fails one of the list), in every run of the
  event loop the loop itself links no node twice: moving nodes between the lists, dropping those
  it resumes and taking back the ones it did not look at keep the lists free of duplicates and
  the sleepers ordered by the time they wake up, and no node stays behind in the local list.
\<close>

theorem reactor_run_invariant:
  "reactor_run R r \<Longrightarrow> coroutines R \<Longrightarrow>
     distinct (m_polled r) \<and> distinct (m_ready r @ m_gc_list r) \<and> distinct (m_sleeping r) \<and>
     sorted (map (awake_time r) (m_sleeping r)) \<and> taken r = []"
  using reactor_run_ok[of R r] by (auto simp: idle_ok_def reactor_ok_def)

section \<open>Ready coroutines\<close>

text \<open>
  The loop over the ready coroutines does not work on a snapshot: a single coroutine
  that yields, putting itself back into the list, keeps it from ever ending.
\<close>

theorem resume_ready_diverges:
  assumes "\<And>r. resume R n r = schedule n r" and "m_ready r = [n]"
  shows "resume_ready R r = None"
proof -
  have "resume_ready R r = Some r' \<Longrightarrow> (\<And>r. resume R n r = schedule n r) \<Longrightarrow> m_ready r = [n] \<Longrightarrow> False" for r r' R
  proof (induction rule: resume_ready_induct)
    case (step rr R r r')
    obtain r1 where "schedule n (r\<lparr>m_ready := []\<rparr>) = Some r1" "rr R r1 = Some r'"
      using step(2,4) step(3) by (auto split: bind_splits)
    then show ?case
      using step(1)[OF _ step(3), of r1 r'] by (auto simp: schedule_def split: if_splits)
  qed
  then show ?thesis
    using assms by (cases "resume_ready R r") auto
qed

section \<open>Sleeping\<close>

text \<open>Resuming given nodes one after the other.\<close>

primrec resume_each :: "('w, 's) reactor_env \<Rightarrow> nat list \<Rightarrow> ('w, 's) Reactor \<Rightarrow> ('w, 's) Reactor option" where
  "resume_each R [] r = Some r"
| "resume_each R (n # ns) r = Option.bind (resume R n (r\<lparr>m_sleeping := tl (m_sleeping r)\<rparr>)) (resume_each R ns)"

text \<open>Coroutines that leave the sleepers alone.\<close>

definition lets_sleep :: "('w, 's) reactor_env \<Rightarrow> bool" where
  "lets_sleep R \<longleftrightarrow> (\<forall>n r r'. resume R n r = Some r' \<longrightarrow>
     m_sleeping r' = m_sleeping r \<and> (\<forall>m \<in> set (m_sleeping r). awake_time r' m = awake_time r m))"

lemma resume_sleepers_eq:
  assumes "lets_sleep R" and "sorted (map (awake_time r) (m_sleeping r))"
  shows "resume_sleepers_until R now r = resume_each R (filter (\<lambda>n. awake_time r n \<le> now) (m_sleeping r)) r"
  using assms(2)
proof (induction "m_sleeping r" arbitrary: r)
  case Nil
  then show ?case
    by (simp add: resume_sleepers_until.simps)
next
  case (Cons n ns)
  note ns = Cons.hyps(2)[symmetric]
  show ?case
  proof (cases "awake_time r n > now")
    case True
    then have "filter (\<lambda>n. awake_time r n \<le> now) (n # ns) = []"
      using Cons.prems by (auto simp: ns filter_empty_conv)
    then show ?thesis
      using True by (simp add: resume_sleepers_until.simps[of R now r] ns)
  next
    case False
    show ?thesis
    proof (cases "resume R n (r\<lparr>m_sleeping := ns\<rparr>)")
      case None
      then show ?thesis
        using False by (simp add: resume_sleepers_until.simps[of R now r] ns)
    next
      case (Some r1)
      have k: "m_sleeping r1 = ns" "\<forall>m \<in> set ns. awake_time r1 m = awake_time r m"
        using assms(1) Some by (auto simp: lets_sleep_def)
      have "sorted (map (awake_time r) ns)"
        using Cons.prems by (simp add: ns)
      then have "sorted (map (awake_time r1) (m_sleeping r1))"
        unfolding k(1) using k(2) by (subst sorted_map_cong[where g = "awake_time r"]) auto
      then have "resume_sleepers_until R now r1 = resume_each R (filter (\<lambda>n. awake_time r1 n \<le> now) (m_sleeping r1)) r1"
        using Cons.hyps(1)[of r1] k(1) by simp
      moreover have "filter (\<lambda>n. awake_time r1 n \<le> now) (m_sleeping r1) = filter (\<lambda>n. awake_time r n \<le> now) ns"
        unfolding k(1) using k(2) by (intro filter_cong) auto
      ultimately show ?thesis
        using False Some by (simp add: resume_sleepers_until.simps[of R now r] ns)
    qed
  qed
qed

lemma ceil_to_millis_ok:
  assumes "\<bar>d\<bar> \<le> (2 ^ 31 - 2) * 1000000"
  shows "\<exists>t. ceil_to_millis d = Some t \<and> d \<le> t * 1000000 \<and> t * 1000000 < d + 1000000"
proof -
  let ?t = "d sdiv 1000000"
  have b: "?t * 1000000 < d + 1000000" "d < ?t * 1000000 + 1000000" "\<bar>?t\<bar> \<le> 2 ^ 31 - 2"
    using assms by (auto simp: signed_divide_int_def sgn_if abs_if split: if_splits; linarith)+
  have "sint (word_of_int ?t :: 32 word) = ?t"
    using b(3) by (simp add: sint_sbintrunc' signed_take_bit_int_eq_self)
  then show ?thesis
    using b by (auto simp: ceil_to_millis_def Let_def)
qed

text \<open>
  Claim C37. With a next sleeper less than some 24 days away the time to wait is between 0 and 100
  milliseconds, ends less than a millisecond after that sleeper is due, and, for a sleeper due
  within 100 milliseconds, not before.
\<close>

theorem poll_timeout_correct:
  assumes "m_ready r = []" and "m_sleeping r = n # ns" and "steady_now R (world r) = (now, w)"
    and "\<bar>awake_time r n - now\<bar> \<le> (2 ^ 31 - 2) * 1000000"
  shows "\<exists>t. get_poll_timeout R r = Some (t, r\<lparr>world := w\<rparr>) \<and> 0 \<le> t \<and> t \<le> 100 \<and>
    t * 1000000 < max 0 (awake_time r n - now) + 1000000 \<and>
    (awake_time r n - now \<le> 100000000 \<longrightarrow> awake_time r n - now \<le> t * 1000000)"
proof -
  obtain t where t: "ceil_to_millis (awake_time r n - now) = Some t" "awake_time r n - now \<le> t * 1000000"
      "t * 1000000 < awake_time r n - now + 1000000"
    using ceil_to_millis_ok[OF assms(4)] by blast
  then show ?thesis
    using assms(1-3) by (auto simp: get_poll_timeout_def DEFAULT_TIMEOUT_def min_def max_def)
qed

text \<open>A sleeper 25 days away makes the cast wrap: the event loop then does not wait at all.\<close>

lemma ceil_to_millis_wraps: "map_option (max 0) (ceil_to_millis (25 * 24 * 3600 * 1000000000)) = Some 0"
  by (simp add: ceil_to_millis_def signed_divide_int_def)

section \<open>Polling\<close>

text \<open>
  The plain loop: a node without an event goes back to the polled ones, a node with one is
  resumed. It knows neither handles nor the number of events.
\<close>

primrec poll_each :: "('w, 's) reactor_env \<Rightarrow> (nat \<times> u16) list \<Rightarrow> ('w, 's) Reactor \<Rightarrow> ('w, 's) Reactor option" where
  "poll_each R [] r = Some r"
| "poll_each R (x # xs) r =
     (let r = r\<lparr>taken := tl (taken r)\<rparr>
      in Option.bind (if snd x = 0 then Some (r\<lparr>m_polled := m_polled r @ [fst x]\<rparr>) else resume R (fst x) r) (poll_each R xs))"

definition splice_taken :: "('w, 's) Reactor \<Rightarrow> ('w, 's) Reactor" where
  "splice_taken r = r\<lparr>m_polled := m_polled r @ taken r, taken := []\<rparr>"

text \<open>Coroutines that cancel none of the nodes that are still to be looked at.\<close>

definition keeps_polled :: "('w, 's) reactor_env \<Rightarrow> bool" where
  "keeps_polled R \<longleftrightarrow> (\<forall>n r r'. resume R n r = Some r' \<longrightarrow>
     taken r' = taken r \<and> (\<forall>m \<in> set (taken r). handle (poll_node r' m) = handle (poll_node r m)))"

lemma poll_each_idle:
  "\<forall>x \<in> set xs. snd x = 0 \<Longrightarrow> taken r = map fst xs @ rest \<Longrightarrow>
     poll_each R xs r = Some (r\<lparr>m_polled := m_polled r @ map fst xs, taken := rest\<rparr>)"
  by (induction xs arbitrary: r) simp_all

lemma poll_loop_each:
  assumes "keeps_polled R" and "taken r = map fst xs @ rest"
    and "map poll_fd fds = map (\<lambda>x. handle (poll_node r (fst x))) xs"
    and "ret = handled + length (filter (\<lambda>x. snd x \<noteq> 0) xs)"
  shows "map_option splice_taken (poll_loop R (zip fds (map snd xs)) ret handled r) = map_option splice_taken (poll_each R xs r)"
  using assms(2-)
proof (induction xs arbitrary: fds handled r)
  case (Cons x xs)
  obtain f fs where fds: "fds = f # fs" "poll_fd f = handle (poll_node r (fst x))"
      "map poll_fd fs = map (\<lambda>x. handle (poll_node r (fst x))) xs"
    using Cons.prems(2) by (cases fds) auto
  show ?case
  proof (cases "handled < ret")
    case False
    then have "filter (\<lambda>x. snd x \<noteq> 0) (x # xs) = []"
      using Cons.prems(3) by auto
    then have "\<forall>y \<in> set (x # xs). snd y = 0"
      unfolding filter_empty_conv by simp
    from poll_each_idle[OF this Cons.prems(1)] show ?thesis
      using False Cons.prems(1) fds(1) by (simp add: splice_taken_def)
  next
    case True
    show ?thesis
    proof (cases "snd x = 0")
      case True
      then show ?thesis
        using \<open>handled < ret\<close> Cons.prems fds
          Cons.IH[of "r\<lparr>taken := map fst xs @ rest, m_polled := m_polled r @ [fst x]\<rparr>" fs handled]
        by simp
    next
      case False
      show ?thesis
      proof (cases "resume R (fst x) (r\<lparr>taken := map fst xs @ rest\<rparr>)")
        case None
        then show ?thesis
          using \<open>handled < ret\<close> False Cons.prems fds by simp
      next
        case (Some r1)
        have k: "taken r1 = map fst xs @ rest"
          and h: "\<forall>m \<in> set (map fst xs @ rest). handle (poll_node r1 m) = handle (poll_node r m)"
          using assms(1) Some by (auto simp: keeps_polled_def)
        have "map poll_fd fs = map (\<lambda>x. handle (poll_node r1 (fst x))) xs"
          unfolding fds(3) using h by auto
        from Cons.IH[OF k this, of "handled + 1"] show ?thesis
          using \<open>handled < ret\<close> False Cons.prems fds(1,2) Some by simp
      qed
    qed
  qed
qed simp

text \<open>
  Claim C17. When \<^verbatim>\<open>poll\<close> reports as many events as there are descriptors with an event, and the
  resumed coroutines do not cancel other polled nodes, comparing handles and stopping after the
  last event make no difference: exactly the nodes with an event are resumed, in order, and all
  others stay linked in their order.
\<close>

theorem poll_and_resume_impl_correct:
  assumes "keeps_polled R" and "m_polled r = ns @ rest" and "length revents = length ns" and "length ns < 2 ^ 63"
    and "sys_poll R (map (pollfd_of r) ns) timeout (world r) = (int (length (filter (\<lambda>v. v \<noteq> 0) revents)), revents, w)"
  shows "poll_and_resume_impl R (map (pollfd_of r) ns) timeout r =
    map_option (\<lambda>r. (Ok (), splice_taken r))
      (poll_each R (zip ns revents) (r\<lparr>world := w, taken := m_polled r, m_polled := []\<rparr>))"
proof -
  let ?r = "r\<lparr>world := w, taken := m_polled r, m_polled := []\<rparr>" and ?k = "length (filter (\<lambda>v. v \<noteq> 0) revents)"
  have "?k < 2 ^ 63"
    using assms(3,4) length_filter_le[of "\<lambda>v. v \<noteq> 0" revents] by linarith
  then have k: "nat (int ?k mod 2 ^ 64) = ?k" "int ?k \<noteq> - 1"
    by simp_all
  have fds: "map (poll_fd \<circ> pollfd_of r) ns = map (\<lambda>x. handle (poll_node r (fst x))) (zip ns revents)"
    using assms(3) by (induction ns revents rule: list_induct2') (auto simp: pollfd_of_def)
  have "?k = 0 + length (filter (\<lambda>x. snd x \<noteq> 0) (zip ns revents))"
    using assms(3) by (induction ns revents rule: list_induct2') auto
  then have "map_option splice_taken (poll_loop R (zip (map (pollfd_of r) ns) (map snd (zip ns revents))) ?k 0 ?r) =
      map_option splice_taken (poll_each R (zip ns revents) ?r)"
    using assms(2,3) fds by (intro poll_loop_each[OF assms(1)]) simp_all
  moreover have "map snd (zip ns revents) = revents"
    using assms(3) by simp
  ultimately have "map_option splice_taken (poll_loop R (zip (map (pollfd_of r) ns) revents) ?k 0 ?r) =
      map_option splice_taken (poll_each R (zip ns revents) ?r)"
    by simp
  from arg_cong[OF this, of "map_option (Pair (Ok ()))"] show ?thesis
    using assms(5) k by (simp add: poll_and_resume_impl_def Let_def option.map_comp comp_def splice_taken_def)
qed

text \<open>While the first 64 nodes have no event, the method without a buffer never polls another one.\<close>

lemma poll_fallback_starves:
  assumes "list_all (\<lambda>n. handle (poll_node r n) \<noteq> - 1) (take BUF_SIZE (m_polled r))"
    and "sys_poll R (map (pollfd_of r) (take BUF_SIZE (m_polled r))) timeout (world r) = (0, revents, w)"
  shows "\<exists>r'. poll_and_resume_fallback R timeout r = Some (Ok (), r') \<and> m_polled r' = m_polled r"
proof -
  have "poll_loop R fs 0 0 x = Some x" for fs x
    by (cases fs) simp_all
  then show ?thesis
    using assms by (simp add: poll_and_resume_fallback_def poll_and_resume_impl_def Let_def)
qed

section \<open>Witnesses\<close>

definition demo_vector_env :: "nat vector_env" where
  "demo_vector_env = \<lparr>op_allocate = (\<lambda>sz al s. Some (Some s, s + unat sz)), op_deallocate = (\<lambda>p s. Some s), sizeof_T = 8, alignof_T = 4\<rparr>"

text \<open>Coroutines that write a log; the first two descriptors have an event.\<close>

definition demo_reactor_env :: "(nat list, nat) reactor_env" where
  "demo_reactor_env = \<lparr>resume = (\<lambda>n r. Some (r\<lparr>world := world r @ [n], reactor_alloc := reactor_alloc r\<rparr>)),
     destroy = (\<lambda>n r. Some r), steady_now = (\<lambda>w. (5, w)),
     sys_poll = (\<lambda>fds timeout w. (2, [1, 1, 0], w)), current_error = (\<lambda>w. \<lparr>errno_value = 0\<rparr>), pollfd_env = demo_vector_env\<rparr>"

definition demo_reactor :: "(nat list, nat) Reactor" where
  "demo_reactor = the (Reactor_make demo_reactor_env 0 [])"

lemma demo_reactor_make: "Reactor_make demo_reactor_env 0 [] = Some demo_reactor"
  by (simp add: demo_reactor_def Reactor_make_def reserve_def vector_allocate_def Vector_make_def demo_reactor_env_def
      demo_vector_env_def MIN_POLL_BUFFER_def)

lemma demo_coroutines: "coroutines demo_reactor_env"
proof -
  have "reactor_action\<^sup>*\<^sup>* r (r\<lparr>world := world r @ [n]\<rparr>)" for r :: "(nat list, nat) Reactor" and n
    using reactor_action.other[where r = r and w = "world r @ [n]" and s = "reactor_alloc r"] by (intro r_into_rtranclp) simp
  then show ?thesis
    by (auto simp: coroutines_def demo_reactor_env_def)
qed

lemma demo_keeps: "keeps_polled demo_reactor_env" "lets_sleep demo_reactor_env"
  by (auto simp: keeps_polled_def lets_sleep_def demo_reactor_env_def)

lemma demo_reactor_fields: "m_sleeping demo_reactor = []" "m_polled demo_reactor = []" "m_ready demo_reactor = []"
    "taken demo_reactor = []" "world demo_reactor = []"
  by (simp_all add: demo_reactor_def Reactor_make_def reserve_def vector_allocate_def Vector_make_def demo_reactor_env_def
      demo_vector_env_def MIN_POLL_BUFFER_def)

theorem reactor_run_invariant_witness:
  "\<exists>r. reactor_run demo_reactor_env r \<and> m_sleeping r = [2, 1] \<and> sorted (map (awake_time r) (m_sleeping r))"
proof -
  let ?r1 = "demo_reactor\<lparr>awake_time := (awake_time demo_reactor)(1 := 9), m_sleeping := [1]\<rparr>"
  let ?r2 = "?r1\<lparr>awake_time := (awake_time ?r1)(2 := 5), m_sleeping := [2, 1]\<rparr>"
  have s1: "reactor_run demo_reactor_env ?r1"
    by (rule reactor_run.outside[OF reactor_run.start[OF demo_reactor_make]], rule reactor_action.sleep[of 1 _ 9])
      (simp add: demo_reactor_fields schedule_when_time_passes_eq)
  have "reactor_run demo_reactor_env ?r2"
    by (rule reactor_run.outside[OF s1], rule reactor_action.sleep[of 2 _ 5])
      (simp add: demo_reactor_fields schedule_when_time_passes_eq)
  then show ?thesis
    using reactor_run_invariant[OF _ demo_coroutines, of ?r2] by (intro exI[of _ ?r2]) simp
qed

theorem resume_ready_diverges_witness:
  "resume_ready (demo_reactor_env\<lparr>resume := (\<lambda>n r. schedule n r)\<rparr>) (demo_reactor\<lparr>m_ready := [1]\<rparr>) = None"
  by (rule resume_ready_diverges[of _ 1]) simp_all

theorem poll_timeout_correct_witness:
  "\<exists>t. get_poll_timeout demo_reactor_env (demo_reactor\<lparr>m_sleeping := [1], awake_time := (\<lambda>_. 7000005)\<rparr>) =
     Some (t, demo_reactor\<lparr>m_sleeping := [1], awake_time := (\<lambda>_. 7000005)\<rparr>) \<and> 7000000 \<le> t * 1000000 \<and> t * 1000000 < 8000000"
  using poll_timeout_correct[of "demo_reactor\<lparr>m_sleeping := [1], awake_time := (\<lambda>_. 7000005)\<rparr>" 1 "[]" demo_reactor_env 5 "[]"]
  by (auto simp: demo_reactor_fields demo_reactor_env_def)

text \<open>Two of three polled nodes have an event.\<close>

definition demo_polled :: "(nat list, nat) Reactor" where
  "demo_polled = demo_reactor\<lparr>m_polled := [1, 2, 3], poll_node := (\<lambda>n. \<lparr>handle = (if n = 1 then 3 else 5), event = 1\<rparr>)\<rparr>"

theorem poll_and_resume_impl_correct_witness:
  "\<exists>r. poll_and_resume_impl demo_reactor_env (map (pollfd_of demo_polled) [1, 2, 3]) 0 demo_polled = Some (Ok (), r) \<and>
     world r = [1, 2] \<and> m_polled r = [3]"
  using poll_and_resume_impl_correct[OF demo_keeps(1), of demo_polled "[1, 2, 3]" "[]" "[1, 1, 0]" 0 "[]"]
  by (simp add: demo_polled_def demo_reactor_fields demo_reactor_env_def splice_taken_def)

text \<open>
  When the coroutine of the first node cancels the second, the event of the second is taken for
  one of the third, which waits on the same handle for something else.
\<close>

lemma poll_resumes_wrong_node:
  "map_option (\<lambda>(res, r). world r)
     (poll_and_resume_impl
        (demo_reactor_env\<lparr>resume := (\<lambda>n r. Some (r\<lparr>world := world r @ [n], taken := (if n = 1 then remove1 2 (taken r) else taken r)\<rparr>))\<rparr>)
        (map (pollfd_of demo_polled) [1, 2, 3]) 0 demo_polled) = Some [1, 3]"
  by (simp add: poll_and_resume_impl_def demo_polled_def demo_reactor_fields demo_reactor_env_def pollfd_of_def Let_def)

end
