(* ===== verification/Corosig_Sockets.thy ===== *)
theory Corosig_Sockets
  imports Corosig_Sockaddr Corosig_Result
begin

text \<open>
  Files, pipes and sockets: \<^verbatim>\<open>io/posix/FdOps.cpp\<close>, \<^verbatim>\<open>io/TcpListener.cpp\<close>, \<^verbatim>\<open>io/TcpSocket.cpp\<close>,
  \<^verbatim>\<open>io/UdpSocket.cpp\<close>, \<^verbatim>\<open>io/Pipe.cpp\<close> and \<^verbatim>\<open>io/File.cpp\<close> over a kernel whose calls are
  parameters on its state. A class that owns a descriptor is the descriptor, -1 when it owns
  none; its destructor is a call of the close operation. Suspending on an event is the call
  \<^term>\<open>wait_for\<close>.
\<close>

section \<open>The kernel\<close>

datatype socket_option = ReuseAddr | ReusePort | NoDelay

datatype syscall =
    Socket nat nat
  | Setsockopt int socket_option int
  | Bind int SockaddrStorage nat
  | Listen int int
  | Connect int SockaddrStorage nat
  | GetFlags int
  | SetFlags int int
  | Fsync int
  | Close int
  | Open octets int int

datatype PollEventExpectance = CAN_READ | CAN_WRITE | CAN_READ_OR_WRITE

record 'k kernel =
  sys :: "syscall \<Rightarrow> 'k \<Rightarrow> int \<times> 'k"
  errno :: "'k \<Rightarrow> int"
  sys_read :: "int \<Rightarrow> nat \<Rightarrow> 'k \<Rightarrow> octets option \<times> 'k"
  sys_write :: "int \<Rightarrow> octets \<Rightarrow> 'k \<Rightarrow> nat option \<times> 'k"
  sys_accept :: "int \<Rightarrow> 'k \<Rightarrow> int \<times> SockaddrStorage \<times> 'k"
  sys_so_error :: "int \<Rightarrow> 'k \<Rightarrow> int option \<times> 'k"
  sys_recvfrom :: "int \<Rightarrow> nat \<Rightarrow> 'k \<Rightarrow> (octets \<times> SockaddrStorage) option \<times> 'k"
  sys_sendto :: "int \<Rightarrow> octets \<Rightarrow> SockaddrStorage \<Rightarrow> nat \<Rightarrow> 'k \<Rightarrow> nat option \<times> 'k"
  sys_getsockname :: "int \<Rightarrow> 'k \<Rightarrow> SockaddrStorage option \<times> 'k"
  sys_pipe2 :: "'k \<Rightarrow> (int \<times> int) option \<times> 'k"
  wait_for :: "int \<Rightarrow> PollEventExpectance \<Rightarrow> 'k \<Rightarrow> 'k"

datatype IoError = Io_Allocation | Io_Syscall SyscallError

definition SyscallError_current :: "'k kernel \<Rightarrow> 'k \<Rightarrow> SyscallError" where
  "SyscallError_current K k = \<lparr>errno_value = errno K k\<rparr>"

text \<open>A call that returns a value or fails with \<^verbatim>\<open>errno\<close>.\<close>

definition or_errno :: "'k kernel \<Rightarrow> 'a option \<times> 'k \<Rightarrow> ('a, SyscallError) result \<times> 'k" where
  "or_errno K = (\<lambda>(r, k). (case r of None \<Rightarrow> Failure (SyscallError_current K k) | Some x \<Rightarrow> Ok x, k))"

definition io :: "('a, SyscallError) result \<times> 'k \<Rightarrow> ('a, IoError) result \<times> 'k" where
  "io = (\<lambda>(r, k). (case r of Nothing \<Rightarrow> Nothing | Ok x \<Rightarrow> Ok x | Failure e \<Rightarrow> Failure (Io_Syscall e), k))"

section \<open>Descriptors\<close>

definition try_read_some :: "'k kernel \<Rightarrow> int \<Rightarrow> nat \<Rightarrow> 'k \<Rightarrow> (octets, SyscallError) result \<times> 'k" where
  "try_read_some K fd count k = or_errno K (sys_read K fd count k)"

definition try_write_some :: "'k kernel \<Rightarrow> int \<Rightarrow> octets \<Rightarrow> 'k \<Rightarrow> (nat, SyscallError) result \<times> 'k" where
  "try_write_some K fd buf k = or_errno K (sys_write K fd buf k)"

definition fd_read_some :: "'k kernel \<Rightarrow> int \<Rightarrow> nat \<Rightarrow> 'k \<Rightarrow> (octets, IoError) result \<times> 'k" where
  "fd_read_some K fd count k = io (try_read_some K fd count (wait_for K fd CAN_READ k))"

definition fd_write_some :: "'k kernel \<Rightarrow> int \<Rightarrow> octets \<Rightarrow> 'k \<Rightarrow> (nat, IoError) result \<times> 'k" where
  "fd_write_some K fd buf k = io (try_write_some K fd buf (wait_for K fd CAN_WRITE k))"

text \<open>\<^verbatim>\<open>read\<close> fills the buffer; the octets read so far are the argument \<^term>\<open>got\<close>.\<close>

function fd_read_loop :: "'k kernel \<Rightarrow> int \<Rightarrow> nat \<Rightarrow> octets \<Rightarrow> 'k \<Rightarrow> (octets, IoError) result \<times> 'k" where
  "fd_read_loop K fd count got k =
     (if length got < count
      then case try_read_some K fd (count - length got) (wait_for K fd CAN_READ k) of
             (Ok value, k) \<Rightarrow> if value = [] then (Ok got, k) else fd_read_loop K fd count (got @ value) k
           | (Failure e, k) \<Rightarrow> (if got = [] then Failure (Io_Syscall e) else Ok got, k)
           | (Nothing, k) \<Rightarrow> (Nothing, k)
      else (Ok got, k))"
  by pat_completeness auto
termination
  by (relation "measure (\<lambda>(K, fd, count, got, k). count - length got)") (auto simp: neq_Nil_conv)

declare fd_read_loop.simps [simp del]

definition fd_read :: "'k kernel \<Rightarrow> int \<Rightarrow> nat \<Rightarrow> 'k \<Rightarrow> (octets, IoError) result \<times> 'k" where
  "fd_read K fd count k = fd_read_loop K fd count [] k"

text \<open>
  \<^verbatim>\<open>write\<close> offers the whole buffer every time. \<^term>\<open>None\<close> is a loop that never ends.
\<close>

partial_function (option) fd_write_loop ::
  "'k kernel \<Rightarrow> int \<Rightarrow> octets \<Rightarrow> nat \<Rightarrow> 'k \<Rightarrow> ((nat, IoError) result \<times> 'k) option" where
  "fd_write_loop K fd buf written k =
     (if written < length buf
      then case try_write_some K fd buf (wait_for K fd CAN_WRITE k) of
             (Ok value, k) \<Rightarrow> fd_write_loop K fd buf (written + value) k
           | (Failure e, k) \<Rightarrow> Some (if written = 0 then Failure (Io_Syscall (SyscallError_current K k)) else Ok written, k)
           | (Nothing, k) \<Rightarrow> Some (Nothing, k)
      else Some (Ok written, k))"

definition fd_write :: "'k kernel \<Rightarrow> int \<Rightarrow> octets \<Rightarrow> 'k \<Rightarrow> ((nat, IoError) result \<times> 'k) option" where
  "fd_write K fd buf k = fd_write_loop K fd buf 0 k"

definition fd_close :: "'k kernel \<Rightarrow> int \<Rightarrow> 'k \<Rightarrow> int \<times> 'k" where
  "fd_close K fd k = (if fd \<noteq> - 1 then (- 1, snd (sys K (Close fd) k)) else (fd, k))"

definition addr_length :: "SockaddrStorage \<Rightarrow> nat" where
  "addr_length storage = (case storage of SockaddrIn _ _ \<Rightarrow> 16 | SockaddrIn6 _ _ \<Rightarrow> 28)"

definition ss_family :: "SockaddrStorage \<Rightarrow> nat" where
  "ss_family storage = (case storage of SockaddrIn _ _ \<Rightarrow> 2 | SockaddrIn6 _ _ \<Rightarrow> 10)"

definition socket_address :: "'k kernel \<Rightarrow> int \<Rightarrow> 'k \<Rightarrow> (SockaddrStorage, SyscallError) result \<times> 'k" where
  "socket_address K fd k = or_errno K (sys_getsockname K fd k)"

text \<open>A descriptor is moved out of its owner, which keeps -1.\<close>

definition move_handle :: "int \<Rightarrow> int \<times> int" where
  "move_handle fd = (fd, - 1)"

section \<open>Pipes and files\<close>

definition PipePair_make :: "'k kernel \<Rightarrow> 'k \<Rightarrow> (int \<times> int, SyscallError) result \<times> 'k" where
  "PipePair_make K k = or_errno K (sys_pipe2 K k)"

definition O_NONBLOCK :: int where
  "O_NONBLOCK = 2048"

definition File_open :: "'k kernel \<Rightarrow> octets \<Rightarrow> int \<Rightarrow> int \<Rightarrow> 'k \<Rightarrow> (int, IoError) result \<times> 'k" where
  "File_open K path flags perms k =
     (let (fd, k) = sys K (Open path (or flags O_NONBLOCK) perms) k
      in if fd = - 1 then (Failure (Io_Syscall (SyscallError_current K k)), k) else (Ok fd, k))"

definition File_close :: "'k kernel \<Rightarrow> int \<Rightarrow> 'k \<Rightarrow> int \<times> 'k" where
  "File_close K fd k =
     (if fd \<ge> 0 then let (_, k) = sys K (Fsync fd) k; (_, k) = sys K (Close fd) k in (- 1, k) else (fd, k))"

section \<open>Listening and connecting\<close>

text \<open>A failed call in a function that owns \<^term>\<open>fd\<close>: the error is read, then the owner is destroyed.\<close>

definition or_close :: "'k kernel \<Rightarrow> int \<Rightarrow> int \<times> 'k \<Rightarrow> ('k \<Rightarrow> ('a, SyscallError) result \<times> 'k) \<Rightarrow> ('a, SyscallError) result \<times> 'k" where
  "or_close K fd r cont =
     (if fst r \<noteq> 0 then (Failure (SyscallError_current K (snd r)), snd (fd_close K fd (snd r))) else cont (snd r))"

definition SOCK_STREAM :: nat where "SOCK_STREAM = 1"
definition SOCK_DGRAM :: nat where "SOCK_DGRAM = 2"

record Options =
  opt_addr :: SockaddrStorage
  backlog_size :: nat
  reuse_addr :: bool
  reuse_port :: bool

definition listen_backlog :: "nat \<Rightarrow> int" where
  "listen_backlog count = sint (word_of_nat (max count (2 ^ 31 - 1)) :: 32 word)"

definition TcpListener_make :: "'k kernel \<Rightarrow> Options \<Rightarrow> 'k \<Rightarrow> (int, SyscallError) result \<times> 'k" where
  "TcpListener_make K opts k =
     (let (fd, k) = sys K (Socket 2 SOCK_STREAM) k
      in if fd = - 1 then (Failure (SyscallError_current K k), k)
         else or_close K fd (sys K (Setsockopt fd ReuseAddr (of_bool (reuse_addr opts))) k) (\<lambda>k.
              or_close K fd (sys K (Setsockopt fd ReusePort (of_bool (reuse_port opts))) k) (\<lambda>k.
              or_close K fd (sys K (Bind fd (opt_addr opts) (addr_length (opt_addr opts))) k) (\<lambda>k.
              or_close K fd (sys K (Listen fd (listen_backlog (backlog_size opts))) k) (\<lambda>k.
                (Ok fd, snd (sys K (Setsockopt fd NoDelay 1) k)))))))"

definition try_accept :: "'k kernel \<Rightarrow> int \<Rightarrow> 'k \<Rightarrow> (int \<times> SockaddrStorage, SyscallError) result \<times> 'k" where
  "try_accept K listener k =
     (let (fd, peer, k) = sys_accept K listener k
      in if fd = - 1 then (Failure (SyscallError_current K k), k)
         else let (flags, k) = sys K (GetFlags fd) k
              in if flags = - 1 then (Failure (SyscallError_current K k), snd (fd_close K fd k))
                 else let (r, k) = sys K (SetFlags fd (or flags O_NONBLOCK)) k
                      in if r = - 1 then (Failure (SyscallError_current K k), snd (fd_close K fd k))
                         else (Ok (fd, peer), snd (sys K (Setsockopt fd NoDelay 1) k)))"

definition EWOULDBLOCK :: int where "EWOULDBLOCK = 11"
definition EINPROGRESS :: int where "EINPROGRESS = 115"

definition TcpListener_accept :: "'k kernel \<Rightarrow> int \<Rightarrow> 'k \<Rightarrow> (int \<times> SockaddrStorage, IoError) result \<times> 'k" where
  "TcpListener_accept K listener k =
     (case try_accept K listener k of
        (Failure e, k) \<Rightarrow> if errno_value e \<noteq> EWOULDBLOCK then io (Failure e, k)
                          else io (try_accept K listener (wait_for K listener CAN_READ k))
      | res \<Rightarrow> io res)"

text \<open>
  The coroutine \<^verbatim>\<open>connect_impl\<close> owns the socket. \<^term>\<open>frame\<close> tells whether its frame can be allocated.
\<close>

definition connect_impl :: "'k kernel \<Rightarrow> bool \<Rightarrow> SockaddrStorage \<Rightarrow> int \<Rightarrow> 'k \<Rightarrow> (int, IoError) result \<times> 'k" where
  "connect_impl K frame target sock k =
     (if \<not> frame then (Failure Io_Allocation, snd (fd_close K sock k))
      else let (r, k) = sys K (Connect sock target (addr_length target)) k
           in if r = - 1 \<and> errno K k \<noteq> EINPROGRESS
              then (Failure (Io_Syscall (SyscallError_current K k)), snd (fd_close K sock k))
              else let (_, k) = sys K (Setsockopt sock NoDelay 1) k;
                       (socket_error, k) = sys_so_error K sock (wait_for K sock CAN_READ_OR_WRITE k)
                   in case socket_error of
                        None \<Rightarrow> (Failure (Io_Syscall (SyscallError_current K k)), snd (fd_close K sock k))
                      | Some e \<Rightarrow> if e \<noteq> 0 then (Failure (Io_Syscall \<lparr>errno_value = e\<rparr>), snd (fd_close K sock k))
                                  else (Ok sock, k))"

definition TcpSocket_connect :: "'k kernel \<Rightarrow> bool \<Rightarrow> SockaddrStorage \<Rightarrow> 'k \<Rightarrow> (int, IoError) result \<times> 'k" where
  "TcpSocket_connect K frame target k =
     (let (sock, k) = sys K (Socket (ss_family target) SOCK_STREAM) k
      in if sock = - 1 then (Failure (Io_Syscall (SyscallError_current K k)), k)
         else connect_impl K frame target sock k)"

text \<open>Here the descriptor has no owner yet when \<^verbatim>\<open>bind\<close> fails.\<close>

definition TcpSocket_connect_from ::
  "'k kernel \<Rightarrow> bool \<Rightarrow> SockaddrStorage \<Rightarrow> SockaddrStorage \<Rightarrow> 'k \<Rightarrow> (int, IoError) result \<times> 'k" where
  "TcpSocket_connect_from K frame local target k =
     (let (sock, k) = sys K (Socket (ss_family local) SOCK_STREAM) k
      in if sock = - 1 then (Failure (Io_Syscall (SyscallError_current K k)), k)
         else let (r, k) = sys K (Bind sock local (addr_length local)) k
              in if r \<noteq> 0 then (Failure (Io_Syscall (SyscallError_current K k)), k)
                 else connect_impl K frame target sock k)"

section \<open>Datagrams\<close>

definition UdpSocket_unbound :: "'k kernel \<Rightarrow> nat \<Rightarrow> 'k \<Rightarrow> (int, SyscallError) result \<times> 'k" where
  "UdpSocket_unbound K family k =
     (let (fd, k) = sys K (Socket family SOCK_DGRAM) k
      in if fd = - 1 then (Failure (SyscallError_current K k), k) else (Ok fd, k))"

definition UdpSocket_bound :: "'k kernel \<Rightarrow> SockaddrStorage \<Rightarrow> 'k \<Rightarrow> (int, SyscallError) result \<times> 'k" where
  "UdpSocket_bound K local k =
     (case UdpSocket_unbound K (ss_family local) k of
        (Ok fd, k) \<Rightarrow> (let (r, k) = sys K (Bind fd local (addr_length local)) k
                       in if r = - 1 then (Failure (SyscallError_current K k), snd (fd_close K fd k)) else (Ok fd, k))
      | res \<Rightarrow> res)"

definition try_recv_from :: "'k kernel \<Rightarrow> int \<Rightarrow> nat \<Rightarrow> 'k \<Rightarrow> (octets \<times> SockaddrStorage, SyscallError) result \<times> 'k" where
  "try_recv_from K fd count k = or_errno K (sys_recvfrom K fd count k)"

definition recv_from :: "'k kernel \<Rightarrow> int \<Rightarrow> nat \<Rightarrow> 'k \<Rightarrow> (octets \<times> SockaddrStorage, IoError) result \<times> 'k" where
  "recv_from K fd count k = io (try_recv_from K fd count (wait_for K fd CAN_READ k))"

definition try_send_to :: "'k kernel \<Rightarrow> int \<Rightarrow> octets \<Rightarrow> SockaddrStorage \<Rightarrow> 'k \<Rightarrow> (nat, SyscallError) result \<times> 'k" where
  "try_send_to K fd message dest k = or_errno K (sys_sendto K fd message dest (addr_length dest) k)"

definition send_to :: "'k kernel \<Rightarrow> int \<Rightarrow> octets \<Rightarrow> SockaddrStorage \<Rightarrow> 'k \<Rightarrow> (nat, IoError) result \<times> 'k" where
  "send_to K fd message dest k = io (try_send_to K fd message dest (wait_for K fd CAN_WRITE k))"

end
