(* ===== verification/Corosig_Sockets_Claims.thy ===== *)
theory Corosig_Sockets_Claims
  imports Corosig_Sockets
begin

text \<open>
  Files and sockets against a kernel that keeps the promises of its manual pages: reading loses
  no data, and every descriptor that a function opens is either returned or closed, with one
  exception.
\<close>

section \<open>Reading\<close>

text \<open>
  A stream with pending octets: \<^verbatim>\<open>read\<close> takes some from the front, none only at the end, and
  waiting for an event takes none.
\<close>

definition stream :: "'k kernel \<Rightarrow> int \<Rightarrow> ('k \<Rightarrow> octets) \<Rightarrow> bool" where
  "stream K fd pending \<longleftrightarrow>
     (\<forall>e k. pending (wait_for K fd e k) = pending k) \<and>
     (\<forall>n k k'. sys_read K fd n k = (None, k') \<longrightarrow> pending k' = pending k) \<and>
     (\<forall>n k bs k'. sys_read K fd n k = (Some bs, k') \<longrightarrow> length bs \<le> n \<and> pending k = bs @ pending k' \<and>
        (bs = [] \<and> 0 < n \<longrightarrow> pending k = []))"

lemma streamD:
  assumes "stream K fd pending"
  shows "pending (wait_for K fd e k) = pending k"
    "sys_read K fd n k = (None, k') \<Longrightarrow> pending k' = pending k"
    "sys_read K fd n k = (Some bs, k') \<Longrightarrow> length bs \<le> n \<and> pending k = bs @ pending k'"
  using assms unfolding stream_def by blast+

lemma fd_read_loop_ok:
  assumes "stream K fd pending" and "length got \<le> n" and "fd_read_loop K fd n got k = (r, k')"
  shows "(\<exists>bs. r = Ok bs \<and> length bs \<le> n \<and> got @ pending k = bs @ pending k') \<or>
    (\<exists>e. r = Failure (Io_Syscall e) \<and> got = [] \<and> pending k' = pending k)"
  using assms
proof (induction K fd n got k rule: fd_read_loop.induct)
  case (1 K fd n got k)
  let ?k = "wait_for K fd CAN_READ k"
  have w: "pending ?k = pending k"
    using streamD(1)[OF 1(2)] .
  show ?case
  proof (cases "length got < n")
    case False
    then show ?thesis
      using 1(3,4) by (simp add: fd_read_loop.simps[of K fd n got k])
  next
    case True
    obtain x k1 where x: "sys_read K fd (n - length got) ?k = (x, k1)"
      by fastforce
    show ?thesis
    proof (cases x)
      case None
      then have "pending k1 = pending k"
        using streamD(2)[OF 1(2)] x w by simp
      then show ?thesis
        using 1(3,4) True x None by (auto simp: fd_read_loop.simps[of K fd n got k] try_read_some_def or_errno_def split: if_splits)
    next
      case (Some bs)
      then have s: "length bs \<le> n - length got" "pending k = bs @ pending k1"
        using streamD(3)[OF 1(2), of "n - length got" ?k bs k1] x w by simp_all
      have t: "try_read_some K fd (n - length got) ?k = (Ok bs, k1)"
        using x Some by (simp add: try_read_some_def or_errno_def)
      show ?thesis
      proof (cases "bs = []")
        case bs: True
        then show ?thesis
          using 1(3,4) True t s(2) by (simp add: fd_read_loop.simps[of K fd n got k])
      next
        case bs: False
        then have "fd_read_loop K fd n (got @ bs) k1 = (r, k')"
          using 1(4) True t by (simp add: fd_read_loop.simps[of K fd n got k])
        moreover have "length (got @ bs) \<le> n"
          using s(1) True by simp
        ultimately show ?thesis
          using 1(1)[OF True t[symmetric] refl bs 1(2)] s(2) bs by auto
      qed
    qed
  qed
qed

text \<open>
  Claim C40. Reading from a stream loses nothing: what is returned, at most the size of the buffer,
  is exactly what the stream has given, also when a later call fails, and an error is only
  returned when nothing was read.
\<close>

theorem fd_read_correct:
  assumes "stream K fd pending" and "fd_read K fd n k = (r, k')"
  shows "(\<exists>bs. r = Ok bs \<and> length bs \<le> n \<and> pending k = bs @ pending k') \<or>
    (\<exists>e. r = Failure (Io_Syscall e) \<and> pending k' = pending k)"
  using fd_read_loop_ok[OF assms(1), of "[]" n k r k'] assms(2) by (simp add: fd_read_def)

section \<open>Descriptors\<close>

text \<open>What the calls do to the set of open descriptors.\<close>

fun opened :: "syscall \<Rightarrow> int \<Rightarrow> int set \<Rightarrow> int set \<Rightarrow> bool" where
  "opened (Socket family kind) fd before after = (if fd = - 1 then after = before else fd \<notin> before \<and> after = insert fd before)"
| "opened (Open path flags perms) fd before after = (if fd = - 1 then after = before else fd \<notin> before \<and> after = insert fd before)"
| "opened (Close fd) r before after = (after = before - {fd})"
| "opened _ r before after = (after = before)"

definition keeps_track :: "'k kernel \<Rightarrow> ('k \<Rightarrow> int set) \<Rightarrow> bool" where
  "keeps_track K fds \<longleftrightarrow>
     (\<forall>c k. opened c (fst (sys K c k)) (fds k) (fds (snd (sys K c k)))) \<and>
     (\<forall>fd k peer k' l. sys_accept K l k = (fd, peer, k') \<longrightarrow>
        (if fd = - 1 then fds k' = fds k else fd \<notin> fds k \<and> fds k' = insert fd (fds k))) \<and>
     (\<forall>fd e k. fds (wait_for K fd e k) = fds k) \<and> (\<forall>fd k. fds (snd (sys_so_error K fd k)) = fds k)"

lemma keeps_trackD:
  assumes "keeps_track K fds"
  shows "sys K c k = (r, k') \<Longrightarrow> opened c r (fds k) (fds k')"
    "sys_accept K l k = (fd, peer, k') \<Longrightarrow>
      (if fd = - 1 then fds k' = fds k else fd \<notin> fds k \<and> fds k' = insert fd (fds k))"
    "fds (wait_for K fd e k) = fds k"
    "sys_so_error K fd k = (x, k') \<Longrightarrow> fds k' = fds k"
proof -
  show "sys K c k = (r, k') \<Longrightarrow> opened c r (fds k) (fds k')"
    using assms unfolding keeps_track_def by (metis fst_conv snd_conv)
  show "sys_so_error K fd k = (x, k') \<Longrightarrow> fds k' = fds k"
    using assms unfolding keeps_track_def by (metis snd_conv)
  show "sys_accept K l k = (fd, peer, k') \<Longrightarrow>
      (if fd = - 1 then fds k' = fds k else fd \<notin> fds k \<and> fds k' = insert fd (fds k))"
    using assms unfolding keeps_track_def by blast
  show "fds (wait_for K fd e k) = fds k"
    using assms unfolding keeps_track_def by blast
qed

lemma track_simps:
  assumes "keeps_track K fds"
  shows "fds (snd (sys K (Setsockopt fd opt v) k)) = fds k" "fds (snd (sys K (Bind fd addr n) k)) = fds k"
    "fds (snd (sys K (Listen fd b) k)) = fds k" "fds (snd (sys K (Connect fd addr n) k)) = fds k"
    "fds (snd (sys K (GetFlags fd) k)) = fds k" "fds (snd (sys K (SetFlags fd b) k)) = fds k"
    "fds (snd (sys_so_error K fd k)) = fds k" "fds (wait_for K fd e k) = fds k"
    "fd \<noteq> - 1 \<Longrightarrow> fds (snd (fd_close K fd k)) = fds k - {fd}"
  using assms unfolding keeps_track_def fd_close_def by (simp_all, (metis opened.simps)+)

text \<open>What a function that opens a descriptor promises.\<close>

definition opens_one :: "('k \<Rightarrow> int set) \<Rightarrow> 'k \<Rightarrow> (int \<times> 'a, 'e) result \<times> 'k \<Rightarrow> bool" where
  "opens_one fds k res \<longleftrightarrow> (case fst res of
     Ok (fd, _) \<Rightarrow> fd \<notin> fds k \<and> fds (snd res) = insert fd (fds k)
   | Failure e \<Rightarrow> fds (snd res) = fds k
   | Nothing \<Rightarrow> False)"

definition handle_only :: "(int, 'e) result \<times> 'k \<Rightarrow> (int \<times> unit, 'e) result \<times> 'k" where
  "handle_only = (\<lambda>(r, k). (case r of Ok fd \<Rightarrow> Ok (fd, ()) | Failure e \<Rightarrow> Failure e | Nothing \<Rightarrow> Nothing, k))"

lemmas owner_defs = opens_one_def handle_only_def

lemma or_close_owns:
  assumes "keeps_track K fds" and "fd \<noteq> - 1" and "fd \<notin> fds k0" and "fds (snd r) = insert fd (fds k0)"
    and "\<And>k. fds k = insert fd (fds k0) \<Longrightarrow> opens_one fds k0 (handle_only (cont k))"
  shows "opens_one fds k0 (handle_only (or_close K fd r cont))"
proof (cases "fst r \<noteq> 0")
  case True
  then show ?thesis
    using track_simps(9)[OF assms(1,2), of "snd r"] assms(3,4) by (simp add: or_close_def owner_defs)
qed (use assms(4,5) in \<open>simp add: or_close_def\<close>)

lemma TcpListener_make_owns:
  assumes "keeps_track K fds"
  shows "opens_one fds k (handle_only (TcpListener_make K opts k))"
proof -
  obtain fd k1 where s: "sys K (Socket 2 SOCK_STREAM) k = (fd, k1)"
    by fastforce
  note f = keeps_trackD(1)[OF assms s]
  show ?thesis
  proof (cases "fd = - 1")
    case True
    then show ?thesis
      using f s by (simp add: TcpListener_make_def owner_defs)
  next
    case False
    then have f: "fd \<notin> fds k" "fds k1 = insert fd (fds k)"
      using f by simp_all
    note step = or_close_owns[OF assms False f(1)]
    show ?thesis
      unfolding TcpListener_make_def s Let_def prod.case if_not_P[OF False]
    proof (rule step, goal_cases)
      case 1
      then show ?case
        using f(2) by (simp add: track_simps[OF assms])
    next
      case k: (2 k)
      show ?case
      proof (rule step, goal_cases)
        case 1
        then show ?case
          using k by (simp add: track_simps[OF assms])
      next
        case k: (2 k)
        show ?case
        proof (rule step, goal_cases)
          case 1
          then show ?case
            using k by (simp add: track_simps[OF assms])
        next
          case k: (2 k)
          show ?case
            by (rule step) (simp_all add: k f(1) track_simps[OF assms] owner_defs)
        qed
      qed
    qed
  qed
qed

lemma try_accept_owns:
  assumes "keeps_track K fds"
  shows "opens_one fds k (try_accept K listener k)"
proof -
  obtain fd peer k1 where s: "sys_accept K listener k = (fd, peer, k1)"
    by (cases "sys_accept K listener k") auto
  note f = keeps_trackD(2)[OF assms s]
  note t = track_simps[OF assms]
  show ?thesis
  proof (cases "fd = - 1")
    case True
    then show ?thesis
      using f s by (simp add: try_accept_def opens_one_def)
  next
    case False
    obtain flags k2 where g: "sys K (GetFlags fd) k1 = (flags, k2)"
      by fastforce
    obtain r k3 where h: "sys K (SetFlags fd (or flags O_NONBLOCK)) k2 = (r, k3)"
      by fastforce
    have "fds k2 = fds k1" "fds k3 = fds k1"
      using t(5)[of fd k1] t(6)[of fd "or flags O_NONBLOCK" k2] g h by simp_all
    then show ?thesis
      using f False s g h t(1,9) by (simp add: try_accept_def opens_one_def Let_def)
  qed
qed

lemma connect_impl_owns:
  assumes "keeps_track K fds" and "sock \<noteq> - 1" and "sock \<notin> fds k0" and "fds k = insert sock (fds k0)"
  shows "opens_one fds k0 (handle_only (connect_impl K frame target sock k))"
proof -
  note t = track_simps[OF assms(1)]
  obtain r k1 where c: "sys K (Connect sock target (addr_length target)) k = (r, k1)"
    by fastforce
  obtain r' k2 where n: "sys K (Setsockopt sock NoDelay 1) k1 = (r', k2)"
    by fastforce
  obtain e k3 where so: "sys_so_error K sock (wait_for K sock CAN_READ_OR_WRITE k2) = (e, k3)"
    by fastforce
  have k: "fds k1 = fds k" "fds k2 = fds k" "fds k3 = fds k"
    using t(4)[of sock target "addr_length target" k] t(1)[of sock NoDelay 1 k1]
      t(7)[of sock "wait_for K sock CAN_READ_OR_WRITE k2"] t(8)[of sock CAN_READ_OR_WRITE k2] c n so by simp_all
  show ?thesis
    using assms(2-4) t(9)[OF assms(2)] k
    by (auto simp: connect_impl_def owner_defs c n so Let_def split: option.splits)
qed

lemma TcpSocket_connect_owns:
  assumes "keeps_track K fds"
  shows "opens_one fds k (handle_only (TcpSocket_connect K frame target k))"
proof -
  obtain fd k1 where s: "sys K (Socket (ss_family target) SOCK_STREAM) k = (fd, k1)"
    by fastforce
  note f = keeps_trackD(1)[OF assms s]
  show ?thesis
  proof (cases "fd = - 1")
    case True
    then show ?thesis
      using f s by (simp add: TcpSocket_connect_def owner_defs)
  next
    case False
    then show ?thesis
      using connect_impl_owns[OF assms False, of k k1 frame target] f s by (simp add: TcpSocket_connect_def)
  qed
qed

lemma UdpSocket_bound_owns:
  assumes "keeps_track K fds"
  shows "opens_one fds k (handle_only (UdpSocket_bound K local k))"
proof -
  obtain fd k1 where s: "sys K (Socket (ss_family local) SOCK_DGRAM) k = (fd, k1)"
    by fastforce
  obtain r k2 where b: "sys K (Bind fd local (addr_length local)) k1 = (r, k2)"
    by fastforce
  have "fds k2 = fds k1"
    using track_simps(2)[OF assms, of fd local "addr_length local" k1] b by simp
  then show ?thesis
    using keeps_trackD(1)[OF assms s] s b track_simps(9)[OF assms]
    by (auto simp: UdpSocket_bound_def UdpSocket_unbound_def owner_defs Let_def)
qed

text \<open>
  Listening, accepting, connecting and binding a datagram socket either return a new
  descriptor, which the caller then owns, or close whatever they had opened: a failure leaves
  the open descriptors as they were.
\<close>

theorem sockets_own_descriptors:
  assumes "keeps_track K fds"
  shows "opens_one fds k (handle_only (TcpListener_make K opts k)) \<and> opens_one fds k (try_accept K listener k) \<and>
    opens_one fds k (handle_only (TcpSocket_connect K frame target k)) \<and>
    opens_one fds k (handle_only (UdpSocket_bound K local k))"
  using TcpListener_make_owns[OF assms] try_accept_owns[OF assms] TcpSocket_connect_owns[OF assms]
    UdpSocket_bound_owns[OF assms] by blast

text \<open>The exception: connecting from a given address leaks the descriptor when \<^verbatim>\<open>bind\<close> fails.\<close>

lemma TcpSocket_connect_from_leaks:
  assumes "keeps_track K fds" and "sys K (Socket (ss_family local) SOCK_STREAM) k = (sock, k1)" and "sock \<noteq> - 1"
    and "sys K (Bind sock local (addr_length local)) k1 = (- 1, k2)"
  shows "TcpSocket_connect_from K frame local target k = (Failure (Io_Syscall (SyscallError_current K k2)), k2) \<and>
    sock \<in> fds k2 \<and> sock \<notin> fds k"
proof -
  have "fds k2 = fds k1"
    using track_simps(2)[OF assms(1), of sock local "addr_length local" k1] assms(4) by simp
  then show ?thesis
    using keeps_trackD(1)[OF assms(1,2)] assms(2-4) by (simp add: TcpSocket_connect_from_def)
qed

text \<open>The backlog is never below the largest \<^verbatim>\<open>int\<close>, and the default wraps to -1.\<close>

lemma listen_backlog_values: "listen_backlog 16 = 2 ^ 31 - 1" "listen_backlog (2 ^ 64 - 1) = - 1"
  by (simp_all add: listen_backlog_def)

section \<open>Witnesses\<close>

text \<open>
  A kernel whose state is the next descriptor, the open ones, the octets to be read and those
  written; it reads at most two and accepts one octet at a time.
\<close>

record demo_state =
  next_fd :: nat
  open_fds :: "int set"
  unread :: octets
  sent :: octets

fun demo_sys :: "syscall \<Rightarrow> demo_state \<Rightarrow> int \<times> demo_state" where
  "demo_sys (Socket family kind) k = (if int (next_fd k) \<in> open_fds k then (- 1, k)
     else (int (next_fd k), k\<lparr>next_fd := next_fd k + 1, open_fds := insert (int (next_fd k)) (open_fds k)\<rparr>))"
| "demo_sys (Close fd) k = (0, k\<lparr>open_fds := open_fds k - {fd}\<rparr>)"
| "demo_sys (Open path flags perms) k = (- 1, k)"
| "demo_sys c k = (0, k)"

definition demo_kernel :: "demo_state kernel" where
  "demo_kernel = \<lparr>sys = demo_sys, errno = (\<lambda>k. 98),
     sys_read = (\<lambda>fd n k. (Some (take (min 2 n) (unread k)), k\<lparr>unread := drop (min 2 n) (unread k)\<rparr>)),
     sys_write = (\<lambda>fd bs k. (Some (length (take 1 bs)), k\<lparr>sent := sent k @ take 1 bs\<rparr>)),
     sys_accept = (\<lambda>l k. (- 1, SockaddrIn 0 0, k)), sys_so_error = (\<lambda>fd k. (Some 0, k)),
     sys_recvfrom = (\<lambda>fd n k. (None, k)), sys_sendto = (\<lambda>fd bs d n k. (None, k)),
     sys_getsockname = (\<lambda>fd k. (None, k)), sys_pipe2 = (\<lambda>k. (None, k)), wait_for = (\<lambda>fd e k. k)\<rparr>"

definition demo_k :: demo_state where
  "demo_k = \<lparr>next_fd = 3, open_fds = {}, unread = [1, 2, 3, 4, 5], sent = []\<rparr>"

lemma demo_stream: "stream demo_kernel 0 unread"
  by (auto simp: stream_def demo_kernel_def)

lemma demo_tracks: "keeps_track demo_kernel open_fds"
proof -
  have "opened c (fst (demo_sys c k)) (open_fds k) (open_fds (snd (demo_sys c k)))" for c k
    by (cases c) auto
  then show ?thesis
    by (auto simp: keeps_track_def demo_kernel_def)
qed

theorem fd_read_correct_witness:
  "fst (fd_read demo_kernel 0 3 demo_k) = Ok [1, 2, 3] \<and> unread (snd (fd_read demo_kernel 0 3 demo_k)) = [4, 5]"
proof -
  have r: "fd_read demo_kernel 0 3 demo_k = (Ok [1, 2, 3], demo_k\<lparr>unread := [4, 5]\<rparr>)"
    by (simp add: fd_read_def fd_read_loop.simps try_read_some_def or_errno_def demo_kernel_def demo_k_def)
  then show ?thesis
    using fd_read_correct[OF demo_stream r] by simp
qed

theorem sockets_own_descriptors_witness:
  "fst (TcpListener_make demo_kernel \<lparr>opt_addr = SockaddrIn 0 0, backlog_size = 16, reuse_addr = True, reuse_port = False\<rparr> demo_k) = Ok 3 \<and>
   open_fds (snd (TcpListener_make demo_kernel \<lparr>opt_addr = SockaddrIn 0 0, backlog_size = 16, reuse_addr = True, reuse_port = False\<rparr> demo_k)) = {3}"
proof -
  let ?o = "\<lparr>opt_addr = SockaddrIn 0 0, backlog_size = 16, reuse_addr = True, reuse_port = False\<rparr>"
  obtain r k where m: "TcpListener_make demo_kernel ?o demo_k = (r, k)"
    by fastforce
  moreover have "fst (TcpListener_make demo_kernel ?o demo_k) = Ok 3"
    by (simp add: TcpListener_make_def demo_kernel_def demo_k_def or_close_def)
  ultimately have "r = Ok 3"
    by simp
  moreover have "opens_one open_fds demo_k (handle_only (TcpListener_make demo_kernel ?o demo_k))"
    using sockets_own_descriptors[OF demo_tracks] by blast
  ultimately show ?thesis
    unfolding m by (simp add: owner_defs demo_k_def)
qed

text \<open>Writing two octets to a kernel that accepts one at a time sends the first one twice.\<close>

lemma fd_write_repeats_prefix: "map_option (\<lambda>(r, k). (r, sent k)) (fd_write demo_kernel 1 [1, 2] demo_k) = Some (Ok 2, [1, 1])"
  by (simp add: fd_write_def fd_write_loop.simps try_write_some_def or_errno_def demo_kernel_def demo_k_def)

end
