(* ===== verification/Corosig_Coro.thy ===== *)
theory Corosig_Coro
  imports Corosig_Result Corosig_Allocator_Props
begin

text \<open>
  Futures and the promises of their coroutines: \<^verbatim>\<open>Coro.hpp\<close>. A coroutine is named by the address
  of its frame, a future by its own address. What the body of a coroutine does is a sequence of
  the operations below; the locals of a frame are futures that are destroyed on their own.
  \<^term>\<open>None\<close> is a failed assertion or a use of an object that is not alive.
\<close>

section \<open>State\<close>

datatype 'e FutError = Fut_AllocationError | Fut_Error 'e

text \<open>A waiting coroutine of \<^term>\<open>None\<close> is \<^verbatim>\<open>std::noop_coroutine()\<close>.\<close>

record CoroutinePromiseType =
  m_waiting_coro :: "nat option"
  m_future :: "nat option"

record ('v, 'e) Fut =
  m_handle :: "nat option"
  m_result :: "('v, 'e FutError) result"

record ('v, 'e, 's) coro_state =
  coro_alloc :: 's
  frames :: "nat \<Rightarrow> CoroutinePromiseType option"
  futs :: "nat \<Rightarrow> ('v, 'e) Fut option"
  finished :: "nat set"

record 's coro_env =
  frame_allocate :: "u64 \<Rightarrow> u64 \<Rightarrow> 's \<Rightarrow> (nat option \<times> 's) option"
  frame_deallocate :: "nat option \<Rightarrow> 's \<Rightarrow> 's option"

section \<open>Making and destroying\<close>

definition Fut_make_ready :: "('v, 'e FutError) result \<Rightarrow> ('v, 'e) Fut" where
  "Fut_make_ready r = \<lparr>m_handle = None, m_result = r\<rparr>"

definition Fut_make_failed_to_allocate :: "('v, 'e) Fut" where
  "Fut_make_failed_to_allocate = Fut_make_ready (Failure Fut_AllocationError)"

text \<open>The constructor from a handle sets the future of the promise.\<close>

definition Fut_from_handle :: "nat \<Rightarrow> nat \<Rightarrow> ('v, 'e, 's) coro_state \<Rightarrow> ('v, 'e, 's) coro_state option" where
  "Fut_from_handle f p st =
     map_option (\<lambda>promise. st\<lparr>frames := (frames st)(p \<mapsto> promise\<lparr>m_future := Some f\<rparr>),
                              futs := (futs st)(f \<mapsto> \<lparr>m_handle = Some p, m_result = Nothing\<rparr>)\<rparr>)
       (frames st p)"

text \<open>
  Calling a coroutine: \<^verbatim>\<open>operator new\<close> of its promise type takes \<^term>\<open>n\<close> octets for the frame, aligned
  for every type or as asked, and the future is made of the promise or of the failure.
\<close>

definition frame_align :: "u64 option \<Rightarrow> u64" where
  "frame_align align = (case align of Some al \<Rightarrow> al | None \<Rightarrow> 16)"

definition promise_operator_new :: "'s coro_env \<Rightarrow> u64 \<Rightarrow> u64 option \<Rightarrow> 's \<Rightarrow> (nat option \<times> 's) option" where
  "promise_operator_new E n align s = frame_allocate E n (frame_align align) s"

definition call_coroutine ::
  "'s coro_env \<Rightarrow> u64 \<Rightarrow> u64 option \<Rightarrow> nat \<Rightarrow> ('v, 'e, 's) coro_state \<Rightarrow> ('v, 'e, 's) coro_state option" where
  "call_coroutine E n align f st =
     Option.bind (promise_operator_new E n align (coro_alloc st)) (\<lambda>(r, s). case r of
         None \<Rightarrow> Some (st\<lparr>coro_alloc := s, futs := (futs st)(f \<mapsto> Fut_make_failed_to_allocate)\<rparr>)
       | Some p \<Rightarrow>
           Fut_from_handle f p
             (st\<lparr>coro_alloc := s, frames := (frames st)(p \<mapsto> \<lparr>m_waiting_coro = None, m_future = None\<rparr>),
                 finished := finished st - {p}\<rparr>))"

definition Fut_move :: "nat \<Rightarrow> nat \<Rightarrow> ('v, 'e, 's) coro_state \<Rightarrow> ('v, 'e, 's) coro_state option" where
  "Fut_move this rhs st =
     Option.bind (futs st rhs) (\<lambda>F.
       let st = st\<lparr>futs := (futs st)(rhs \<mapsto> F\<lparr>m_handle := None\<rparr>, this \<mapsto> F)\<rparr>
       in case m_handle F of
            None \<Rightarrow> Some st
          | Some p \<Rightarrow> map_option (\<lambda>promise. st\<lparr>frames := (frames st)(p \<mapsto> promise\<lparr>m_future := Some this\<rparr>)\<rparr>) (frames st p))"

definition Fut_drop :: "'s coro_env \<Rightarrow> nat \<Rightarrow> ('v, 'e, 's) coro_state \<Rightarrow> ('v, 'e, 's) coro_state option" where
  "Fut_drop E this st =
     Option.bind (futs st this) (\<lambda>F. case m_handle F of
         None \<Rightarrow> Some st
       | Some p \<Rightarrow>
           c_assert (frames st p \<noteq> None)
             (map_option (\<lambda>s. st\<lparr>coro_alloc := s, frames := (frames st)(p := None)\<rparr>)
               (frame_deallocate E (Some p) (coro_alloc st))))"

definition Fut_destroy :: "'s coro_env \<Rightarrow> nat \<Rightarrow> ('v, 'e, 's) coro_state \<Rightarrow> ('v, 'e, 's) coro_state option" where
  "Fut_destroy E this st = map_option (\<lambda>st. st\<lparr>futs := (futs st)(this := None)\<rparr>) (Fut_drop E this st)"

definition Fut_move_assign :: "'s coro_env \<Rightarrow> nat \<Rightarrow> nat \<Rightarrow> ('v, 'e, 's) coro_state \<Rightarrow> ('v, 'e, 's) coro_state option" where
  "Fut_move_assign E this rhs st =
     (if this \<noteq> rhs then Option.bind (Fut_destroy E this st) (Fut_move this rhs) else Some st)"

section \<open>Results\<close>

definition completed :: "('v, 'e) Fut \<Rightarrow> bool" where
  "completed F \<longleftrightarrow> \<not> is_nothing (m_result F)"

text \<open>
  \<^verbatim>\<open>co_return\<close>: the value is written into the future, then \<^verbatim>\<open>final_suspend\<close> gives control to the
  waiting coroutine, the second component of the result.
\<close>

definition return_value ::
  "nat \<Rightarrow> ('v, 'e FutError) result \<Rightarrow> ('v, 'e, 's) coro_state \<Rightarrow> ('v, 'e, 's) coro_state option" where
  "return_value p value st = do {
     promise \<leftarrow> frames st p;
     f \<leftarrow> m_future promise;
     F \<leftarrow> futs st f;
     c_assert (\<not> completed F \<and> (case m_waiting_coro promise of None \<Rightarrow> True
         | Some h \<Rightarrow> frames st h \<noteq> None \<and> h \<notin> finished st))
       (Some (st\<lparr>futs := (futs st)(f \<mapsto> F\<lparr>m_result := value\<rparr>)\<rparr>))
   }"

definition final_suspend :: "nat \<Rightarrow> ('v, 'e, 's) coro_state \<Rightarrow> (nat option \<times> ('v, 'e, 's) coro_state) option" where
  "final_suspend p st = map_option (\<lambda>promise. (m_waiting_coro promise, st\<lparr>finished := insert p (finished st)\<rparr>)) (frames st p)"

section \<open>Awaiting\<close>

definition Fut_await_ready :: "nat \<Rightarrow> ('v, 'e, 's) coro_state \<Rightarrow> bool option" where
  "Fut_await_ready f st = map_option completed (futs st f)"

definition Fut_await_suspend :: "nat \<Rightarrow> nat \<Rightarrow> ('v, 'e, 's) coro_state \<Rightarrow> ('v, 'e, 's) coro_state option" where
  "Fut_await_suspend f h st = do {
     F \<leftarrow> futs st f;
     p \<leftarrow> m_handle F;
     promise \<leftarrow> frames st p;
     Some (st\<lparr>frames := (frames st)(p \<mapsto> promise\<lparr>m_waiting_coro := Some h\<rparr>)\<rparr>)
   }"

definition Fut_await_resume :: "nat \<Rightarrow> ('v, 'e, 's) coro_state \<Rightarrow> ('v, 'e FutError) result option" where
  "Fut_await_resume f st = Option.bind (futs st f) (\<lambda>F. c_assert (\<not> is_nothing (m_result F)) (Some (m_result F)))"

text \<open>Running the event loop, given by one iteration, until a future is ready.\<close>

partial_function (option) block_on ::
  "('w \<Rightarrow> ((unit, 'x) result \<times> 'w) option) \<Rightarrow> ('w \<Rightarrow> ('v, 'x) result) \<Rightarrow> 'w \<Rightarrow> (('v, 'x) result \<times> 'w) option" where
  "block_on iteration res w =
     (if is_nothing (res w)
      then Option.bind (iteration w) (\<lambda>(r, w). case r of
             Nothing \<Rightarrow> None
           | Failure e \<Rightarrow> Some (Failure e, w)
           | Ok _ \<Rightarrow> block_on iteration res w)
      else Some (res w, w))"

section \<open>Runs\<close>

definition coro_start :: "'s \<Rightarrow> ('v, 'e, 's) coro_state" where
  "coro_start s = \<lparr>coro_alloc = s, frames = Map.empty, futs = Map.empty, finished = {}\<rparr>"

text \<open>
  What a program does with futures. An object is constructed where none is alive; calls ask for
  what the allocator takes, the condition \<^term>\<open>ok\<close>.
\<close>

inductive coro_run ::
  "'s coro_env \<Rightarrow> (u64 \<Rightarrow> u64 \<Rightarrow> bool) \<Rightarrow> ('v, 'e, 's) coro_state \<Rightarrow> ('v, 'e, 's) coro_state \<Rightarrow> bool"
  for E ok st0 where
  start: "coro_run E ok st0 st0"
| call: "coro_run E ok st0 st \<Longrightarrow> futs st f = None \<Longrightarrow> ok n (frame_align al) \<Longrightarrow> 0 < unat n \<Longrightarrow>
    call_coroutine E n al f st = Some st' \<Longrightarrow> coro_run E ok st0 st'"
| ready: "coro_run E ok st0 st \<Longrightarrow> futs st f = None \<Longrightarrow>
    coro_run E ok st0 (st\<lparr>futs := (futs st)(f \<mapsto> Fut_make_ready r)\<rparr>)"
| move: "coro_run E ok st0 st \<Longrightarrow> futs st this = None \<Longrightarrow> futs st rhs \<noteq> None \<Longrightarrow>
    Fut_move this rhs st = Some st' \<Longrightarrow> coro_run E ok st0 st'"
| move_assign: "coro_run E ok st0 st \<Longrightarrow> futs st this \<noteq> None \<Longrightarrow> futs st rhs \<noteq> None \<Longrightarrow>
    Fut_move_assign E this rhs st = Some st' \<Longrightarrow> coro_run E ok st0 st'"
| destroy: "coro_run E ok st0 st \<Longrightarrow> futs st f \<noteq> None \<Longrightarrow> Fut_destroy E f st = Some st' \<Longrightarrow> coro_run E ok st0 st'"
| co_return: "coro_run E ok st0 st \<Longrightarrow> return_value p v st = Some st' \<Longrightarrow> coro_run E ok st0 st'"
| suspended: "coro_run E ok st0 st \<Longrightarrow> final_suspend p st = Some (h, st') \<Longrightarrow> coro_run E ok st0 st'"
| await: "coro_run E ok st0 st \<Longrightarrow> Fut_await_suspend f h st = Some st' \<Longrightarrow> coro_run E ok st0 st'"

text \<open>
  The public \<^verbatim>\<open>drop\<close> keeps the handle: the destructor that follows uses the frame again.
\<close>

lemma Fut_drop_then_destroy:
  assumes "futs st f = Some F" and "m_handle F = Some p" and "Fut_drop E f st = Some st'"
  shows "Fut_destroy E f st' = None"
proof -
  have "futs st' = futs st" "frames st' p = None"
    using assms by (auto simp: Fut_drop_def split: if_splits)
  then show ?thesis
    using assms(1,2) by (simp add: Fut_destroy_def Fut_drop_def)
qed

text \<open>\<^term>\<open>block_on\<close> ends with the result of the future as soon as there is one, or with an error of the loop.\<close>

lemmas block_on_induct = block_on.raw_induct [rotated 1, consumes 1, case_names step]

lemma block_on_result:
  assumes "block_on iteration res w = Some (r, w')"
  shows "\<not> is_nothing r \<and> (res w' = r \<or> (\<exists>w e. is_nothing (res w) \<and> r = Failure e \<and> iteration w = Some (Failure e, w')))"
proof -
  have "block_on iteration res w = Some y \<Longrightarrow> \<not> is_nothing (fst y) \<and> (res (snd y) = fst y \<or>
      (\<exists>w e. is_nothing (res w) \<and> fst y = Failure e \<and> iteration w = Some (Failure e, snd y)))" for y
  proof (induction rule: block_on_induct)
    case (step block_on iteration res w y)
    show ?case
    proof (cases "is_nothing (res w)")
      case True
      then obtain r w1 where r: "iteration w = Some (r, w1)"
        using step(2) by (auto split: bind_splits)
      then show ?thesis
        using step True by (cases r) auto
    qed (use step(2) in auto)
  qed
  from this[OF assms] show ?thesis
    by simp
qed

end
