(* ===== verification/Corosig_Coro_Claims.thy ===== *)
theory Corosig_Coro_Claims
  imports Corosig_Coro Corosig_Allocator_Claims
begin

text \<open>
  Coroutine frames have exactly one owner, in every run and for every allocator under the
  contract of \<^verbatim>\<open>an_allocator\<close>: a future whose handle is the frame and which the promise in the
  frame knows. So a frame is released once, and none is left when the futures are gone.
\<close>

section \<open>The invariant\<close>

definition handle_of :: "('v, 'e, 's) coro_state \<Rightarrow> nat \<Rightarrow> nat option" where
  "handle_of st f = Option.bind (futs st f) m_handle"

definition owner_of :: "('v, 'e, 's) coro_state \<Rightarrow> nat \<Rightarrow> nat option" where
  "owner_of st p = Option.bind (frames st p) m_future"

definition coro_ok :: "('s \<Rightarrow> bool) \<Rightarrow> ('s \<Rightarrow> (nat \<times> nat) set) \<Rightarrow> ('v, 'e, 's) coro_state \<Rightarrow> bool" where
  "coro_ok good live st \<longleftrightarrow> good (coro_alloc st) \<and>
     (\<forall>f p. handle_of st f = Some p \<longleftrightarrow> owner_of st p = Some f) \<and>
     (\<forall>p. frames st p \<noteq> None \<longrightarrow> owner_of st p \<noteq> None \<and> (\<exists>c>0. (p, c) \<in> live (coro_alloc st)))"

definition other_chunks :: "('s \<Rightarrow> (nat \<times> nat) set) \<Rightarrow> ('v, 'e, 's) coro_state \<Rightarrow> (nat \<times> nat) set" where
  "other_chunks live st = {x \<in> live (coro_alloc st). frames st (fst x) = None}"

lemma coro_okD:
  assumes "coro_ok good live st"
  shows "good (coro_alloc st)"
    "handle_of st f = Some p \<longleftrightarrow> owner_of st p = Some f"
    "frames st p = Some P \<Longrightarrow> \<exists>f. m_future P = Some f \<and> handle_of st f = Some p"
    "frames st p = Some P \<Longrightarrow> \<exists>c>0. (p, c) \<in> live (coro_alloc st)"
  using assms by (auto simp: coro_ok_def owner_of_def)

lemma no_owner: "coro_ok good live st \<Longrightarrow> handle_of st f = None \<Longrightarrow> owner_of st p \<noteq> Some f"
  by (metis coro_okD(2) option.distinct(1))

lemma owner_inj: "coro_ok good live st \<Longrightarrow> owner_of st p = Some f \<Longrightarrow> owner_of st q = Some f \<Longrightarrow> p = q"
  by (metis coro_okD(2) option.inject)

text \<open>A step that neither makes nor releases a frame and keeps every link.\<close>

lemma coro_ok_links:
  assumes "coro_ok good live st" and "coro_alloc st' = coro_alloc st"
    and "\<And>p. frames st' p = None \<longleftrightarrow> frames st p = None"
    and "handle_of st' = handle_of st" and "owner_of st' = owner_of st"
  shows "coro_ok good live st' \<and> other_chunks live st' = other_chunks live st"
  using assms by (simp add: coro_ok_def other_chunks_def)

section \<open>The operations\<close>

context an_allocator
begin

abbreviation fine :: "('v, 'e, 's) coro_state \<Rightarrow> bool" where
  "fine \<equiv> coro_ok inv live"

abbreviation coro :: "'s coro_env" where
  "coro \<equiv> \<lparr>frame_allocate = alloc, frame_deallocate = dealloc\<rparr>"

lemma make_ready_ok:
  assumes "fine st" and "futs st f = None"
  shows "fine (st\<lparr>futs := (futs st)(f \<mapsto> Fut_make_ready r)\<rparr>) \<and>
    other_chunks live (st\<lparr>futs := (futs st)(f \<mapsto> Fut_make_ready r)\<rparr>) = other_chunks live st"
  by (rule coro_ok_links[OF assms(1)])
    (use assms(2) in \<open>simp_all add: fun_eq_iff handle_of_def owner_of_def Fut_make_ready_def\<close>)

lemma call_coroutine_ok:
  assumes "fine st" and "futs st f = None" and "ok n (frame_align al)" and "0 < unat n"
  shows "\<exists>st'. call_coroutine coro n al f st = Some st' \<and> fine st' \<and> other_chunks live st' = other_chunks live st"
proof -
  have "inv (coro_alloc st)"
    using coro_okD(1)[OF assms(1)] .
  from this assms(3) show ?thesis
  proof (cases rule: alloc_cases)
    case null
    then show ?thesis
      using make_ready_ok[OF assms(1,2)] by (simp add: call_coroutine_def promise_operator_new_def Fut_make_failed_to_allocate_def)
  next
    case (chunk p s c)
    let ?st = "st\<lparr>coro_alloc := s, frames := (frames st)(p \<mapsto> \<lparr>m_waiting_coro = None, m_future = Some f\<rparr>),
        finished := finished st - {p}, futs := (futs st)(f \<mapsto> \<lparr>m_handle = Some p, m_result = Nothing\<rparr>)\<rparr>"
    have new: "frames st p = None"
      using coro_okD(4)[OF assms(1), of p] chunk(4) by (cases "frames st p") force+
    have c: "0 < c"
      using chunk(5) assms(4) by simp
    have l: "handle_of ?st = (handle_of st)(f \<mapsto> p)" "owner_of ?st = (owner_of st)(p \<mapsto> f)"
      by (simp_all add: fun_eq_iff handle_of_def owner_of_def)
    have n: "handle_of st f = None" "owner_of st p = None"
      using assms(2) new by (simp_all add: handle_of_def owner_of_def)
    have "fine ?st"
      unfolding coro_ok_def l
      using chunk(2,6) c n no_owner[OF assms(1) n(1)] coro_okD(2)[OF assms(1)] assms(1) by (auto simp: coro_ok_def dest: owner_inj[OF assms(1)])
    moreover have "other_chunks live ?st = other_chunks live st"
    proof -
      have "\<forall>x \<in> live (coro_alloc st). fst x \<noteq> p"
        using chunk(4) by force
      then show ?thesis
        using chunk(6) by (auto simp: other_chunks_def)
    qed
    moreover have "call_coroutine coro n al f st = Some ?st"
      using chunk(1) by (simp add: call_coroutine_def promise_operator_new_def Fut_from_handle_def)
    ultimately show ?thesis
      by blast
  qed
qed

lemma Fut_move_ok:
  assumes "fine st" and "futs st this = None" and "futs st rhs = Some F"
  shows "\<exists>st'. Fut_move this rhs st = Some st' \<and> fine st' \<and> other_chunks live st' = other_chunks live st"
proof (cases "m_handle F")
  case None
  have "fine (st\<lparr>futs := (futs st)(rhs \<mapsto> F\<lparr>m_handle := None\<rparr>, this \<mapsto> F)\<rparr>) \<and>
      other_chunks live (st\<lparr>futs := (futs st)(rhs \<mapsto> F\<lparr>m_handle := None\<rparr>, this \<mapsto> F)\<rparr>) = other_chunks live st"
    by (rule coro_ok_links[OF assms(1)])
      (use assms(2,3) None in \<open>simp_all add: fun_eq_iff handle_of_def owner_of_def\<close>)
  then show ?thesis
    using assms(3) None by (simp add: Fut_move_def)
next
  case (Some p)
  obtain P where P: "frames st p = Some P" "m_future P = Some rhs"
    using coro_okD(2)[OF assms(1), of rhs p] assms(3) Some by (cases "frames st p") (auto simp: handle_of_def owner_of_def)
  let ?st = "st\<lparr>futs := (futs st)(rhs \<mapsto> F\<lparr>m_handle := None\<rparr>, this \<mapsto> F), frames := (frames st)(p \<mapsto> P\<lparr>m_future := Some this\<rparr>)\<rparr>"
  have l: "handle_of ?st = (handle_of st)(rhs := None, this \<mapsto> p)" "owner_of ?st = (owner_of st)(p \<mapsto> this)"
    using Some by (simp_all add: fun_eq_iff handle_of_def owner_of_def)
  have n: "handle_of st this = None" "handle_of st rhs = Some p"
    using assms(2,3) Some by (simp_all add: handle_of_def)
  have "fine ?st"
    unfolding coro_ok_def l
    using n no_owner[OF assms(1) n(1)] coro_okD(2)[OF assms(1)] assms(1) P(1) by (auto simp: coro_ok_def dest: owner_inj[OF assms(1)])
  moreover have "other_chunks live ?st = other_chunks live st"
    using P(1) by (auto simp: other_chunks_def)
  moreover have "Fut_move this rhs st = Some ?st"
    using assms(3) Some P(1) by (simp add: Fut_move_def Let_def)
  ultimately show ?thesis
    by blast
qed

lemma Fut_destroy_ok:
  assumes "fine st" and "futs st f = Some F"
  shows "\<exists>st'. Fut_destroy coro f st = Some st' \<and> fine st' \<and> other_chunks live st' = other_chunks live st \<and>
    futs st' = (futs st)(f := None)"
proof (cases "m_handle F")
  case None
  have "fine (st\<lparr>futs := (futs st)(f := None)\<rparr>) \<and>
      other_chunks live (st\<lparr>futs := (futs st)(f := None)\<rparr>) = other_chunks live st"
    by (rule coro_ok_links[OF assms(1)])
      (use assms(2) None in \<open>simp_all add: fun_eq_iff handle_of_def owner_of_def\<close>)
  then show ?thesis
    using assms(2) None by (simp add: Fut_destroy_def Fut_drop_def)
next
  case (Some p)
  obtain P where P: "frames st p = Some P" "m_future P = Some f"
    using coro_okD(2)[OF assms(1), of f p] assms(2) Some by (cases "frames st p") (auto simp: handle_of_def owner_of_def)
  obtain c where c: "0 < c" "(p, c) \<in> live (coro_alloc st)"
    using coro_okD(4)[OF assms(1) P(1)] by blast
  have i: "inv (coro_alloc st)"
    using coro_okD(1)[OF assms(1)] .
  obtain s where s: "dealloc (Some p) (coro_alloc st) = Some s" "inv s" "live s = live (coro_alloc st) - {(p, c)}"
    using dealloc_law[OF i c(2,1)] by blast
  let ?st = "st\<lparr>coro_alloc := s, frames := (frames st)(p := None), futs := (futs st)(f := None)\<rparr>"
  have v: "(q, d) \<in> live s \<longleftrightarrow> (q, d) \<in> live (coro_alloc st) \<and> q \<noteq> p" for q d
    using live_unique[OF i c(2), of d] by (cases "q = p") (auto simp: s(3))
  have l: "handle_of ?st = (handle_of st)(f := None)" "owner_of ?st = (owner_of st)(p := None)"
    by (simp_all add: fun_eq_iff handle_of_def owner_of_def)
  have n: "handle_of st f = Some p" "owner_of st p = Some f"
    using assms(2) Some P by (simp_all add: handle_of_def owner_of_def)
  have "fine ?st"
    unfolding coro_ok_def l
    using n coro_okD(2)[OF assms(1)] assms(1) s(2) by (auto simp: coro_ok_def v dest: owner_inj[OF assms(1)])
  moreover have "x \<in> other_chunks live ?st \<longleftrightarrow> x \<in> other_chunks live st" for x
    using P(1) by (cases x) (auto simp: other_chunks_def v)
  moreover have "Fut_destroy coro f st = Some ?st"
    using assms(2) Some P(1) s(1) by (simp add: Fut_destroy_def Fut_drop_def)
  ultimately show ?thesis
    by auto
qed

lemma Fut_move_assign_ok:
  assumes "fine st" and "futs st this = Some F" and "futs st rhs = Some G"
  shows "\<exists>st'. Fut_move_assign coro this rhs st = Some st' \<and> fine st' \<and> other_chunks live st' = other_chunks live st"
proof (cases "this = rhs")
  case False
  obtain s where s: "Fut_destroy coro this st = Some s" "fine s" "other_chunks live s = other_chunks live st"
      "futs s = (futs st)(this := None)"
    using Fut_destroy_ok[OF assms(1,2)] by blast
  then show ?thesis
    using Fut_move_ok[OF s(2), of this rhs G] assms(3) False by (auto simp: Fut_move_assign_def)
qed (use assms(1) in \<open>simp add: Fut_move_assign_def\<close>)

lemma return_value_ok:
  assumes "fine st" and "return_value p v st = Some st'"
  shows "fine st' \<and> other_chunks live st' = other_chunks live st"
proof -
  obtain f F where r: "futs st f = Some F" "st' = st\<lparr>futs := (futs st)(f \<mapsto> F\<lparr>m_result := v\<rparr>)\<rparr>"
    using assms(2) by (auto simp: return_value_def split: if_splits bind_splits)
  show ?thesis
    by (rule coro_ok_links[OF assms(1)]) (use r in \<open>simp_all add: fun_eq_iff handle_of_def owner_of_def\<close>)
qed

lemma await_suspend_ok:
  assumes "fine st" and "Fut_await_suspend f h st = Some st'"
  shows "fine st' \<and> other_chunks live st' = other_chunks live st"
proof -
  obtain p P where r: "frames st p = Some P" "st' = st\<lparr>frames := (frames st)(p \<mapsto> P\<lparr>m_waiting_coro := Some h\<rparr>)\<rparr>"
    using assms(2) by (auto simp: Fut_await_suspend_def split: bind_splits)
  show ?thesis
    by (rule coro_ok_links[OF assms(1)]) (use r in \<open>simp_all add: fun_eq_iff handle_of_def owner_of_def\<close>)
qed

lemma final_suspend_ok:
  assumes "fine st" and "final_suspend p st = Some (h, st')"
  shows "fine st' \<and> other_chunks live st' = other_chunks live st"
  by (rule coro_ok_links[OF assms(1)])
    (use assms(2) in \<open>auto simp: final_suspend_def fun_eq_iff handle_of_def owner_of_def\<close>)

lemma coro_run_ok:
  assumes "coro_run coro ok st0 st" and "fine st0"
  shows "fine st \<and> other_chunks live st = other_chunks live st0"
  using assms
proof (induction rule: coro_run.induct)
  case (call st f n al st')
  then show ?case
    using call_coroutine_ok[of st f n al] by auto
next
  case (ready st f r)
  then show ?case
    using make_ready_ok[of st f r] by simp
next
  case (move st this rhs st')
  then show ?case
    using Fut_move_ok[of st this rhs] by auto
next
  case (move_assign st this rhs st')
  then show ?case
    using Fut_move_assign_ok[of st this _ rhs] by fastforce
next
  case (destroy st f st')
  then show ?case
    using Fut_destroy_ok[of st f] by auto
next
  case (co_return st p v st')
  then show ?case
    using return_value_ok[of st p v] by simp
next
  case (suspended st p h st')
  then show ?case
    using final_suspend_ok[of st p h] by simp
next
  case (await st f h st')
  then show ?case
    using await_suspend_ok[of st f h] by simp
qed simp

end

definition pool_coro_env :: "Allocator coro_env" where
  "pool_coro_env = \<lparr>frame_allocate = allocate, frame_deallocate = deallocate\<rparr>"

lemma start_fine: "alloc_valid a \<Longrightarrow> coro_ok alloc_valid live_chunks (coro_start a) \<and> other_chunks live_chunks (coro_start a) = live_chunks a"
  by (auto simp: coro_ok_def other_chunks_def handle_of_def owner_of_def coro_start_def)

text \<open>
  Claim C7. In every run of coroutine calls, moves, assignments, returns and awaits over a pool, every frame
  has exactly one future, a returned value goes into that future wherever it was moved to,
  destroying a future always returns, and the frames are the only chunks the futures took: none is
  left when the last future is gone.
\<close>

theorem Fut_run_owns_frames:
  assumes "alloc_valid a" and "coro_run pool_coro_env request_ok (coro_start a) st"
  shows "alloc_valid (coro_alloc st) \<and>
    (\<forall>p. frames st p \<noteq> None \<longrightarrow> (\<exists>!f. \<exists>F. futs st f = Some F \<and> m_handle F = Some p)) \<and>
    (\<forall>p v st'. return_value p v st = Some st' \<longrightarrow>
       (\<exists>f F. futs st f = Some F \<and> m_handle F = Some p \<and> futs st' = (futs st)(f \<mapsto> F\<lparr>m_result := v\<rparr>))) \<and>
    (\<forall>f. futs st f \<noteq> None \<longrightarrow> (\<exists>st'. Fut_destroy pool_coro_env f st = Some st' \<and> futs st' = (futs st)(f := None))) \<and>
    {x \<in> live_chunks (coro_alloc st). frames st (fst x) = None} = live_chunks a \<and>
    ((\<forall>f. futs st f = None) \<longrightarrow> live_chunks (coro_alloc st) = live_chunks a)"
proof -
  have f: "coro_ok alloc_valid live_chunks st" and o: "other_chunks live_chunks st = live_chunks a"
    using pool.coro_run_ok[OF assms(2)[unfolded pool_coro_env_def]] start_fine[OF assms(1)] by auto
  have h: "(\<exists>F. futs st f = Some F \<and> m_handle F = Some p) \<longleftrightarrow> owner_of st p = Some f" for f p
    using coro_okD(2)[OF f, of f p] by (cases "futs st f") (auto simp: handle_of_def)
  have own: "\<exists>f. owner_of st p = Some f" if "frames st p \<noteq> None" for p
    using coro_okD(3)[OF f, of p] that coro_okD(2)[OF f] by blast
  have "\<exists>f F. futs st f = Some F \<and> m_handle F = Some p \<and> futs st' = (futs st)(f \<mapsto> F\<lparr>m_result := v\<rparr>)"
    if r: "return_value p v st = Some st'" for p v st'
  proof -
    obtain g G where g: "owner_of st p = Some g" "futs st g = Some G" "futs st' = (futs st)(g \<mapsto> G\<lparr>m_result := v\<rparr>)"
      using r by (auto simp: return_value_def owner_of_def split: if_splits bind_splits)
    then show ?thesis
      using h[of g p] by auto
  qed
  moreover have "\<exists>st'. Fut_destroy pool_coro_env g st = Some st' \<and> futs st' = (futs st)(g := None)" if "futs st g \<noteq> None" for g
    using pool.Fut_destroy_ok[OF f] that unfolding pool_coro_env_def by fast
  moreover have "live_chunks (coro_alloc st) = live_chunks a" if "\<forall>f. futs st f = None"
  proof -
    have "frames st p = None" for p
      using own[of p] h[of _ p] that by (cases "frames st p") auto
    then show ?thesis
      using o by (simp add: other_chunks_def)
  qed
  ultimately show ?thesis
    using own o coro_okD(1)[OF f] unfolding h other_chunks_def by auto
qed

text \<open>A coroutine with a frame of 40 octets, whose future is moved.\<close>

lemma demo_coro_run:
  "\<exists>st :: (nat, nat, Allocator) coro_state. coro_run pool_coro_env request_ok (coro_start demo_pool) st \<and> futs st 2 \<noteq> None"
proof -
  let ?s0 = "coro_start demo_pool :: (nat, nat, Allocator) coro_state"
  have s0: "coro_ok alloc_valid live_chunks ?s0"
    by (rule start_fine[OF demo_pool_ok(4), THEN conjunct1])
  have request: "request_ok 40 (frame_align (Some 64))"
    using demo_request by (simp add: frame_align_def)
  obtain s1 where s1: "call_coroutine pool_coro_env 40 (Some 64) 1 ?s0 = Some s1" "coro_ok alloc_valid live_chunks s1"
    using pool.call_coroutine_ok[OF s0 _ request, of 1] unfolding pool_coro_env_def by (force simp: coro_start_def)
  have r1: "coro_run pool_coro_env request_ok ?s0 s1"
    by (rule coro_run.call[where ok = request_ok, OF coro_run.start _ request _ s1(1)]) (simp_all add: coro_start_def)
  have f1: "futs s1 1 \<noteq> None" "futs s1 2 = None"
    using s1(1) by (auto simp: call_coroutine_def Fut_from_handle_def coro_start_def split: bind_splits option.splits)
  obtain s2 where "Fut_move 2 1 s1 = Some s2"
    using pool.Fut_move_ok[OF s1(2) f1(2)] f1(1) by blast
  moreover from this have "futs s2 2 \<noteq> None"
    by (auto simp: Fut_move_def Let_def split: bind_splits option.splits)
  ultimately show ?thesis
    using coro_run.move[OF r1 f1(2,1)] by blast
qed

theorem Fut_run_owns_frames_witness:
  "\<exists>st :: (nat, nat, Allocator) coro_state. alloc_valid demo_pool \<and>
     coro_run pool_coro_env request_ok (coro_start demo_pool) st \<and>
     (\<exists>st'. Fut_destroy pool_coro_env 2 st = Some st' \<and> futs st' = (futs st)(2 := None))"
proof -
  obtain st :: "(nat, nat, Allocator) coro_state" where st: "coro_run pool_coro_env request_ok (coro_start demo_pool) st" "futs st 2 \<noteq> None"
    using demo_coro_run by blast
  show ?thesis
    using Fut_run_owns_frames[OF demo_pool_ok(4) st(1)] st demo_pool_ok(4) by blast
qed

end
