(* ===== verification/Corosig_Background.thy ===== *)
theory Corosig_Background
  imports Corosig_Coro Corosig_Reactor
begin

text \<open>
  Background tasks: \<^verbatim>\<open>Background.hpp\<close>. A task owns itself: its frame is put on the reactor's list of
  garbage when it ends and released by the next \<^verbatim>\<open>gc\<close>. Whether a frame came from the allocator is
  passed from \<^verbatim>\<open>operator new\<close> to the constructor of the promise in a member of the reactor, which is
  part of the \<^term>\<open>world\<close> here, as are the promises, each by its \<^verbatim>\<open>m_needs_dealloc\<close>. A promise is
  named by its frame, and the destructors of a frame's locals are left out.
\<close>

record background =
  m_current_coro_was_allocated :: bool
  m_needs_dealloc :: "nat \<Rightarrow> bool option"

type_synonym 's background_reactor = "(background, 's) Reactor"

section \<open>Starting\<close>

definition background_operator_new ::
  "'s coro_env \<Rightarrow> u64 \<Rightarrow> u64 \<Rightarrow> 's background_reactor \<Rightarrow> (nat option \<times> 's background_reactor) option" where
  "background_operator_new E n align r =
     c_assert (\<not> m_current_coro_was_allocated (world r))
       (map_option (\<lambda>(p, s). (p, r\<lparr>reactor_alloc := s, world := (world r)\<lparr>m_current_coro_was_allocated := True\<rparr>\<rparr>))
         (frame_allocate E n align (reactor_alloc r)))"

definition BackgroundCoroutinePromiseType_make :: "nat \<Rightarrow> 's background_reactor \<Rightarrow> 's background_reactor" where
  "BackgroundCoroutinePromiseType_make p r =
     r\<lparr>world := \<lparr>m_current_coro_was_allocated = False,
                 m_needs_dealloc = (m_needs_dealloc (world r))(p \<mapsto> m_current_coro_was_allocated (world r))\<rparr>\<rparr>"

text \<open>Calling a background coroutine, with a frame from the allocator or one the compiler placed elsewhere.\<close>

definition background_call ::
  "'s coro_env \<Rightarrow> u64 \<Rightarrow> u64 \<Rightarrow> 's background_reactor \<Rightarrow> ((unit, AllocationError) result \<times> 's background_reactor) option" where
  "background_call E n align r = map_option (\<lambda>(q, r). case q of
       None \<Rightarrow> (Failure AllocationError, r)
     | Some p \<Rightarrow> (Ok (), BackgroundCoroutinePromiseType_make p r)) (background_operator_new E n align r)"

definition background_call_elided ::
  "nat \<Rightarrow> 's background_reactor \<Rightarrow> (unit, AllocationError) result \<times> 's background_reactor" where
  "background_call_elided p r = (Ok (), BackgroundCoroutinePromiseType_make p r)"

section \<open>Running and ending\<close>

definition background_yield :: "nat \<Rightarrow> 's background_reactor \<Rightarrow> 's background_reactor option" where
  "background_yield p r =
     c_assert (m_needs_dealloc (world r) p \<noteq> None) (schedule p r)"

definition background_final_suspend :: "nat \<Rightarrow> 's background_reactor \<Rightarrow> 's background_reactor option" where
  "background_final_suspend p r =
     c_assert (m_needs_dealloc (world r) p \<noteq> None) (destroy_later p r)"

definition background_destroy :: "'s coro_env \<Rightarrow> nat \<Rightarrow> 's background_reactor \<Rightarrow> 's background_reactor option" where
  "background_destroy E p r =
     Option.bind (m_needs_dealloc (world r) p) (\<lambda>needs_dealloc.
       let r = r\<lparr>m_ready := remove1 p (m_ready r), m_gc_list := remove1 p (m_gc_list r),
                 world := (world r)\<lparr>m_needs_dealloc := (m_needs_dealloc (world r))(p := None)\<rparr>\<rparr>
       in if needs_dealloc then map_option (\<lambda>s. r\<lparr>reactor_alloc := s\<rparr>) (frame_deallocate E (Some p) (reactor_alloc r))
          else Some r)"

section \<open>Runs\<close>

text \<open>
  The life of background tasks with frames from the allocator on a reactor that collects them
  with \<^term>\<open>background_destroy\<close>, as long as no call fails.
\<close>

inductive background_run ::
  "'s coro_env \<Rightarrow> (background, 's) reactor_env \<Rightarrow> (u64 \<Rightarrow> u64 \<Rightarrow> bool) \<Rightarrow>
   's background_reactor \<Rightarrow> 's background_reactor \<Rightarrow> bool" for E R ok r0 where
  start: "background_run E R ok r0 r0"
| call: "background_run E R ok r0 r \<Longrightarrow> ok n al \<Longrightarrow> 0 < unat n \<Longrightarrow> background_call E n al r = Some (Ok (), r') \<Longrightarrow>
    background_run E R ok r0 r'"
| yield: "background_run E R ok r0 r \<Longrightarrow> background_yield p r = Some r' \<Longrightarrow> background_run E R ok r0 r'"
| resumed: "background_run E R ok r0 r \<Longrightarrow> m_ready r = p # ps \<Longrightarrow> background_run E R ok r0 (r\<lparr>m_ready := ps\<rparr>)"
| ended: "background_run E R ok r0 r \<Longrightarrow> background_final_suspend p r = Some r' \<Longrightarrow> background_run E R ok r0 r'"
| collect: "background_run E R ok r0 r \<Longrightarrow> gc R r = Some r' \<Longrightarrow> background_run E R ok r0 r'"

section \<open>A failed call\<close>

text \<open>
  When the allocator has no room, no promise is constructed and the mark set by
  \<^verbatim>\<open>operator new\<close> stays: the next call fails its assertion, and a frame that did not come from the
  allocator is marked as if it had.
\<close>

lemma background_call_failure_sticks:
  assumes "background_call E n al r = Some (Failure e, r')"
  shows "background_call E m bl r' = None \<and>
    m_needs_dealloc (world (snd (background_call_elided p r'))) p = Some True"
proof -
  have "m_current_coro_was_allocated (world r')"
    using assms by (auto simp: background_call_def background_operator_new_def split: if_splits option.splits)
  then show ?thesis
    by (simp add: background_call_def background_operator_new_def background_call_elided_def
        BackgroundCoroutinePromiseType_make_def)
qed

end
