(* ===== verification/Corosig_Background_Claims.thy ===== *)
theory Corosig_Background_Claims
  imports Corosig_Background Corosig_Coro_Claims
begin

text \<open>
  Background tasks over any allocator under the contract of \<^verbatim>\<open>an_allocator\<close>: collecting the garbage
  never fails, releases the frames of the ended tasks and no other chunk.
\<close>

section \<open>The invariant\<close>

definition tasks_of :: "'s background_reactor \<Rightarrow> nat set" where
  "tasks_of r = dom (m_needs_dealloc (world r))"

definition background_ok :: "('s \<Rightarrow> bool) \<Rightarrow> ('s \<Rightarrow> (nat \<times> nat) set) \<Rightarrow> 's background_reactor \<Rightarrow> bool" where
  "background_ok good live r \<longleftrightarrow> good (reactor_alloc r) \<and> \<not> m_current_coro_was_allocated (world r) \<and>
     distinct (m_ready r @ m_gc_list r) \<and> set (m_ready r @ m_gc_list r) \<subseteq> tasks_of r \<and>
     (\<forall>p \<in> tasks_of r. m_needs_dealloc (world r) p = Some True \<and> (\<exists>c>0. (p, c) \<in> live (reactor_alloc r)))"

definition not_tasks :: "('s \<Rightarrow> (nat \<times> nat) set) \<Rightarrow> 's background_reactor \<Rightarrow> (nat \<times> nat) set" where
  "not_tasks live r = {x \<in> live (reactor_alloc r). fst x \<notin> tasks_of r}"

lemma background_lists:
  assumes "background_ok good live r" and "distinct (m_ready r' @ m_gc_list r')" and "set (m_ready r' @ m_gc_list r') \<subseteq> tasks_of r"
    and "reactor_alloc r' = reactor_alloc r" and "world r' = world r"
  shows "background_ok good live r' \<and> not_tasks live r' = not_tasks live r"
  using assms by (simp add: background_ok_def not_tasks_def tasks_of_def)

lemma background_okD:
  assumes "background_ok good live r"
  shows "distinct (m_ready r @ m_gc_list r)" "set (m_ready r @ m_gc_list r) \<subseteq> tasks_of r"
  using assms by (simp_all add: background_ok_def)

context an_allocator
begin

abbreviation tasks_fine :: "'s background_reactor \<Rightarrow> bool" where
  "tasks_fine \<equiv> background_ok inv live"

section \<open>The operations\<close>

lemma background_call_ok:
  assumes "tasks_fine r" and "ok n al" and "0 < unat n"
  shows "\<exists>q r'. background_call coro n al r = Some (q, r') \<and>
    (q = Ok () \<and> tasks_fine r' \<and> not_tasks live r' = not_tasks live r \<or> q = Failure AllocationError)"
proof -
  have "inv (reactor_alloc r)"
    using assms(1) by (simp add: background_ok_def)
  from this assms(2) show ?thesis
  proof (cases rule: alloc_cases)
    case null
    then show ?thesis
      using assms(1) by (simp add: background_call_def background_operator_new_def background_ok_def)
  next
    case (chunk p s c)
    let ?r = "r\<lparr>reactor_alloc := s, world := \<lparr>m_current_coro_was_allocated = False,
        m_needs_dealloc = (m_needs_dealloc (world r))(p \<mapsto> True)\<rparr>\<rparr>"
    have new: "p \<notin> tasks_of r" "0 < c"
      using assms(1,3) chunk(4,5) by (force simp: background_ok_def)+
    have "background_call coro n al r = Some (Ok (), ?r)"
      using assms(1) chunk(1)
      by (simp add: background_call_def background_operator_new_def background_ok_def BackgroundCoroutinePromiseType_make_def)
    moreover have "tasks_fine ?r"
      using assms(1) chunk(2,6) new by (auto simp: background_ok_def tasks_of_def)
    moreover have "not_tasks live ?r = not_tasks live r"
      using chunk(4,6) by (force simp: not_tasks_def tasks_of_def)
    ultimately show ?thesis
      by blast
  qed
qed

lemma background_destroy_ok:
  assumes "tasks_fine r" and "m_gc_list r = p # ps"
  shows "\<exists>r'. background_destroy coro p (r\<lparr>m_gc_list := ps\<rparr>) = Some r' \<and> tasks_fine r' \<and> m_gc_list r' = ps \<and> m_ready r' = m_ready r \<and>
    tasks_of r' = tasks_of r - {p} \<and> live (reactor_alloc r') = {x \<in> live (reactor_alloc r). fst x \<noteq> p}"
proof -
  have p: "p \<in> tasks_of r" "p \<notin> set (m_ready r @ ps)" and i: "inv (reactor_alloc r)"
    using assms by (auto simp: background_ok_def)
  have n: "m_needs_dealloc (world r) p = Some True"
    using assms(1) p(1) by (simp add: background_ok_def)
  obtain c where c: "0 < c" "(p, c) \<in> live (reactor_alloc r)"
    using assms(1) p(1) unfolding background_ok_def by blast
  obtain s where s: "dealloc (Some p) (reactor_alloc r) = Some s" "inv s" "live s = live (reactor_alloc r) - {(p, c)}"
    using dealloc_law[OF i c(2,1)] by blast
  have v: "(q, d) \<in> live s \<longleftrightarrow> (q, d) \<in> live (reactor_alloc r) \<and> q \<noteq> p" for q d
    using live_unique[OF i c(2), of d] by (cases "q = p") (auto simp: s(3))
  let ?r = "r\<lparr>m_gc_list := ps, reactor_alloc := s, world := (world r)\<lparr>m_needs_dealloc := (m_needs_dealloc (world r))(p := None)\<rparr>\<rparr>"
  have t: "tasks_of ?r = tasks_of r - {p}"
    by (simp add: tasks_of_def)
  have "background_destroy coro p (r\<lparr>m_gc_list := ps\<rparr>) = Some ?r"
    using n p(2) s(1) by (simp add: background_destroy_def remove1_idem)
  moreover have "tasks_fine ?r"
    unfolding background_ok_def t using assms p(2) s(2) by (auto simp: background_ok_def v)
  moreover have "live s = {x \<in> live (reactor_alloc r). fst x \<noteq> p}"
    using v by auto
  ultimately show ?thesis
    using t by auto
qed

lemma tasks_gc_nodes_ok:
  assumes "tasks_fine r" and "m_gc_list r = ps" and "destroy R = background_destroy coro"
  shows "\<exists>r'. gc_nodes R ps r = Some r' \<and> tasks_fine r' \<and> m_gc_list r' = [] \<and> m_ready r' = m_ready r \<and> tasks_of r' = tasks_of r - set ps \<and>
    live (reactor_alloc r') = {x \<in> live (reactor_alloc r). fst x \<notin> set ps}"
  using assms
proof (induction ps arbitrary: r)
  case (Cons p ps)
  obtain r1 where r1: "background_destroy coro p (r\<lparr>m_gc_list := ps\<rparr>) = Some r1" "tasks_fine r1" "m_gc_list r1 = ps" "m_ready r1 = m_ready r"
      "tasks_of r1 = tasks_of r - {p}" "live (reactor_alloc r1) = {x \<in> live (reactor_alloc r). fst x \<noteq> p}"
    using background_destroy_ok[OF Cons.prems(1,2)] by blast
  then show ?case
    using Cons.IH[OF r1(2,3) Cons.prems(3)] Cons.prems(3) by auto
qed simp

lemma tasks_gc_ok:
  assumes "tasks_fine r" and "destroy R = background_destroy coro"
  shows "\<exists>r'. gc R r = Some r' \<and> tasks_fine r' \<and> m_gc_list r' = [] \<and> m_ready r' = m_ready r \<and> tasks_of r' = tasks_of r - set (m_gc_list r) \<and>
    live (reactor_alloc r') = {x \<in> live (reactor_alloc r). fst x \<notin> set (m_gc_list r)}"
  using tasks_gc_nodes_ok[OF assms(1) refl assms(2)] by (simp add: gc_def)

lemma background_run_ok:
  assumes "background_run coro R ok r0 r" and "tasks_fine r0" and "destroy R = background_destroy coro"
  shows "tasks_fine r \<and> not_tasks live r = not_tasks live r0"
  using assms
proof (induction rule: background_run.induct)
  case (call r n al r')
  then show ?case
    using background_call_ok[of r n al] by auto
next
  case (yield r p r')
  then have f: "tasks_fine r" and n: "not_tasks live r = not_tasks live r0"
      and y: "p \<in> tasks_of r" "p \<notin> set (m_ready r @ m_gc_list r)" "r' = r\<lparr>m_ready := m_ready r @ [p]\<rparr>"
    by (auto simp: background_yield_def schedule_def tasks_of_def split: if_splits)
  have "distinct (m_ready r' @ m_gc_list r')" "set (m_ready r' @ m_gc_list r') \<subseteq> tasks_of r"
    using background_okD[OF f] y by auto
  then show ?case
    using background_lists[OF f] n y(3) by simp
next
  case (resumed r p ps)
  then have f: "tasks_fine r" and n: "not_tasks live r = not_tasks live r0"
    by auto
  have "distinct (ps @ m_gc_list r)" "set (ps @ m_gc_list r) \<subseteq> tasks_of r"
    using background_okD[OF f] resumed(2) by auto
  then show ?case
    using background_lists[OF f, of "r\<lparr>m_ready := ps\<rparr>"] n by simp
next
  case (ended r p r')
  then have f: "tasks_fine r" and n: "not_tasks live r = not_tasks live r0"
      and y: "p \<in> tasks_of r" "p \<notin> set (m_ready r @ m_gc_list r)" "r' = r\<lparr>m_gc_list := p # m_gc_list r\<rparr>"
    by (auto simp: background_final_suspend_def destroy_later_def tasks_of_def split: if_splits)
  have "distinct (m_ready r' @ m_gc_list r')" "set (m_ready r' @ m_gc_list r') \<subseteq> tasks_of r"
    using background_okD[OF f] y by auto
  then show ?case
    using background_lists[OF f] n y(3) by simp
next
  case (collect r r')
  then have f: "tasks_fine r" and n: "not_tasks live r = not_tasks live r0"
    by auto
  have "set (m_gc_list r) \<subseteq> tasks_of r"
    using f by (simp add: background_ok_def)
  then show ?case
    using tasks_gc_ok[OF f collect.prems(2)] collect(2) n by (auto simp: not_tasks_def)
qed simp

end

section \<open>Tasks on a pool\<close>

lemma background_pool_start:
  assumes "alloc_valid (reactor_alloc r)" and "m_ready r = []" and "m_gc_list r = []"
    and "world r = \<lparr>m_current_coro_was_allocated = False, m_needs_dealloc = Map.empty\<rparr>"
  shows "background_ok alloc_valid live_chunks r \<and> not_tasks live_chunks r = live_chunks (reactor_alloc r)"
  using assms by (simp add: background_ok_def not_tasks_def tasks_of_def)

text \<open>
  Claim C14. In every run of background tasks on a pool in which no call fails, collecting the garbage never
  fails an assertion: it destroys exactly the ended tasks, releases exactly their frames, and the
  chunks that are not frames of tasks are those of the start. A call is either accepted or reports
  that there is no room.
\<close>

theorem background_run_collects:
  assumes "background_run pool_coro_env R request_ok r0 r" and "destroy R = background_destroy pool_coro_env"
    and "alloc_valid (reactor_alloc r0)" and "m_ready r0 = []" and "m_gc_list r0 = []"
    and "world r0 = \<lparr>m_current_coro_was_allocated = False, m_needs_dealloc = Map.empty\<rparr>"
  shows "{x \<in> live_chunks (reactor_alloc r). m_needs_dealloc (world r) (fst x) = None} = live_chunks (reactor_alloc r0) \<and>
    (\<exists>r'. gc R r = Some r' \<and> m_gc_list r' = [] \<and> m_ready r' = m_ready r \<and>
       dom (m_needs_dealloc (world r')) = dom (m_needs_dealloc (world r)) - set (m_gc_list r) \<and>
       live_chunks (reactor_alloc r') = {x \<in> live_chunks (reactor_alloc r). fst x \<notin> set (m_gc_list r)}) \<and>
    (\<forall>n al. request_ok n al \<and> 0 < unat n \<longrightarrow>
       (\<exists>q r'. background_call pool_coro_env n al r = Some (q, r') \<and> (q = Ok () \<or> q = Failure AllocationError)))"
proof -
  note E = pool_coro_env_def
  have ok: "background_ok alloc_valid live_chunks r" and n: "not_tasks live_chunks r = live_chunks (reactor_alloc r0)"
    using pool.background_run_ok[OF assms(1)[unfolded E] _ assms(2)[unfolded E]] background_pool_start[OF assms(3-6)] by auto
  have d: "\<And>p. p \<notin> dom f \<longleftrightarrow> f p = None" for f :: "nat \<Rightarrow> bool option"
    by auto
  have "{x \<in> live_chunks (reactor_alloc r). m_needs_dealloc (world r) (fst x) = None} = live_chunks (reactor_alloc r0)"
    using n unfolding not_tasks_def tasks_of_def d .
  moreover have "\<exists>r'. gc R r = Some r' \<and> m_gc_list r' = [] \<and> m_ready r' = m_ready r \<and>
       dom (m_needs_dealloc (world r')) = dom (m_needs_dealloc (world r)) - set (m_gc_list r) \<and>
       live_chunks (reactor_alloc r') = {x \<in> live_chunks (reactor_alloc r). fst x \<notin> set (m_gc_list r)}"
    using pool.tasks_gc_ok[OF ok assms(2)[unfolded E]] by (auto simp: tasks_of_def)
  moreover have "\<exists>q r'. background_call pool_coro_env n al r = Some (q, r') \<and> (q = Ok () \<or> q = Failure AllocationError)"
    if "request_ok n al" "0 < unat n" for n al
    using pool.background_call_ok[OF ok that] unfolding E by blast
  ultimately show ?thesis
    by blast
qed

definition demo_background_env :: "(background, Allocator) reactor_env" where
  "demo_background_env = \<lparr>resume = (\<lambda>n r. Some r), destroy = background_destroy pool_coro_env, steady_now = (\<lambda>w. (0, w)),
     sys_poll = (\<lambda>fds timeout w. (0, [], w)), current_error = (\<lambda>w. \<lparr>errno_value = 0\<rparr>),
     pollfd_env = \<lparr>op_allocate = allocate, op_deallocate = deallocate, sizeof_T = 8, alignof_T = 4\<rparr>\<rparr>"

definition demo_background :: "Allocator background_reactor" where
  "demo_background = \<lparr>m_gc_list = [], m_polled = [], taken = [], m_ready = [], m_sleeping = [], reactor_alloc = demo_pool,
     m_previous_iteration_buffer = MIN_POLL_BUFFER, m_poll_buf = Vector_make, fallback = False,
     poll_node = (\<lambda>_. \<lparr>handle = - 1, event = 0\<rparr>), awake_time = (\<lambda>_. 0),
     world = \<lparr>m_current_coro_was_allocated = False, m_needs_dealloc = Map.empty\<rparr>\<rparr>"

text \<open>A task with a frame of 40 octets that ends at once is collected, and its frame released.\<close>

theorem background_run_collects_witness:
  "\<exists>r r'. background_run pool_coro_env demo_background_env request_ok demo_background r \<and> m_gc_list r = [4160] \<and>
     gc demo_background_env r = Some r' \<and> live_chunks (reactor_alloc r') = {}"
proof -
  let ?r1 = "BackgroundCoroutinePromiseType_make 4160 (demo_background\<lparr>reactor_alloc := demo_pool1,
      world := (world demo_background)\<lparr>m_current_coro_was_allocated := True\<rparr>\<rparr>)"
  have c: "background_call pool_coro_env 40 64 demo_background = Some (Ok (), ?r1)"
    by (simp add: background_call_def background_operator_new_def demo_background_def pool_coro_env_def demo_allocate)
  have "background_run pool_coro_env demo_background_env request_ok demo_background ?r1"
    by (rule background_run.call[where ok = request_ok, OF background_run.start demo_request _ c]) simp
  then have run: "background_run pool_coro_env demo_background_env request_ok demo_background (?r1\<lparr>m_gc_list := [4160]\<rparr>)"
    by (rule background_run.ended[of _ _ _ _ _ 4160])
      (simp add: background_final_suspend_def destroy_later_def BackgroundCoroutinePromiseType_make_def demo_background_def)
  have start: "destroy demo_background_env = background_destroy pool_coro_env" "alloc_valid (reactor_alloc demo_background)"
      "m_ready demo_background = []" "m_gc_list demo_background = []"
      "world demo_background = \<lparr>m_current_coro_was_allocated = False, m_needs_dealloc = Map.empty\<rparr>"
      "live_chunks (reactor_alloc demo_background) = {}"
    by (simp_all add: demo_background_env_def demo_background_def demo_pool_ok)
  let ?r = "?r1\<lparr>m_gc_list := [4160]\<rparr>"
  have g: "m_gc_list ?r = [4160]" and w: "\<And>p. m_needs_dealloc (world ?r) p = None \<longleftrightarrow> p \<noteq> 4160"
    by (simp_all add: BackgroundCoroutinePromiseType_make_def demo_background_def)
  have "{x \<in> live_chunks (reactor_alloc ?r). fst x \<noteq> 4160} = {}"
      "\<exists>r'. gc demo_background_env ?r = Some r' \<and> live_chunks (reactor_alloc r') = {x \<in> live_chunks (reactor_alloc ?r). fst x \<notin> {4160}}"
    using background_run_collects[OF run start(1-5)] unfolding w g start(6) by auto
  then show ?thesis
    using run g by auto
qed

end
