(* ===== verification/Corosig_Promise.thy ===== *)
theory Corosig_Promise
  imports Corosig_Coro Corosig_Reactor
begin

text \<open>
  The one-shot channel of \<^verbatim>\<open>Promise.hpp\<close>: the shared state with its reference count, the promise
  and its awaiter. The states are the \<^term>\<open>world\<close> of the reactor, each by its address; a promise
  and an awaiter are their member \<^verbatim>\<open>m_state\<close>, with \<^term>\<open>None\<close> for the null pointer of one that was
  moved from. \<^verbatim>\<open>Awaiter::await_suspend\<close> is left out: it names a member that \<^verbatim>\<open>State\<close> does not have, so
  no program that awaits a promise compiles.
\<close>

section \<open>The shared state\<close>

record 'v Promise_State =
  waiting_coro :: "nat option"
  "value" :: "'v option"
  refcount :: u8

type_synonym ('v, 's) promise_reactor = "(nat \<Rightarrow> 'v Promise_State option, 's) Reactor"

definition Promise_State_make :: "'v Promise_State" where
  "Promise_State_make = \<lparr>waiting_coro = None, value = None, refcount = 1\<rparr>"

text \<open>The destructor of the state unlinks it from the list of coroutines.\<close>

definition downref :: "'s coro_env \<Rightarrow> nat \<Rightarrow> ('v, 's) promise_reactor \<Rightarrow> ('v, 's) promise_reactor option" where
  "downref E p r = Option.bind (world r p) (\<lambda>st.
     let count = refcount st - 1
     in if count = 0
        then let r = r\<lparr>m_ready := remove1 p (m_ready r), m_gc_list := remove1 p (m_gc_list r), world := (world r)(p := None)\<rparr>
             in map_option (\<lambda>s. r\<lparr>reactor_alloc := s\<rparr>) (frame_deallocate E (Some p) (reactor_alloc r))
        else Some (r\<lparr>world := (world r)(p \<mapsto> st\<lparr>refcount := count\<rparr>)\<rparr>))"

section \<open>The awaiter\<close>

definition Awaiter_make :: "nat \<Rightarrow> ('v, 's) promise_reactor \<Rightarrow> (nat option \<times> ('v, 's) promise_reactor) option" where
  "Awaiter_make p r = map_option (\<lambda>st.
     (Some p, r\<lparr>world := (world r)(p \<mapsto> st\<lparr>refcount := refcount st + 1\<rparr>)\<rparr>)) (world r p)"

definition Awaiter_destroy :: "'s coro_env \<Rightarrow> nat option \<Rightarrow> ('v, 's) promise_reactor \<Rightarrow> ('v, 's) promise_reactor option" where
  "Awaiter_destroy E m_state r = (case m_state of Some p \<Rightarrow> downref E p r | None \<Rightarrow> Some r)"

definition Awaiter_await_ready :: "nat option \<Rightarrow> ('v, 's) promise_reactor \<Rightarrow> bool option" where
  "Awaiter_await_ready m_state r = Option.bind m_state (\<lambda>p. map_option (\<lambda>st. value st \<noteq> None) (world r p))"

definition Awaiter_await_resume :: "nat option \<Rightarrow> ('v, 's) promise_reactor \<Rightarrow> 'v option" where
  "Awaiter_await_resume m_state r = Option.bind m_state (\<lambda>p. Option.bind (world r p) value)"

section \<open>The promise\<close>

definition Promise_make ::
  "'s coro_env \<Rightarrow> u64 \<Rightarrow> u64 \<Rightarrow> ('v, 's) promise_reactor \<Rightarrow>
   ((nat option, AllocationError) result \<times> ('v, 's) promise_reactor) option" where
  "Promise_make E sizeof_State alignof_State r =
     map_option (\<lambda>(state_buf, s). case state_buf of
         None \<Rightarrow> (Failure AllocationError, r\<lparr>reactor_alloc := s\<rparr>)
       | Some p \<Rightarrow> (Ok (Some p), r\<lparr>reactor_alloc := s, world := (world r)(p \<mapsto> Promise_State_make)\<rparr>))
       (frame_allocate E sizeof_State alignof_State (reactor_alloc r))"

definition is_set :: "nat option \<Rightarrow> ('v, 's) promise_reactor \<Rightarrow> bool option" where
  "is_set m_state r = Option.bind m_state (\<lambda>p. map_option (\<lambda>st. value st \<noteq> None) (world r p))"

definition has_awaiter :: "nat option \<Rightarrow> ('v, 's) promise_reactor \<Rightarrow> bool option" where
  "has_awaiter m_state r = Option.bind m_state (\<lambda>p. map_option (\<lambda>st. refcount st = 2) (world r p))"

definition get_awaiter :: "nat option \<Rightarrow> ('v, 's) promise_reactor \<Rightarrow> (nat option \<times> ('v, 's) promise_reactor) option" where
  "get_awaiter m_state r = do {
     has \<leftarrow> has_awaiter m_state r;
     p \<leftarrow> m_state;
     c_assert (\<not> has) (Awaiter_make p r)
   }"

definition Promise_set :: "nat option \<Rightarrow> 'v \<Rightarrow> ('v, 's) promise_reactor \<Rightarrow> ('v, 's) promise_reactor option" where
  "Promise_set m_state v r = do {
     p \<leftarrow> m_state;
     already \<leftarrow> is_set m_state r;
     st \<leftarrow> world r p;
     c_assert (\<not> already) (schedule p (r\<lparr>world := (world r)(p \<mapsto> st\<lparr>value := Some v\<rparr>)\<rparr>))
   }"

text \<open>
  The destructor, where \<^term>\<open>broken\<close> is the value made of \<^verbatim>\<open>Failure{BrokenPromise{}}\<close>, or \<^term>\<open>None\<close>
  for a type that cannot be made of it.
\<close>

definition Promise_destroy ::
  "'s coro_env \<Rightarrow> 'v option \<Rightarrow> nat option \<Rightarrow> ('v, 's) promise_reactor \<Rightarrow> ('v, 's) promise_reactor option" where
  "Promise_destroy E broken m_state r = (case m_state of
       None \<Rightarrow> Some r
     | Some p \<Rightarrow> do {
         has \<leftarrow> has_awaiter m_state r;
         r \<leftarrow> (case broken of
             Some b \<Rightarrow> if has then Promise_set m_state b r else Some r
           | None \<Rightarrow> c_assert (\<not> has) (Some r));
         downref E p r
       })"

section \<open>Move assignment\<close>

text \<open>Of a promise or an awaiter \<^term>\<open>this\<close> that is another object than \<^term>\<open>rhs\<close>; the result is their states.\<close>

definition Promise_move_assign ::
  "'s coro_env \<Rightarrow> 'v option \<Rightarrow> nat option \<Rightarrow> nat option \<Rightarrow> ('v, 's) promise_reactor \<Rightarrow>
   ((nat option \<times> nat option) \<times> ('v, 's) promise_reactor) option" where
  "Promise_move_assign E broken this rhs r = map_option (Pair (rhs, None)) (Promise_destroy E broken this r)"

definition Awaiter_move_assign ::
  "'s coro_env \<Rightarrow> nat option \<Rightarrow> nat option \<Rightarrow> ('v, 's) promise_reactor \<Rightarrow>
   ((nat option \<times> nat option) \<times> ('v, 's) promise_reactor) option" where
  "Awaiter_move_assign E this rhs r = map_option (Pair (rhs, None)) (Awaiter_destroy E this r)"

section \<open>Runs\<close>

text \<open>
  A program with the addresses of the states that have a promise and of those that have an
  awaiter. Values are set once, one awaiter is asked for, and a promise with an awaiter is
  destroyed only when its value can tell of it and is not set yet.
\<close>

inductive promise_run ::
  "'s coro_env \<Rightarrow> (u64 \<Rightarrow> u64 \<Rightarrow> bool) \<Rightarrow> 'v option \<Rightarrow> ('v, 's) promise_reactor \<Rightarrow>
   ('v, 's) promise_reactor \<Rightarrow> nat set \<Rightarrow> nat set \<Rightarrow> bool" for E ok broken r0 where
  start: "promise_run E ok broken r0 r0 {} {}"
| make: "promise_run E ok broken r0 r P A \<Longrightarrow> ok n al \<Longrightarrow> 0 < unat n \<Longrightarrow> Promise_make E n al r = Some (Ok (Some p), r') \<Longrightarrow>
    promise_run E ok broken r0 r' (insert p P) A"
| no_room: "promise_run E ok broken r0 r P A \<Longrightarrow> ok n al \<Longrightarrow> 0 < unat n \<Longrightarrow> Promise_make E n al r = Some (Failure e, r') \<Longrightarrow>
    promise_run E ok broken r0 r' P A"
| awaiter: "promise_run E ok broken r0 r P A \<Longrightarrow> p \<in> P \<Longrightarrow> p \<notin> A \<Longrightarrow> get_awaiter (Some p) r = Some (m, r') \<Longrightarrow>
    promise_run E ok broken r0 r' P (insert p A)"
| fulfilled: "promise_run E ok broken r0 r P A \<Longrightarrow> p \<in> P \<Longrightarrow> is_set (Some p) r = Some False \<Longrightarrow> Promise_set (Some p) v r = Some r' \<Longrightarrow>
    promise_run E ok broken r0 r' P A"
| resumed: "promise_run E ok broken r0 r P A \<Longrightarrow> m_ready r = p # ps \<Longrightarrow> promise_run E ok broken r0 (r\<lparr>m_ready := ps\<rparr>) P A"
| drop_awaiter: "promise_run E ok broken r0 r P A \<Longrightarrow> p \<in> A \<Longrightarrow> Awaiter_destroy E (Some p) r = Some r' \<Longrightarrow>
    promise_run E ok broken r0 r' P (A - {p})"
| drop_promise: "promise_run E ok broken r0 r P A \<Longrightarrow> p \<in> P \<Longrightarrow> p \<notin> A \<or> broken \<noteq> None \<and> is_set (Some p) r = Some False \<Longrightarrow>
    Promise_destroy E broken (Some p) r = Some r' \<Longrightarrow> promise_run E ok broken r0 r' (P - {p}) A"

section \<open>A fulfilled promise\<close>

text \<open>
  A producer that fulfils its promise and ends while the consumer still holds the awaiter fails an
  assertion, whatever the type of the value.
\<close>

lemma Promise_destroy_fulfilled_fails:
  assumes "has_awaiter (Some p) r = Some True" and "is_set (Some p) r = Some True"
  shows "Promise_destroy E broken (Some p) r = None"
  using assms by (cases broken) (simp_all add: Promise_destroy_def Promise_set_def)

end
