(* ===== verification/Corosig_Promise_Claims.thy ===== *)
theory Corosig_Promise_Claims
  imports Corosig_Promise Corosig_Coro_Claims
begin

text \<open>
  The reference count of a promise's state over any allocator under the contract of
  \<^verbatim>\<open>an_allocator\<close>: it counts the promise and the awaiter, so the state is alive as long as one of
  them is and its chunk is released once, in either order.
\<close>

section \<open>The invariant\<close>

definition state_ok :: "('s \<Rightarrow> (nat \<times> nat) set) \<Rightarrow> nat set \<Rightarrow> nat set \<Rightarrow> ('v, 's) promise_reactor \<Rightarrow> nat \<Rightarrow> bool" where
  "state_ok live P A r p \<longleftrightarrow> (case world r p of
       None \<Rightarrow> p \<notin> P \<and> p \<notin> A \<and> p \<notin> set (m_ready r)
     | Some st \<Rightarrow> (p \<in> P \<or> p \<in> A) \<and> refcount st = of_bool (p \<in> P) + of_bool (p \<in> A) \<and>
         (p \<in> set (m_ready r) \<longrightarrow> value st \<noteq> None) \<and> (\<exists>c>0. (p, c) \<in> live (reactor_alloc r)))"

definition promise_ok ::
  "('s \<Rightarrow> bool) \<Rightarrow> ('s \<Rightarrow> (nat \<times> nat) set) \<Rightarrow> nat set \<Rightarrow> nat set \<Rightarrow> ('v, 's) promise_reactor \<Rightarrow> bool" where
  "promise_ok good live P A r \<longleftrightarrow> good (reactor_alloc r) \<and> distinct (m_ready r) \<and> m_gc_list r = [] \<and>
     (\<forall>p. state_ok live P A r p)"

definition not_states :: "('s \<Rightarrow> (nat \<times> nat) set) \<Rightarrow> ('v, 's) promise_reactor \<Rightarrow> (nat \<times> nat) set" where
  "not_states live r = {x \<in> live (reactor_alloc r). world r (fst x) = None}"

lemma promise_ok_Some:
  assumes "promise_ok good live P A r" and "world r p = Some st"
  shows "p \<in> P \<or> p \<in> A" "refcount st = of_bool (p \<in> P) + of_bool (p \<in> A)"
    "p \<in> set (m_ready r) \<Longrightarrow> value st \<noteq> None" "\<exists>c>0. (p, c) \<in> live (reactor_alloc r)"
proof -
  have "state_ok live P A r p"
    using assms(1) by (simp add: promise_ok_def)
  then show "p \<in> P \<or> p \<in> A" "refcount st = of_bool (p \<in> P) + of_bool (p \<in> A)"
      "p \<in> set (m_ready r) \<Longrightarrow> value st \<noteq> None" "\<exists>c>0. (p, c) \<in> live (reactor_alloc r)"
    using assms(2) by (simp_all add: state_ok_def)
qed

lemma promise_ok_state:
  assumes "promise_ok good live P A r" and "p \<in> P \<or> p \<in> A"
  obtains st where "world r p = Some st"
  using assms by (cases "world r p") (auto simp: promise_ok_def state_ok_def dest: spec[of _ p])

lemma not_state: "promise_ok good live P A r \<Longrightarrow> world r p = None \<Longrightarrow> p \<notin> P \<and> p \<notin> A \<and> p \<notin> set (m_ready r)"
  by (auto simp: promise_ok_def state_ok_def dest: spec[of _ p])

text \<open>A step that changes one state in place.\<close>

lemma promise_ok_upd:
  assumes "promise_ok good live P A r" and "world r p = Some st"
    and "refcount st' = of_bool (p \<in> P') + of_bool (p \<in> A')" and "p \<in> P' \<or> p \<in> A'"
    and "P' - {p} = P - {p}" and "A' - {p} = A - {p}"
    and "p \<in> set ready \<Longrightarrow> value st' \<noteq> None" and "set ready - {p} = set (m_ready r) - {p}" and "distinct ready"
  shows "promise_ok good live P' A' (r\<lparr>world := (world r)(p \<mapsto> st'), m_ready := ready\<rparr>) \<and>
    not_states live (r\<lparr>world := (world r)(p \<mapsto> st'), m_ready := ready\<rparr>) = not_states live r"
proof -
  let ?r = "r\<lparr>world := (world r)(p \<mapsto> st'), m_ready := ready\<rparr>"
  have "state_ok live P' A' ?r q" for q
  proof (cases "q = p")
    case True
    then show ?thesis
      using assms(3,4,7) promise_ok_Some(4)[OF assms(1,2)] by (simp add: state_ok_def)
  next
    case False
    then have "q \<in> P' \<longleftrightarrow> q \<in> P" "q \<in> A' \<longleftrightarrow> q \<in> A" "q \<in> set ready \<longleftrightarrow> q \<in> set (m_ready r)"
      using assms(5,6,8) by blast+
    moreover have "state_ok live P A r q"
      using assms(1) by (simp add: promise_ok_def)
    ultimately show ?thesis
      using False by (auto simp: state_ok_def split: option.splits)
  qed
  then show ?thesis
    using assms(1,2,9) by (auto simp: promise_ok_def not_states_def)
qed

context an_allocator
begin

abbreviation promise_fine :: "nat set \<Rightarrow> nat set \<Rightarrow> ('v, 's) promise_reactor \<Rightarrow> bool" where
  "promise_fine \<equiv> promise_ok inv live"

section \<open>The operations\<close>

lemma Promise_make_ok:
  assumes "promise_fine P A r" and "ok n al" and "0 < unat n"
  shows "\<exists>q r'. Promise_make coro n al r = Some (q, r') \<and> not_states live r' = not_states live r \<and>
    (q = Failure AllocationError \<and> promise_fine P A r' \<or> (\<exists>p. q = Ok (Some p) \<and> promise_fine (insert p P) A r'))"
proof -
  have "inv (reactor_alloc r)"
    using assms(1) by (simp add: promise_ok_def)
  from this assms(2) show ?thesis
  proof (cases rule: alloc_cases)
    case null
    then show ?thesis
      using assms(1) by (simp add: Promise_make_def)
  next
    case (chunk p s c)
    let ?r = "r\<lparr>reactor_alloc := s, world := (world r)(p \<mapsto> Promise_State_make)\<rparr>"
    have new: "world r p = None"
    proof (rule ccontr)
      assume "world r p \<noteq> None"
      then obtain d where "(p, d) \<in> live (reactor_alloc r)"
        using promise_ok_Some(4)[OF assms(1)] by blast
      then show False
        using chunk(4) by force
    qed
    have "0 < c"
      using assms(3) chunk(5) by simp
    have "state_ok live (insert p P) A ?r q" for q
    proof (cases "q = p")
      case True
      then show ?thesis
        using \<open>0 < c\<close> chunk(6) not_state[OF assms(1) new] by (auto simp: state_ok_def Promise_State_make_def)
    next
      case False
      have "state_ok live P A r q"
        using assms(1) by (simp add: promise_ok_def)
      then show ?thesis
        using False chunk(6) by (auto simp: state_ok_def split: option.splits)
    qed
    then have "promise_fine (insert p P) A ?r"
      using assms(1) chunk(2) by (simp add: promise_ok_def)
    moreover have "not_states live ?r = not_states live r"
      using chunk(4,6) by (force simp: not_states_def)
    ultimately show ?thesis
      using chunk(1) by (simp add: Promise_make_def)
  qed
qed

lemma downref_ok:
  assumes "promise_fine P A r" and "world r p = Some st"
    and "refcount st = of_bool (p \<in> P') + of_bool (p \<in> A') + 1"
    and "P' - {p} = P - {p}" and "A' - {p} = A - {p}"
  shows "\<exists>r'. downref coro p r = Some r' \<and> promise_fine P' A' r' \<and> not_states live r' = not_states live r \<and>
    (p \<in> P' \<or> p \<in> A' \<longrightarrow> world r' = (world r)(p \<mapsto> st\<lparr>refcount := refcount st - 1\<rparr>))"
proof (cases "p \<in> P' \<or> p \<in> A'")
  case True
  let ?st = "st\<lparr>refcount := refcount st - 1\<rparr>"
  have "p \<in> set (m_ready r) \<Longrightarrow> value ?st \<noteq> None"
    using promise_ok_Some(3)[OF assms(1,2)] by simp
  then have "promise_fine P' A' (r\<lparr>world := (world r)(p \<mapsto> ?st), m_ready := m_ready r\<rparr>) \<and>
      not_states live (r\<lparr>world := (world r)(p \<mapsto> ?st), m_ready := m_ready r\<rparr>) = not_states live r"
    using assms True by (intro promise_ok_upd[OF assms(1,2)]) (simp_all add: promise_ok_def)
  moreover have "refcount st - 1 \<noteq> 0"
    using True assms(3) by auto
  ultimately show ?thesis
    using assms(2) by (simp add: downref_def)
next
  case False
  have d: "distinct (m_ready r)" "m_gc_list r = []" and i: "inv (reactor_alloc r)"
    using assms(1) by (simp_all add: promise_ok_def)
  obtain c where c: "0 < c" "(p, c) \<in> live (reactor_alloc r)"
    using promise_ok_Some(4)[OF assms(1,2)] by blast
  obtain s where s: "dealloc (Some p) (reactor_alloc r) = Some s" "inv s" "live s = live (reactor_alloc r) - {(p, c)}"
    using dealloc_law[OF i c(2,1)] by blast
  have v: "(q, d) \<in> live s \<longleftrightarrow> (q, d) \<in> live (reactor_alloc r) \<and> q \<noteq> p" for q d
    using live_unique[OF i c(2), of d] by (cases "q = p") (auto simp: s(3))
  let ?r = "r\<lparr>m_ready := remove1 p (m_ready r), m_gc_list := [], world := (world r)(p := None), reactor_alloc := s\<rparr>"
  have "state_ok live P' A' ?r q" for q
  proof (cases "q = p")
    case True
    then show ?thesis
      using False d(1) by (simp add: state_ok_def)
  next
    case False
    then have "q \<in> P' \<longleftrightarrow> q \<in> P" "q \<in> A' \<longleftrightarrow> q \<in> A"
      using assms(4,5) by blast+
    moreover have "state_ok live P A r q"
      using assms(1) by (simp add: promise_ok_def)
    ultimately show ?thesis
      using False by (auto simp: state_ok_def v d(1) split: option.splits)
  qed
  then have "promise_fine P' A' ?r"
    using s(2) d(1) by (simp add: promise_ok_def)
  moreover have "not_states live ?r = not_states live r"
    using assms(2) by (auto simp: not_states_def v)
  moreover have "downref coro p r = Some ?r"
    using assms(2,3) False d(2) s(1) by (simp add: downref_def Let_def)
  ultimately show ?thesis
    using False by simp
qed

lemma get_awaiter_ok:
  assumes "promise_fine P A r" and "p \<in> P" and "p \<notin> A"
  shows "\<exists>r'. get_awaiter (Some p) r = Some (Some p, r') \<and> promise_fine P (insert p A) r' \<and> not_states live r' = not_states live r"
proof -
  obtain st where st: "world r p = Some st"
    using promise_ok_state[OF assms(1)] assms(2) by blast
  have c: "refcount st = 1"
    using promise_ok_Some(2)[OF assms(1) st] assms(2,3) by simp
  have "promise_fine P (insert p A) (r\<lparr>world := (world r)(p \<mapsto> st\<lparr>refcount := refcount st + 1\<rparr>), m_ready := m_ready r\<rparr>) \<and>
      not_states live (r\<lparr>world := (world r)(p \<mapsto> st\<lparr>refcount := refcount st + 1\<rparr>), m_ready := m_ready r\<rparr>) = not_states live r"
    using promise_ok_Some(3)[OF assms(1) st] assms c by (intro promise_ok_upd[OF assms(1) st]) (auto simp: promise_ok_def)
  then show ?thesis
    using st c by (simp add: get_awaiter_def has_awaiter_def Awaiter_make_def)
qed

lemma Promise_set_ok:
  assumes "promise_fine P A r" and "p \<in> P" and "is_set (Some p) r = Some False"
  shows "\<exists>r'. Promise_set (Some p) v r = Some r' \<and> promise_fine P A r' \<and> not_states live r' = not_states live r \<and>
    m_ready r' = m_ready r @ [p] \<and> (\<exists>st. world r p = Some st \<and> world r' = (world r)(p \<mapsto> st\<lparr>value := Some v\<rparr>))"
proof -
  obtain st where st: "world r p = Some st"
    using promise_ok_state[OF assms(1)] assms(2) by blast
  have p: "p \<notin> set (m_ready r)" and g: "m_gc_list r = []" "distinct (m_ready r)"
    using promise_ok_Some(3)[OF assms(1) st] assms(1,3) st by (auto simp: is_set_def promise_ok_def)
  have "promise_fine P A (r\<lparr>world := (world r)(p \<mapsto> st\<lparr>value := Some v\<rparr>), m_ready := m_ready r @ [p]\<rparr>) \<and>
      not_states live (r\<lparr>world := (world r)(p \<mapsto> st\<lparr>value := Some v\<rparr>), m_ready := m_ready r @ [p]\<rparr>) = not_states live r"
    using promise_ok_Some(1,2)[OF assms(1) st] p g by (intro promise_ok_upd[OF assms(1) st]) auto
  then show ?thesis
    using st p g assms(3) by (simp add: Promise_set_def schedule_def)
qed

lemma Awaiter_destroy_ok:
  assumes "promise_fine P A r" and "p \<in> A"
  shows "\<exists>r'. Awaiter_destroy coro (Some p) r = Some r' \<and> promise_fine P (A - {p}) r' \<and> not_states live r' = not_states live r"
proof -
  obtain st where st: "world r p = Some st"
    using promise_ok_state[OF assms(1)] assms(2) by blast
  have "refcount st = of_bool (p \<in> P) + of_bool (p \<in> A - {p}) + 1"
    using promise_ok_Some(2)[OF assms(1) st] assms(2) by simp
  then show ?thesis
    using downref_ok[OF assms(1) st, of P "A - {p}"] by (auto simp: Awaiter_destroy_def)
qed

lemma Promise_drop_ok:
  assumes "promise_fine P A r" and "p \<in> P"
  shows "\<exists>r'. downref coro p r = Some r' \<and> promise_fine (P - {p}) A r' \<and> not_states live r' = not_states live r \<and>
    (p \<in> A \<longrightarrow> (\<exists>st. world r p = Some st \<and> world r' = (world r)(p \<mapsto> st\<lparr>refcount := 1\<rparr>)))"
proof -
  obtain st where st: "world r p = Some st"
    using promise_ok_state[OF assms(1)] assms(2) by blast
  have c: "refcount st = of_bool (p \<in> P - {p}) + of_bool (p \<in> A) + 1"
    using promise_ok_Some(2)[OF assms(1) st] assms(2) by simp
  have "refcount st - 1 = 1" if "p \<in> A"
    using c that by simp
  then show ?thesis
    using downref_ok[OF assms(1) st c] st by auto
qed

lemma Promise_destroy_ok:
  assumes "promise_fine P A r" and "p \<in> P"
    and "p \<notin> A \<or> broken \<noteq> None \<and> is_set (Some p) r = Some False"
  shows "\<exists>r'. Promise_destroy coro broken (Some p) r = Some r' \<and> promise_fine (P - {p}) A r' \<and>
    not_states live r' = not_states live r \<and> (p \<in> A \<longrightarrow> Awaiter_await_resume (Some p) r' = broken \<and> p \<in> set (m_ready r'))"
proof -
  obtain st where st: "world r p = Some st"
    using promise_ok_state[OF assms(1)] assms(2) by blast
  have h: "has_awaiter (Some p) r = Some (p \<in> A)"
    using promise_ok_Some(2)[OF assms(1) st] assms(2) st by (simp add: has_awaiter_def)
  show ?thesis
  proof (cases "p \<in> A")
    case False
    then show ?thesis
      using Promise_drop_ok[OF assms(1,2)] h by (auto simp: Promise_destroy_def split: option.splits)
  next
    case True
    then obtain b where b: "broken = Some b" and u: "is_set (Some p) r = Some False"
      using assms(3) by blast
    obtain r1 where r1: "Promise_set (Some p) b r = Some r1" "promise_fine P A r1" "not_states live r1 = not_states live r"
        "m_ready r1 = m_ready r @ [p]" "world r1 = (world r)(p \<mapsto> st\<lparr>value := Some b\<rparr>)"
      using Promise_set_ok[OF assms(1,2) u, of b] st by auto
    obtain r' where r': "downref coro p r1 = Some r'" "promise_fine (P - {p}) A r'" "not_states live r' = not_states live r1"
        "world r' = (world r1)(p \<mapsto> st\<lparr>value := Some b, refcount := 1\<rparr>)"
      using Promise_drop_ok[OF r1(2) assms(2)] True r1(5) by auto
    have "refcount st - 1 \<noteq> 0"
      using promise_ok_Some(2)[OF assms(1) st] assms(2) True by simp
    then have "m_ready r' = m_ready r1"
      using r'(1) r1(5) by (auto simp: downref_def)
    then show ?thesis
      using r1 r' h b True by (simp add: Promise_destroy_def Awaiter_await_resume_def)
  qed
qed

lemma promise_run_ok:
  assumes "promise_run coro ok broken r0 r P A" and "promise_fine {} {} r0"
  shows "promise_fine P A r \<and> not_states live r = not_states live r0"
  using assms
proof (induction rule: promise_run.induct)
  case (make r P A n al p r')
  then show ?case
    using Promise_make_ok[of P A r n al] by auto
next
  case (no_room r P A n al e r')
  then show ?case
    using Promise_make_ok[of P A r n al] by auto
next
  case (awaiter r P A p m r')
  then show ?case
    using get_awaiter_ok[of P A r p] by auto
next
  case (fulfilled r P A p v r')
  then show ?case
    using Promise_set_ok[of P A r p v] by auto
next
  case (resumed r P A p ps)
  then have f: "promise_fine P A r"
    by blast
  have "state_ok live P A (r\<lparr>m_ready := ps\<rparr>) q" for q
  proof -
    have "state_ok live P A r q"
      using f by (simp add: promise_ok_def)
    then show ?thesis
      using resumed(2) by (auto simp: state_ok_def split: option.splits)
  qed
  then show ?case
    using f resumed by (auto simp: promise_ok_def not_states_def)
next
  case (drop_awaiter r P A p r')
  then show ?case
    using Awaiter_destroy_ok[of P A r p] by auto
next
  case (drop_promise r P A p r')
  then show ?case
    using Promise_destroy_ok[of P A r p broken] by auto
qed simp

end

section \<open>Promises on a pool\<close>

lemma promise_pool_start:
  assumes "alloc_valid (reactor_alloc r)" and "world r = Map.empty" and "m_ready r = []" and "m_gc_list r = []"
  shows "promise_ok alloc_valid live_chunks {} {} r \<and> not_states live_chunks r = live_chunks (reactor_alloc r)"
  using assms by (simp add: promise_ok_def state_ok_def not_states_def)

text \<open>
  Claim C15. In every run of promises and awaiters on a pool the state of a promise lives exactly as long as
  the promise or its awaiter, asking for an awaiter, setting, and destroying either of them hits no
  assertion, an awaiter whose promise is destroyed before it was set gets the broken promise, and
  the states are the only chunks taken: none is left when all promises and awaiters are gone. The
  runs leave out what the assertions forbid, above all to destroy a promise that is set while its
  awaiter lives.
\<close>

theorem Promise_run_counts:
  assumes "promise_run pool_coro_env request_ok broken r0 r P A"
    and "alloc_valid (reactor_alloc r0)" and "world r0 = Map.empty" and "m_ready r0 = []" and "m_gc_list r0 = []"
  shows "(\<forall>p. world r p \<noteq> None \<longleftrightarrow> p \<in> P \<or> p \<in> A) \<and>
    {x \<in> live_chunks (reactor_alloc r). world r (fst x) = None} = live_chunks (reactor_alloc r0) \<and>
    (\<forall>p \<in> P - A. \<exists>r'. get_awaiter (Some p) r = Some (Some p, r')) \<and>
    (\<forall>p \<in> P. is_set (Some p) r = Some False \<longrightarrow> (\<forall>v. \<exists>r'. Promise_set (Some p) v r = Some r' \<and> Awaiter_await_resume (Some p) r' = Some v)) \<and>
    (\<forall>p \<in> A. \<exists>r'. Awaiter_destroy pool_coro_env (Some p) r = Some r') \<and>
    (\<forall>p \<in> P. p \<notin> A \<or> broken \<noteq> None \<and> is_set (Some p) r = Some False \<longrightarrow>
       (\<exists>r'. Promise_destroy pool_coro_env broken (Some p) r = Some r' \<and>
         (p \<in> A \<longrightarrow> Awaiter_await_resume (Some p) r' = broken \<and> p \<in> set (m_ready r')))) \<and>
    (P = {} \<and> A = {} \<longrightarrow> live_chunks (reactor_alloc r) = live_chunks (reactor_alloc r0) \<and> m_ready r = [])"
proof -
  note E = pool_coro_env_def
  have ok: "promise_ok alloc_valid live_chunks P A r" and n: "not_states live_chunks r = live_chunks (reactor_alloc r0)"
    using pool.promise_run_ok[OF assms(1)[unfolded E]] promise_pool_start[OF assms(2-5)] by auto
  have w: "world r p \<noteq> None \<longleftrightarrow> p \<in> P \<or> p \<in> A" for p
    using promise_ok_Some(1)[OF ok, of p] not_state[OF ok, of p] by (cases "world r p") auto
  have set: "\<exists>r'. Promise_set (Some p) v r = Some r' \<and> Awaiter_await_resume (Some p) r' = Some v"
    if "p \<in> P" "is_set (Some p) r = Some False" for p v
    using pool.Promise_set_ok[OF ok that, of v] by (auto simp: Awaiter_await_resume_def)
  have fin: "live_chunks (reactor_alloc r) = live_chunks (reactor_alloc r0) \<and> m_ready r = []" if "P = {}" "A = {}"
  proof -
    have none: "world r p = None" for p
      using w[of p] that by blast
    then have "m_ready r = []"
      using not_state[OF ok] by (cases "m_ready r") (metis list.set_intros(1))+
    with none n show ?thesis
      by (simp add: not_states_def)
  qed
  have get: "\<forall>p \<in> P - A. \<exists>r'. get_awaiter (Some p) r = Some (Some p, r')"
    using pool.get_awaiter_ok[OF ok] by blast
  have drop: "\<forall>p \<in> A. \<exists>r'. Awaiter_destroy pool_coro_env (Some p) r = Some r'"
    using pool.Awaiter_destroy_ok[OF ok] unfolding E by blast
  have destroy: "\<exists>r'. Promise_destroy pool_coro_env broken (Some p) r = Some r' \<and>
      (p \<in> A \<longrightarrow> Awaiter_await_resume (Some p) r' = broken \<and> p \<in> set (m_ready r'))"
    if "p \<in> P" "p \<notin> A \<or> broken \<noteq> None \<and> is_set (Some p) r = Some False" for p
    using pool.Promise_destroy_ok[OF ok that] unfolding E by blast
  show ?thesis
    using w n[unfolded not_states_def] set get drop destroy fin by blast
qed

definition demo_promises :: "(nat, Allocator) promise_reactor" where
  "demo_promises = \<lparr>m_gc_list = [], m_polled = [], taken = [], m_ready = [], m_sleeping = [], reactor_alloc = demo_pool,
     m_previous_iteration_buffer = MIN_POLL_BUFFER, m_poll_buf = Vector_make, fallback = False,
     poll_node = (\<lambda>_. \<lparr>handle = - 1, event = 0\<rparr>), awake_time = (\<lambda>_. 0), world = Map.empty\<rparr>"

text \<open>The awaiter of a promise that is destroyed without a value gets the broken promise, here the value 9.\<close>

theorem Promise_run_counts_witness:
  "\<exists>r r'. promise_run pool_coro_env request_ok (Some 9) demo_promises r {4160} {4160} \<and>
     Promise_destroy pool_coro_env (Some 9) (Some 4160) r = Some r' \<and> Awaiter_await_resume (Some 4160) r' = Some 9"
proof -
  let ?r1 = "demo_promises\<lparr>reactor_alloc := demo_pool1, world := [4160 \<mapsto> Promise_State_make]\<rparr>"
  let ?r2 = "demo_promises\<lparr>reactor_alloc := demo_pool1, world := [4160 \<mapsto> Promise_State_make\<lparr>refcount := 2\<rparr>]\<rparr>"
  have m: "Promise_make pool_coro_env 40 64 demo_promises = Some (Ok (Some 4160), ?r1)"
    by (simp add: Promise_make_def pool_coro_env_def demo_promises_def demo_allocate)
  have "promise_run pool_coro_env request_ok (Some 9) demo_promises ?r1 {4160} {}"
    by (rule promise_run.make[where ok = request_ok, OF promise_run.start demo_request _ m]) simp
  then have run: "promise_run pool_coro_env request_ok (Some 9) demo_promises ?r2 {4160} {4160}"
    by (rule promise_run.awaiter) (simp_all add: get_awaiter_def has_awaiter_def Awaiter_make_def Promise_State_make_def)
  have start: "alloc_valid (reactor_alloc demo_promises)" "world demo_promises = Map.empty" "m_ready demo_promises = []"
      "m_gc_list demo_promises = []"
    by (simp_all add: demo_promises_def demo_pool_ok)
  have "4160 \<in> {4160 :: nat}" "Some 9 \<noteq> (None :: nat option) \<and> is_set (Some 4160) ?r2 = Some False"
    by (simp_all add: is_set_def Promise_State_make_def)
  then have "\<exists>r'. Promise_destroy pool_coro_env (Some 9) (Some 4160) ?r2 = Some r' \<and> Awaiter_await_resume (Some 4160) r' = Some 9"
    using Promise_run_counts[OF run start] by blast
  with run show ?thesis
    by blast
qed

end
