(* ===== verification/Corosig_Parallel.thy ===== *)
theory Corosig_Parallel
  imports Corosig_Vector Corosig_Reactor
begin

text \<open>
  Waiting for several coroutines: \<^verbatim>\<open>Parallel.hpp\<close>. An awaitable is a function on the state of the
  program: it runs the program until the result is there, \<^term>\<open>None\<close> if that never happens. The
  results of a tuple are a list; values of type void are the value of the unit type.
\<close>

type_synonym ('a, 'w) awaitable = "'w \<Rightarrow> ('a \<times> 'w) option"

section \<open>Waiting for all\<close>

primrec when_all :: "('a, 'w) awaitable list \<Rightarrow> ('a list, 'w) awaitable" where
  "when_all [] w = Some ([], w)"
| "when_all (a # awaitables) w = do {
     (x, w) \<leftarrow> a w;
     (xs, w) \<leftarrow> when_all awaitables w;
     Some (x # xs, w)
   }"

primrec first_error :: "('v, 'e) result list \<Rightarrow> 'e option option" where
  "first_error [] = Some None"
| "first_error (current_result # t) =
     (if \<not> is_ok current_result then map_option Some (result_error current_result) else first_error t)"

definition when_all_succeed :: "(('v, 'e) result, 'w) awaitable list \<Rightarrow> (('v list, 'e) result, 'w) awaitable" where
  "when_all_succeed awaitables w = do {
     (results, w) \<leftarrow> when_all awaitables w;
     error_opt \<leftarrow> first_error results;
     (case error_opt of
        Some e \<Rightarrow> Some (Failure e, w)
      | None \<Rightarrow> map_option (\<lambda>vs. (Ok vs, w)) (those (map result_value results)))
   }"

section \<open>A loop with parallel bodies\<close>

text \<open>
  The tasks are kept in a vector, which destroys its futures from the last to the first and then
  gives back its buffer. Destroying a future is the parameter \<^term>\<open>destroy_fut\<close>; a future that the vector
  did not take is destroyed too.
\<close>

primrec drop_futs :: "('f \<Rightarrow> ('w, 's) Reactor \<Rightarrow> ('w, 's) Reactor option) \<Rightarrow> 'f list \<Rightarrow> ('w, 's) Reactor \<Rightarrow> ('w, 's) Reactor option" where
  "drop_futs destroy_fut [] r = Some r"
| "drop_futs destroy_fut (f # fs) r = Option.bind (destroy_fut f r) (drop_futs destroy_fut fs)"

definition tasks_destroy ::
  "'s vector_env \<Rightarrow> ('f \<Rightarrow> ('w, 's) Reactor \<Rightarrow> ('w, 's) Reactor option) \<Rightarrow> 'f Vector \<Rightarrow> ('w, 's) Reactor \<Rightarrow> ('w, 's) Reactor option" where
  "tasks_destroy V destroy_fut tasks r = do {
     r \<leftarrow> drop_futs destroy_fut (rev (elems tasks)) r;
     s \<leftarrow> Vector_destroy V (tasks, reactor_alloc r);
     Some (r\<lparr>reactor_alloc := s\<rparr>)
   }"

primrec launch_tasks ::
  "'s vector_env \<Rightarrow> ('x \<Rightarrow> ('f, ('w, 's) Reactor) awaitable) \<Rightarrow> ('f \<Rightarrow> ('w, 's) Reactor \<Rightarrow> ('w, 's) Reactor option) \<Rightarrow>
   'x list \<Rightarrow> 'f Vector \<Rightarrow> ('w, 's) Reactor \<Rightarrow> ((unit, AllocationError) result \<times> 'f Vector \<times> ('w, 's) Reactor) option" where
  "launch_tasks V loop_body destroy_fut [] tasks r = Some (Ok (), tasks, r)"
| "launch_tasks V loop_body destroy_fut (x # values) tasks r = do {
     (f, r) \<leftarrow> loop_body x r;
     (res, tasks, s) \<leftarrow> push_back V f tasks (reactor_alloc r);
     (case res of
        Nothing \<Rightarrow> None
      | Failure e \<Rightarrow> map_option (\<lambda>r. (Failure e, tasks, r)) (destroy_fut f (r\<lparr>reactor_alloc := s\<rparr>))
      | Ok _ \<Rightarrow> launch_tasks V loop_body destroy_fut values tasks (r\<lparr>reactor_alloc := s\<rparr>))
   }"

primrec await_tasks ::
  "('f \<Rightarrow> ((unit, 'e) result, 'w) awaitable) \<Rightarrow> 'f list \<Rightarrow> (unit, 'e) result \<Rightarrow> ((unit, 'e) result, 'w) awaitable" where
  "await_tasks await [] res w = Some (res, w)"
| "await_tasks await (task # tasks) res w = do {
     (temp_result, w) \<leftarrow> await task w;
     await_tasks await tasks (if is_ok res \<and> \<not> is_ok temp_result then temp_result else res) w
   }"

definition parallel_foreach ::
  "'s vector_env \<Rightarrow> ('x \<Rightarrow> ('f, ('w, 's) Reactor) awaitable) \<Rightarrow> ('f \<Rightarrow> ('w, 's) Reactor \<Rightarrow> ('w, 's) Reactor option) \<Rightarrow>
   ('f \<Rightarrow> ((unit, 'e) result, ('w, 's) Reactor) awaitable) \<Rightarrow> (AllocationError \<Rightarrow> 'e) \<Rightarrow> bool \<Rightarrow> 'x list \<Rightarrow>
   ((unit, 'e) result, ('w, 's) Reactor) awaitable" where
  "parallel_foreach V loop_body destroy_fut await from_error sized values r = do {
     (res, tasks, s) \<leftarrow> (if sized then reserve V (length values) Vector_make (reactor_alloc r)
                        else Some (Ok (), Vector_make, reactor_alloc r));
     (res, tasks, r) \<leftarrow> (if is_ok res then launch_tasks V loop_body destroy_fut values tasks (r\<lparr>reactor_alloc := s\<rparr>)
                        else Some (res, tasks, r\<lparr>reactor_alloc := s\<rparr>));
     (result, r) \<leftarrow> (case res of
         Nothing \<Rightarrow> None
       | Failure e \<Rightarrow> Some (Failure (from_error e), r)
       | Ok _ \<Rightarrow> await_tasks await (elems tasks) (Ok ()) r);
     r \<leftarrow> tasks_destroy V destroy_fut tasks r;
     Some (result, r)
   }"

section \<open>A deadline\<close>

datatype 'v deadline_result = NotReady | TimedOut | Completed 'v

text \<open>
  A frame of one of the two coroutines of \<^verbatim>\<open>WithDeadlineAwaiter\<close>; there is none when it could not
  be allocated or was destroyed. A waiting coroutine of \<^term>\<open>None\<close> is the one that does nothing.
\<close>

datatype child = Gone | Suspended | Running | Finished

record 'v deadline =
  deadline_value :: "'v deadline_result"
  deadline_waiting :: "nat option"
  task :: child
  sleeper :: child

text \<open>
  The constructor runs both coroutines until they first suspend: the first returns at once when
  the awaitable is ready, with the value \<^term>\<open>ready\<close>, the other always sleeps. The other arguments
  tell whether their frames could be allocated.
\<close>

definition WithDeadlineAwaiter_make :: "bool \<Rightarrow> bool \<Rightarrow> 'v option \<Rightarrow> 'v deadline" where
  "WithDeadlineAwaiter_make task_frame sleeper_frame ready =
     \<lparr>deadline_value = (case ready of Some v \<Rightarrow> if task_frame then Completed v else NotReady | None \<Rightarrow> NotReady),
      deadline_waiting = None,
      task = (if \<not> task_frame then Gone else if ready = None then Suspended else Finished),
      sleeper = (if sleeper_frame then Suspended else Gone)\<rparr>"

definition deadline_await_ready :: "'v deadline \<Rightarrow> bool" where
  "deadline_await_ready d \<longleftrightarrow> deadline_value d \<noteq> NotReady"

definition deadline_await_suspend :: "nat \<Rightarrow> 'v deadline \<Rightarrow> 'v deadline" where
  "deadline_await_suspend h d = d\<lparr>deadline_waiting := Some h\<rparr>"

datatype TimedOutError = TimedOutError

definition deadline_await_resume :: "'v deadline \<Rightarrow> ('v, TimedOutError) result option" where
  "deadline_await_resume d = (case deadline_value d of
     NotReady \<Rightarrow> None | TimedOut \<Rightarrow> Some (Failure TimedOutError) | Completed v \<Rightarrow> Some (Ok v))"

text \<open>Destroying the awaiter destroys the frames; one that is running must not be destroyed.\<close>

definition WithDeadlineAwaiter_destroy :: "'v deadline \<Rightarrow> 'v deadline option" where
  "WithDeadlineAwaiter_destroy d =
     c_assert (sleeper d \<noteq> Running \<and> task d \<noteq> Running) (Some (d\<lparr>sleeper := Gone, task := Gone\<rparr>))"

text \<open>
  The rest of the two coroutines. What the waiting coroutine does when it is resumed, with the
  awaiter, is the parameter \<^term>\<open>resumed\<close>; a coroutine can only go on while its frame exists.
\<close>

definition resume_waiting :: "(nat \<Rightarrow> 'v deadline \<Rightarrow> 'v deadline option) \<Rightarrow> 'v deadline \<Rightarrow> 'v deadline option" where
  "resume_waiting resumed d = (case deadline_waiting d of None \<Rightarrow> Some d | Some h \<Rightarrow> resumed h d)"

definition task_completes :: "(nat \<Rightarrow> 'v deadline \<Rightarrow> 'v deadline option) \<Rightarrow> 'v \<Rightarrow> 'v deadline \<Rightarrow> 'v deadline option" where
  "task_completes resumed v d = c_assert (task d = Suspended) (do {
     d \<leftarrow> resume_waiting resumed (d\<lparr>task := Running, deadline_value := Completed v\<rparr>);
     c_assert (task d = Running) (Some (d\<lparr>task := Finished\<rparr>))
   })"

definition deadline_passes :: "(nat \<Rightarrow> 'v deadline \<Rightarrow> 'v deadline option) \<Rightarrow> 'v deadline \<Rightarrow> 'v deadline option" where
  "deadline_passes resumed d = c_assert (sleeper d = Suspended) (do {
     d \<leftarrow> (if deadline_value d = NotReady
          then resume_waiting resumed (d\<lparr>sleeper := Running, deadline_value := TimedOut\<rparr>)
          else Some (d\<lparr>sleeper := Running\<rparr>));
     c_assert (sleeper d = Running) (Some (d\<lparr>sleeper := Finished\<rparr>))
   })"

section \<open>What is returned\<close>

text \<open>
  Both wait for all awaitables, in order, also after an error; the error that is reported is that
  of the first one that failed.
\<close>

lemma first_error_cases:
  assumes "Nothing \<notin> set rs"
  obtains (all_ok) vs where "rs = map Ok vs" and "first_error rs = Some None"
  | (failed) vs e rest where "rs = map Ok vs @ Failure e # rest" and "first_error rs = Some (Some e)"
  using assms
proof (induction rs arbitrary: thesis)
  case (Cons r rs)
  show ?case
  proof (cases r)
    case (Ok v)
    have "Nothing \<notin> set rs"
      using Cons.prems(3) by simp
    then show ?thesis
    proof (rule Cons.IH[rotated 2])
      fix vs
      assume "rs = map Ok vs" "first_error rs = Some None"
      then show ?thesis
        using Ok by (intro Cons.prems(1)[of "v # vs"]) simp_all
    next
      fix vs e rest
      assume "rs = map Ok vs @ Failure e # rest" "first_error rs = Some (Some e)"
      then show ?thesis
        using Ok by (intro Cons.prems(2)[of "v # vs" e rest]) simp_all
    qed
  next
    case (Failure e)
    then show ?thesis
      by (intro Cons.prems(2)[of "[]" e rs]) simp_all
  qed (use Cons.prems(3) in auto)
qed auto

lemma first_error_at: "first_error (map Ok vs @ Failure e # rest) = Some (Some e)"
  by (induction vs) simp_all

lemma those_values: "those (map result_value (map Ok vs)) = Some vs"
  by (induction vs) simp_all

text \<open>The tasks of a loop are awaited like a tuple, and the first error is kept.\<close>

lemma await_tasks_all:
  "when_all (map await fs) w = Some (rs, w') \<Longrightarrow>
     await_tasks await fs res w = Some (foldl (\<lambda>res t. if is_ok res \<and> \<not> is_ok t then t else res) res rs, w')"
  by (induction fs arbitrary: res w rs) (auto split: bind_splits)

lemma first_kept: "\<not> is_ok e \<Longrightarrow> foldl (\<lambda>res t. if is_ok res \<and> \<not> is_ok t then t else res) e rs = e"
  by (induction rs) auto

lemma all_kept: "foldl (\<lambda>res t. if is_ok res \<and> \<not> is_ok t then t else res) (Ok ()) (map Ok vs) = Ok ()"
  by (induction vs) auto

lemma await_tasks_correct:
  assumes "when_all (map await fs) w = Some (rs, w')" and "Nothing \<notin> set rs"
  shows "\<exists>r. await_tasks await fs (Ok ()) w = Some (r, w') \<and> (first_error rs = Some None \<and> r = Ok () \<or>
    (\<exists>e. first_error rs = Some (Some e) \<and> r = Failure e))"
  using assms(2)
proof (cases rule: first_error_cases)
  case (all_ok vs)
  have "foldl (\<lambda>res t. if is_ok res \<and> \<not> is_ok t then t else res) (Ok ()) rs = Ok ()"
    unfolding all_ok(1) by (rule all_kept)
  then show ?thesis
    using await_tasks_all[OF assms(1), of "Ok ()"] all_ok(2) by simp
next
  case (failed vs e rest)
  have "foldl (\<lambda>res t. if is_ok res \<and> \<not> is_ok t then t else res) (Ok ()) rs = Failure e"
    unfolding failed(1) foldl_append all_kept by (simp add: first_kept)
  then show ?thesis
    using await_tasks_all[OF assms(1), of "Ok ()"] failed(2) by simp
qed

text \<open>
  \<^verbatim>\<open>when_all_succeed\<close> waits for all awaitables in order, also after one failed, and then gives all
  values, or the error of the first that failed.
\<close>

theorem when_all_succeed_correct:
  assumes "when_all awaitables w = Some (rs, w')" and "Nothing \<notin> set rs"
  shows "\<exists>r. when_all_succeed awaitables w = Some (r, w') \<and>
    (\<forall>vs. r = Ok vs \<longleftrightarrow> rs = map Ok vs) \<and>
    (\<forall>e. r = Failure e \<longleftrightarrow> (\<exists>vs rest. rs = map Ok vs @ Failure e # rest))"
  using assms(2)
proof (cases rule: first_error_cases)
  case (all_ok vs)
  have "rs \<noteq> map Ok ws @ Failure e # rest" for ws e rest
  proof
    assume "rs = map Ok ws @ Failure e # rest"
    then have "Failure e \<in> set (map Ok vs)"
      unfolding all_ok(1) by simp
    then show False
      by auto
  qed
  moreover have "rs = map Ok ws \<longleftrightarrow> vs = ws" for ws
    unfolding all_ok(1) by (simp add: inj_map_eq_map inj_on_def)
  moreover have "when_all_succeed awaitables w = Some (Ok vs, w')"
    using assms(1) all_ok(2) those_values[of vs] unfolding all_ok(1) by (simp add: when_all_succeed_def)
  ultimately show ?thesis
    by (intro exI[of _ "Ok vs"]) auto
next
  case (failed vs e rest)
  have neq: "rs \<noteq> map Ok ws" for ws
  proof
    assume "rs = map Ok ws"
    then have "Failure e \<in> set (map Ok ws)"
      unfolding failed(1) by (metis in_set_conv_decomp)
    then show False
      by auto
  qed
  have eq: "e' = e" if "rs = map Ok ws @ Failure e' # rest'" for e' ws rest'
    using failed(2) unfolding that first_error_at by simp
  have res: "when_all_succeed awaitables w = Some (Failure e, w')"
    using assms(1) failed(2) by (simp add: when_all_succeed_def)
  show ?thesis
  proof (intro exI[of _ "Failure e"] conjI allI)
    show "when_all_succeed awaitables w = Some (Failure e, w')"
      by (rule res)
    show "Failure e = Ok ws \<longleftrightarrow> rs = map Ok ws" for ws
      using neq by simp
    show "Failure e = Failure e' \<longleftrightarrow> (\<exists>ws rest. rs = map Ok ws @ Failure e' # rest)" for e'
      using eq failed(1) by (simp only: result.inject) blast
  qed
qed

theorem when_all_succeed_correct_witness:
  "\<exists>r. when_all_succeed [\<lambda>w. Some (Ok 1, w + 1), \<lambda>w. Some (Failure CHR ''x'', w + 1), \<lambda>w. Some (Ok (2 :: nat), w + (1 :: nat))] 0 = Some (r, 3) \<and>
     r = Failure CHR ''x''"
proof -
  have "when_all [\<lambda>w. Some (Ok 1, w + 1), \<lambda>w. Some (Failure CHR ''x'', w + 1), \<lambda>w. Some (Ok (2 :: nat), w + (1 :: nat))] 0 =
      Some (map Ok [1] @ Failure CHR ''x'' # [Ok 2], 3)"
    by simp
  from when_all_succeed_correct[OF this] show ?thesis
    by fastforce
qed

section \<open>Deadlines\<close>

text \<open>
  The frames of both coroutines go when the awaiter is destroyed. A waiting coroutine that
  destroys it when it is resumed, as every full expression
  \<^verbatim>\<open>co_await with_deadline(...)\<close> with a temporary does, destroys the frame that is resuming it.
\<close>

lemma with_deadline_temporary_undefined:
  assumes "deadline_waiting d = Some h" and "\<And>d d'. resumed h d = Some d' \<Longrightarrow> task d' = Gone \<and> sleeper d' = Gone"
  shows "task_completes resumed v d = None"
    and "deadline_value d = NotReady \<Longrightarrow> deadline_passes resumed d = None"
  using assms(2) by (auto simp: task_completes_def deadline_passes_def resume_waiting_def assms(1) split: bind_splits)

lemma with_deadline_destroy_in_resume:
  "WithDeadlineAwaiter_destroy (d\<lparr>task := Running\<rparr>) = None" "WithDeadlineAwaiter_destroy (d\<lparr>sleeper := Running\<rparr>) = None"
  by (simp_all add: WithDeadlineAwaiter_destroy_def)

text \<open>
  If the awaiter is kept, the result is the value, or the error of the deadline when that comes
  first. A value that comes before the deadline is never replaced; one that comes after it
  resumes the waiting coroutine a second time.
\<close>

lemma with_deadline_kept:
  fixes h v
  defines "d \<equiv> deadline_await_suspend h (WithDeadlineAwaiter_make True True None)"
  shows "\<exists>d1 d2. task_completes (\<lambda>_. Some) v d = Some d1 \<and> deadline_await_resume d1 = Some (Ok v) \<and>
      deadline_passes resumed d1 = Some d2 \<and> deadline_await_resume d2 = Some (Ok v)"
    and "\<exists>d1. deadline_passes (\<lambda>_. Some) d = Some d1 \<and> deadline_await_resume d1 = Some (Failure TimedOutError) \<and>
      task_completes (\<lambda>_ _. None) v d1 = None"
  by (simp_all add: d_def deadline_await_suspend_def WithDeadlineAwaiter_make_def task_completes_def deadline_passes_def
      resume_waiting_def deadline_await_resume_def)

text \<open>A coroutine whose frame could not be allocated is not reported: without the first, there is no value, without both nothing ever happens.\<close>

lemma with_deadline_no_memory:
  fixes h ready
  defines "d \<equiv> deadline_await_suspend h (WithDeadlineAwaiter_make False False ready)"
  shows "\<not> deadline_await_ready d \<and> task_completes resumed v d = None \<and> deadline_passes resumed d = None"
  by (simp add: d_def deadline_await_suspend_def WithDeadlineAwaiter_make_def task_completes_def deadline_passes_def
      deadline_await_ready_def split: option.splits)

end
