(* ===== verification/Corosig_Awaiters.thy ===== *)
theory Corosig_Awaiters
  imports Corosig_Reactor_Claims Corosig_Coro_Claims
begin

text \<open>
  The small parts around the event loop: the awaiters \<^verbatim>\<open>Yield\<close>, \<^verbatim>\<open>Sleep\<close> and \<^verbatim>\<open>PollEvent\<close>,
  the clocks, the signal handler of \<^verbatim>\<open>Sighandler.hpp\<close>, and \<^verbatim>\<open>UniquePtr\<close> and
  \<^verbatim>\<open>StdAllocator\<close> on top of an allocator. A node is named by the awaiter or promise it is part of.
\<close>

section \<open>Clocks\<close>

record timespec =
  tv_sec :: int
  tv_nsec :: int

text \<open>The clock is the parameter; the nanoseconds of the result are signed words of 64 bits, whose overflow is undefined.\<close>

definition in_rep :: "int \<Rightarrow> bool" where
  "in_rep i \<longleftrightarrow> - (2 ^ 63) \<le> i \<and> i < 2 ^ 63"

definition clock_gettime_ns :: "('w \<Rightarrow> timespec option \<times> 'w) \<Rightarrow> 'w \<Rightarrow> (int \<times> 'w) option" where
  "clock_gettime_ns clock_gettime w = (case clock_gettime w of
       (None, w) \<Rightarrow> Some (- 1, w)
     | (Some ts, w) \<Rightarrow>
         c_assert (in_rep (tv_sec ts * 1000000000) \<and> in_rep (tv_sec ts * 1000000000 + tv_nsec ts))
           (Some (tv_sec ts * 1000000000 + tv_nsec ts, w)))"

section \<open>Awaiters\<close>

text \<open>A coroutine whose promise is the node \<^term>\<open>p\<close>.\<close>

definition Yield_await_suspend :: "nat \<Rightarrow> ('w, 's) Reactor \<Rightarrow> ('w, 's) Reactor option" where
  "Yield_await_suspend p r = schedule p r"

definition Sleep_until :: "nat \<Rightarrow> int \<Rightarrow> ('w, 's) Reactor \<Rightarrow> ('w, 's) Reactor" where
  "Sleep_until n until r = r\<lparr>awake_time := (awake_time r)(n := until)\<rparr>"

definition Sleep_for :: "('w, 's) reactor_env \<Rightarrow> nat \<Rightarrow> int \<Rightarrow> ('w, 's) Reactor \<Rightarrow> ('w, 's) Reactor" where
  "Sleep_for R n sleep_for r = (let (now, w) = steady_now R (world r) in Sleep_until n (now + sleep_for) (r\<lparr>world := w\<rparr>))"

definition Sleep_await_suspend :: "nat \<Rightarrow> ('w, 's) Reactor \<Rightarrow> ('w, 's) Reactor option" where
  "Sleep_await_suspend n r = schedule_when_time_passes n r"

definition PollEvent_make :: "nat \<Rightarrow> PollListNode \<Rightarrow> ('w, 's) Reactor \<Rightarrow> ('w, 's) Reactor" where
  "PollEvent_make n node r = r\<lparr>poll_node := (poll_node r)(n := node)\<rparr>"

definition PollEvent_await_suspend :: "nat \<Rightarrow> ('w, 's) Reactor \<Rightarrow> ('w, 's) Reactor option" where
  "PollEvent_await_suspend n r = schedule_when_ready n r"

text \<open>
  Awaiting is one of the actions under which the lists of the reactor stay consistent. (Awaiting a
  node twice fails an assertion.)
\<close>

lemma awaiters_are_actions:
  "Yield_await_suspend p r = Some r' \<Longrightarrow> reactor_action r r'"
  "Sleep_await_suspend n (Sleep_until n t r) = Some r' \<Longrightarrow> reactor_action r r'"
  "PollEvent_await_suspend n (PollEvent_make n node r) = Some r' \<Longrightarrow> reactor_action r r'"
  unfolding Yield_await_suspend_def Sleep_await_suspend_def Sleep_until_def PollEvent_await_suspend_def PollEvent_make_def
  by (rule reactor_action.intros; assumption)+

text \<open>Sleeping for a duration links the node among the sleepers, due that long after the time the clock gives.\<close>

lemma Sleep_for_wakes_later:
  assumes "reactor_ok r" and "n \<notin> set (m_sleeping r)"
  shows "\<exists>r' w now. Sleep_await_suspend n (Sleep_for R n d r) = Some r' \<and> steady_now R (world r) = (now, w) \<and> reactor_ok r' \<and>
    set (m_sleeping r') = insert n (set (m_sleeping r)) \<and> awake_time r' n = now + d"
proof -
  obtain now w where c: "steady_now R (world r) = (now, w)"
    by fastforce
  let ?r = "r\<lparr>world := w\<rparr>"
  have ok: "reactor_ok ?r"
    using assms(1) by (simp add: reactor_ok_def)
  obtain r' where s: "schedule_when_time_passes n (?r\<lparr>awake_time := (awake_time ?r)(n := now + d)\<rparr>) = Some r'"
    using assms(2) by (simp add: schedule_when_time_passes_eq)
  then show ?thesis
    using sleep_ok[OF ok s] c by (simp add: Sleep_await_suspend_def Sleep_for_def Sleep_until_def)
qed

section \<open>The signal handler\<close>

text \<open>
  \<^verbatim>\<open>detail::sighandler\<close>: the default action is restored first, the reactor lives on memory of its own,
  \<^verbatim>\<open>F(reactor, sig).block_on()\<close> and the write to \<^verbatim>\<open>STDERR\<close> are parameters, whose errors and those of
  the remaining tasks are dropped.
\<close>

definition sighandler ::
  "('w, 's) reactor_env \<Rightarrow> (int \<Rightarrow> 'w \<Rightarrow> 'w) \<Rightarrow> (int \<Rightarrow> ('w, 's) Reactor \<Rightarrow> (('v, 'e) result \<times> ('w, 's) Reactor) option) \<Rightarrow>
   (('w, 's) Reactor \<Rightarrow> ('w, 's) Reactor option) \<Rightarrow> 's \<Rightarrow> int \<Rightarrow> 'w \<Rightarrow> ('s \<times> 'w) option" where
  "sighandler R signal_default block_on_F write_stderr mem sig w = do {
     reactor \<leftarrow> Reactor_make R mem (signal_default sig w);
     (res, reactor) \<leftarrow> block_on_F sig reactor;
     reactor \<leftarrow> (if \<not> is_ok res then write_stderr reactor else Some reactor);
     (_, reactor) \<leftarrow> drain_remaining_tasks R reactor;
     s \<leftarrow> Reactor_destroy R reactor;
     Some (s, world reactor)
   }"

section \<open>Owning pointers\<close>

definition make_unique ::
  "'s coro_env \<Rightarrow> u64 \<Rightarrow> u64 \<Rightarrow> 's \<Rightarrow> ((nat, AllocationError) result \<times> 's) option" where
  "make_unique alloc size_T align_T s =
     map_option (\<lambda>(p, s). case p of None \<Rightarrow> (Failure AllocationError, s) | Some p \<Rightarrow> (Ok p, s))
       (frame_allocate alloc size_T align_T s)"

definition AllocatorBoundDeleter :: "'s coro_env \<Rightarrow> nat option \<Rightarrow> 's \<Rightarrow> 's option" where
  "AllocatorBoundDeleter alloc p s = (case p of Some p \<Rightarrow> frame_deallocate alloc (Some p) s | None \<Rightarrow> Some s)"

text \<open>The product of the size and the number of objects wraps.\<close>

definition StdAllocator_allocate :: "'s coro_env \<Rightarrow> u64 \<Rightarrow> u64 \<Rightarrow> u64 \<Rightarrow> 's \<Rightarrow> (nat option \<times> 's) option" where
  "StdAllocator_allocate alloc size_T align_T n = frame_allocate alloc (size_T * n) align_T"

definition StdAllocator_deallocate :: "'s coro_env \<Rightarrow> nat option \<Rightarrow> u64 \<Rightarrow> 's \<Rightarrow> 's option" where
  "StdAllocator_deallocate alloc p n = frame_deallocate alloc p"

context an_allocator
begin

lemma make_unique_delete:
  assumes "inv s" and "ok sz al" and "0 < unat sz"
  shows "make_unique coro sz al s = Some (Failure AllocationError, s) \<or>
    (\<exists>p c s1 s2. make_unique coro sz al s = Some (Ok p, s1) \<and> live s1 = insert (p, c) (live s) \<and> unat sz \<le> c \<and>
       AllocatorBoundDeleter coro (Some p) s1 = Some s2 \<and> inv s2 \<and> live s2 = live s)"
  using assms(1,2)
proof (cases rule: alloc_cases)
  case null
  then show ?thesis
    by (simp add: make_unique_def)
next
  case (chunk p s1 c)
  have "(p, c) \<in> live s1" "0 < c"
    using chunk(5,6) assms(3) by auto
  then obtain s2 where "dealloc (Some p) s1 = Some s2" "inv s2" "live s2 = live s1 - {(p, c)}"
    using dealloc_law[OF chunk(2)] by blast
  moreover have "live s1 - {(p, c)} = live s"
    using chunk(4,6) by force
  ultimately show ?thesis
    using chunk by (auto simp: make_unique_def AllocatorBoundDeleter_def)
qed

end

text \<open>Without a check of the number, a small chunk is given for many objects.\<close>

lemma StdAllocator_allocate_wraps:
  "StdAllocator_allocate E 16 al (2 ^ 60 + 1) = frame_allocate E 16 al"
proof -
  have "(16 :: u64) * (2 ^ 60 + 1) = 16"
    by code_simp
  then show ?thesis
    unfolding StdAllocator_allocate_def by (rule arg_cong)
qed

end
