(* ===== verification/Corosig_Semaphore_Live.thy ===== *)
theory Corosig_Semaphore_Live
  imports Corosig_Semaphore
begin

text \<open>
  What becomes of the waiters of a \<^verbatim>\<open>Semaphore\<close>: while nobody takes units anew, releasing holders
  and resuming granted waiters serves every waiter; awaiters that are destroyed while they wait
  or before they are resumed break this.
\<close>

section \<open>Draining\<close>

inductive drain_step :: "sem_config \<Rightarrow> sem_config \<Rightarrow> bool" where
  resume: "m_scheduled s = ws @ w # ws' \<Longrightarrow>
    drain_step (s, hs) (s\<lparr>m_scheduled := ws @ ws'\<rparr>, add_mset (await_resume w) hs)"
| release: "h \<in># hs \<Longrightarrow> Holder_reset h s = Some (h', s') \<Longrightarrow> drain_step (s, hs) (s', hs - {#h#})"

lemma drain_is_step: "drain_step c c' \<Longrightarrow> sem_step c c'"
  by (induction rule: drain_step.induct) (auto intro: sem_step.intros)

lemma drain_run: "drain_step\<^sup>*\<^sup>* c c' \<Longrightarrow> sem_run mx c \<Longrightarrow> sem_run mx c'"
  by (induction rule: rtranclp_induct) (auto intro: sem_run.step drain_is_step)

text \<open>Each step serves a waiter or makes a holder of one that was served, or removes a holder.\<close>

definition unserved :: "sem_config \<Rightarrow> nat" where
  "unserved = (\<lambda>(s, hs). 3 * length (m_waiters s) + 2 * length (m_scheduled s) + size hs)"

lemma drain_decreases:
  assumes "drain_step c c'" and "sem_run mx c" and "unat mx < 2 ^ 63"
  shows "unserved c' < unserved c"
  using assms(1)
proof cases
  case (resume s ws w ws' hs)
  then show ?thesis
    by (simp add: unserved_def)
next
  case (release h hs s h' s')
  obtain k where "m_waiters s' = drop k (m_waiters s)" "m_scheduled s' = m_scheduled s @ take k (m_waiters s)"
    using Holder_reset_ok[OF sem_run_inv[OF assms(2)[unfolded release(1)] assms(3)] assms(3) release(3)] release(4) by auto
  moreover have "size (hs - {#h#}) < size hs"
    using release(3) by (rule size_Diff1_less)
  moreover have "3 * (n - k) + 2 * min n k \<le> 3 * n" for n :: nat
    by (cases "k \<le> n") simp_all
  from this[of "length (m_waiters s)"]
  have "3 * length (drop k (m_waiters s)) + 2 * length (take k (m_waiters s)) \<le> 3 * length (m_waiters s)"
    by simp
  ultimately show ?thesis
    using release by (simp add: unserved_def)
qed

lemma drain_stuck:
  assumes "sem_run mx (s, hs)" and "unat mx < 2 ^ 63" and "\<nexists>c. drain_step (s, hs) c"
  shows "m_waiters s = [] \<and> m_scheduled s = [] \<and> hs = {#} \<and> m_current_parallelism s = 0"
proof -
  have i: "sem_inv mx (s, hs)"
    using sem_run_inv[OF assms(1,2)] .
  have hs: "hs = {#}"
    using Holder_reset_ok[OF i assms(2)] assms(3) drain_step.release by (metis multiset_nonemptyE)
  moreover have sch: "m_scheduled s = []"
    using assms(3) drain_step.resume[of s "[]"] by (cases "m_scheduled s") fastforce+
  ultimately have c: "m_current_parallelism s = 0"
    using i by (simp add: sem_inv_iff granted_def unat_eq_0)
  have "m_waiters s = []"
  proof (cases "m_waiters s")
    case (Cons w ws)
    then have "waiter_units w \<le> mx" "would_block (waiter_units w) s" "m_max_parallelism s = mx"
      using i by (auto simp: sem_inv_iff front_blocks_def)
    then show ?thesis
      using c by (simp add: would_block_def)
  qed
  with hs sch c show ?thesis
    by simp
qed

text \<open>
  Claim C11. From every reachable state, if no units are taken anew, releasing holders and resuming granted
  waiters cannot go on for ever, and it cannot stop before every waiter was served: at the end
  nobody waits, nothing is held, and the semaphore can be destroyed.
\<close>

theorem Semaphore_drains:
  assumes "sem_run mx c" and "unat mx < 2 ^ 63"
  shows "(\<nexists>f. f 0 = c \<and> (\<forall>i. drain_step (f i) (f (Suc i)))) \<and>
    (\<forall>s hs. drain_step\<^sup>*\<^sup>* c (s, hs) \<and> (\<nexists>c'. drain_step (s, hs) c') \<longrightarrow>
       m_waiters s = [] \<and> m_scheduled s = [] \<and> hs = {#} \<and> Semaphore_destroy s = Some ())"
proof (intro conjI notI allI impI)
  assume "\<exists>f. f 0 = c \<and> (\<forall>i. drain_step (f i) (f (Suc i)))"
  then obtain f where f: "f 0 = c" "\<And>i. drain_step (f i) (f (Suc i))"
    by blast
  have run: "sem_run mx (f i)" for i
    by (induction i) (auto simp: f(1) assms(1) intro: sem_run.step drain_is_step[OF f(2)])
  have "unserved (f i) + i \<le> unserved c" for i
  proof (induction i)
    case (Suc i)
    then show ?case
      using drain_decreases[OF f(2) run assms(2), of i] by linarith
  qed (simp add: f(1))
  from this[of "Suc (unserved c)"] show False
    by simp
next
  fix s hs
  assume "drain_step\<^sup>*\<^sup>* c (s, hs) \<and> (\<nexists>c'. drain_step (s, hs) c')"
  with drain_stuck[OF drain_run[OF _ assms(1)] assms(2)]
  show "m_waiters s = []" "m_scheduled s = []" "hs = {#}" "Semaphore_destroy s = Some ()"
    by (auto simp: Semaphore_destroy_def)
qed

lemma demo_wait_run: "sem_run 2 (\<lparr>m_max_parallelism = 2, m_current_parallelism = 2,
    m_waiters = [\<lparr>waiter_id = 7, waiter_units = 1\<rparr>], m_scheduled = []\<rparr>, {#Holder_make 2#})"
proof -
  let ?s = "\<lparr>m_max_parallelism = 2, m_current_parallelism = 2, m_waiters = [], m_scheduled = []\<rparr> :: Semaphore"
  have "sem_step (?s, {#Holder_make 2#}) (await_suspend \<lparr>waiter_id = 7, waiter_units = 1\<rparr> ?s, {#Holder_make 2#})"
    by (rule sem_step.suspend[of 7 1]) (simp_all add: hold_def await_ready_def would_block_def)
  then show ?thesis
    using sem_run.step[OF demo_sem_run] by (simp add: await_suspend_def)
qed

theorem Semaphore_drains_witness:
  "\<exists>s hs. sem_run 2 (s, hs) \<and> length (m_waiters s) = 1 \<and> (\<nexists>f. f 0 = (s, hs) \<and> (\<forall>i. drain_step (f i) (f (Suc i))))"
proof -
  have "unat (2 :: u64) < 2 ^ 63"
    by simp
  note Semaphore_drains[OF demo_wait_run this, THEN conjunct1]
  with demo_wait_run show ?thesis
    by (intro exI conjI) (assumption, simp_all)
qed

section \<open>What can go wrong\<close>

text \<open>
  A granted awaiter that is destroyed before it is resumed takes its units with it: without any
  holder the semaphore stays full, every new request waits and the destructor asserts.
\<close>

lemma HolderAwaiter_destroy_leaks:
  fixes s :: Semaphore
  defines "s \<equiv> \<lparr>m_max_parallelism = 1, m_current_parallelism = 1, m_waiters = [\<lparr>waiter_id = 7, waiter_units = 1\<rparr>], m_scheduled = []\<rparr>"
  shows "\<exists>h' s'. Holder_reset (Holder_make 1) s = Some (h', s') \<and> m_waiters s' = [] \<and>
    (let t = HolderAwaiter_destroy 7 s' in m_scheduled t = [] \<and> would_block 1 t \<and> Semaphore_destroy t = None)"
  by (simp add: s_def Holder_reset_def Holder_make_def free_units_def would_block_def take_units_def
      HolderAwaiter_destroy_def Semaphore_destroy_def)

text \<open>
  A waiter in front that is destroyed does not wake those behind it, although their units are
  free; and a request that does not block overtakes all that wait.
\<close>

lemma HolderAwaiter_destroy_wakes_nobody:
  fixes s :: Semaphore
  defines "s \<equiv> \<lparr>m_max_parallelism = 2, m_current_parallelism = 1,
    m_waiters = [\<lparr>waiter_id = 7, waiter_units = 2\<rparr>, \<lparr>waiter_id = 8, waiter_units = 1\<rparr>], m_scheduled = []\<rparr>"
  shows "m_waiters (HolderAwaiter_destroy 7 s) = [\<lparr>waiter_id = 8, waiter_units = 1\<rparr>]"
    and "\<not> would_block 1 (HolderAwaiter_destroy 7 s)"
    and "\<exists>s'. try_hold 1 s = Some (Some (Holder_make 1), s') \<and> m_waiters s' = m_waiters s"
  by (simp_all add: s_def HolderAwaiter_destroy_def would_block_def try_hold_def take_units_def)

end
