(* ===== verification/Corosig_Reactor_Live.thy ===== *)
theory Corosig_Reactor_Live
  imports Corosig_Reactor_Claims
begin









end
