(* ===== verification/Corosig_Errors.thy ===== *)
theory Corosig_Errors
  imports Main
begin

text \<open>
  The types of errors: \<^verbatim>\<open>ErrorTypes.hpp\<close> computes the error type of a function from those of what it
  calls, and \<^verbatim>\<open>util/Variant.hpp\<close> converts the values. A type is a name, an error type is a single
  type or an \<^verbatim>\<open>Error\<close> with alternatives, and a value carries the type it holds. \<^term>\<open>None\<close> is a
  program that does not compile. \<^verbatim>\<open>boost::mp11::mp_unique\<close> is the parameter \<^term>\<open>unique\<close>.
\<close>

section \<open>Error types\<close>

datatype 'ty error_type = Single 'ty | Error "'ty list"

text \<open>The arguments of an instance of \<^verbatim>\<open>Error\<close>; every other type stands for itself.\<close>

primrec alternatives :: "'ty error_type \<Rightarrow> 'ty list" where
  "alternatives (Single t) = [t]"
| "alternatives (Error ts) = ts"

definition filtered_unique_list :: "('ty list \<Rightarrow> 'ty list) \<Rightarrow> 'ty \<Rightarrow> 'ty list \<Rightarrow> 'ty list" where
  "filtered_unique_list unique NoError ts = filter (\<lambda>t. t \<noteq> NoError) (unique ts)"

text \<open>Both branches of the conditional are formed: without any type there is no front.\<close>

definition combined_errors :: "'ty list \<Rightarrow> 'ty error_type option" where
  "combined_errors es = (case es of [] \<Rightarrow> None | e # rest \<Rightarrow> Some (if length es = 1 then Single e else Error es))"

definition extend_error_with :: "('ty list \<Rightarrow> 'ty list) \<Rightarrow> 'ty \<Rightarrow> 'ty error_type \<Rightarrow> 'ty error_type \<Rightarrow> 'ty error_type option" where
  "extend_error_with unique NoError E1 E2 =
     combined_errors (filtered_unique_list unique NoError (alternatives E1 @ alternatives E2))"

primrec extend_error_from ::
  "('ty list \<Rightarrow> 'ty list) \<Rightarrow> 'ty \<Rightarrow> 'ty error_type \<Rightarrow> 'ty error_type list \<Rightarrow> 'ty error_type option" where
  "extend_error_from unique NoError E [] = Some E"
| "extend_error_from unique NoError E (F # Fs) =
     Option.bind (extend_error_with unique NoError E F) (\<lambda>E. extend_error_from unique NoError E Fs)"

definition extend_error :: "('ty list \<Rightarrow> 'ty list) \<Rightarrow> 'ty \<Rightarrow> 'ty error_type list \<Rightarrow> 'ty error_type option" where
  "extend_error unique NoError Es = extend_error_from unique NoError (Error []) Es"

section \<open>Converting values\<close>

text \<open>A value with the alternative that it holds.\<close>

type_synonym ('ty, 'v) tagged = "'ty \<times> 'v"

definition holds :: "'ty \<Rightarrow> ('ty, 'v) tagged \<Rightarrow> bool" where
  "holds t v \<longleftrightarrow> fst v = t"

definition as_alternative :: "'ty \<Rightarrow> ('ty, 'v) tagged \<Rightarrow> 'v option" where
  "as_alternative t v = (if holds t v then Some (snd v) else None)"

definition Variant_eq :: "('ty, 'v) tagged \<Rightarrow> 'ty \<Rightarrow> 'v \<Rightarrow> bool" where
  "Variant_eq v t value \<longleftrightarrow> holds t v \<and> as_alternative t v = Some value"

text \<open>The description of the alternative, if its type has one, and otherwise the name of the type.\<close>

definition Error_description :: "('ty \<Rightarrow> ('v \<Rightarrow> string) option) \<Rightarrow> ('ty \<Rightarrow> string) \<Rightarrow> ('ty, 'v) tagged \<Rightarrow> string" where
  "Error_description with_description type_name v = (case with_description (fst v) of
     Some description \<Rightarrow> description (snd v)
   | None \<Rightarrow> type_name (fst v))"

definition is_same_list_but_shuffled :: "'ty list \<Rightarrow> 'ty list \<Rightarrow> bool" where
  "is_same_list_but_shuffled alts alts_other \<longleftrightarrow> alts \<noteq> alts_other \<and> (\<forall>t \<in> set alts_other. t \<in> set alts)"

text \<open>
  Converting a value of error type \<^term>\<open>F\<close> to one of type \<^term>\<open>E\<close>: a copy, the constructor of a variant
  from one of its alternatives, or that from a variant with fewer or shuffled alternatives, which
  visits the value and keeps its type.
\<close>

definition convert_other_variant :: "'ty list \<Rightarrow> ('ty, 'v) tagged \<Rightarrow> ('ty, 'v) tagged option" where
  "convert_other_variant alts rhs = (if fst rhs \<in> set alts then Some (fst rhs, snd rhs) else None)"

definition convert_error :: "'ty error_type \<Rightarrow> 'ty error_type \<Rightarrow> ('ty, 'v) tagged \<Rightarrow> ('ty, 'v) tagged option" where
  "convert_error E F v =
     (if E = F then Some v
      else case (E, F) of
        (Error ts, Single t) \<Rightarrow> (if t \<in> set ts then Some v else None)
      | (Error ts, Error us) \<Rightarrow> (if is_same_list_but_shuffled ts us then convert_other_variant ts v else None)
      | (Single _, _) \<Rightarrow> None)"

definition has_type :: "'ty error_type \<Rightarrow> ('ty, 'v) tagged \<Rightarrow> bool" where
  "has_type E v \<longleftrightarrow> fst v \<in> set (alternatives E)"

text \<open>The static assertion of \<^verbatim>\<open>Error\<close>.\<close>

definition well_formed :: "'ty error_type \<Rightarrow> bool" where
  "well_formed E \<longleftrightarrow> distinct (alternatives E)"

section \<open>Functions return what they call\<close>

text \<open>
  A type that \<^term>\<open>extend_error\<close> can give: no alternative is \<^verbatim>\<open>NoError\<close>, and one alternative alone is not
  wrapped.
\<close>

definition normal :: "'ty \<Rightarrow> 'ty error_type \<Rightarrow> bool" where
  "normal NoError E \<longleftrightarrow> NoError \<notin> set (alternatives E) \<and> (\<forall>t. E \<noteq> Error [t])"

definition mp_unique_spec :: "('ty list \<Rightarrow> 'ty list) \<Rightarrow> bool" where
  "mp_unique_spec unique \<longleftrightarrow> (\<forall>xs. distinct (unique xs) \<and> set (unique xs) = set xs)"

lemma combined_errors_alternatives:
  "combined_errors es = Some E \<Longrightarrow> alternatives E = es \<and> es \<noteq> [] \<and> (\<forall>t. E \<noteq> Error [t])"
  by (auto simp: combined_errors_def split: list.splits if_splits)

lemma extend_error_with_alternatives:
  assumes "mp_unique_spec unique" and "extend_error_with unique NoError E F = Some G"
  shows "well_formed G" and "normal NoError G"
    and "set (alternatives G) = set (alternatives E) \<union> set (alternatives F) - {NoError}"
  using assms combined_errors_alternatives[of _ G]
  by (auto simp: extend_error_with_def filtered_unique_list_def mp_unique_spec_def well_formed_def normal_def)

lemma extend_error_from_alternatives:
  assumes "mp_unique_spec unique"
  shows "extend_error_from unique NoError E Es = Some G \<Longrightarrow> well_formed E \<Longrightarrow> normal NoError E \<Longrightarrow>
    well_formed G \<and> normal NoError G \<and>
    set (alternatives G) = set (alternatives E) \<union> (\<Union>F \<in> set Es. set (alternatives F)) - {NoError}"
proof (induction Es arbitrary: E)
  case Nil
  then show ?case
    by (auto simp: normal_def)
next
  case (Cons F Fs)
  obtain H where H: "extend_error_with unique NoError E F = Some H" "extend_error_from unique NoError H Fs = Some G"
    using Cons.prems(1) by (auto split: bind_splits)
  note h = extend_error_with_alternatives[OF assms H(1)]
  show ?case
    using Cons.IH[OF H(2) h(1,2)] h(3) by auto
qed

lemma distinct_subset_single: "distinct us \<Longrightarrow> set us \<subseteq> {e} \<Longrightarrow> us = [] \<or> us = [e]"
  by (cases us; cases "tl us") auto

text \<open>An \<^verbatim>\<open>Error\<close> with one alternative is not the type of that alternative, nor converts to it.\<close>

definition unwrapped :: "'ty error_type \<Rightarrow> 'ty error_type \<Rightarrow> bool" where
  "unwrapped E F \<longleftrightarrow> (\<exists>t. F = Error [t] \<and> E = Single t)"

lemma convert_unwrapped: "unwrapped E F \<Longrightarrow> convert_error E F v = None"
  by (auto simp: unwrapped_def convert_error_def)

lemma convert_error_ok:
  assumes "\<not> unwrapped E F" and "well_formed F" and "set (alternatives F) \<subseteq> set (alternatives E)" and "has_type F v"
  shows "convert_error E F v = Some v \<and> has_type E v"
proof -
  have v: "fst v \<in> set (alternatives E)"
    using assms(3,4) by (auto simp: has_type_def)
  show ?thesis
  proof (cases "E = F")
    case False
    show ?thesis
    proof (cases E)
      case (Single e)
      have "F = Error []"
      proof (cases F)
        case (Error us)
        then show ?thesis
          using assms(1,2,3) Single distinct_subset_single[of us e] by (auto simp: unwrapped_def well_formed_def)
      qed (use False Single assms(3) in auto)
      then show ?thesis
        using assms(4) by (simp add: has_type_def)
    next
      case (Error ts)
      then show ?thesis
        using False v assms(3)
        by (cases F) (auto simp: convert_error_def convert_other_variant_def is_same_list_but_shuffled_def has_type_def)
    qed
  qed (use v in \<open>simp add: convert_error_def has_type_def\<close>)
qed

lemma extend_error_no_errors:
  assumes "mp_unique_spec unique"
  shows "extend_error unique NoError (Single NoError # Es) = None"
proof -
  have "set (unique [NoError]) = {NoError}"
    using assms by (simp add: mp_unique_spec_def)
  then have "filter (\<lambda>t. t \<noteq> NoError) (unique [NoError]) = []"
    by (auto simp: filter_empty_conv)
  then show ?thesis
    by (simp add: extend_error_def extend_error_with_def filtered_unique_list_def combined_errors_def)
qed

text \<open>
  Claim C24. Type soundness of error propagation: the error type that \<^verbatim>\<open>extend_error\<close> computes from those of the
  called functions is an \<^verbatim>\<open>Error\<close> without duplicates (or a single type), never mentions \<^verbatim>\<open>NoError\<close>, has
  exactly the alternatives of its arguments, and accepts every value of an argument type without
  \<^verbatim>\<open>NoError\<close>, unchanged and as the alternative that it was, with one exception: when the result is a
  single type, an argument \<^verbatim>\<open>Error\<close> with just that alternative is not accepted. \<^verbatim>\<open>mp_unique\<close> is any
  function that removes duplicates.
\<close>

theorem extend_error_typed:
  assumes "mp_unique_spec unique" and "extend_error unique NoError Es = Some T"
  shows "well_formed T \<and> normal NoError T \<and>
    set (alternatives T) = (\<Union>E \<in> set Es. set (alternatives E)) - {NoError} \<and>
    (\<forall>E \<in> set Es. well_formed E \<and> NoError \<notin> set (alternatives E) \<longrightarrow>
      (\<forall>v :: ('ty, 'v) tagged. has_type E v \<longrightarrow>
         (if unwrapped T E then convert_error T E v = None else convert_error T E v = Some v \<and> has_type T v)))"
proof -
  have T: "well_formed T \<and> normal NoError T \<and> set (alternatives T) = (\<Union>E \<in> set Es. set (alternatives E)) - {NoError}"
    using extend_error_from_alternatives[OF assms(1), of NoError "Error []" Es T] assms(2)
    by (simp add: extend_error_def well_formed_def normal_def)
  have "if unwrapped T E then convert_error T E v = None else convert_error T E v = Some v \<and> has_type T v"
    if "E \<in> set Es" "well_formed E" "NoError \<notin> set (alternatives E)" "has_type E v" for E and v :: "('ty, 'v) tagged"
  proof (cases "unwrapped T E")
    case False
    have "set (alternatives E) \<subseteq> set (alternatives T)"
      using T that(1,3) by auto
    then show ?thesis
      using convert_error_ok[OF False that(2) _ that(4)] False by simp
  qed (simp add: convert_unwrapped)
  with T show ?thesis
    by blast
qed

text \<open>As in the library, the first of equal types stays.\<close>

definition mp_unique :: "'ty list \<Rightarrow> 'ty list" where
  "mp_unique ts = rev (remdups (rev ts))"

lemma mp_unique_spec_mp_unique: "mp_unique_spec mp_unique"
  by (simp add: mp_unique_spec_def mp_unique_def)

text \<open>
  As in \<^verbatim>\<open>test/cases/ErrorTypes.cpp\<close>: \<^verbatim>\<open>Error<1, 2>\<close> extended by \<^verbatim>\<open>3\<close>, the \<^verbatim>\<open>NoError\<close> \<^verbatim>\<open>0\<close> and \<^verbatim>\<open>Error<2, 4>\<close>.
\<close>

theorem extend_error_typed_witness:
  "extend_error mp_unique (0::nat) [Error [1, 2], Single 3, Single 0, Error [2, 4]] = Some (Error [1, 2, 3, 4]) \<and>
   convert_error (Error [1, 2, 3, 4]) (Error [1, 2]) (2 :: nat, True) = Some (2, True)"
proof -
  let ?T = "Error [1, 2, 3, 4] :: nat error_type" and ?E = "Error [1, 2] :: nat error_type"
  have e: "extend_error mp_unique (0::nat) [?E, Single 3, Single 0, Error [2, 4]] = Some ?T"
    by (simp add: extend_error_def extend_error_with_def filtered_unique_list_def combined_errors_def mp_unique_def)
  have a: "?E \<in> set [?E, Single 3, Single 0, Error [2, 4]]" "well_formed ?E \<and> 0 \<notin> set (alternatives ?E)"
      "has_type ?E (2, True)" "\<not> unwrapped ?T ?E"
    by (simp_all add: has_type_def well_formed_def unwrapped_def)
  have "\<forall>F \<in> set [?E, Single 3, Single 0, Error [2, 4]]. well_formed F \<and> 0 \<notin> set (alternatives F) \<longrightarrow>
      (\<forall>v :: (nat, bool) tagged. has_type F v \<longrightarrow>
         (if unwrapped ?T F then convert_error ?T F v = None else convert_error ?T F v = Some v \<and> has_type ?T v))"
    using extend_error_typed[OF mp_unique_spec_mp_unique e] by blast
  from bspec[OF this a(1)] a(2-4) e show ?thesis
    by simp
qed

text \<open>Extending an \<^verbatim>\<open>Error\<close> of one alternative by nothing gives a type that its values do not convert to.\<close>

lemma extend_single_error:
  "extend_error mp_unique (0::nat) [Error [1]] = Some (Single 1)"
  "convert_error (Single (1::nat)) (Error [1]) v = None"
  by (simp_all add: extend_error_def extend_error_with_def filtered_unique_list_def combined_errors_def mp_unique_def
      convert_error_def)

end
