(* ===== verification/Corosig_Dns_Exchange.thy ===== *)
theory Corosig_Dns_Exchange
  imports Corosig_Dns_Resolver_Claims
begin

text \<open>
  The coroutines of a resolver together: every request resends its question to the servers in turn
  (\<^verbatim>\<open>periodic_background_send\<close>) while one receiver (\<^verbatim>\<open>receive_server_answers\<close>) completes requests, of
  \<^verbatim>\<open>io/dns/Resolver.cpp\<close>. A request is the number of the frame of its \<^verbatim>\<open>process_request\<close>, so that the
  sender keeps its own request when identifiers coincide. A step runs a coroutine from one
  suspension to the next; what the system calls give and the time are arguments.
\<close>

section \<open>State\<close>

text \<open>A sender with the servers left in its inner loop: in \<^verbatim>\<open>send_to\<close>, in \<^verbatim>\<open>Sleep\<close>, or gone.\<close>

datatype sender =
    Sending SockaddrStorage "SockaddrStorage list"
  | Sleeping "SockaddrStorage list"
  | Finished

record Exchange =
  x_rand_gen :: ChaCha20RandomGenerator
  x_requests :: "nat \<Rightarrow> PendingRequest"
  x_pending :: "nat list"
  x_scheduled :: "nat list"
  x_receiver_completed :: bool
  x_senders :: "nat \<Rightarrow> sender"
  x_servers :: "nat \<Rightarrow> SockaddrStorage list"
  x_sent :: "nat \<Rightarrow> SockaddrStorage list"

text \<open>The receiver starts as one that could not be allocated, which counts as completed.\<close>

definition Exchange_make :: "bool \<Rightarrow> u32 list \<Rightarrow> u8 list \<Rightarrow> (nat \<Rightarrow> PendingRequest) \<Rightarrow> Exchange" where
  "Exchange_make little garbage rand_seed frames =
     \<lparr>x_rand_gen = ChaCha20_make little garbage rand_seed (0, 0, 0) 0, x_requests = frames, x_pending = [],
      x_scheduled = [], x_receiver_completed = True, x_senders = (\<lambda>_. Finished), x_servers = (\<lambda>_. []),
      x_sent = (\<lambda>_. [])\<rparr>"

definition resolver_of :: "Exchange \<Rightarrow> CachelessResolver" where
  "resolver_of x =
     \<lparr>m_rand_gen = x_rand_gen x, m_pending_requests = map (x_requests x) (x_pending x),
      m_scheduled_requests = map (x_requests x) (x_scheduled x)\<rparr>"

section \<open>Receiving\<close>

text \<open>A request with its result leaves the pending ones and goes to the reactor.\<close>

definition complete_request :: "nat \<Rightarrow> PendingRequest \<Rightarrow> Exchange \<Rightarrow> Exchange" where
  "complete_request k p x =
     x\<lparr>x_requests := (x_requests x)(k := p), x_pending := filter (\<lambda>j. j \<noteq> k) (x_pending x),
       x_scheduled := x_scheduled x @ [k]\<rparr>"

text \<open>One iteration of the receiver, after its system call.\<close>

definition answer_datagram :: "bool \<Rightarrow> span \<Rightarrow> nat \<Rightarrow> Exchange \<Rightarrow> Exchange option" where
  "answer_datagram little mem response_size x =
     (let response_size = min response_size (span_size mem);
          decoder = ResponseDecoder_make (Span (span_data mem) (take response_size (span_bytes mem)))
      in case consume_header decoder of
           (Ok header, decoder) \<Rightarrow>
             (let it = find_request (hdr_id header) (map (x_requests x) (x_pending x)) in
              if it = length (x_pending x) then Some x
              else let k = x_pending x ! it in
                map_option (\<lambda>p. complete_request k p x) (process_server_answer little mem header decoder (x_requests x k)))
         | _ \<Rightarrow> Some x)"

text \<open>What one call of \<^verbatim>\<open>recv_from\<close> gives: the buffer with the size of a datagram, or an error.\<close>

datatype recv_event = Received span nat | Recv_failed

text \<open>
  The receiver from its system call on, with the results that it gets without suspending; it stays
  suspended when they run out. The first is delivered even when nothing is pending any more.
\<close>

primrec resume_receiver :: "bool \<Rightarrow> recv_event list \<Rightarrow> Exchange \<Rightarrow> Exchange option" where
  "resume_receiver little [] x = Some (x\<lparr>x_receiver_completed := False\<rparr>)"
| "resume_receiver little (ev # evs) x = (case ev of
     Recv_failed \<Rightarrow> Some (x\<lparr>x_receiver_completed := True\<rparr>)
   | Received mem n \<Rightarrow> Option.bind (answer_datagram little mem n x) (\<lambda>x.
       if x_pending x = [] then Some (x\<lparr>x_receiver_completed := True\<rparr>) else resume_receiver little evs x))"

text \<open>A new receiver: \<^term>\<open>allocated\<close> tells whether its frame could be allocated.\<close>

definition receive_server_answers :: "bool \<Rightarrow> bool \<Rightarrow> recv_event list \<Rightarrow> Exchange \<Rightarrow> Exchange option" where
  "receive_server_answers allocated little evs x =
     (if \<not> allocated \<or> x_pending x = [] then Some (x\<lparr>x_receiver_completed := True\<rparr>) else resume_receiver little evs x)"

section \<open>Sending\<close>

text \<open>
  The two loops up to the next server: without servers the outer one never ends.
\<close>

partial_function (option) next_server :: "'a list \<Rightarrow> 'a list \<Rightarrow> ('a \<times> 'a list) option" where
  "next_server servers rest = (case rest of [] \<Rightarrow> next_server servers servers | s # rest \<Rightarrow> Some (s, rest))"

definition begin_send :: "nat \<Rightarrow> SockaddrStorage list \<Rightarrow> int \<Rightarrow> Exchange \<Rightarrow> Exchange option" where
  "begin_send k rest now x = map_option (\<lambda>(dns_server_addr, rest).
       x\<lparr>x_requests := (x_requests x)(k := (x_requests x k)\<lparr>req_send_time := now\<rparr>),
         x_senders := (x_senders x)(k := Sending dns_server_addr rest),
         x_sent := (x_sent x)(k := x_sent x k @ [dns_server_addr])\<rparr>)
     (next_server (x_servers x k) rest)"

text \<open>
  After \<^verbatim>\<open>send_to\<close>: the receiver is restarted if it has ended, with what it receives at once; an
  error is the result of the request, which goes to the list of ready coroutines. The hook of
  that list asserts that what is inserted is not linked yet.
\<close>

definition end_send ::
  "bool \<Rightarrow> nat \<Rightarrow> (nat, RequestError) result \<Rightarrow> bool \<Rightarrow> recv_event list \<Rightarrow> Exchange \<Rightarrow> Exchange option" where
  "end_send little k send_result allocated evs x = (case x_senders x k of
     Sending _ rest \<Rightarrow> do {
       x \<leftarrow> (if x_receiver_completed x then receive_server_answers allocated little evs x else Some x);
       case send_result of
         Nothing \<Rightarrow> None
       | Failure e \<Rightarrow> c_assert (k \<notin> set (x_scheduled x))
                        (Some (complete_request k ((x_requests x k)\<lparr>req_result := Failure e\<rparr>)
                           (x\<lparr>x_senders := (x_senders x)(k := Finished)\<rparr>)))
       | Ok _ \<Rightarrow> Some (x\<lparr>x_senders := (x_senders x)(k := Sleeping rest)\<rparr>)
     }
   | _ \<Rightarrow> None)"

definition wake_sender :: "nat \<Rightarrow> int \<Rightarrow> Exchange \<Rightarrow> Exchange option" where
  "wake_sender k now x = (case x_senders x k of Sleeping rest \<Rightarrow> begin_send k rest now x | _ \<Rightarrow> None)"

section \<open>Requests\<close>

definition new_request :: "octets \<Rightarrow> out_span \<Rightarrow> PendingRequest" where
  "new_request ascii_name out =
     \<lparr>req_result = Nothing, req_send_time = 0,
      req_question =
        \<lparr>q_id = 0, q_opcode = QueryOpcode_value OP_STANDARD, q_recursion_desired = True, q_name = ascii_name,
         q_qtype = QueryType_value (case out of Out_Ipv6 _ _ \<Rightarrow> QT_AAAA | Out_Ipv4 _ _ \<Rightarrow> QT_A),
         q_qclass = QueryClass_value QC_IN\<rparr>,
      req_out = out\<rparr>"

definition insert_pending :: "nat \<Rightarrow> SockaddrStorage list \<Rightarrow> PendingRequest \<Rightarrow> Exchange \<Rightarrow> Exchange" where
  "insert_pending k dns_server_addrs request x =
     (let before = (\<lambda>j. req_id (x_requests x j) \<le> req_id request) in
      x\<lparr>x_requests := (x_requests x)(k := request),
        x_pending := takeWhile before (x_pending x) @ k # dropWhile before (x_pending x),
        x_servers := (x_servers x)(k := dns_server_addrs), x_sent := (x_sent x)(k := [])\<rparr>)"

text \<open>
  Frame \<^term>\<open>k\<close> from its start until the first \<^verbatim>\<open>send_to\<close>. \<^term>\<open>allocated\<close> tells whether the frame of
  the sender could be allocated: its future is not looked at, so without one the request waits
  all the same.
\<close>

definition start_request ::
  "bool \<Rightarrow> bool \<Rightarrow> (octets \<Rightarrow> u64) \<Rightarrow> (nat \<Rightarrow> bool) \<Rightarrow> nat \<Rightarrow> SockaddrStorage list \<Rightarrow> octets \<Rightarrow> out_span \<Rightarrow> int \<Rightarrow> Exchange \<Rightarrow>
   ((octets, RequestError) result \<times> Exchange) option" where
  "start_request allocated little hash grow k dns_server_addrs ascii_name out now x =
     (if length (x_pending x) = 0xFFFF
      then Some (Failure (Resolve_Failure (Code_Error TOO_MANY_PARALLEL_REQUESTS)), x)
      else if dns_server_addrs = [] then Some (Failure (Resolve_Failure (Code_Error NO_SERVERS_PROVIDED)), x)
      else do {
        (bs, gen) \<leftarrow> generate_bytes little 2 (x_rand_gen x);
        let request = new_request ascii_name out;
        let request = request\<lparr>req_question := (req_question request)\<lparr>q_id := of_mem_bytes little bs\<rparr>\<rparr>;
        let x = x\<lparr>x_rand_gen := gen\<rparr>;
        let ps = map (x_requests x) (x_pending x);
        _ \<leftarrow> skip_collisions (req_id request) ps (find_request (req_id request) ps);
        encoded \<leftarrow> encode_question hash grow (req_question request);
        case encoded of
          Nothing \<Rightarrow> None
        | Failure e \<Rightarrow> Some (Failure (Resolve_Failure (Encode_Error e)), x)
        | Ok msg \<Rightarrow>
            let x = insert_pending k dns_server_addrs request x in
            if allocated then map_option (Pair (Ok msg)) (begin_send k dns_server_addrs now x)
            else Some (Ok msg, x\<lparr>x_senders := (x_senders x)(k := Finished)\<rparr>)
      })"

text \<open>
  A request with a result goes on, resumed by the reactor or not suspended at all. Its frame is
  destroyed, and with it the sender and whatever links the request.
\<close>

definition finish_request :: "nat \<Rightarrow> Exchange \<Rightarrow> (nat, RequestError) result \<times> Exchange" where
  "finish_request k x =
     (req_result (x_requests x k),
      x\<lparr>x_pending := filter (\<lambda>j. j \<noteq> k) (x_pending x), x_scheduled := filter (\<lambda>j. j \<noteq> k) (x_scheduled x),
        x_senders := (x_senders x)(k := Finished)\<rparr>)"

text \<open>
  \<^verbatim>\<open>CachelessResolver::resolve_name1\<close>: what \<^verbatim>\<open>resolve_name\<close> with a buffer of one address gives, and that
  buffer.
\<close>

definition cacheless_resolve_name1 :: "(nat, RequestError) result \<Rightarrow> 'ip ResolvedAddress \<Rightarrow> ('ip ResolvedAddress, RequestError) result" where
  "cacheless_resolve_name1 answer out = (case answer of
     Nothing \<Rightarrow> Nothing
   | Failure e \<Rightarrow> Failure e
   | Ok resolved \<Rightarrow> if resolved \<noteq> 1 then Failure (Resolve_Failure (Code_Error NO_ANSWERS_GIVEN)) else Ok out)"

section \<open>Runs\<close>

text \<open>What can happen next: any of the above that fails no assertion.\<close>

inductive exchange_step :: "Exchange \<Rightarrow> Exchange \<Rightarrow> bool" where
  start: "start_request allocated little hash grow k addrs name out now x = Some (r, x') \<Longrightarrow> x_senders x k = Finished \<Longrightarrow>
    k \<notin> set (x_pending x) \<Longrightarrow> k \<notin> set (x_scheduled x) \<Longrightarrow> exchange_step x x'"
| sent: "end_send little k r allocated evs x = Some x' \<Longrightarrow> exchange_step x x'"
| wake: "wake_sender k now x = Some x' \<Longrightarrow> exchange_step x x'"
| receive: "\<not> x_receiver_completed x \<Longrightarrow> resume_receiver little (ev # evs) x = Some x' \<Longrightarrow> exchange_step x x'"
| finish: "k \<in> set (x_scheduled x) \<Longrightarrow> exchange_step x (snd (finish_request k x))"

inductive exchange_run :: "Exchange \<Rightarrow> bool" where
  make: "length seed = 32 \<Longrightarrow> exchange_run (Exchange_make little garbage seed frames)"
| step: "exchange_run x \<Longrightarrow> exchange_step x x' \<Longrightarrow> exchange_run x'"

end
