(* ===== verification/Corosig_Dns_Exchange_Claims.thy ===== *)
theory Corosig_Dns_Exchange_Claims
  imports Corosig_Dns_Exchange
begin

text \<open>
  Properties of the coroutines of a resolver together: their runs are runs of the resolver of
  \<^verbatim>\<open>Corosig_Dns_Resolver_Claims\<close>, every request is in one list and completed once, its servers are
  asked in turn; and the failure that arrives too late.
\<close>

section \<open>The invariant\<close>

definition round_robin :: "'a list \<Rightarrow> 'a list \<Rightarrow> bool" where
  "round_robin servers sent \<longleftrightarrow> (\<forall>i < length sent. sent ! i = servers ! (i mod length servers))"

text \<open>The servers left in the inner loop are the last ones, and the sends end a round with them.\<close>

definition in_round :: "'a list \<Rightarrow> 'a list \<Rightarrow> 'a list \<Rightarrow> bool" where
  "in_round servers sent rest \<longleftrightarrow> servers \<noteq> [] \<and> round_robin servers sent \<and>
     (\<exists>front. servers = front @ rest) \<and> length servers dvd length sent + length rest"

fun sender_ok :: "SockaddrStorage list \<Rightarrow> SockaddrStorage list \<Rightarrow> sender \<Rightarrow> bool" where
  "sender_ok servers sent (Sending s rest) \<longleftrightarrow> in_round servers sent rest \<and> sent \<noteq> [] \<and> last sent = s"
| "sender_ok servers sent (Sleeping rest) \<longleftrightarrow> in_round servers sent rest \<and> sent \<noteq> []"
| "sender_ok servers sent Finished \<longleftrightarrow> round_robin servers sent"

text \<open>
  A waiting request has a sender, unless the frame of the sender could not be allocated and nothing
  is ever sent, and a sender has a request that was not resumed yet.
\<close>

definition request_inv :: "Exchange \<Rightarrow> nat \<Rightarrow> bool" where
  "request_inv x k \<longleftrightarrow> (k \<in> set (x_pending x) \<longrightarrow> x_senders x k \<noteq> Finished \<or> x_sent x k = []) \<and>
     (x_senders x k \<noteq> Finished \<longrightarrow> k \<in> set (x_pending x) \<union> set (x_scheduled x)) \<and>
     sender_ok (x_servers x k) (x_sent x k) (x_senders x k)"

definition exchange_inv :: "Exchange \<Rightarrow> bool" where
  "exchange_inv x \<longleftrightarrow> distinct (x_pending x @ x_scheduled x) \<and> (\<forall>k. request_inv x k)"

definition exchange_ok :: "Exchange \<Rightarrow> bool" where
  "exchange_ok x \<longleftrightarrow> exchange_inv x \<and> resolver_run (resolver_of x)"

lemma sender_ok_round_robin: "sender_ok servers sent s \<Longrightarrow> round_robin servers sent"
  by (cases s) (auto simp: in_round_def)

section \<open>Completing requests\<close>

lemma filter_others: "k \<notin> set xs \<Longrightarrow> filter (\<lambda>j. j \<noteq> k) xs = xs"
  by (auto simp: filter_id_conv)

lemma filter_nth_distinct: "distinct xs \<Longrightarrow> i < length xs \<Longrightarrow> filter (\<lambda>j. j \<noteq> xs ! i) xs = take i xs @ drop (i + 1) xs"
proof (induction xs arbitrary: i)
  case (Cons x xs)
  show ?case
  proof (cases i)
    case 0
    then show ?thesis
      using Cons.prems(1) by (simp add: filter_others)
  next
    case (Suc j)
    then have "x \<noteq> xs ! j"
      using Cons.prems nth_mem[of j xs] by auto
    then show ?thesis
      using Cons.IH[of j] Cons.prems Suc by simp
  qed
qed simp

lemma resolver_of_complete:
  assumes "exchange_inv x" and "i < length (x_pending x)" and "k = x_pending x ! i"
  shows "resolver_of (complete_request k p x) =
    (resolver_of x)\<lparr>m_pending_requests := take i (m_pending_requests (resolver_of x)) @ drop (i + 1) (m_pending_requests (resolver_of x)),
                   m_scheduled_requests := m_scheduled_requests (resolver_of x) @ [p]\<rparr>"
proof -
  have k: "k \<in> set (x_pending x)" "k \<notin> set (x_scheduled x)" "distinct (x_pending x)"
    using assms(1) nth_mem[OF assms(2)] assms(3) by (auto simp: exchange_inv_def)
  have f: "filter (\<lambda>j. j \<noteq> k) (x_pending x) = take i (x_pending x) @ drop (i + 1) (x_pending x)"
    using filter_nth_distinct[OF k(3) assms(2)] assms(3) by simp
  have "map ((x_requests x)(k := p)) (filter (\<lambda>j. j \<noteq> k) (x_pending x)) = map (x_requests x) (filter (\<lambda>j. j \<noteq> k) (x_pending x))"
    "map ((x_requests x)(k := p)) (x_scheduled x) = map (x_requests x) (x_scheduled x)"
    using k(2) by auto
  then show ?thesis
    by (simp add: resolver_of_def complete_request_def f take_map drop_map)
qed

lemma exchange_inv_complete:
  "exchange_inv x \<Longrightarrow> k \<in> set (x_pending x) \<Longrightarrow> exchange_inv (complete_request k p x)"
  by (auto simp: exchange_inv_def request_inv_def complete_request_def)

lemma answer_datagram_ok:
  assumes "exchange_ok x" and "answer_datagram little mem n x = Some x'"
  shows "exchange_ok x'" and "x_senders x' = x_senders x"
proof -
  let ?m = "min n (span_size mem)"
  let ?d = "ResponseDecoder_make (Span (span_data mem) (take ?m (span_bytes mem)))"
  have "exchange_ok x' \<and> x_senders x' = x_senders x"
  proof (cases "x' = x")
    case False
    obtain h d where h: "consume_header ?d = (Ok h, d)"
      using assms(2) False by (auto simp: answer_datagram_def Let_def split: prod.splits result.splits)
    let ?it = "find_request (hdr_id h) (map (x_requests x) (x_pending x))"
    let ?k = "x_pending x ! ?it"
    obtain p where p: "?it \<noteq> length (x_pending x)" "process_server_answer little mem h d (x_requests x ?k) = Some p"
        "x' = complete_request ?k p x"
      using assms(2) False by (auto simp: answer_datagram_def h Let_def split: if_splits)
    have "?it \<le> length (x_pending x)"
      using length_takeWhile_le[of _ "map (x_requests x) (x_pending x)"] by (simp add: find_request_def)
    with p(1) have i: "?it < length (x_pending x)"
      by simp
    have "receive_datagram little mem n (resolver_of x) = Some (resolver_of x')"
      using p i resolver_of_complete[OF _ i refl, of p] assms(1)
      by (simp add: receive_datagram_def Let_def h resolver_of_def exchange_ok_def)
    then have "resolver_run (resolver_of x')"
      using assms(1) resolver_run.step resolver_step.datagram unfolding exchange_ok_def by blast
    then show ?thesis
      using exchange_inv_complete[of x ?k p] i p(3) assms(1)
      by (simp add: exchange_ok_def complete_request_def)
  qed (use assms in auto)
  then show "exchange_ok x'" and "x_senders x' = x_senders x"
    by auto
qed

lemma exchange_ok_receiver [simp]: "exchange_ok (x\<lparr>x_receiver_completed := b\<rparr>) = exchange_ok x"
  by (simp add: exchange_ok_def exchange_inv_def request_inv_def resolver_of_def)

lemma resume_receiver_ok:
  "exchange_ok x \<Longrightarrow> resume_receiver little evs x = Some x' \<Longrightarrow> exchange_ok x' \<and> x_senders x' = x_senders x"
proof (induction evs arbitrary: x)
  case (Cons ev evs)
  show ?case
  proof (cases ev)
    case (Received mem n)
    then obtain x1 where x1: "answer_datagram little mem n x = Some x1"
        "(if x_pending x1 = [] then Some (x1\<lparr>x_receiver_completed := True\<rparr>) else resume_receiver little evs x1) = Some x'"
      using Cons.prems(2) by (auto simp: bind_eq_Some_conv)
    note a = answer_datagram_ok[OF Cons.prems(1) x1(1)]
    show ?thesis
      using Cons.IH[OF a(1)] a x1(2) by (auto split: if_splits)
  qed (use Cons.prems in auto)
qed auto

lemma receive_server_answers_ok:
  "exchange_ok x \<Longrightarrow> receive_server_answers allocated little evs x = Some x' \<Longrightarrow> exchange_ok x' \<and> x_senders x' = x_senders x"
  using resume_receiver_ok[of x little evs x'] by (auto simp: receive_server_answers_def split: if_splits)


section \<open>Sending in turn\<close>

lemma next_server_Cons [simp]: "next_server servers (s # rest) = Some (s, rest)"
  by (subst next_server.simps) simp

lemma next_server_Nil [simp]: "next_server (t # ts) [] = Some (t, ts)"
  by (subst next_server.simps) simp

lemmas next_server_induct = next_server.raw_induct [rotated 1, consumes 1, case_names step]

text \<open>Without servers the sender would never suspend.\<close>

lemma next_server_diverges: "next_server [] [] = None"
proof -
  have False if "next_server ss rest = Some r" "ss = []" "rest = []" for ss rest :: "'a list" and r
    using that by (induction rule: next_server_induct) (auto split: list.splits)
  then show ?thesis
    by (cases "next_server [] ([] :: 'a list)") auto
qed

lemma round_robin_snoc:
  "round_robin servers sent \<Longrightarrow> s = servers ! (length sent mod length servers) \<Longrightarrow> round_robin servers (sent @ [s])"
  by (auto simp: round_robin_def nth_append less_Suc_eq)

lemma in_round_next:
  assumes "in_round servers sent rest" and "next_server servers rest = Some (s, rest')"
  shows "in_round servers (sent @ [s]) rest'"
proof (cases rest)
  case Nil
  then have servers: "servers = s # rest'"
    using assms by (cases servers) (simp_all add: in_round_def)
  obtain q where q: "length sent = length servers * q"
    using assms(1) Nil by (auto simp: in_round_def)
  then have "s = servers ! (length sent mod length servers)"
    by (simp only: mod_mult_self1_is_0) (simp add: servers)
  then have "round_robin servers (sent @ [s])"
    using assms(1) by (intro round_robin_snoc) (simp_all add: in_round_def)
  moreover have "length (sent @ [s]) + length rest' = length servers * Suc q"
    using q servers by simp
  ultimately show ?thesis
    using servers unfolding in_round_def by (metis append_Cons append_Nil dvd_triv_left list.discI)
next
  case (Cons t ts)
  then have t: "rest = s # rest'"
    using assms(2) by simp
  then obtain front where f: "servers = front @ s # rest'"
    using assms(1) by (auto simp: in_round_def)
  obtain q where q: "length sent + Suc (length rest') = length servers * q"
    using assms(1) t by (auto simp: in_round_def)
  then obtain q' where "q = Suc q'"
    by (cases q) auto
  then have "length sent = length servers * q' + length front"
    using q f by simp
  then have "length sent mod length servers = length front"
    by (simp only: mod_mult_self4) (simp add: f)
  then have "s = servers ! (length sent mod length servers)"
    using f by simp
  then have "round_robin servers (sent @ [s])"
    using assms(1) by (intro round_robin_snoc) (simp_all add: in_round_def)
  moreover have "servers = (front @ [s]) @ rest'" "length (sent @ [s]) + length rest' = length servers * q"
    using f q by simp_all
  ultimately show ?thesis
    using assms(1) unfolding in_round_def by (metis dvd_triv_left)
qed

lemma unchanged_time: "\<exists>t. p = p\<lparr>req_send_time := t\<rparr>"
  by (rule exI[of _ "req_send_time p"]) simp

lemma begin_send_ok:
  assumes "begin_send k rest now x = Some x'" and "in_round (x_servers x k) (x_sent x k) rest"
    and "distinct (x_pending x @ x_scheduled x)" and "k \<in> set (x_pending x) \<union> set (x_scheduled x)"
    and "\<And>j. j \<noteq> k \<Longrightarrow> request_inv x j" and "resolver_run (resolver_of x)"
  shows "exchange_ok x'"
proof -
  obtain s rest' where n: "next_server (x_servers x k) rest = Some (s, rest')"
    and x': "x' = x\<lparr>x_requests := (x_requests x)(k := (x_requests x k)\<lparr>req_send_time := now\<rparr>),
        x_senders := (x_senders x)(k := Sending s rest'), x_sent := (x_sent x)(k := x_sent x k @ [s])\<rparr>"
    using assms(1) by (auto simp: begin_send_def)
  have "request_inv x' j" for j
  proof (cases "j = k")
    case True
    then show ?thesis
      using in_round_next[OF assms(2) n] assms(4) by (simp add: request_inv_def x')
  qed (use assms(5)[of j] in \<open>simp add: request_inv_def x'\<close>)
  moreover have "same_but_time (map (x_requests x) js) (map (x_requests x') js)" for js
    by (auto simp: same_but_time_def list_all2_conv_all_nth x' unchanged_time)
  then have "resolver_step (resolver_of x) (resolver_of x')"
    using resolver_step.sent[of "resolver_of x" "map (x_requests x') (x_pending x)" "map (x_requests x') (x_scheduled x)"]
    by (simp add: resolver_of_def x')
  ultimately show ?thesis
    using assms(3,6) resolver_run.step by (auto simp: exchange_ok_def exchange_inv_def x')
qed

lemma wake_sender_ok:
  assumes "exchange_ok x" and "wake_sender k now x = Some x'"
  shows "exchange_ok x'"
proof -
  obtain rest where k: "x_senders x k = Sleeping rest" "begin_send k rest now x = Some x'"
    using assms(2) by (auto simp: wake_sender_def split: sender.splits)
  then have "request_inv x k" "\<And>j. request_inv x j" "distinct (x_pending x @ x_scheduled x)"
    using assms(1) by (simp_all add: exchange_ok_def exchange_inv_def)
  then show ?thesis
    using begin_send_ok[OF k(2)] k(1) assms(1) by (simp add: request_inv_def exchange_ok_def)
qed

lemma end_send_ok:
  assumes "exchange_ok x" and "end_send little k r allocated evs x = Some x'"
  shows "exchange_ok x'"
proof -
  obtain s rest x1 where k: "x_senders x k = Sending s rest"
      "(if x_receiver_completed x then receive_server_answers allocated little evs x else Some x) = Some x1"
      "(case r of Nothing \<Rightarrow> None
        | Failure e \<Rightarrow> c_assert (k \<notin> set (x_scheduled x1))
                        (Some (complete_request k ((x_requests x1 k)\<lparr>req_result := Failure e\<rparr>)
                           (x1\<lparr>x_senders := (x_senders x1)(k := Finished)\<rparr>)))
        | Ok _ \<Rightarrow> Some (x1\<lparr>x_senders := (x_senders x1)(k := Sleeping rest)\<rparr>)) = Some x'"
    using assms(2) by (auto simp: end_send_def bind_eq_Some_conv split: sender.splits)
  have x1: "exchange_ok x1" "x_senders x1 = x_senders x"
    using k(2) assms(1) receive_server_answers_ok[of x allocated little evs x1] by (auto split: if_splits)
  have inv: "\<And>j. request_inv x1 j" "exchange_inv x1"
    using x1(1) by (simp_all add: exchange_ok_def exchange_inv_def)
  show ?thesis
  proof (cases r)
    case (Ok n)
    then have x': "x' = x1\<lparr>x_senders := (x_senders x1)(k := Sleeping rest)\<rparr>"
      using k(3) by simp
    have "request_inv x' j" for j
      using inv(1)[of j] k(1) x1(2) by (auto simp: request_inv_def x')
    then show ?thesis
      using x1(1) by (simp add: exchange_ok_def exchange_inv_def resolver_of_def x')
  next
    case (Failure e)
    let ?p = "(x_requests x1 k)\<lparr>req_result := Failure e\<rparr>"
    have x': "x' = (complete_request k ?p x1)\<lparr>x_senders := (x_senders x1)(k := Finished)\<rparr>"
      and "k \<notin> set (x_scheduled x1)"
      using k(3) Failure by (auto simp: complete_request_def split: if_splits)
    then have kp: "k \<in> set (x_pending x1)"
      using inv(1)[of k] k(1) x1(2) by (auto simp: request_inv_def)
    then obtain i where i: "i < length (x_pending x1)" "k = x_pending x1 ! i"
      by (auto simp: in_set_conv_nth)
    have r': "resolver_of x' = send_failed e i (resolver_of x1)"
      using resolver_of_complete[OF inv(2) i, of ?p] i by (simp add: x' resolver_of_def send_failed_def Let_def)
    have "resolver_step (resolver_of x1) (resolver_of x')"
      unfolding r' by (rule resolver_step.failed_send) (simp add: resolver_of_def i(1))
    moreover have "request_inv x' j" for j
      using inv(1)[of j] by (auto simp: request_inv_def x' complete_request_def dest: sender_ok_round_robin)
    moreover have "distinct (x_pending x' @ x_scheduled x')"
      using exchange_inv_complete[OF inv(2) kp, of ?p] by (simp add: exchange_inv_def x' complete_request_def)
    ultimately show ?thesis
      using x1(1) resolver_run.step by (auto simp: exchange_ok_def exchange_inv_def)
  qed (use k(3) in simp)
qed

section \<open>Runs\<close>

lemma start_request_ok:
  assumes "exchange_ok x" and "start_request allocated little hash grow k addrs name out now x = Some (r, x')"
    and "x_senders x k = Finished" and "k \<notin> set (x_pending x)" and "k \<notin> set (x_scheduled x)"
  shows "exchange_ok x'"
proof (cases "length (x_pending x) = 0xFFFF \<or> addrs = []")
  case True
  then show ?thesis
    using assms(1,2) by (auto simp: start_request_def split: if_splits)
next
  case False
  let ?ps = "map (x_requests x) (x_pending x)"
  obtain bs gen where g: "generate_bytes little 2 (x_rand_gen x) = Some (bs, gen)"
    using assms(2) False by (auto simp: start_request_def bind_eq_Some_conv)
  define request where
    req: "request = (new_request name out)\<lparr>req_question := (req_question (new_request name out))\<lparr>q_id := of_mem_bytes little bs\<rparr>\<rparr>"
  obtain it encoded where it: "skip_collisions (req_id request) ?ps (find_request (req_id request) ?ps) = Some it"
    and e: "encode_question hash grow (req_question request) = Some encoded"
    and r: "(case encoded of Nothing \<Rightarrow> None
       | Failure e \<Rightarrow> Some (Failure (Resolve_Failure (Encode_Error e)), x\<lparr>x_rand_gen := gen\<rparr>)
       | Ok msg \<Rightarrow> let x = insert_pending k addrs request (x\<lparr>x_rand_gen := gen\<rparr>) in
           if allocated then map_option (Pair (Ok msg)) (begin_send k addrs now x)
           else Some (Ok msg, x\<lparr>x_senders := (x_senders x)(k := Finished)\<rparr>)) = Some (r, x')"
    using assms(2) False unfolding start_request_def g req
    by (simp only: Let_def bind_eq_Some_conv) (auto simp: bind_eq_Some_conv Let_def)
  have inv: "\<And>j. request_inv x j" "distinct (x_pending x @ x_scheduled x)" "resolver_run (resolver_of x)"
    using assms(1) by (simp_all add: exchange_ok_def exchange_inv_def)
  have form: "formulate_and_process_request little hash grow addrs name out (resolver_of x) =
      (case encoded of Nothing \<Rightarrow> None
       | Failure e \<Rightarrow> Some (Failure (Resolve_Failure (Encode_Error e)), (resolver_of x)\<lparr>m_rand_gen := gen\<rparr>)
       | Ok msg \<Rightarrow> Some (Ok msg, (resolver_of x)\<lparr>m_rand_gen := gen, m_pending_requests := insert_request request ?ps\<rparr>))"
    using False g it e unfolding formulate_and_process_request_def new_request_def[symmetric] process_request_def req
    by (cases encoded) (simp_all add: resolver_of_def Let_def)
  show ?thesis
  proof (cases encoded)
    case (Failure e)
    then have x': "x' = x\<lparr>x_rand_gen := gen\<rparr>"
      using r by simp
    have "resolver_step (resolver_of x) (resolver_of x')"
      using resolver_step.request[OF form[unfolded Failure, simplified]] by (simp add: x' resolver_of_def)
    then show ?thesis
      using inv resolver_run.step by (auto simp: exchange_ok_def exchange_inv_def request_inv_def x')
  next
    case (Ok msg)
    define before where "before = (\<lambda>j. req_id (x_requests x j) \<le> req_id request)"
    define x1 where "x1 = insert_pending k addrs request (x\<lparr>x_rand_gen := gen\<rparr>)"
    have x1_def: "x1 = x\<lparr>x_rand_gen := gen, x_requests := (x_requests x)(k := request),
        x_pending := takeWhile before (x_pending x) @ k # dropWhile before (x_pending x),
        x_servers := (x_servers x)(k := addrs), x_sent := (x_sent x)(k := [])\<rparr>"
      by (simp add: x1_def insert_pending_def Let_def before_def)
    have b: "if allocated then begin_send k addrs now x1 = Some x'
        else x' = x1\<lparr>x_senders := (x_senders x1)(k := Finished)\<rparr>"
      using r Ok by (auto simp: \<open>x1 = insert_pending _ _ _ _\<close> Let_def split: if_splits)
    have set: "set (takeWhile before (x_pending x)) \<union> set (dropWhile before (x_pending x)) = set (x_pending x)"
      by (metis set_append takeWhile_dropWhile_id)
    have map: "map (x_requests x1) js = map (x_requests x) js" if "k \<notin> set js" for js
      using that by (simp add: x1_def)
    have ins: "map (x_requests x1) (x_pending x1) = insert_request request ?ps"
      using map[of "takeWhile before (x_pending x)"] map[of "dropWhile before (x_pending x)"] assms(4) set
      by (auto simp: x1_def insert_request_def takeWhile_map dropWhile_map before_def comp_def)
    have "map (x_requests x1) (x_scheduled x1) = map (x_requests x) (x_scheduled x)"
      using map[OF assms(5)] by (simp add: x1_def)
    then have "resolver_of x1 = (resolver_of x)\<lparr>m_rand_gen := gen, m_pending_requests := insert_request request ?ps\<rparr>"
      using ins by (simp add: resolver_of_def) (simp add: x1_def)
    then have "resolver_step (resolver_of x) (resolver_of x1)"
      using resolver_step.request[OF form[unfolded Ok, simplified]] by simp
    moreover have "distinct (x_pending x1 @ x_scheduled x1)"
      using inv(2) assms(4,5) set takeWhile_dropWhile_id[of before "x_pending x"]
        distinct_append[of "takeWhile before (x_pending x)" "dropWhile before (x_pending x)"]
      by (auto simp: x1_def)
    moreover have sent: "in_round (x_servers x1 k) (x_sent x1 k) addrs"
      using False by (simp add: x1_def in_round_def round_robin_def)
    moreover have others: "request_inv x1 j" if "j \<noteq> k" for j
      using inv(1)[of j] that set by (auto simp: request_inv_def x1_def)
    ultimately have x1: "resolver_run (resolver_of x1)" "distinct (x_pending x1 @ x_scheduled x1)"
      using inv(3) resolver_run.step by blast+
    show ?thesis
    proof (cases allocated)
      case True
      then show ?thesis
        using begin_send_ok[of k addrs now x1 x', OF _ sent x1(2) _ others x1(1)] b by (simp add: x1_def)
    next
      case False
      then have x': "x' = x1\<lparr>x_senders := (x_senders x1)(k := Finished)\<rparr>"
        using b by simp
      have "request_inv x' j" for j
        using others[of j] sent by (cases "j = k") (simp_all add: request_inv_def x' x1_def in_round_def)
      then show ?thesis
        using x1 by (simp add: exchange_ok_def exchange_inv_def resolver_of_def x')
    qed
  qed (use r in simp)
qed

lemma finish_request_ok:
  assumes "exchange_ok x" and "k \<in> set (x_scheduled x)"
  shows "exchange_ok (snd (finish_request k x))"
proof -
  obtain ps qs where s: "x_scheduled x = ps @ k # qs"
    using assms(2) by (auto simp: in_set_conv_decomp)
  have inv: "\<And>j. request_inv x j" "distinct (x_pending x @ x_scheduled x)"
    using assms(1) by (simp_all add: exchange_ok_def exchange_inv_def)
  have k: "k \<notin> set ps" "k \<notin> set qs" "k \<notin> set (x_pending x)"
    using inv(2) by (auto simp: s)
  have f: "filter (\<lambda>j. j \<noteq> k) (x_scheduled x) = ps @ qs" "filter (\<lambda>j. j \<noteq> k) (x_pending x) = x_pending x"
    using k by (simp_all add: s filter_others)
  have "resolver_step (resolver_of x) (resolver_of (snd (finish_request k x)))"
    using resolver_step.resume[of "resolver_of x" "map (x_requests x) ps" "x_requests x k" "map (x_requests x) qs"]
    by (simp add: resolver_of_def finish_request_def f) (simp add: s)
  moreover have "request_inv (snd (finish_request k x)) j" for j
    using inv(1)[of j] inv(2) s by (auto simp: request_inv_def finish_request_def f dest: sender_ok_round_robin)
  moreover have "distinct (ps @ qs) \<and> set (x_pending x) \<inter> set (ps @ qs) = {}"
    using inv(2) s by auto
  ultimately show ?thesis
    using assms(1) resolver_run.step
    by (auto simp: exchange_ok_def exchange_inv_def finish_request_def f)
qed

lemma exchange_run_ok: "exchange_run x \<Longrightarrow> exchange_ok x"
proof (induction rule: exchange_run.induct)
  case (make seed little garbage frames)
  then show ?case
    using resolver_run.start[OF make, of little garbage]
    by (simp add: exchange_ok_def exchange_inv_def request_inv_def Exchange_make_def resolver_of_def
        CachelessResolver_make_def round_robin_def)
next
  case (step x x')
  from step(2,3) show ?case
  proof (induction rule: exchange_step.induct)
    case (receive x little ev evs x')
    then show ?case
      using resume_receiver_ok by blast
  qed (blast intro: start_request_ok end_send_ok wake_sender_ok finish_request_ok)+
qed

section \<open>Properties\<close>

lemma is_nothing_iff: "is_nothing r \<longleftrightarrow> r = Nothing"
  by (cases r) (simp_all add: is_nothing_def)

text \<open>
  Claim C6. Whatever the senders of several requests and the receiver do in whatever order, a run of them is a
  run of the resolver as \<^term>\<open>resolver_run\<close> describes it. A request is pending or scheduled but never
  both and never twice; while it is pending it has no result, and its sender is in \<^verbatim>\<open>send_to\<close> or
  asleep, unless nothing was ever sent for it because the frame of the sender could not be allocated; when it
  is scheduled it has its result. There is never a sender without its request. The runs are those
  in which no assertion fails: a send that fails does fail one exactly when the answer came first,
  so that its request is in the list of ready coroutines already.
\<close>

theorem exchange_run_refines:
  assumes "exchange_run x"
  shows "resolver_run (resolver_of x) \<and> distinct (x_pending x @ x_scheduled x) \<and>
    (\<forall>k \<in> set (x_pending x). req_result (x_requests x k) = Nothing \<and>
       (x_senders x k \<noteq> Finished \<or> x_sent x k = [])) \<and>
    (\<forall>k \<in> set (x_scheduled x). req_result (x_requests x k) \<noteq> Nothing) \<and>
    (\<forall>k. x_senders x k \<noteq> Finished \<longrightarrow> k \<in> set (x_pending x) \<union> set (x_scheduled x)) \<and>
    (\<forall>k s rest. x_senders x k = Sending s rest \<longrightarrow>
       (end_send little k (Failure e) allocated [] x = None \<longleftrightarrow> k \<in> set (x_scheduled x)))"
proof -
  have ok: "exchange_inv x" "resolver_run (resolver_of x)"
    using exchange_run_ok[OF assms] by (simp_all add: exchange_ok_def)
  have "resolver_inv (resolver_of x)"
    by (rule resolver_run_inv[OF ok(2)])
  then have "\<forall>k \<in> set (x_pending x). is_nothing (req_result (x_requests x k))"
    and "\<forall>k \<in> set (x_scheduled x). \<not> is_nothing (req_result (x_requests x k))"
    by (simp_all add: resolver_inv_def resolver_of_def request_ready_def)
  moreover have "end_send little k (Failure e) allocated [] x = None \<longleftrightarrow> k \<in> set (x_scheduled x)"
    if "x_senders x k = Sending s rest" for k s rest
    using that by (simp add: end_send_def receive_server_answers_def)
  ultimately show ?thesis
    using ok by (simp add: exchange_inv_def request_inv_def is_nothing_iff)
qed

text \<open>
  Claim C27. The servers are asked in turn: the datagram number \<^term>\<open>i\<close> of a request goes to its server number
  \<^term>\<open>i mod length (x_servers x k)\<close>, however the request is interleaved with others, and a sender that sleeps can
  always send to the next one.
\<close>

theorem exchange_round_robin:
  assumes "exchange_run x"
  shows "(\<forall>i < length (x_sent x k). x_sent x k ! i = x_servers x k ! (i mod length (x_servers x k))) \<and>
    (\<forall>s rest. x_senders x k = Sending s rest \<longrightarrow> x_sent x k \<noteq> [] \<and> last (x_sent x k) = s) \<and>
    (\<forall>rest. x_senders x k = Sleeping rest \<longrightarrow> (\<exists>x'. wake_sender k now x = Some x' \<and>
       x_sent x' k = x_sent x k @ [x_servers x k ! (length (x_sent x k) mod length (x_servers x k))] \<and>
       req_send_time (x_requests x' k) = now))"
proof -
  have ok: "request_inv x k"
    using exchange_run_ok[OF assms] by (simp add: exchange_ok_def exchange_inv_def)
  have "\<exists>x'. wake_sender k now x = Some x' \<and>
       x_sent x' k = x_sent x k @ [x_servers x k ! (length (x_sent x k) mod length (x_servers x k))] \<and>
       req_send_time (x_requests x' k) = now" if "x_senders x k = Sleeping rest" for rest
  proof -
    have r: "in_round (x_servers x k) (x_sent x k) rest"
      using ok that by (simp add: request_inv_def)
    then obtain s rest' where n: "next_server (x_servers x k) rest = Some (s, rest')"
      by (cases rest; cases "x_servers x k") (auto simp: in_round_def)
    have "round_robin (x_servers x k) (x_sent x k @ [s])"
      using in_round_next[OF r n] by (simp add: in_round_def)
    then show ?thesis
      using that n by (force simp: wake_sender_def begin_send_def round_robin_def)
  qed
  then show ?thesis
    using ok sender_ok_round_robin[of "x_servers x k" "x_sent x k" "x_senders x k"]
    by (auto simp: request_inv_def round_robin_def)
qed

section \<open>A run\<close>

abbreviation demo_exchange :: Exchange where
  "demo_exchange \<equiv> Exchange_make True [] (replicate 32 0) (\<lambda>_. demo_pending)"

definition exchange_at :: "Exchange \<Rightarrow> SockaddrStorage list \<Rightarrow> SockaddrStorage list \<Rightarrow> sender \<Rightarrow> bool \<Rightarrow> bool" where
  "exchange_at x servers sent s completed \<longleftrightarrow> exchange_run x \<and> x_pending x = [0] \<and> x_scheduled x = [] \<and>
     x_senders x 0 = s \<and> x_sent x 0 = sent \<and> x_servers x 0 = servers \<and> x_receiver_completed x = completed"

lemma demo_encoded:
  assumes "q_name q = [0x61]" and "q_opcode q = 0" and "q_recursion_desired q"
  shows "\<exists>msg. encode_question (\<lambda>_. 0) (\<lambda>_. True) q = Some (Ok msg)"
proof -
  have "set_opcode 0 0 = Some 0" "set_recursion_desired True 0 = Some 256"
    by code_simp+
  moreover have "first_bad (split_into_labels [0x61]) = None"
    by code_simp
  then have "\<exists>cm. encode_domain_name (\<lambda>_. 0) (\<lambda>_. True) out [0x61] [] =
      Some (Ok (out @ name_wire (split_into_labels [0x61]), cm))" for out
    using encode_domain_name_spec[of "\<lambda>_. 0" "\<lambda>_. True" out "[0x61]"] by simp
  then obtain cm where "\<And>out. encode_domain_name (\<lambda>_. 0) (\<lambda>_. True) out [0x61] [] =
      Some (Ok (out @ name_wire (split_into_labels [0x61]), cm out))"
    by metis
  ultimately show ?thesis
    using assms by (simp add: encode_question_def COROSIG_TRY_def Let_def)
qed

lemma demo_started: "\<exists>x. exchange_at x [s, t] [s] (Sending s [t]) True"
proof -
  have "gen_ok (x_rand_gen demo_exchange)"
    by (simp add: Exchange_make_def gen_ok_make)
  then obtain bs gen where g: "generate_bytes True 2 (x_rand_gen demo_exchange) = Some (bs, gen)"
    using generate_loop_ok[of _ True 2 "[]"] unfolding generate_bytes_def by blast
  let ?q = "(req_question (new_request [0x61] (Out_Ipv4 1 [])))\<lparr>q_id := of_mem_bytes True bs\<rparr>"
  obtain msg where m: "encode_question (\<lambda>_. 0) (\<lambda>_. True) ?q = Some (Ok msg)"
    using demo_encoded[of ?q] by (auto simp: new_request_def)
  obtain x where x: "start_request True True (\<lambda>_. 0) (\<lambda>_. True) 0 [s, t] [0x61] (Out_Ipv4 1 []) 0 demo_exchange = Some (Ok msg, x)"
    and e: "x_pending x = [0]" "x_scheduled x = []" "x_senders x 0 = Sending s [t]" "x_sent x 0 = [s]"
      "x_servers x 0 = [s, t]" "x_receiver_completed x"
    using g m skip_collisions.simps[of _ "[]"]
    by (auto simp: start_request_def Exchange_make_def insert_pending_def begin_send_def Let_def)
  have "exchange_run demo_exchange"
    by (rule exchange_run.make) simp
  then have "exchange_run x"
    by (rule exchange_run.step) (rule exchange_step.start[OF x], simp_all add: Exchange_make_def)
  then show ?thesis
    using e by (auto simp: exchange_at_def)
qed

text \<open>The first send succeeds, which starts the receiver; two seconds later the second server is asked.\<close>

lemma demo_asleep: "\<exists>x. exchange_at x [s, t] [s] (Sleeping [t]) False"
proof -
  obtain x where x: "exchange_at x [s, t] [s] (Sending s [t]) True"
    using demo_started by blast
  let ?x = "x\<lparr>x_receiver_completed := False, x_senders := (x_senders x)(0 := Sleeping [t])\<rparr>"
  have "end_send True 0 (Ok 19) True [] x = Some ?x"
    using x by (simp add: exchange_at_def end_send_def receive_server_answers_def)
  then have "exchange_step x ?x"
    by (rule exchange_step.sent)
  then have "exchange_run ?x"
    using x exchange_run.step by (auto simp: exchange_at_def)
  then have "exchange_at ?x [s, t] [s] (Sleeping [t]) False"
    using x by (simp add: exchange_at_def)
  then show ?thesis
    by blast
qed

lemma demo_resent: "\<exists>x. exchange_at x [s, t] [s, t] (Sending t []) False"
proof -
  obtain x where x: "exchange_at x [s, t] [s] (Sleeping [t]) False"
    using demo_asleep by blast
  then obtain x' where w: "wake_sender 0 now x = Some x'" and e: "x_pending x' = [0]" "x_scheduled x' = []"
      "x_senders x' 0 = Sending t []" "x_sent x' 0 = [s, t]" "x_servers x' 0 = [s, t]" "\<not> x_receiver_completed x'"
    by (auto simp: exchange_at_def wake_sender_def begin_send_def)
  have "exchange_run x'"
    using x exchange_run.step[OF _ exchange_step.wake[OF w]] by (simp add: exchange_at_def)
  then show ?thesis
    using e by (auto simp: exchange_at_def)
qed

theorem exchange_run_refines_witness:
  "\<exists>x. exchange_run x \<and> x_pending x = [0] \<and> req_result (x_requests x 0) = Nothing \<and> resolver_run (resolver_of x)"
proof -
  obtain x where "exchange_run x" "x_pending x = [0]"
    using demo_started by (auto simp: exchange_at_def)
  then show ?thesis
    using exchange_run_refines[of x] by auto
qed

theorem exchange_round_robin_witness:
  "\<exists>x x'. exchange_run x \<and> x_senders x 0 = Sleeping [SockaddrIn 53 2] \<and> wake_sender 0 2000000000 x = Some x' \<and>
     x_sent x' 0 = [SockaddrIn 53 1, SockaddrIn 53 2]"
proof -
  obtain x where x: "exchange_at x [SockaddrIn 53 1, SockaddrIn 53 2] [SockaddrIn 53 1] (Sleeping [SockaddrIn 53 2]) False"
    using demo_asleep by blast
  then have "exchange_run x"
    by (simp add: exchange_at_def)
  from exchange_round_robin[OF this, of 0 2000000000] x show ?thesis
    by (auto simp: exchange_at_def)
qed

section \<open>The failure that arrives too late\<close>

text \<open>
  A send that was suspended can fail when the answer has already come and the request waits in the
  list of the reactor: the answer is replaced by the error, and the request is put into that list a
  second time, on which the assertion of the hook fails (without assertions the list is corrupted).
\<close>

lemma late_send_failure:
  assumes "k \<in> set (x_scheduled x)" and "x_senders x k = Sending s rest" and "x_receiver_completed x \<longrightarrow> x_pending x = []"
  shows "end_send little k (Failure e) allocated evs x = None"
  using assms by (simp add: end_send_def receive_server_answers_def)

text \<open>
  A request whose sender could not be allocated is pending all the same, and nothing is ever sent
  for it: nobody looks at the failed future of the sender.
\<close>

lemma unallocated_sender_never_sends:
  assumes "start_request False little hash grow k addrs name out now x = Some (Ok msg, x')"
  shows "k \<in> set (x_pending x') \<and> x_sent x' k = [] \<and> end_send little k r allocated evs x' = None \<and>
    wake_sender k now x' = None"
proof -
  obtain bs gen where g: "generate_bytes little 2 (x_rand_gen x) = Some (bs, gen)"
    using assms by (auto simp: start_request_def bind_eq_Some_conv split: if_splits)
  obtain encoded request where "(case encoded of Nothing \<Rightarrow> None
       | Failure e \<Rightarrow> Some (Failure (Resolve_Failure (Encode_Error e)), x\<lparr>x_rand_gen := gen\<rparr>)
       | Ok msg \<Rightarrow> let x = insert_pending k addrs request (x\<lparr>x_rand_gen := gen\<rparr>)
           in Some (Ok msg, x\<lparr>x_senders := (x_senders x)(k := Finished)\<rparr>)) = Some (Ok msg, x')"
    using assms unfolding start_request_def g
    by (simp only: Let_def bind_eq_Some_conv) (auto simp: bind_eq_Some_conv Let_def split: if_splits)
  then obtain request where "x' = (insert_pending k addrs request (x\<lparr>x_rand_gen := gen\<rparr>))\<lparr>x_senders :=
      (x_senders (insert_pending k addrs request (x\<lparr>x_rand_gen := gen\<rparr>)))(k := Finished)\<rparr>"
    by (cases encoded) (auto simp: Let_def)
  then show ?thesis
    by (simp add: insert_pending_def Let_def end_send_def wake_sender_def)
qed

text \<open>Such a state is reached: the second question is being sent when the answer to the first comes.\<close>

lemma late_send_failure_reachable:
  "\<exists>x s. exchange_run x \<and> 0 \<in> set (x_scheduled x) \<and> x_senders x 0 = Sending s [] \<and> x_pending x = []"
proof -
  obtain x s t where x: "exchange_at x [s, t] [s, t] (Sending t []) False"
    using demo_resent by blast
  let ?p = "x_requests x 0"
  let ?bs = "write_hton (req_id ?p) @ replicate 10 (0 :: u8)"
  let ?mem = "Span 64 (?bs @ replicate 500 0)"
  have l: "length (write_hton (req_id ?p)) = 2"
    by (simp add: write_hton_be_bytes)
  have z: "read_ntoh (replicate 2 0) = (0 :: u16)"
    by (simp add: read_ntoh_def numeral_2_eq_2)
  obtain d where h: "consume_header (ResponseDecoder_make (Span 64 ?bs)) =
      (Ok \<lparr>hdr_id = req_id ?p, hdr_flags = 0, hdr_qdcount = 0, hdr_ancount = 0, hdr_nscount = 0, hdr_arcount = 0\<rparr>, d)"
    using l z by (simp add: consume_header_def ResponseDecoder_make_def span_size_def)
  have "\<exists>p. process_server_answer True ?mem \<lparr>hdr_id = req_id ?p, hdr_flags = 0, hdr_qdcount = 0, hdr_ancount = 0,
      hdr_nscount = 0, hdr_arcount = 0\<rparr> d ?p = Some p"
  proof -
    have "get_rcode 0 = ServerResponseCode_value NOERROR" "\<not> is_response 0"
      by code_simp+
    then have "validate_response m \<lparr>hdr_id = req_id ?p, hdr_flags = 0, hdr_qdcount = 0, hdr_ancount = 0,
        hdr_nscount = 0, hdr_arcount = 0\<rparr> q d = Some (Failure (Code_Error GOT_REQUEST_INSTEAD), d)" for m q
      by (simp add: validate_response_def)
    then show ?thesis
      by (simp add: process_server_answer_def process_server_answer_impl_def split: out_span.split)
  qed
  then obtain p where p: "answer_datagram True ?mem 12 x = Some (complete_request 0 p x)"
    using x h l by (auto simp: answer_datagram_def exchange_at_def find_request_def span_size_def Let_def)
  let ?x = "complete_request 0 p x\<lparr>x_receiver_completed := True\<rparr>"
  have "resume_receiver True [Received ?mem 12] x = Some ?x"
    using p x by (simp add: complete_request_def exchange_at_def)
  then have "exchange_run ?x"
    using x exchange_run.step exchange_step.receive unfolding exchange_at_def by blast
  then show ?thesis
    using x by (auto simp: complete_request_def exchange_at_def)
qed

end
