(* ===== verification/Corosig_Handles.thy ===== *)
theory Corosig_Handles
  imports Corosig_Sockets_Claims
begin

text \<open>
  The classes that own a descriptor, as objects: \<^verbatim>\<open>File\<close>, \<^verbatim>\<open>PipeRead\<close>, \<^verbatim>\<open>PipeWrite\<close>, \<^verbatim>\<open>TcpSocket\<close>,
  \<^verbatim>\<open>UdpSocket\<close> and \<^verbatim>\<open>TcpListener\<close> of \<^verbatim>\<open>io/\<close>, which are written alike, with their constructors, moves,
  assignments and destructors over the kernel of \<^verbatim>\<open>Corosig_Sockets\<close>. An object is named by its
  address; \<^term>\<open>None\<close> is the use of an object that does not exist.
\<close>

section \<open>Flags\<close>

text \<open>\<^verbatim>\<open>util/Bitmask.hpp\<close>: the operators of an enumeration are those of the values of its underlying type.\<close>

definition bitmask_and :: "int \<Rightarrow> int \<Rightarrow> int" where "bitmask_and x y = and x y"
definition bitmask_or :: "int \<Rightarrow> int \<Rightarrow> int" where "bitmask_or x y = or x y"
definition bitmask_xor :: "int \<Rightarrow> int \<Rightarrow> int" where "bitmask_xor x y = xor x y"
definition bitmask_not :: "int \<Rightarrow> int" where "bitmask_not x = not x"

datatype OpenPerms =
    Perms_UNSPECIFIED | Perms_READ | Perms_WRITE | Perms_EXEC | Perms_RW | Perms_RWX
  | GRP_READ | GRP_WRITE | GRP_EXEC | GRP_RW | GRP_RWX
  | OTH_READ | OTH_WRITE | OTH_EXEC | OTH_RW | OTH_RWX | Perms_DEFAULT

fun OpenPerms_value :: "OpenPerms \<Rightarrow> int" where
  "OpenPerms_value Perms_UNSPECIFIED = 0"
| "OpenPerms_value Perms_READ = 0x100"
| "OpenPerms_value Perms_WRITE = 0x80"
| "OpenPerms_value Perms_EXEC = 0x40"
| "OpenPerms_value Perms_RW = or 0x100 0x80"
| "OpenPerms_value Perms_RWX =
     or (or 0x100 0x80) 0x40"
| "OpenPerms_value GRP_READ = 0x20"
| "OpenPerms_value GRP_WRITE = 0x10"
| "OpenPerms_value GRP_EXEC = 0x8"
| "OpenPerms_value GRP_RW = or 0x20 0x10"
| "OpenPerms_value GRP_RWX = or (or 0x20 0x10) 0x8"
| "OpenPerms_value OTH_READ = 0x4"
| "OpenPerms_value OTH_WRITE = 0x2"
| "OpenPerms_value OTH_EXEC = 0x1"
| "OpenPerms_value OTH_RW = or 0x4 0x2"
| "OpenPerms_value OTH_RWX = or (or 0x4 0x2) 0x1"
| "OpenPerms_value Perms_DEFAULT =
     or (or (or 0x100 0x80) 0x20) 0x4"

section \<open>Objects\<close>

datatype handle_class =
    File_class | PipeRead_class | PipeWrite_class | TcpSocket_class | UdpSocket_class | TcpListener_class

record 'k Handles =
  h_kernel :: 'k
  h_objects :: "nat \<Rightarrow> (handle_class \<times> int) option"

definition handle_default :: "handle_class \<Rightarrow> nat \<Rightarrow> 'k Handles \<Rightarrow> 'k Handles" where
  "handle_default c a h = h\<lparr>h_objects := (h_objects h)(a \<mapsto> (c, - 1))\<rparr>"

definition make_from_os_specific_handle :: "handle_class \<Rightarrow> nat \<Rightarrow> int \<Rightarrow> 'k Handles \<Rightarrow> 'k Handles" where
  "make_from_os_specific_handle c a handle h = h\<lparr>h_objects := (h_objects h)(a \<mapsto> (c, handle))\<rparr>"

definition underlying_handle :: "nat \<Rightarrow> 'k Handles \<Rightarrow> int option" where
  "underlying_handle a h = map_option snd (h_objects h a)"

text \<open>The member \<^verbatim>\<open>close\<close>: that of a file has its own code.\<close>

definition handle_close :: "'k kernel \<Rightarrow> nat \<Rightarrow> 'k Handles \<Rightarrow> 'k Handles option" where
  "handle_close K a h = Option.bind (h_objects h a) (\<lambda>(c, fd).
     let (fd, k) = (case c of File_class \<Rightarrow> File_close K fd (h_kernel h) | _ \<Rightarrow> fd_close K fd (h_kernel h))
     in Some (h\<lparr>h_kernel := k, h_objects := (h_objects h)(a \<mapsto> (c, fd))\<rparr>))"

definition handle_destroy :: "'k kernel \<Rightarrow> nat \<Rightarrow> 'k Handles \<Rightarrow> 'k Handles option" where
  "handle_destroy K a h = map_option (\<lambda>h. h\<lparr>h_objects := (h_objects h)(a := None)\<rparr>) (handle_close K a h)"

definition handle_move :: "nat \<Rightarrow> nat \<Rightarrow> 'k Handles \<Rightarrow> 'k Handles option" where
  "handle_move a rhs h = Option.bind (h_objects h rhs) (\<lambda>(c, fd).
     let (value, left) = move_handle fd
     in Some (h\<lparr>h_objects := (h_objects h)(rhs \<mapsto> (c, left), a \<mapsto> (c, value))\<rparr>))"

definition handle_assign :: "'k kernel \<Rightarrow> nat \<Rightarrow> nat \<Rightarrow> 'k Handles \<Rightarrow> 'k Handles option" where
  "handle_assign K a rhs h =
     (if a \<noteq> rhs then Option.bind (handle_destroy K a h) (handle_move a rhs) else Some h)"

text \<open>What a function returns becomes an object of the caller, or there is none.\<close>

definition returned :: "handle_class \<Rightarrow> nat \<Rightarrow> (int, 'e) result \<times> 'k \<Rightarrow> 'k Handles \<Rightarrow> 'k Handles" where
  "returned c a = (\<lambda>(r, k) h. (case r of
     Ok fd \<Rightarrow> make_from_os_specific_handle c a fd (h\<lparr>h_kernel := k\<rparr>)
   | _ \<Rightarrow> h\<lparr>h_kernel := k\<rparr>))"

definition pipe_make :: "'k kernel \<Rightarrow> nat \<Rightarrow> nat \<Rightarrow> 'k Handles \<Rightarrow> 'k Handles" where
  "pipe_make K a b h = (case PipePair_make K (h_kernel h) of
     (Ok (r, w), k) \<Rightarrow>
       make_from_os_specific_handle PipeWrite_class b w
         (make_from_os_specific_handle PipeRead_class a r (h\<lparr>h_kernel := k\<rparr>))
   | (_, k) \<Rightarrow> h\<lparr>h_kernel := k\<rparr>)"

text \<open>The members that transfer data pass the descriptor on.\<close>

definition handle_read :: "'k kernel \<Rightarrow> nat \<Rightarrow> nat \<Rightarrow> 'k Handles \<Rightarrow> ((octets, IoError) result \<times> 'k Handles) option" where
  "handle_read K a count h = Option.bind (underlying_handle a h) (\<lambda>fd.
     let (r, k) = fd_read K fd count (h_kernel h) in Some (r, h\<lparr>h_kernel := k\<rparr>))"

definition handle_read_some :: "'k kernel \<Rightarrow> nat \<Rightarrow> nat \<Rightarrow> 'k Handles \<Rightarrow> ((octets, IoError) result \<times> 'k Handles) option" where
  "handle_read_some K a count h = Option.bind (underlying_handle a h) (\<lambda>fd.
     let (r, k) = fd_read_some K fd count (h_kernel h) in Some (r, h\<lparr>h_kernel := k\<rparr>))"

definition handle_try_read_some ::
  "'k kernel \<Rightarrow> nat \<Rightarrow> nat \<Rightarrow> 'k Handles \<Rightarrow> ((octets, SyscallError) result \<times> 'k Handles) option" where
  "handle_try_read_some K a count h = Option.bind (underlying_handle a h) (\<lambda>fd.
     let (r, k) = try_read_some K fd count (h_kernel h) in Some (r, h\<lparr>h_kernel := k\<rparr>))"

definition handle_write :: "'k kernel \<Rightarrow> nat \<Rightarrow> octets \<Rightarrow> 'k Handles \<Rightarrow> ((nat, IoError) result \<times> 'k Handles) option" where
  "handle_write K a buf h = Option.bind (underlying_handle a h) (\<lambda>fd.
     Option.bind (fd_write K fd buf (h_kernel h)) (\<lambda>(r, k). Some (r, h\<lparr>h_kernel := k\<rparr>)))"

definition handle_write_some :: "'k kernel \<Rightarrow> nat \<Rightarrow> octets \<Rightarrow> 'k Handles \<Rightarrow> ((nat, IoError) result \<times> 'k Handles) option" where
  "handle_write_some K a buf h = Option.bind (underlying_handle a h) (\<lambda>fd.
     let (r, k) = fd_write_some K fd buf (h_kernel h) in Some (r, h\<lparr>h_kernel := k\<rparr>))"

definition handle_try_write_some ::
  "'k kernel \<Rightarrow> nat \<Rightarrow> octets \<Rightarrow> 'k Handles \<Rightarrow> ((nat, SyscallError) result \<times> 'k Handles) option" where
  "handle_try_write_some K a buf h = Option.bind (underlying_handle a h) (\<lambda>fd.
     let (r, k) = try_write_some K fd buf (h_kernel h) in Some (r, h\<lparr>h_kernel := k\<rparr>))"

definition handle_recv_from ::
  "'k kernel \<Rightarrow> nat \<Rightarrow> nat \<Rightarrow> 'k Handles \<Rightarrow> ((octets \<times> SockaddrStorage, IoError) result \<times> 'k Handles) option" where
  "handle_recv_from K a count h = Option.bind (underlying_handle a h) (\<lambda>fd.
     let (r, k) = recv_from K fd count (h_kernel h) in Some (r, h\<lparr>h_kernel := k\<rparr>))"

definition handle_send_to ::
  "'k kernel \<Rightarrow> nat \<Rightarrow> octets \<Rightarrow> SockaddrStorage \<Rightarrow> 'k Handles \<Rightarrow> ((nat, IoError) result \<times> 'k Handles) option" where
  "handle_send_to K a message dest h = Option.bind (underlying_handle a h) (\<lambda>fd.
     let (r, k) = send_to K fd message dest (h_kernel h) in Some (r, h\<lparr>h_kernel := k\<rparr>))"

text \<open>The standard streams name a descriptor and do not own it.\<close>

definition StdIn_stdin :: int where "StdIn_stdin = 0"
definition StdOut_stdout :: int where "StdOut_stdout = 1"
definition StdOut_stderr :: int where "StdOut_stderr = 2"

definition StdIn_read :: "'k kernel \<Rightarrow> nat \<Rightarrow> 'k \<Rightarrow> (octets, IoError) result \<times> 'k" where
  "StdIn_read K count k = fd_read K StdIn_stdin count k"

definition StdIn_read_some :: "'k kernel \<Rightarrow> nat \<Rightarrow> 'k \<Rightarrow> (octets, IoError) result \<times> 'k" where
  "StdIn_read_some K count k = fd_read_some K StdIn_stdin count k"

definition StdIn_try_read_some :: "'k kernel \<Rightarrow> nat \<Rightarrow> 'k \<Rightarrow> (octets, SyscallError) result \<times> 'k" where
  "StdIn_try_read_some K count k = try_read_some K StdIn_stdin count k"

text \<open>\<^term>\<open>m_fd\<close> is the descriptor of either output stream.\<close>

definition StdOut_write :: "'k kernel \<Rightarrow> int \<Rightarrow> octets \<Rightarrow> 'k \<Rightarrow> ((nat, IoError) result \<times> 'k) option" where
  "StdOut_write K m_fd buf k = fd_write K m_fd buf k"

definition StdOut_write_some :: "'k kernel \<Rightarrow> int \<Rightarrow> octets \<Rightarrow> 'k \<Rightarrow> (nat, IoError) result \<times> 'k" where
  "StdOut_write_some K m_fd buf k = fd_write_some K m_fd buf k"

definition StdOut_try_write_some :: "'k kernel \<Rightarrow> int \<Rightarrow> octets \<Rightarrow> 'k \<Rightarrow> (nat, SyscallError) result \<times> 'k" where
  "StdOut_try_write_some K m_fd buf k = try_write_some K m_fd buf k"

lemma OpenPerms_default: "OpenPerms_value Perms_DEFAULT = 0x1A4" "bitmask_and (OpenPerms_value Perms_RWX) 0x1A4 = OpenPerms_value Perms_RW"
  by (simp_all add: bitmask_and_def)

end
