(* ===== verification/Corosig_Handles_Claims.thy ===== *)
theory Corosig_Handles_Claims
  imports Corosig_Handles
begin

text \<open>
  Ownership of descriptors over the life of the objects: whatever a program does with files, pipes
  and sockets, no descriptor is closed twice or by an object that does not own it, and none is leaked
  but by \<^verbatim>\<open>connect_from\<close>.
\<close>

section \<open>Runs\<close>

text \<open>What the transferring calls promise, and what \<^verbatim>\<open>pipe2\<close> gives.\<close>

definition transfers :: "'k kernel \<Rightarrow> ('k \<Rightarrow> int set) \<Rightarrow> bool" where
  "transfers K fds \<longleftrightarrow>
     (\<forall>fd n k. fds (snd (sys_read K fd n k)) = fds k) \<and> (\<forall>fd bs k. fds (snd (sys_write K fd bs k)) = fds k) \<and>
     (\<forall>fd n k. fds (snd (sys_recvfrom K fd n k)) = fds k) \<and>
     (\<forall>fd bs d n k. fds (snd (sys_sendto K fd bs d n k)) = fds k) \<and> (\<forall>k. \<forall>fd \<in> fds k. 0 \<le> fd) \<and>
     (\<forall>k. case sys_pipe2 K k of
        (None, k') \<Rightarrow> fds k' = fds k
      | (Some (r, w), k') \<Rightarrow> r \<noteq> w \<and> r \<notin> fds k \<and> w \<notin> fds k \<and> fds k' = insert r (insert w (fds k)))"

lemma transfersD:
  assumes "transfers K fds"
  shows "sys_read K fd n k = (x, k') \<Longrightarrow> fds k' = fds k" "sys_write K fd bs k = (y, k') \<Longrightarrow> fds k' = fds k"
    "sys_recvfrom K fd n k = (z, k') \<Longrightarrow> fds k' = fds k" "sys_sendto K fd bs d n k = (y, k') \<Longrightarrow> fds k' = fds k"
    "fd \<in> fds k \<Longrightarrow> 0 \<le> fd" "sys_pipe2 K k = (None, k') \<Longrightarrow> fds k' = fds k"
    "sys_pipe2 K k = (Some (r, w), k') \<Longrightarrow> r \<noteq> w \<and> r \<notin> fds k \<and> w \<notin> fds k \<and> fds k' = insert r (insert w (fds k))"
proof -
  note t = assms[unfolded transfers_def]
  show "sys_read K fd n k = (x, k') \<Longrightarrow> fds k' = fds k"
    using conjunct1[OF t] by (metis snd_conv)
  show "sys_write K fd bs k = (y, k') \<Longrightarrow> fds k' = fds k"
    using conjunct1[OF conjunct2[OF t]] by (metis snd_conv)
  show "sys_recvfrom K fd n k = (z, k') \<Longrightarrow> fds k' = fds k"
    using conjunct1[OF conjunct2[OF conjunct2[OF t]]] by (metis snd_conv)
  show "sys_sendto K fd bs d n k = (y, k') \<Longrightarrow> fds k' = fds k"
    using conjunct1[OF conjunct2[OF conjunct2[OF conjunct2[OF t]]]] by (metis snd_conv)
  show "fd \<in> fds k \<Longrightarrow> 0 \<le> fd"
    using t by blast
  have p: "case sys_pipe2 K k of (None, k') \<Rightarrow> fds k' = fds k
      | (Some (r, w), k') \<Rightarrow> r \<noteq> w \<and> r \<notin> fds k \<and> w \<notin> fds k \<and> fds k' = insert r (insert w (fds k))"
    by (rule t[THEN conjunct2, THEN conjunct2, THEN conjunct2, THEN conjunct2, THEN conjunct2, THEN spec])
  show "sys_pipe2 K k = (None, k') \<Longrightarrow> fds k' = fds k"
    using p by simp
  show "sys_pipe2 K k = (Some (r, w), k') \<Longrightarrow> r \<noteq> w \<and> r \<notin> fds k \<and> w \<notin> fds k \<and> fds k' = insert r (insert w (fds k))"
    using p by simp
qed

text \<open>
  The descriptor that \<^verbatim>\<open>connect_from\<close> opens and forgets when \<^verbatim>\<open>bind\<close> fails.
\<close>

definition connect_from_leak :: "'k kernel \<Rightarrow> SockaddrStorage \<Rightarrow> 'k \<Rightarrow> int set" where
  "connect_from_leak K local k =
     (let (sock, k) = sys K (Socket (ss_family local) SOCK_STREAM) k
      in if sock \<noteq> - 1 \<and> fst (sys K (Bind sock local (addr_length local)) k) \<noteq> 0 then {sock} else {})"

text \<open>
  The program starts in the kernel state \<^term>\<open>k0\<close> without objects. \<^term>\<open>A\<close> are the descriptors open at
  the start that objects took over by \<^verbatim>\<open>make_from_os_specific_handle\<close>, \<^term>\<open>L\<close> those that were leaked.
\<close>

inductive handles_run :: "'k kernel \<Rightarrow> ('k \<Rightarrow> int set) \<Rightarrow> 'k \<Rightarrow> int set \<Rightarrow> int set \<Rightarrow> 'k Handles \<Rightarrow> bool" for K fds k0 where
  start: "handles_run K fds k0 {} {} \<lparr>h_kernel = k0, h_objects = (\<lambda>_. None)\<rparr>"
| default: "handles_run K fds k0 A L h \<Longrightarrow> h_objects h a = None \<Longrightarrow> handles_run K fds k0 A L (handle_default c a h)"
| adopt: "handles_run K fds k0 A L h \<Longrightarrow> h_objects h a = None \<Longrightarrow> fd \<in> fds k0 - A \<Longrightarrow>
    handles_run K fds k0 (insert fd A) L (make_from_os_specific_handle c a fd h)"
| open_file: "handles_run K fds k0 A L h \<Longrightarrow> h_objects h a = None \<Longrightarrow>
    handles_run K fds k0 A L (returned File_class a (File_open K path flags perms (h_kernel h)) h)"
| listen: "handles_run K fds k0 A L h \<Longrightarrow> h_objects h a = None \<Longrightarrow>
    handles_run K fds k0 A L (returned TcpListener_class a (TcpListener_make K opts (h_kernel h)) h)"
| accept: "handles_run K fds k0 A L h \<Longrightarrow> h_objects h a = None \<Longrightarrow> underlying_handle l h = Some fd \<Longrightarrow>
    handles_run K fds k0 A L (returned TcpSocket_class a
      (case TcpListener_accept K fd (h_kernel h) of (r, k) \<Rightarrow> (map_result fst id r, k)) h)"
| connect: "handles_run K fds k0 A L h \<Longrightarrow> h_objects h a = None \<Longrightarrow>
    handles_run K fds k0 A L (returned TcpSocket_class a (TcpSocket_connect K frame target (h_kernel h)) h)"
| connect_from: "handles_run K fds k0 A L h \<Longrightarrow> h_objects h a = None \<Longrightarrow>
    handles_run K fds k0 A (L \<union> connect_from_leak K local (h_kernel h))
      (returned TcpSocket_class a (TcpSocket_connect_from K frame local target (h_kernel h)) h)"
| unbound: "handles_run K fds k0 A L h \<Longrightarrow> h_objects h a = None \<Longrightarrow>
    handles_run K fds k0 A L (returned UdpSocket_class a (UdpSocket_unbound K family (h_kernel h)) h)"
| bound: "handles_run K fds k0 A L h \<Longrightarrow> h_objects h a = None \<Longrightarrow>
    handles_run K fds k0 A L (returned UdpSocket_class a (UdpSocket_bound K local (h_kernel h)) h)"
| pipe: "handles_run K fds k0 A L h \<Longrightarrow> h_objects h a = None \<Longrightarrow> h_objects h b = None \<Longrightarrow> a \<noteq> b \<Longrightarrow>
    handles_run K fds k0 A L (pipe_make K a b h)"
| close: "handles_run K fds k0 A L h \<Longrightarrow> handle_close K a h = Some h' \<Longrightarrow> handles_run K fds k0 A L h'"
| destroy: "handles_run K fds k0 A L h \<Longrightarrow> handle_destroy K a h = Some h' \<Longrightarrow> handles_run K fds k0 A L h'"
| move: "handles_run K fds k0 A L h \<Longrightarrow> h_objects h a = None \<Longrightarrow> handle_move a rhs h = Some h' \<Longrightarrow>
    handles_run K fds k0 A L h'"
| assign: "handles_run K fds k0 A L h \<Longrightarrow> handle_assign K a rhs h = Some h' \<Longrightarrow> handles_run K fds k0 A L h'"
| read: "handles_run K fds k0 A L h \<Longrightarrow> handle_read K a n h = Some (r, h') \<Longrightarrow> handles_run K fds k0 A L h'"
| read_some: "handles_run K fds k0 A L h \<Longrightarrow> handle_read_some K a n h = Some (r, h') \<Longrightarrow> handles_run K fds k0 A L h'"
| try_read_some: "handles_run K fds k0 A L h \<Longrightarrow> handle_try_read_some K a n h = Some (s, h') \<Longrightarrow> handles_run K fds k0 A L h'"
| "write": "handles_run K fds k0 A L h \<Longrightarrow> handle_write K a bs h = Some (t, h') \<Longrightarrow> handles_run K fds k0 A L h'"
| write_some: "handles_run K fds k0 A L h \<Longrightarrow> handle_write_some K a bs h = Some (t, h') \<Longrightarrow> handles_run K fds k0 A L h'"
| try_write_some: "handles_run K fds k0 A L h \<Longrightarrow> handle_try_write_some K a bs h = Some (u, h') \<Longrightarrow> handles_run K fds k0 A L h'"
| recv_from: "handles_run K fds k0 A L h \<Longrightarrow> handle_recv_from K a n h = Some (v, h') \<Longrightarrow> handles_run K fds k0 A L h'"
| send_to: "handles_run K fds k0 A L h \<Longrightarrow> handle_send_to K a bs dest h = Some (t, h') \<Longrightarrow> handles_run K fds k0 A L h'"

section \<open>The invariant\<close>

text \<open>The descriptor of every object, -1 where there is no object.\<close>

definition fd_at :: "'k Handles \<Rightarrow> nat \<Rightarrow> int" where
  "fd_at h a = (case h_objects h a of None \<Rightarrow> - 1 | Some (c, fd) \<Rightarrow> fd)"

definition owned :: "(nat \<Rightarrow> int) \<Rightarrow> int set" where
  "owned f = range f - {- 1}"

definition one_owner :: "(nat \<Rightarrow> int) \<Rightarrow> bool" where
  "one_owner f \<longleftrightarrow> (\<forall>a b. f a = f b \<longrightarrow> f a \<noteq> - 1 \<longrightarrow> a = b)"

definition handles_inv :: "('k \<Rightarrow> int set) \<Rightarrow> int set \<Rightarrow> 'k Handles \<Rightarrow> bool" where
  "handles_inv fds foreign h \<longleftrightarrow> one_owner (fd_at h) \<and> owned (fd_at h) \<inter> foreign = {} \<and>
     fds (h_kernel h) = foreign \<union> owned (fd_at h)"

lemma owned_upd: "owned (f(a := fd)) = insert fd (f ` (UNIV - {a})) - {- 1}"
  unfolding owned_def fun_upd_image by simp

lemma owned_split: "owned f = insert (f a) (f ` (UNIV - {a})) - {- 1}"
  using owned_upd[of f a "f a"] by simp

lemma owned_take:
  assumes "f a = - 1"
  shows "owned (f(a := fd)) = insert fd (owned f) - {- 1}"
    and "one_owner f \<Longrightarrow> fd \<notin> owned f \<Longrightarrow> one_owner (f(a := fd))"
proof -
  show "owned (f(a := fd)) = insert fd (owned f) - {- 1}"
    unfolding owned_upd owned_split[of f a] assms by blast
  show "one_owner (f(a := fd))" if "one_owner f" "fd \<notin> owned f"
    using that assms unfolding one_owner_def owned_def by (simp add: image_iff) metis
qed

lemma owned_give:
  assumes "one_owner f"
  shows "owned (f(a := - 1)) = owned f - {f a}" and "one_owner (f(a := - 1))"
proof -
  have "f a = - 1 \<or> f a \<notin> f ` (UNIV - {a})"
    using assms unfolding one_owner_def by fastforce
  then show "owned (f(a := - 1)) = owned f - {f a}"
    unfolding owned_upd owned_split[of f a] by (elim disjE) (simp, blast)
  show "one_owner (f(a := - 1))"
    using assms by (simp add: one_owner_def)
qed

lemma fd_at_simps [simp]:
  "fd_at (h\<lparr>h_kernel := k\<rparr>) = fd_at h"
  "fd_at (h\<lparr>h_objects := (h_objects h)(a \<mapsto> (c, fd))\<rparr>) = (fd_at h)(a := fd)"
  "fd_at (h\<lparr>h_kernel := k, h_objects := (h_objects h)(a \<mapsto> (c, fd))\<rparr>) = (fd_at h)(a := fd)"
  "fd_at (h\<lparr>h_objects := (h_objects h)(a := None)\<rparr>) = (fd_at h)(a := - 1)"
  by (auto simp: fd_at_def)

lemma inv_kernel: "handles_inv fds F h \<Longrightarrow> fds k = fds (h_kernel h) \<Longrightarrow> handles_inv fds F (h\<lparr>h_kernel := k\<rparr>)"
  by (simp add: handles_inv_def)

lemma inv_new:
  assumes "handles_inv fds F h" and "h_objects h a = None" and "fd \<notin> F \<union> owned (fd_at h)" and "fd \<noteq> - 1"
    and "fds k = insert fd (fds (h_kernel h))"
  shows "handles_inv fds F (make_from_os_specific_handle c a fd (h\<lparr>h_kernel := k\<rparr>))"
proof -
  have "fd_at h a = - 1" "- 1 \<notin> owned (fd_at h)"
    using assms(2) by (simp_all add: fd_at_def owned_def)
  then show ?thesis
    using assms owned_take[of "fd_at h" a fd] by (auto simp: handles_inv_def make_from_os_specific_handle_def)
qed

text \<open>Closing gives up exactly the descriptor of the object.\<close>

lemma inv_close:
  assumes "keeps_track K fds" and "transfers K fds" and "handles_inv fds F h" and "h_objects h a = Some (c, fd)"
  shows "\<exists>h'. handle_close K a h = Some h' \<and> handles_inv fds F h' \<and> h_objects h' = (h_objects h)(a \<mapsto> (c, - 1))"
proof -
  let ?k = "h_kernel h"
  have nonneg: "fd = - 1 \<or> 0 \<le> fd"
  proof -
    have "fd = - 1 \<or> fd \<in> owned (fd_at h)"
      using assms(4) by (auto simp: owned_def fd_at_def intro!: rev_image_eqI[of a])
    then show ?thesis
      using transfersD(5)[OF assms(2), of fd "h_kernel h"] assms(3) unfolding handles_inv_def by blast
  qed
  have "\<exists>k. (case c of File_class \<Rightarrow> File_close K fd ?k | _ \<Rightarrow> fd_close K fd ?k) = (- 1, k) \<and>
      fds k = fds ?k - (if fd = - 1 then {} else {fd})"
  proof (cases "fd = - 1")
    case True
    then show ?thesis
      by (auto simp: File_close_def fd_close_def split: handle_class.splits)
  next
    case False
    have "fds (snd (sys K (Fsync fd) k)) = fds k" "fds (snd (sys K (Close fd) k)) = fds k - {fd}" for k
      using keeps_trackD(1)[OF assms(1), of "Fsync fd" k] keeps_trackD(1)[OF assms(1), of "Close fd" k]
      by (metis opened.simps prod.collapse)+
    then show ?thesis
      using False nonneg by (simp add: File_close_def fd_close_def case_prod_unfold split: handle_class.splits)
  qed
  then obtain k where k: "(case c of File_class \<Rightarrow> File_close K fd ?k | _ \<Rightarrow> fd_close K fd ?k) = (- 1, k)"
      "fds k = fds ?k - (if fd = - 1 then {} else {fd})"
    by blast
  let ?h = "h\<lparr>h_kernel := k, h_objects := (h_objects h)(a \<mapsto> (c, - 1))\<rparr>"
  have "fd_at h a = fd"
    using assms(4) by (simp add: fd_at_def)
  then have "owned ((fd_at h)(a := - 1)) = owned (fd_at h) - {fd}" "one_owner ((fd_at h)(a := - 1))"
    "fd = - 1 \<or> fd \<in> owned (fd_at h)"
    using assms(3) owned_give[of "fd_at h" a] by (auto simp: handles_inv_def owned_def)
  then have "handles_inv fds F ?h"
    using assms(3) k(2) by (auto simp: handles_inv_def owned_def split: if_splits)
  then show ?thesis
    using assms(4) k(1) by (simp add: handle_close_def)
qed

lemma inv_forget:
  "handles_inv fds F h \<Longrightarrow> h_objects h a = Some (c, - 1) \<Longrightarrow> handles_inv fds F (h\<lparr>h_objects := (h_objects h)(a := None)\<rparr>)"
proof -
  assume h: "handles_inv fds F h" "h_objects h a = Some (c, - 1)"
  have "(fd_at h)(a := - 1) = fd_at h"
    using h(2) by (auto simp: fd_at_def)
  then show ?thesis
    using h(1) by (simp add: handles_inv_def)
qed

lemma inv_destroy:
  assumes "keeps_track K fds" and "transfers K fds" and "handles_inv fds F h" and "handle_destroy K a h = Some h'"
  shows "handles_inv fds F h' \<and> h_objects h' = (h_objects h)(a := None)"
proof -
  obtain c fd where a: "h_objects h a = Some (c, fd)"
    using assms(4) by (cases "h_objects h a") (auto simp: handle_destroy_def handle_close_def)
  obtain h1 where h1: "handle_close K a h = Some h1" "handles_inv fds F h1" "h_objects h1 = (h_objects h)(a \<mapsto> (c, - 1))"
    using inv_close[OF assms(1-3) a] by blast
  then show ?thesis
    using assms(4) inv_forget[OF h1(2), of a c] by (auto simp: handle_destroy_def)
qed

lemma inv_move:
  assumes "handles_inv fds F h" and "h_objects h a = None" and "handle_move a rhs h = Some h'"
  shows "handles_inv fds F h'"
proof -
  obtain c fd where r: "h_objects h rhs = Some (c, fd)"
    using assms(3) by (cases "h_objects h rhs") (auto simp: handle_move_def)
  then have h': "h' = h\<lparr>h_objects := (h_objects h)(rhs \<mapsto> (c, - 1), a \<mapsto> (c, fd))\<rparr>" and ne: "a \<noteq> rhs"
    using assms(2,3) by (auto simp: handle_move_def move_handle_def)
  have f: "fd_at h' = (fd_at h)(rhs := - 1, a := fd)" "fd_at h rhs = fd" "((fd_at h)(rhs := - 1)) a = - 1"
    using assms(2) r ne by (auto simp: h' fd_at_def)
  have o: "one_owner (fd_at h)"
    using assms(1) by (simp add: handles_inv_def)
  have g: "owned ((fd_at h)(rhs := - 1)) = owned (fd_at h) - {fd}" "one_owner ((fd_at h)(rhs := - 1))"
    using owned_give[OF o, of rhs] f(2) by simp_all
  have "owned (fd_at h') = owned (fd_at h)"
    using owned_take(1)[of "(fd_at h)(rhs := - 1)" a fd] g(1) f by (auto simp: owned_def)
  moreover have "one_owner (fd_at h')"
    using owned_take(2)[of "(fd_at h)(rhs := - 1)" a fd] g f by simp
  ultimately show ?thesis
    using assms(1) by (simp add: handles_inv_def h')
qed

lemma inv_assign:
  assumes "keeps_track K fds" and "transfers K fds" and "handles_inv fds F h" and "handle_assign K a rhs h = Some h'"
  shows "handles_inv fds F h'"
proof (cases "a = rhs")
  case False
  then obtain h1 where h1: "handle_destroy K a h = Some h1" "handle_move a rhs h1 = Some h'"
    using assms(4) by (auto simp: handle_assign_def bind_eq_Some_conv)
  then show ?thesis
    using inv_destroy[OF assms(1-3) h1(1)] inv_move[OF _ _ h1(2)] by simp
qed (use assms in \<open>simp add: handle_assign_def\<close>)

text \<open>Functions that open a descriptor and return it.\<close>

lemma inv_returned:
  assumes "transfers K fds" and "handles_inv fds F h" and "h_objects h a = None"
    and "opens_one fds (h_kernel h) (handle_only r)"
  shows "handles_inv fds F (returned c a r h)"
proof (cases r)
  case (Pair res k)
  show ?thesis
  proof (cases res)
    case (Ok fd)
    then have f: "fd \<notin> fds (h_kernel h)" "fds k = insert fd (fds (h_kernel h))"
      using assms(4) Pair by (simp_all add: owner_defs)
    moreover have "fd \<noteq> - 1"
      using transfersD(5)[OF assms(1), of fd k] f(2) by auto
    moreover have "fd \<notin> F \<union> owned (fd_at h)"
      using f(1) assms(2) by (simp add: handles_inv_def)
    ultimately show ?thesis
      unfolding returned_def Pair Ok prod.case result.case by (intro inv_new assms)
  next
    case (Failure e)
    then have "fds k = fds (h_kernel h)"
      using assms(4) Pair by (simp add: owner_defs)
    then show ?thesis
      using inv_kernel[OF assms(2)] by (simp add: returned_def Pair Failure)
  qed (use assms(4) Pair in \<open>simp add: owner_defs\<close>)
qed

lemma File_open_owns:
  assumes "keeps_track K fds"
  shows "opens_one fds k (handle_only (File_open K path flags perms k))"
proof -
  obtain fd k1 where s: "sys K (Open path (or flags O_NONBLOCK) perms) k = (fd, k1)"
    by fastforce
  show ?thesis
    using keeps_trackD(1)[OF assms s] by (simp add: File_open_def s owner_defs)
qed

lemma UdpSocket_unbound_owns:
  assumes "keeps_track K fds"
  shows "opens_one fds k (handle_only (UdpSocket_unbound K family k))"
proof -
  obtain fd k1 where s: "sys K (Socket family SOCK_DGRAM) k = (fd, k1)"
    by fastforce
  show ?thesis
    using keeps_trackD(1)[OF assms s] by (simp add: UdpSocket_unbound_def s owner_defs)
qed

lemma opens_one_io:
  assumes "opens_one fds k r"
  shows "opens_one fds k (handle_only (case io r of (r, k) \<Rightarrow> (map_result fst id r, k)))"
proof (cases r)
  case (Pair res k')
  then show ?thesis
    using assms by (cases res) (simp_all add: io_def owner_defs split: prod.splits)
qed

lemma opens_one_cong: "fds k = fds k' \<Longrightarrow> opens_one fds k r = opens_one fds k' r"
  by (auto simp: opens_one_def split: result.splits)

lemma TcpListener_accept_owns:
  assumes "keeps_track K fds"
  shows "opens_one fds k (handle_only (case TcpListener_accept K l k of (r, k) \<Rightarrow> (map_result fst id r, k)))"
proof -
  obtain r k1 where a: "try_accept K l k = (r, k1)"
    by fastforce
  note o = try_accept_owns[OF assms, of k l, unfolded a]
  show ?thesis
  proof (cases "\<exists>e. r = Failure e \<and> errno_value e = EWOULDBLOCK")
    case True
    then have "fds (wait_for K l CAN_READ k1) = fds k"
      using o by (auto simp: opens_one_def keeps_trackD(3)[OF assms])
    then have "opens_one fds k (try_accept K l (wait_for K l CAN_READ k1))"
      using try_accept_owns[OF assms, of "wait_for K l CAN_READ k1" l] by (subst opens_one_cong[symmetric])
    moreover have "TcpListener_accept K l k = io (try_accept K l (wait_for K l CAN_READ k1))"
      using True a by (auto simp: TcpListener_accept_def)
    ultimately show ?thesis
      using opens_one_io by simp
  next
    case False
    then have "TcpListener_accept K l k = io (r, k1)"
      using a by (cases r) (simp_all add: TcpListener_accept_def)
    then show ?thesis
      using opens_one_io[OF o] by simp
  qed
qed

lemma inv_pipe:
  assumes "transfers K fds" and "handles_inv fds F h" and "h_objects h a = None" and "h_objects h b = None" and "a \<noteq> b"
  shows "handles_inv fds F (pipe_make K a b h)"
proof -
  obtain p k where p: "sys_pipe2 K (h_kernel h) = (p, k)"
    by fastforce
  show ?thesis
  proof (cases p)
    case None
    then have "fds k = fds (h_kernel h)"
      using transfersD(6)[OF assms(1)] p by simp
    then show ?thesis
      using assms(2) p None by (simp add: pipe_make_def PipePair_make_def or_errno_def inv_kernel)
  next
    case (Some rw)
    obtain r w where rw: "rw = (r, w)"
      by fastforce
    then have f: "r \<noteq> w" "r \<notin> fds (h_kernel h)" "w \<notin> fds (h_kernel h)" "fds k = insert r (insert w (fds (h_kernel h)))"
      using transfersD(7)[OF assms(1), of "h_kernel h" r w k] p Some by simp_all
    then have n: "r \<noteq> - 1" "w \<noteq> - 1"
      using transfersD(5)[OF assms(1), of r k] transfersD(5)[OF assms(1), of w k] by auto
    have "fd_at h a = - 1" "((fd_at h)(a := r)) b = - 1"
      using assms(3-5) by (simp_all add: fd_at_def)
    note t = owned_take[of "fd_at h" a r, OF this(1)] owned_take[of "(fd_at h)(a := r)" b w, OF this(2)]
    have F: "one_owner (fd_at h)" "owned (fd_at h) \<inter> F = {}" "fds (h_kernel h) = F \<union> owned (fd_at h)"
      using assms(2) by (simp_all add: handles_inv_def)
    have o: "owned ((fd_at h)(a := r)) = insert r (owned (fd_at h))" "owned ((fd_at h)(a := r, b := w)) = insert w (insert r (owned (fd_at h)))"
      using t(1,3) n by (auto simp: owned_def)
    have "one_owner ((fd_at h)(a := r, b := w))"
      using t(2)[OF F(1)] t(4) o(1) f(1-3) F(3) by simp
    moreover have "pipe_make K a b h = h\<lparr>h_kernel := k, h_objects := (h_objects h)(a \<mapsto> (PipeRead_class, r), b \<mapsto> (PipeWrite_class, w))\<rparr>"
      by (simp add: pipe_make_def PipePair_make_def or_errno_def make_from_os_specific_handle_def p Some rw)
    moreover have "fd_at (h\<lparr>h_kernel := k, h_objects := (h_objects h)(a \<mapsto> (PipeRead_class, r), b \<mapsto> (PipeWrite_class, w))\<rparr>) =
        (fd_at h)(a := r, b := w)"
      by (auto simp: fd_at_def)
    moreover have "owned ((fd_at h)(a := r, b := w)) \<inter> F = {}" "fds k = F \<union> owned ((fd_at h)(a := r, b := w))"
      unfolding o(2) using F(2,3) f(2-4) by auto
    ultimately show ?thesis
      by (simp add: handles_inv_def)
  qed
qed

lemma inv_adopt:
  assumes "handles_inv fds F h" and "h_objects h a = None" and "fd \<in> F" and "fd \<noteq> - 1"
  shows "handles_inv fds (F - {fd}) (make_from_os_specific_handle c a fd h)"
proof -
  have F: "one_owner (fd_at h)" "owned (fd_at h) \<inter> F = {}" "fds (h_kernel h) = F \<union> owned (fd_at h)"
    using assms(1) by (simp_all add: handles_inv_def)
  have "fd_at h a = - 1"
    using assms(2) by (simp add: fd_at_def)
  note t = owned_take[of "fd_at h" a fd, OF this]
  have "owned ((fd_at h)(a := fd)) = insert fd (owned (fd_at h))"
    using t(1) assms(4) by (auto simp: owned_def)
  moreover have "one_owner ((fd_at h)(a := fd))"
    using t(2) F(1,2) assms(3) by blast
  ultimately show ?thesis
    using F assms(3) by (auto simp: handles_inv_def make_from_os_specific_handle_def)
qed

text \<open>Transferring data keeps the descriptors.\<close>

lemma or_errno_kernel: "snd (or_errno K r) = snd r" "snd (io s) = snd s"
  by (simp_all add: or_errno_def io_def case_prod_unfold)

lemma try_keeps:
  assumes "transfers K fds"
  shows "try_read_some K fd n k = (x, k') \<Longrightarrow> fds k' = fds k" "try_write_some K fd bs k = (y, k') \<Longrightarrow> fds k' = fds k"
    "try_recv_from K fd n k = (z, k') \<Longrightarrow> fds k' = fds k" "try_send_to K fd bs d k = (y, k') \<Longrightarrow> fds k' = fds k"
proof -
  show "try_read_some K fd n k = (x, k') \<Longrightarrow> fds k' = fds k"
    using transfersD(1)[OF assms, of fd n k] by (cases "sys_read K fd n k") (auto simp: try_read_some_def or_errno_def)
  show "try_write_some K fd bs k = (y, k') \<Longrightarrow> fds k' = fds k"
    using transfersD(2)[OF assms, of fd bs k] by (cases "sys_write K fd bs k") (auto simp: try_write_some_def or_errno_def)
  show "try_recv_from K fd n k = (z, k') \<Longrightarrow> fds k' = fds k"
    using transfersD(3)[OF assms, of fd n k] by (cases "sys_recvfrom K fd n k") (auto simp: try_recv_from_def or_errno_def)
  show "try_send_to K fd bs d k = (y, k') \<Longrightarrow> fds k' = fds k"
    using transfersD(4)[OF assms, of fd bs d "addr_length d" k]
    by (cases "sys_sendto K fd bs d (addr_length d) k") (auto simp: try_send_to_def or_errno_def)
qed

lemma fd_read_keeps:
  assumes "keeps_track K fds" and "transfers K fds"
  shows "fds (snd (fd_read_loop K fd n got k)) = fds k"
  using assms
proof (induction K fd n got k rule: fd_read_loop.induct)
  case (1 K fd n got k)
  obtain x k1 where x: "try_read_some K fd (n - length got) (wait_for K fd CAN_READ k) = (x, k1)"
    by fastforce
  then have k1: "fds k1 = fds k"
    using try_keeps(1)[OF 1(3)] keeps_trackD(3)[OF 1(2)] by metis
  show ?case
  proof (cases "length got < n \<and> (\<exists>value. x = Ok value \<and> value \<noteq> [])")
    case True
    then obtain v where v: "length got < n" "x = Ok v" "v \<noteq> []"
      by blast
    have "fds (snd (fd_read_loop K fd n (got @ v) k1)) = fds k1"
      by (rule 1(1)[OF v(1) x[symmetric] v(2,3) 1(2,3)])
    then show ?thesis
      using v x k1 by (simp add: fd_read_loop.simps[of K fd n got k])
  next
    case False
    then show ?thesis
      using x k1 by (cases x) (auto simp: fd_read_loop.simps[of K fd n got k])
  qed
qed

lemmas fd_write_induct = fd_write_loop.raw_induct [rotated 1, consumes 1, case_names step]

lemma fd_write_keeps:
  assumes "keeps_track K fds" and "transfers K fds" and "fd_write_loop K fd bs w k = Some r"
  shows "fds (snd r) = fds k"
proof -
  have "K' = K \<longrightarrow> fds (snd r) = fds k" if "fd_write_loop K' fd bs w k = Some r" for K'
    using that
  proof (induction rule: fd_write_induct)
    case (step go K' fd bs w k r)
    obtain x k1 where x: "try_write_some K' fd bs (wait_for K' fd CAN_WRITE k) = (x, k1)"
      by fastforce
    have "K' = K \<longrightarrow> fds k1 = fds k"
      using x try_keeps(2)[OF assms(2)] keeps_trackD(3)[OF assms(1)] by metis
    then show ?case
      using step x by (cases x) (auto split: if_splits)
  qed
  then show ?thesis
    using assms(3) by blast
qed

lemma inv_transfer:
  assumes "keeps_track K fds" and "transfers K fds" and "handles_inv fds F h"
  shows "handle_read K a n h = Some (r, h') \<Longrightarrow> handles_inv fds F h'"
    "handle_read_some K a n h = Some (r, h') \<Longrightarrow> handles_inv fds F h'"
    "handle_try_read_some K a n h = Some (s, h') \<Longrightarrow> handles_inv fds F h'"
    "handle_write K a bs h = Some (t, h') \<Longrightarrow> handles_inv fds F h'"
    "handle_write_some K a bs h = Some (t, h') \<Longrightarrow> handles_inv fds F h'"
    "handle_try_write_some K a bs h = Some (u, h') \<Longrightarrow> handles_inv fds F h'"
    "handle_recv_from K a n h = Some (v, h') \<Longrightarrow> handles_inv fds F h'"
    "handle_send_to K a bs dest h = Some (t, h') \<Longrightarrow> handles_inv fds F h'"
proof -
  note k = inv_kernel[OF assms(3)]
  have snd: "fds (snd (try_read_some K fd n k)) = fds k" "fds (snd (try_write_some K fd bs k)) = fds k"
    "fds (snd (try_recv_from K fd n k)) = fds k" "fds (snd (try_send_to K fd bs dest k)) = fds k"
    "fds (wait_for K fd e k) = fds k" for fd k e
    using try_keeps[OF assms(2)] keeps_trackD(3)[OF assms(1)] by (metis prod.collapse)+
  note defs = case_prod_unfold Let_def bind_eq_Some_conv fd_read_some_def fd_write_some_def recv_from_def send_to_def or_errno_kernel
  show "handle_read K a n h = Some (r, h') \<Longrightarrow> handles_inv fds F h'"
    using k fd_read_keeps[OF assms(1,2)] by (auto simp: handle_read_def fd_read_def defs)
  show "handle_read_some K a n h = Some (r, h') \<Longrightarrow> handles_inv fds F h'"
    using k snd by (auto simp: handle_read_some_def defs)
  show "handle_try_read_some K a n h = Some (s, h') \<Longrightarrow> handles_inv fds F h'"
    using k snd by (auto simp: handle_try_read_some_def defs)
  show "handle_write K a bs h = Some (t, h') \<Longrightarrow> handles_inv fds F h'"
    using k fd_write_keeps[OF assms(1,2)] by (fastforce simp: handle_write_def fd_write_def bind_eq_Some_conv)
  show "handle_write_some K a bs h = Some (t, h') \<Longrightarrow> handles_inv fds F h'"
    using k snd by (auto simp: handle_write_some_def defs)
  show "handle_try_write_some K a bs h = Some (u, h') \<Longrightarrow> handles_inv fds F h'"
    using k snd by (auto simp: handle_try_write_some_def defs)
  show "handle_recv_from K a n h = Some (v, h') \<Longrightarrow> handles_inv fds F h'"
    using k snd by (auto simp: handle_recv_from_def defs)
  show "handle_send_to K a bs dest h = Some (t, h') \<Longrightarrow> handles_inv fds F h'"
    using k snd by (auto simp: handle_send_to_def defs)
qed

lemma inv_connect_from:
  assumes "keeps_track K fds" and "transfers K fds" and "handles_inv fds F h" and "h_objects h a = None"
  shows "handles_inv fds (F \<union> connect_from_leak K local (h_kernel h))
      (returned TcpSocket_class a (TcpSocket_connect_from K frame local target (h_kernel h)) h)"
    and "connect_from_leak K local (h_kernel h) \<inter> F = {}"
proof -
  obtain sock k1 where s: "sys K (Socket (ss_family local) SOCK_STREAM) (h_kernel h) = (sock, k1)"
    by fastforce
  obtain r k2 where b: "sys K (Bind sock local (addr_length local)) k1 = (r, k2)"
    by fastforce
  have k2: "fds k2 = fds k1"
    using track_simps(2)[OF assms(1), of sock local "addr_length local" k1] b by simp
  note f = keeps_trackD(1)[OF assms(1) s]
  have F: "fds (h_kernel h) = F \<union> owned (fd_at h)"
    using assms(3) by (simp add: handles_inv_def)
  consider "sock = - 1" | "sock \<noteq> - 1" "r \<noteq> 0" | "sock \<noteq> - 1" "r = 0"
    by blast
  then have "handles_inv fds (F \<union> connect_from_leak K local (h_kernel h))
      (returned TcpSocket_class a (TcpSocket_connect_from K frame local target (h_kernel h)) h) \<and>
    connect_from_leak K local (h_kernel h) \<inter> F = {}"
  proof cases
    case 1
    then show ?thesis
      using f inv_kernel[OF assms(3), of k1] by (simp add: connect_from_leak_def TcpSocket_connect_from_def returned_def s)
  next
    case 2
    then have "sock \<notin> fds (h_kernel h)" "fds k2 = insert sock (fds (h_kernel h))"
      using f k2 by simp_all
    then have "handles_inv fds (insert sock F) (h\<lparr>h_kernel := k2\<rparr>)" "sock \<notin> F"
      using assms(3) F by (auto simp: handles_inv_def)
    then show ?thesis
      using 2 by (simp add: connect_from_leak_def TcpSocket_connect_from_def returned_def s b)
  next
    case 3
    then have "opens_one fds (h_kernel h) (handle_only (connect_impl K frame target sock k2))"
      using f k2 by (intro connect_impl_owns[OF assms(1)]) simp_all
    from inv_returned[OF assms(2-4) this] show ?thesis
      using 3 by (simp add: connect_from_leak_def TcpSocket_connect_from_def s b)
  qed
  then show "handles_inv fds (F \<union> connect_from_leak K local (h_kernel h))
      (returned TcpSocket_class a (TcpSocket_connect_from K frame local target (h_kernel h)) h)"
    "connect_from_leak K local (h_kernel h) \<inter> F = {}"
    by blast+
qed

section \<open>Every descriptor has one owner\<close>

text \<open>
  Claim C16. In every run of the objects (constructed, opened, bound, connected from a given address or not,
  moved, assigned, closed, destroyed, used) the open descriptors are those that were open at the
  start and were not taken over, untouched, those of the objects, each of which belongs to one
  object, and those that \<^verbatim>\<open>connect_from\<close> leaked in a call whose \<^verbatim>\<open>bind\<close> failed. So nothing else is
  leaked, nothing is closed twice or by an object that does not own it, and when the last object is
  gone exactly the untouched descriptors of the start and the leaked ones are left.
\<close>

theorem handles_own_descriptors:
  assumes "keeps_track K fds" and "transfers K fds" and "handles_run K fds k0 A L h"
  shows "fds (h_kernel h) = (fds k0 - A) \<union> L \<union> owned (fd_at h) \<and>
    owned (fd_at h) \<inter> ((fds k0 - A) \<union> L) = {} \<and> L \<inter> (fds k0 - A) = {} \<and>
    one_owner (fd_at h) \<and> ((\<forall>a. h_objects h a = None) \<longrightarrow> fds (h_kernel h) = (fds k0 - A) \<union> L)"
proof -
  have "handles_inv fds ((fds k0 - A) \<union> L) h \<and> L \<inter> (fds k0 - A) = {}"
    using assms(3)
  proof (induction rule: handles_run.induct)
    case start
    then show ?case
      by (simp add: handles_inv_def owned_def one_owner_def fd_at_def image_constant_conv)
  next
    case (default A L h a c)
    then have "(fd_at h)(a := - 1) = fd_at h"
      by (auto simp: fd_at_def)
    with default show ?case
      by (simp add: handles_inv_def handle_default_def)
  next
    case (adopt A L h a fd c)
    then have "fd \<noteq> - 1"
      using transfersD(5)[OF assms(2), of fd k0] by auto
    moreover have "(fds k0 - insert fd A) \<union> L = ((fds k0 - A) \<union> L) - {fd}"
      using adopt by blast
    ultimately show ?case
      using inv_adopt[of fds "(fds k0 - A) \<union> L" h a fd c] adopt by auto
  next
    case (close A L h a h')
    then obtain c fd where "h_objects h a = Some (c, fd)"
      by (cases "h_objects h a") (auto simp: handle_close_def)
    then show ?case
      using inv_close[OF assms(1,2) conjunct1[OF close(3)]] close(2,3) by fastforce
  next
    case (destroy A L h a h')
    then show ?case
      using inv_destroy[OF assms(1,2)] by blast
  next
    case (assign A L h a rhs h')
    then show ?case
      using inv_assign[OF assms(1,2)] by blast
  next
    case (move A L h a rhs h')
    then show ?case
      using inv_move by blast
  next
    case (pipe A L h a b)
    then show ?case
      using inv_pipe[OF assms(2)] by blast
  next
    case (open_file A L h a path flags perms)
    then show ?case
      using inv_returned[OF assms(2)] File_open_owns[OF assms(1)] by blast
  next
    case (listen A L h a opts)
    then show ?case
      using inv_returned[OF assms(2)] TcpListener_make_owns[OF assms(1)] by blast
  next
    case (accept A L h a l fd)
    then show ?case
      using inv_returned[OF assms(2)] TcpListener_accept_owns[OF assms(1)] by blast
  next
    case (connect A L h a frame target)
    then show ?case
      using inv_returned[OF assms(2)] TcpSocket_connect_owns[OF assms(1)] by blast
  next
    case (connect_from A L h a local frame target)
    then show ?case
      using inv_connect_from(1)[OF assms(1,2), of "(fds k0 - A) \<union> L" h a local frame target]
        inv_connect_from(2)[OF assms(1,2), of "(fds k0 - A) \<union> L" h a local] by (auto simp: Un_assoc)
  next
    case (unbound A L h a family)
    then show ?case
      using inv_returned[OF assms(2)] UdpSocket_unbound_owns[OF assms(1)] by blast
  next
    case (bound A L h a local)
    then show ?case
      using inv_returned[OF assms(2)] UdpSocket_bound_owns[OF assms(1)] by blast
  qed (erule conjE, intro conjI, rule inv_transfer[OF assms(1,2)], assumption+)+
  then show ?thesis
    by (auto simp: handles_inv_def owned_def fd_at_def image_constant_conv)
qed

section \<open>Witness\<close>

text \<open>A socket is bound, moved twice and closed by the destructor of its last owner.\<close>

lemma demo_transfers: "transfers demo_kernel (\<lambda>k. {fd \<in> open_fds k. 0 \<le> fd})"
  by (simp add: transfers_def demo_kernel_def)

lemma demo_tracks_nonneg: "keeps_track demo_kernel (\<lambda>k. {fd \<in> open_fds k. 0 \<le> fd})"
proof -
  have "opened c (fst (demo_sys c k)) {fd \<in> open_fds k. 0 \<le> fd} {fd \<in> open_fds (snd (demo_sys c k)). 0 \<le> fd}" for c k
    by (cases c) auto
  then show ?thesis
    by (auto simp: keeps_track_def demo_kernel_def)
qed

theorem handles_own_descriptors_witness:
  "\<exists>h h'. handles_run demo_kernel (\<lambda>k. {fd \<in> open_fds k. 0 \<le> fd}) demo_k {} {} h \<and> h_objects h 2 = Some (UdpSocket_class, 3) \<and>
     open_fds (h_kernel h) = {3} \<and> handle_destroy demo_kernel 2 h = Some h' \<and> open_fds (h_kernel h') = {}"
proof -
  let ?run = "handles_run demo_kernel (\<lambda>k. {fd \<in> open_fds k. 0 \<le> fd}) demo_k {} {}"
  let ?h0 = "\<lparr>h_kernel = demo_k, h_objects = (\<lambda>_. None)\<rparr>"
  let ?h1 = "returned UdpSocket_class 1 (UdpSocket_unbound demo_kernel 2 demo_k) ?h0"
  have r1: "?run ?h1"
    using handles_run.unbound[OF handles_run.start, where a = 1 and family = 2] by (simp add: demo_k_def)
  have h1: "?h1 = \<lparr>h_kernel = demo_k\<lparr>next_fd := 4, open_fds := {3}\<rparr>, h_objects = [1 \<mapsto> (UdpSocket_class, 3)]\<rparr>"
    by (simp add: returned_def make_from_os_specific_handle_def UdpSocket_unbound_def demo_kernel_def demo_k_def)
  let ?h2 = "?h1\<lparr>h_objects := (h_objects ?h1)(1 \<mapsto> (UdpSocket_class, - 1), 2 \<mapsto> (UdpSocket_class, 3))\<rparr>"
  have r2: "?run ?h2"
    using handles_run.move[OF r1, of 2 1 ?h2] unfolding h1 by (simp add: handle_move_def move_handle_def)
  obtain h' where d: "handle_destroy demo_kernel 2 ?h2 = Some h'"
    and k: "open_fds (h_kernel h') = {}"
    unfolding h1 by (simp add: handle_destroy_def handle_close_def fd_close_def demo_kernel_def)
  have "open_fds (h_kernel ?h2) = {3}"
    using h1 by simp
  moreover have "h_objects ?h2 2 = Some (UdpSocket_class, 3)"
    by simp
  ultimately show ?thesis
    using r2 d k handles_own_descriptors[OF demo_tracks_nonneg demo_transfers r2] by blast
qed

end
