(* ===== verification/Corosig_Vector_Copies.thy ===== *)
theory Corosig_Vector_Copies
  imports Corosig_Vector_Claims
begin

text \<open>
  Copies of vectors whose elements are copied by a \<^verbatim>\<open>clone\<close> that can fail: \<^verbatim>\<open>clone\<close>, \<^verbatim>\<open>assign\<close> and the
  branch of \<^verbatim>\<open>resize\<close> for such elements, of \<^verbatim>\<open>container/Vector.hpp\<close>. They build a second vector; on
  every error it is destroyed and nothing is leaked.
\<close>

section \<open>Appending and resizing by clones\<close>

definition push_back_copy :: "'s vector_env \<Rightarrow> ('v, 's) cloner \<Rightarrow> 'v \<Rightarrow> 'v Vector \<Rightarrow> 's \<Rightarrow> ('v, 's) vector_result" where
  "push_back_copy E cl x v s = Option.bind (cl x s) (\<lambda>(r, s). case r of
     Nothing \<Rightarrow> None
   | Failure e \<Rightarrow> Some (Failure e, v, s)
   | Ok cloned \<Rightarrow> push_back E cloned v s)"

lemma push_clones_Cons: "push_clones E cl (x # xs) v s = on_ok (push_back_copy E cl x v s) (push_clones E cl xs)"
  by (auto simp: push_back_copy_def on_ok_def split: result.splits option.splits bind_splits)

text \<open>
  The loop that moves the elements \<^term>\<open>i\<close> and later of \<^term>\<open>copies\<close> to the end of the vector; it
  returns what is left of \<^term>\<open>copies\<close>, whose destructor runs in any case.
\<close>

primrec push_moved ::
  "'s vector_env \<Rightarrow> nat \<Rightarrow> nat \<Rightarrow> 'v Vector \<Rightarrow> 'v Vector \<Rightarrow> 's \<Rightarrow>
   ((unit, AllocationError) result \<times> 'v Vector \<times> 'v Vector \<times> 's) option" where
  "push_moved E i 0 copies v s = Some (Ok (), copies, v, s)"
| "push_moved E i (Suc n) copies v s = (case m_slots copies i of
     Obj x \<Rightarrow> Option.bind (push_back E x v s) (\<lambda>(r, v, s). case r of
       Ok _ \<Rightarrow> push_moved E (i + 1) n (copies\<lparr>m_slots := (m_slots copies)(i := Moved)\<rparr>) v s
     | _ \<Rightarrow> Some (r, copies, v, s))
   | _ \<Rightarrow> None)"

definition resize_cloning ::
  "'s vector_env \<Rightarrow> ('v, 's) cloner \<Rightarrow> nat \<Rightarrow> 'v \<Rightarrow> 'v Vector \<Rightarrow> 's \<Rightarrow> ('v, 's) vector_result" where
  "resize_cloning E cl count value v s =
     (if count = m_size v then Some (Ok (), v, s)
      else if count < m_size v then map_option (\<lambda>v. (Ok (), v, s)) (pop_times (m_size v - count) v)
      else do {
        (r, copies, s) \<leftarrow> on_ok (reserve E count Vector_make s) (push_clones E cl (replicate (count - m_size v) value));
        (r, copies, v, s) \<leftarrow> (case r of
           Ok _ \<Rightarrow> Option.bind (reserve E (size_t (m_size v + count)) v s) (\<lambda>(r, v, s). case r of
             Ok _ \<Rightarrow> push_moved E 0 (m_size copies) copies v s
           | _ \<Rightarrow> Some (r, copies, v, s))
         | _ \<Rightarrow> Some (r, copies, v, s));
        s \<leftarrow> Vector_destroy E (copies, s);
        Some (r, v, s)
      })"

section \<open>Cloning elements\<close>

text \<open>
  A \<^verbatim>\<open>clone\<close> that makes \<^term>\<open>f x\<close> of \<^term>\<open>x\<close> or fails, and leaves the chunks of the allocator as they
  are: elements that own no memory of the pool.
\<close>

definition clones :: "('s \<Rightarrow> bool) \<Rightarrow> ('s \<Rightarrow> (nat \<times> nat) set) \<Rightarrow> ('v, 's) cloner \<Rightarrow> ('v \<Rightarrow> 'v) \<Rightarrow> bool" where
  "clones good live cl f \<longleftrightarrow> (\<forall>x s. good s \<longrightarrow> (\<exists>r s'. cl x s = Some (r, s') \<and> good s' \<and> live s' = live s \<and>
     (r = Ok (f x) \<or> r = Failure AllocationError)))"

lemma read_range_ok:
  assumes "vec_slots v"
  shows "i + n \<le> m_size v \<Longrightarrow> read_range i n v = Some (take n (drop i (elems v)))"
proof (induction n arbitrary: i)
  case (Suc n)
  then have "m_slots v i = Obj (elems v ! i)" "i < length (elems v)"
    using vec_slots_nth[OF assms] by simp_all
  then show ?case
    using Suc.IH[of "i + 1"] Suc.prems by (simp add: Cons_nth_drop_Suc[symmetric] take_Suc_Cons)
qed simp

context an_allocator
begin

text \<open>Another vector whose buffer is not touched.\<close>

lemma own_kept:
  assumes "own sz v s" and "inv s'" and "live s \<subseteq> live s'"
  shows "own sz v s'"
  using assms by (auto simp: vec_ok_def split: option.splits)

lemma own_make: "inv s \<Longrightarrow> own sz Vector_make s" "others live Vector_make s = live s" "elems Vector_make = []"
  by (simp_all add: vec_ok_def Vector_make_def vec_slots_def others_def elems_def)

text \<open>A second vector that was built while the first one was there has another buffer.\<close>

lemma own_apart:
  assumes "own sz v s" and "own sz w s'" and "others live w s' = live s"
  shows "own sz v s'" "m_data v \<noteq> None \<longrightarrow> m_data w \<noteq> m_data v"
proof -
  show "own sz v s'"
    using own_kept[OF assms(1)] assms(2,3) by (auto simp: vec_ok_def others_def)
  show "m_data v \<noteq> None \<longrightarrow> m_data w \<noteq> m_data v"
  proof
    assume "m_data v \<noteq> None"
    then obtain p c where "m_data v = Some p" "(p, c) \<in> live s"
      using assms(1) by (auto simp: vec_ok_def)
    moreover from this have "(p, c) \<in> others live w s'"
      using assms(3) by simp
    ultimately show "m_data w \<noteq> m_data v"
      by (auto simp: others_def)
  qed
qed

lemma own_after_other:
  assumes "own sz w s" and "m_data v \<noteq> None \<longrightarrow> m_data w \<noteq> m_data v" and "inv s'" and "live s' = others live v s"
  shows "own sz w s'"
  using assms by (auto simp: vec_ok_def others_def split: option.splits)

lemma push_clones_ok:
  assumes "own sz w s" and "0 < unat sz" and "m_size w + length xs \<le> m_capacity w" and "clones inv live cl f"
  shows "\<exists>r w' s'. push_clones (env sz al) cl xs w s = Some (r, w', s') \<and> own sz w' s' \<and> live s' = live s \<and>
    m_data w' = m_data w \<and> m_capacity w' = m_capacity w \<and>
    (r = Ok () \<and> elems w' = elems w @ map f xs \<or> r = Failure AllocationError)"
  using assms(1,3)
proof (induction xs arbitrary: w s)
  case (Cons x xs)
  have "inv s"
    using Cons.prems(1) by (simp add: vec_ok_def)
  then obtain r s1 where c: "cl x s = Some (r, s1)" "inv s1" "live s1 = live s" "r = Ok (f x) \<or> r = Failure AllocationError"
    using assms(4) unfolding clones_def by blast
  have w: "own sz w s1"
    using own_kept[OF Cons.prems(1) c(2)] c(3) by simp
  show ?case
  proof (cases "r = Ok (f x)")
    case True
    let ?w = "w\<lparr>m_size := m_size w + 1, m_slots := (m_slots w)(m_size w := Obj (f x))\<rparr>"
    have "m_size w \<noteq> m_capacity w"
      using Cons.prems(2) by auto
    then have p: "push_back (env sz al) (f x) w s1 = Some (Ok (), ?w, s1)"
      by (simp add: push_back_def on_ok_def)
    have "own sz ?w s1 \<and> elems ?w = elems w @ [f x]"
      using push_back_ok[OF w assms(2), of al "f x"] p \<open>m_size w \<noteq> m_capacity w\<close> by auto
    then show ?thesis
      using Cons.IH[of ?w s1] Cons.prems(2) c True p by (auto simp: on_ok_def)
  next
    case False
    then show ?thesis
      using c w by auto
  qed
qed auto

text \<open>The same when the buffer has to grow: every size that growing passes through fits.\<close>

definition sizes_fit :: "u64 \<Rightarrow> u64 \<Rightarrow> nat \<Rightarrow> bool" where
  "sizes_fit sz al k \<longleftrightarrow> (\<forall>n. 0 < n \<and> n \<le> max 16 (2 * k) \<longrightarrow> count_fits ok sz al n)"

lemma sizes_fitD: "sizes_fit sz al k \<Longrightarrow> 0 < n \<Longrightarrow> n \<le> max 16 (2 * k) \<Longrightarrow> count_fits ok sz al n"
  unfolding sizes_fit_def by blast

lemma push_clones_grow:
  assumes "own sz w s" and "0 < unat sz" and "sizes_fit sz al (m_size w + length xs)" and "clones inv live cl f"
  shows "\<exists>r w' s'. push_clones (env sz al) cl xs w s = Some (r, w', s') \<and> own sz w' s' \<and>
    others live w' s' = others live w s \<and>
    (r = Ok () \<and> elems w' = elems w @ map f xs \<or> r = Failure AllocationError)"
  using assms(1,3)
proof (induction xs arbitrary: w s)
  case (Cons x xs)
  have "inv s"
    using Cons.prems(1) by (simp add: vec_ok_def)
  then obtain r s1 where c: "cl x s = Some (r, s1)" "inv s1" "live s1 = live s" "r = Ok (f x) \<or> r = Failure AllocationError"
    using assms(4) unfolding clones_def by blast
  have w: "own sz w s1" "others live w s1 = others live w s"
    using own_kept[OF Cons.prems(1) c(2)] c(3) by (simp_all add: others_def)
  show ?case
  proof (cases "r = Ok (f x)")
    case True
    have "count_fits ok sz al (max 16 (2 * m_size w))"
      by (rule sizes_fitD[OF Cons.prems(2)]) (auto simp: max_def)
    then obtain r2 w2 s2 where p: "push_back (env sz al) (f x) w s1 = Some (r2, w2, s2)" "own sz w2 s2"
        "others live w2 s2 = others live w s1"
        "r2 = Ok () \<and> elems w2 = elems w @ [f x] \<or> r2 = Failure AllocationError \<and> w2 = w \<and> s2 = s1"
      using push_back_ok[OF w(1) assms(2), of al "f x"] by blast
    show ?thesis
    proof (cases "r2 = Ok ()")
      case ok2: True
      then have e: "elems w2 = elems w @ [f x]"
        using p(4) by auto
      then have "m_size w2 = m_size w + 1"
        by (metis length_append_singleton length_elems Suc_eq_plus1)
      then have "sizes_fit sz al (m_size w2 + length xs)"
        using Cons.prems(2) by simp
      from Cons.IH[OF p(2) this] show ?thesis
        using c(1) True p(1,3) ok2 e w(2) by (auto simp: on_ok_def)
    qed (use c(1) True p w(2) in \<open>auto simp: on_ok_def\<close>)
  next
    case False
    then show ?thesis
      using c w by auto
  qed
qed auto

text \<open>A new vector of clones.\<close>

lemma make_clones_ok:
  assumes "inv s" and "0 < unat sz" and "0 < n \<Longrightarrow> count_fits ok sz al n" and "length xs \<le> n" and "clones inv live cl f"
  shows "\<exists>r w s'. on_ok (reserve (env sz al) n Vector_make s) (push_clones (env sz al) cl xs) = Some (r, w, s') \<and>
    own sz w s' \<and> others live w s' = live s \<and> (r = Ok () \<and> elems w = map f xs \<or> r = Failure AllocationError)"
proof -
  have fit: "count_fits ok sz al n" if "m_capacity (Vector_make :: 'a Vector) < n"
    using assms(3) that by simp
  obtain r v1 s1 where
    r: "reserve (env sz al) n (Vector_make :: 'a Vector) s = Some (r, v1, s1)" "own sz v1 s1" "elems v1 = []"
      "others live v1 s1 = live s" "r = Ok () \<and> n \<le> m_capacity v1 \<or> r = Failure AllocationError"
    using reserve_ok[OF own_make(1)[OF assms(1)] assms(2) fit] unfolding own_make by blast
  show ?thesis
  proof (cases "r = Ok ()")
    case True
    have "m_size v1 = 0"
      using r(3) by (metis length_elems list.size(3))
    then obtain r2 w s2 where w: "push_clones (env sz al) cl xs v1 s1 = Some (r2, w, s2)" "own sz w s2" "live s2 = live s1"
        "m_data w = m_data v1" "r2 = Ok () \<and> elems w = elems v1 @ map f xs \<or> r2 = Failure AllocationError"
      using push_clones_ok[OF r(2) assms(2) _ assms(5), of xs al] r(5) True assms(4) by auto
    then have "others live w s2 = live s"
      using r(4) by (simp add: others_def)
    then show ?thesis
      using r w True by (simp add: on_ok_def)
  qed (use r in \<open>auto simp: on_ok_def\<close>)
qed

lemma clone_ok:
  assumes "own sz v s" and "0 < unat sz" and "0 < m_size v \<Longrightarrow> count_fits ok sz al (m_size v)" and "clones inv live cl f"
  shows "\<exists>r s'. Vector_clone (env sz al) cl v s = Some (r, s') \<and> own sz v s' \<and>
    ((\<exists>w. r = Ok w \<and> own sz w s' \<and> others live w s' = live s \<and> elems w = map f (elems v)) \<or>
     r = Failure AllocationError \<and> live s' = live s)"
proof -
  have "inv s" "vec_slots v"
    using assms(1) by (simp_all add: vec_ok_def)
  from make_clones_ok[OF this(1) assms(2,3) _ assms(4), of "elems v"] obtain r w s1 where
    w: "on_ok (reserve (env sz al) (m_size v) Vector_make s) (push_clones (env sz al) cl (elems v)) = Some (r, w, s1)"
      "own sz w s1" "others live w s1 = live s" "r = Ok () \<and> elems w = map f (elems v) \<or> r = Failure AllocationError"
    by auto
  have x: "read_range 0 (m_size v) v = Some (elems v)"
    using read_range_ok[OF \<open>vec_slots v\<close>, of 0 "m_size v"] by simp
  note v = own_apart(1)[OF assms(1) w(2,3)]
  obtain s2 where s2: "Vector_destroy (env sz al) (w, s1) = Some s2" "inv s2" "live s2 = live s"
    using destroy_ok[OF w(2) assms(2), of al] w(3) by auto
  have "own sz v s2"
    using own_kept[OF assms(1) s2(2)] s2(3) by simp
  then show ?thesis
    using w x v s2 by (auto simp: Vector_clone_def)
qed

lemma move_assign_ok:
  assumes "own sz v s" and "own sz w s" and "0 < unat sz" and "m_data v \<noteq> None \<longrightarrow> m_data w \<noteq> m_data v"
  shows "\<exists>s'. Vector_move_assign (env sz al) w (v, s) = Some (w, s') \<and> own sz w s' \<and> live s' = others live v s"
proof -
  obtain s1 where s1: "Vector_destroy (env sz al) (v, s) = Some s1" "inv s1" "live s1 = others live v s"
    using destroy_ok[OF assms(1,3), of al] by auto
  have "own sz w s1"
    using own_after_other[OF assms(2,4) s1(2,3)] .
  then show ?thesis
    using s1 by (simp add: Vector_move_assign_def Vector_move_def)
qed

lemma assign_ok:
  assumes "own sz v s" and "0 < unat sz" and "sizes_fit sz al (length xs)" and "clones inv live cl f"
  shows "\<exists>r v' s'. assign (env sz al) cl sized xs v s = Some (r, v', s') \<and> own sz v' s' \<and>
    others live v' s' = others live v s \<and>
    (r = Ok () \<and> elems v' = map f xs \<or> r = Failure AllocationError \<and> v' = v)"
proof -
  have i: "inv s"
    using assms(1) by (simp add: vec_ok_def)
  have fit: "0 < length xs \<Longrightarrow> count_fits ok sz al (length xs)"
    by (rule sizes_fitD[OF assms(3)]) simp_all
  have z: "m_size (Vector_make :: 'b Vector) = 0"
    by (simp add: Vector_make_def)
  have "\<exists>r w s1. on_ok (if sized then reserve (env sz al) (length xs) Vector_make s else Some (Ok (), Vector_make, s))
        (push_clones (env sz al) cl xs) = Some (r, w, s1) \<and>
      own sz w s1 \<and> others live w s1 = live s \<and> (r = Ok () \<and> elems w = map f xs \<or> r = Failure AllocationError)"
  proof (cases sized)
    case True
    then show ?thesis
      using make_clones_ok[OF i assms(2) fit _ assms(4), of xs] by simp
  next
    case False
    then show ?thesis
      using push_clones_grow[OF own_make(1)[OF i] assms(2) _ assms(4), of al xs] assms(3)
      by (simp add: on_ok_def own_make z)
  qed
  then obtain r w s1 where
    w: "on_ok (if sized then reserve (env sz al) (length xs) Vector_make s else Some (Ok (), Vector_make, s))
        (push_clones (env sz al) cl xs) = Some (r, w, s1)"
      "own sz w s1" "others live w s1 = live s" "r = Ok () \<and> elems w = map f xs \<or> r = Failure AllocationError"
    by blast
  note v = own_apart[OF assms(1) w(2,3)]
  from move_assign_ok[OF v(1) w(2) assms(2) v(2), of al] obtain s2 where
    s2: "Vector_move_assign (env sz al) w (v, s1) = Some (w, s2)" "own sz w s2" "live s2 = others live v s1"
    by blast
  have "others live w s2 = others live v s"
    using w(3) s2(3) by (auto simp: others_def)
  moreover obtain s3 where s3: "Vector_destroy (env sz al) (w, s1) = Some s3" "inv s3" "live s3 = live s"
    using destroy_ok[OF w(2) assms(2), of al] w(3) by auto
  moreover have "own sz v s3" "others live v s3 = others live v s"
    using own_kept[OF assms(1) s3(2)] s3(3) by (simp_all add: others_def)
  ultimately show ?thesis
    using w s2 by (auto simp: assign_def simp del: if_split)
qed

lemma push_moved_ok:
  assumes "own sz v s" and "0 < unat sz" and "vec_slots copies" and "i + n \<le> m_size copies" and "m_size v + n \<le> m_capacity v"
  shows "\<exists>m v'. push_moved (env sz al) i n copies v s = Some (Ok (), copies\<lparr>m_slots := m\<rparr>, v', s) \<and>
    (\<forall>j. m j \<noteq> Raw \<longleftrightarrow> m_slots copies j \<noteq> Raw) \<and> own sz v' s \<and> others live v' s = others live v s \<and>
    elems v' = elems v @ take n (drop i (elems copies))"
proof -
  have x: "\<forall>j. i \<le> j \<and> j < i + n \<longrightarrow> m_slots copies j = Obj (elems copies ! j)"
    using assms(3,4) vec_slots_nth by fastforce
  have l: "i + n \<le> length (elems copies)"
    using assms(4) by simp
  have "\<exists>m v'. push_moved (env sz al) i n c v s = Some (Ok (), c\<lparr>m_slots := m\<rparr>, v', s) \<and>
      (\<forall>j. m j \<noteq> Raw \<longleftrightarrow> m_slots c j \<noteq> Raw) \<and> own sz v' s \<and> others live v' s = others live v s \<and>
      elems v' = elems v @ take n (drop i xs)"
    if "own sz v s" "m_size v + n \<le> m_capacity v" "\<forall>j. i \<le> j \<and> j < i + n \<longrightarrow> m_slots c j = Obj (xs ! j)"
      "i + n \<le> length xs" for c :: "'a Vector" and v xs
    using that
  proof (induction n arbitrary: i c v)
    case 0
    have "c\<lparr>m_slots := m_slots c\<rparr> = c"
      by simp
    then show ?case
      using 0 by (metis append_Nil2 push_moved.simps(1) take_0)
  next
    case (Suc n)
    let ?v = "v\<lparr>m_size := m_size v + 1, m_slots := (m_slots v)(m_size v := Obj (xs ! i))\<rparr>"
    let ?c = "c\<lparr>m_slots := (m_slots c)(i := Moved)\<rparr>"
    have i: "m_slots c i = Obj (xs ! i)" "i < length xs"
      using Suc.prems(3,4) by simp_all
    have p: "push_back (env sz al) (xs ! i) v s = Some (Ok (), ?v, s)"
      using Suc.prems(2) by (simp add: push_back_def on_ok_def)
    then have v: "own sz ?v s" "elems ?v = elems v @ [xs ! i]" "others live ?v s = others live v s"
      using push_back_ok[OF Suc.prems(1) assms(2), of al "xs ! i"] Suc.prems(2) by auto
    obtain m v' where m: "push_moved (env sz al) (i + 1) n ?c ?v s = Some (Ok (), ?c\<lparr>m_slots := m\<rparr>, v', s)"
        "\<forall>j. m j \<noteq> Raw \<longleftrightarrow> m_slots ?c j \<noteq> Raw" "own sz v' s" "others live v' s = others live ?v s"
        "elems v' = elems ?v @ take n (drop (i + 1) xs)"
      using Suc.IH[of ?v "i + 1" ?c, OF v(1)] Suc.prems(2,3,4) by auto
    have "elems v' = elems v @ take (Suc n) (drop i xs)"
      using m(5) v(2) i(2) by (simp add: Cons_nth_drop_Suc[symmetric])
    moreover have "\<forall>j. m j \<noteq> Raw \<longleftrightarrow> m_slots c j \<noteq> Raw"
      using m(2) i(1) by auto
    moreover have "push_moved (env sz al) i (Suc n) c v s = Some (Ok (), c\<lparr>m_slots := m\<rparr>, v', s)"
      using m(1) p i(1) by simp
    ultimately show ?case
      using m(3,4) v(3) by metis
  qed
  then show ?thesis
    using assms(1,5) x l by blast
qed

lemma destroy_moved:
  assumes "own sz v s" and "0 < unat sz" and "\<forall>i < m_size v. m i \<noteq> Raw"
  shows "\<exists>s'. Vector_destroy (env sz al) (v\<lparr>m_slots := m\<rparr>, s) = Some s' \<and> inv s' \<and> live s' = others live v s"
proof -
  have "\<exists>w'. pop_times (m_size w) w = Some w' \<and> m_data w' = m_data w" if "\<forall>i < m_size w. m_slots w i \<noteq> Raw" for w :: "'c Vector"
    using that
  proof (induction "m_size w" arbitrary: w)
    case (Suc n)
    let ?w = "w\<lparr>m_slots := (m_slots w)(n := Raw), m_size := n\<rparr>"
    have n: "m_size w = Suc n"
      using Suc.hyps(2) by simp
    have "pop_back w = Some ?w"
      using n Suc.prems by (simp add: pop_back_def back_elem_def destroy_slot_def)
    moreover have "\<exists>w'. pop_times (m_size ?w) ?w = Some w' \<and> m_data w' = m_data ?w"
      using n Suc.prems by (intro Suc.hyps(1)) auto
    ultimately show ?case
      using n by simp
  qed auto
  from this[of "v\<lparr>m_slots := m\<rparr>"] obtain w where "clear (v\<lparr>m_slots := m\<rparr>) = Some w" "m_data w = m_data v"
    using assms(3) by (auto simp: clear_def)
  then show ?thesis
    using dealloc_own[OF assms(1,2)] by (simp add: Vector_destroy_def)
qed

lemma resize_cloning_ok:
  assumes own: "own sz v s" and sz: "0 < unat sz" and cl: "clones inv live cl f"
    and fit: "m_size v < count \<Longrightarrow> count_fits ok sz al count \<and> count_fits ok sz al (m_size v + count)"
  shows "\<exists>r v' s'. resize_cloning (env sz al) cl count x v s = Some (r, v', s') \<and> own sz v' s' \<and>
    others live v' s' = others live v s \<and>
    (r = Ok () \<and> elems v' = take count (elems v) @ replicate (count - m_size v) (f x) \<or>
     r = Failure AllocationError \<and> elems v' = elems v)"
proof (cases "count \<le> m_size v")
  case True
  then have "resize_cloning (env sz al) cl count x v s = resize (env sz al) count x v s"
    by (simp add: resize_def resize_cloning_def)
  then show ?thesis
    using resize_ok[OF own sz, of count al x] True by simp
next
  case False
  let ?n = "count - m_size v"
  have f1: "0 < count \<Longrightarrow> count_fits ok sz al count" and f2: "count_fits ok sz al (m_size v + count)"
    using fit False by simp_all
  have st: "size_t (m_size v + count) = m_size v + count"
    using fits_bytes(2)[OF f2 sz] by (simp add: size_t_def)
  have i: "inv s"
    using own by (simp add: vec_ok_def)
  have len: "length (replicate ?n x) \<le> count"
    by simp
  from make_clones_ok[OF i sz f1 len cl] obtain r1 w s1 where
    w: "on_ok (reserve (env sz al) count Vector_make s) (push_clones (env sz al) cl (replicate ?n x)) = Some (r1, w, s1)"
      "own sz w s1" "others live w s1 = live s" "r1 = Ok () \<and> elems w = replicate ?n (f x) \<or> r1 = Failure AllocationError"
    by auto
  note v = own_apart[OF own w(2,3)]
  have fin: "\<exists>s'. Vector_destroy (env sz al) (w\<lparr>m_slots := m\<rparr>, t) = Some s' \<and> own sz v' s' \<and>
      others live v' s' = others live v s"
    if t: "own sz v' t" "others live v' t = others live v s1" "\<forall>j < m_size w. m j \<noteq> Raw" for m v' t
  proof -
    have chunk: "(p, c) \<in> others live v' t" if "m_data w = Some p" "(p, c) \<in> live s1" for p c
      using that v(2) t(2) by (auto simp: others_def)
    have wt: "own sz w t"
      using w(2) t(1) chunk by (fastforce simp: vec_ok_def others_def split: option.splits)
    have ap: "m_data w \<noteq> None \<longrightarrow> m_data v' \<noteq> m_data w"
      using w(2) chunk by (force simp: vec_ok_def others_def split: option.splits)
    obtain s' where s': "Vector_destroy (env sz al) (w\<lparr>m_slots := m\<rparr>, t) = Some s'" "inv s'" "live s' = others live w t"
      using destroy_moved[OF wt sz t(3), of al] by blast
    have "others live v' s' = {x \<in> others live v' t. Some (fst x) \<noteq> m_data w}"
      using s'(3) by (auto simp: others_def)
    also have "\<dots> = {x \<in> others live w s1. Some (fst x) \<noteq> m_data v}"
      unfolding t(2) by (auto simp: others_def)
    also have "\<dots> = others live v s"
      unfolding w(3) by (simp add: others_def)
    finally have "others live v' s' = others live v s" .
    then show ?thesis
      using s' own_after_other[OF t(1) ap s'(2,3)] by blast
  qed
  have nr: "\<forall>j < m_size w. m_slots w j \<noteq> Raw"
    using w(2) vec_slots_not_Raw by (auto simp: vec_ok_def)
  show ?thesis
  proof (cases "r1 = Ok ()")
    case err: False
    then show ?thesis
      using w(1,4) False fin[OF v(1) refl nr] by (auto simp: resize_cloning_def)
  next
    case ok: True
    then have ew: "elems w = replicate ?n (f x)" "m_size w = ?n"
      using w(4) length_elems[of w] by auto
    obtain r2 v2 s2 where r2: "reserve (env sz al) (m_size v + count) v s1 = Some (r2, v2, s2)" "own sz v2 s2"
        "elems v2 = elems v" "m_size v2 = m_size v" "others live v2 s2 = others live v s1"
        "r2 = Ok () \<and> m_size v + count \<le> m_capacity v2 \<or> r2 = Failure AllocationError \<and> v2 = v \<and> s2 = s1"
      using reserve_ok[OF v(1) sz, of "m_size v + count" al] f2 by blast
    show ?thesis
    proof (cases "r2 = Ok ()")
      case err: False
      then show ?thesis
        using w(1) ok r2(1,3,6) False st fin[OF r2(2,5) nr] by (auto simp: resize_cloning_def)
    next
      case ok2: True
      have "vec_slots w" "0 + ?n \<le> m_size w" "m_size v2 + ?n \<le> m_capacity v2"
        using w(2) ew r2(4,6) ok2 by (auto simp: vec_ok_def)
      from push_moved_ok[OF r2(2) sz this, of al] obtain m v3 where
        m: "push_moved (env sz al) 0 ?n w v2 s2 = Some (Ok (), w\<lparr>m_slots := m\<rparr>, v3, s2)"
          "\<forall>j. m j \<noteq> Raw \<longleftrightarrow> m_slots w j \<noteq> Raw" "own sz v3 s2" "others live v3 s2 = others live v2 s2"
          "elems v3 = elems v2 @ elems w"
        using ew(2) by (auto simp: ew(1))
      have "\<forall>j < m_size w. m j \<noteq> Raw" "others live v3 s2 = others live v s1"
        using m(2,4) nr r2(5) by auto
      from fin[OF m(3) this(2,1)] show ?thesis
        using w(1) ok r2(1,3) ok2 False st m(1,5) ew by (auto simp: resize_cloning_def)
    qed
  qed
qed

end

section \<open>Copies in the pool of the reactor\<close>

text \<open>
  Claim C39. Copying elements that own no memory of the pool by a \<^verbatim>\<open>clone\<close> that can fail: \<^verbatim>\<open>clone\<close>
  gives a second vector with the clones of all elements and leaves the first as it is; \<^verbatim>\<open>assign\<close>,
  from ranges that know their size and from ranges that do not, and \<^verbatim>\<open>resize\<close> replace or extend the
  elements by clones. When an element or the pool fails, the vector has its old elements, and in
  all cases the pool has no chunk but those it had, with the buffers of the vectors there are.
\<close>

theorem Vector_copies_correct:
  assumes "pool_vec sz v a" and "clones alloc_valid live_chunks cl f"
    and "\<forall>n. 0 < n \<and> n \<le> max 16 (2 * (m_size v + max count (length xs))) \<longrightarrow> count_fits request_ok sz al n"
  shows "(\<exists>r a'. Vector_clone (pool_env sz al) cl v a = Some (r, a') \<and> pool_vec sz v a' \<and>
      ((\<exists>w. r = Ok w \<and> pool_vec sz w a' \<and> others live_chunks w a' = live_chunks a \<and> elems w = map f (elems v)) \<or>
       r = Failure AllocationError \<and> live_chunks a' = live_chunks a)) \<and>
    (\<exists>r v' a'. assign (pool_env sz al) cl sized xs v a = Some (r, v', a') \<and> pool_vec sz v' a' \<and>
      others live_chunks v' a' = others live_chunks v a \<and>
      (r = Ok () \<and> elems v' = map f xs \<or> r = Failure AllocationError \<and> v' = v)) \<and>
    (\<exists>r v' a'. resize_cloning (pool_env sz al) cl count x v a = Some (r, v', a') \<and> pool_vec sz v' a' \<and>
      others live_chunks v' a' = others live_chunks v a \<and>
      (r = Ok () \<and> elems v' = take count (elems v) @ replicate (count - m_size v) (f x) \<or>
       r = Failure AllocationError \<and> elems v' = elems v))"
proof -
  have own: "vec_ok alloc_valid live_chunks sz v a" and sz: "0 < unat sz"
    using assms(1) by (simp_all add: pool_vec_def)
  have fit: "count_fits request_ok sz al n" if "0 < n" "n \<le> max 16 (2 * (m_size v + max count (length xs)))" for n
    using assms(3) that by blast
  have le: "n \<le> max 16 (2 * (m_size v + max count (length xs)))" if "n \<le> max 16 (2 * length xs)" for n
    using that by (auto simp: max_def split: if_splits)
  have "0 < m_size v \<Longrightarrow> count_fits request_ok sz al (m_size v)" "pool.sizes_fit sz al (length xs)"
    "m_size v < count \<Longrightarrow> count_fits request_ok sz al count \<and> count_fits request_ok sz al (m_size v + count)"
    using fit le by (auto simp: pool.sizes_fit_def)
  note fits = this
  show ?thesis
    using pool.clone_ok[OF own sz fits(1) assms(2)] pool.assign_ok[OF own sz fits(2) assms(2), of sized]
      pool.resize_cloning_ok[OF own sz assms(2) fits(3), of x] sz
    unfolding pool_vec_def pool_env_def by blast
qed

text \<open>A \<^verbatim>\<open>clone\<close> that fails on negative numbers.\<close>

definition demo_clone :: "(int, Allocator) cloner" where
  "demo_clone x a = Some (if x < 0 then Failure AllocationError else Ok x, a)"

theorem Vector_copies_correct_witness:
  "pool_vec 4 demo_vec demo_pool1 \<and> clones alloc_valid live_chunks demo_clone id \<and>
   (\<exists>r a'. Vector_clone (pool_env 4 4) demo_clone demo_vec demo_pool1 = Some (r, a') \<and> pool_vec 4 demo_vec a')"
proof -
  have c: "clones alloc_valid live_chunks demo_clone id"
    by (auto simp: clones_def demo_clone_def)
  have b: "has_single_bit 4"
    by code_simp
  have "\<forall>n \<in> set [1..<17]. count_fits request_ok 4 4 n"
    using b by (simp add: upt_rec count_fits_def request_ok_def BLOCK_SIZE_def)
  then have "\<forall>n. 0 < n \<and> n \<le> max 16 (2 * (m_size demo_vec + max 3 (length [1 :: int, -1]))) \<longrightarrow> count_fits request_ok 4 4 n"
    by (simp add: demo_vec_ok)
  from Vector_copies_correct[OF demo_vec_ok(1) c this, of True 7] show ?thesis
    using c demo_vec_ok(1) by blast
qed

end
