(* ===== verification/Corosig_Copyable.thy ===== *)
theory Corosig_Copyable
  imports Corosig_Vector_Copies
begin

text \<open>
  Copying of values of any type: results that always hold a value (\<^verbatim>\<open>meta/AlwaysOkResult.hpp\<close>), the
  macros of \<^verbatim>\<open>Result.hpp\<close> over both kinds of results, \<^verbatim>\<open>corosig::clone\<close> of \<^verbatim>\<open>meta/Copyable.hpp\<close>, and
  members that are reset when they are moved (\<^verbatim>\<open>util/SetDefaultOnMove.hpp\<close>). They connect the element
  type of a vector with the \<^verbatim>\<open>clone\<close> that its copies use.
\<close>

section \<open>Results of both kinds\<close>

text \<open>A result that always holds a value has no \<^verbatim>\<open>error()\<close>: its use is rejected by the compiler.\<close>

datatype 'r AlwaysOkResult = AlwaysOk (always_value: 'r)

definition always_is_nothing :: "'r AlwaysOkResult \<Rightarrow> bool" where
  "always_is_nothing r = False"

definition always_is_ok :: "'r AlwaysOkResult \<Rightarrow> bool" where
  "always_is_ok r = True"

datatype ('r, 'e) a_result = Regular "('r, 'e) result" | Always "'r AlwaysOkResult"

definition result_is_always_ok :: "('r, 'e) a_result \<Rightarrow> bool" where
  "result_is_always_ok r = (case r of Regular _ \<Rightarrow> False | Always _ \<Rightarrow> True)"

definition a_is_ok :: "('r, 'e) a_result \<Rightarrow> bool" where
  "a_is_ok r = (case r of Regular r \<Rightarrow> is_ok r | Always r \<Rightarrow> always_is_ok r)"

definition a_value :: "('r, 'e) a_result \<Rightarrow> 'r option" where
  "a_value r = (case r of Regular r \<Rightarrow> result_value r | Always r \<Rightarrow> Some (always_value r))"

definition a_error :: "('r, 'e) a_result \<Rightarrow> 'e option" where
  "a_error r = (case r of Regular r \<Rightarrow> result_error r | Always _ \<Rightarrow> None)"

text \<open>
  The macros that convert the error to the given type: \<^term>\<open>cast\<close> is that conversion and \<^term>\<open>rest\<close>
  the rest of the function. The check is not compiled for results that are always fine.
\<close>

definition COROSIG_TRYT ::
  "('e \<Rightarrow> 'f) \<Rightarrow> ('a, 'e) a_result option \<Rightarrow> ('a \<Rightarrow> ('b, 'f) result option) \<Rightarrow> ('b, 'f) result option" where
  "COROSIG_TRYT cast m rest = Option.bind m (\<lambda>t.
     if \<not> result_is_always_ok t \<and> \<not> a_is_ok t then map_option (\<lambda>e. Failure (cast e)) (a_error t)
     else Option.bind (a_value t) rest)"

definition COROSIG_TRYTV ::
  "('e \<Rightarrow> 'f) \<Rightarrow> ('a, 'e) a_result option \<Rightarrow> ('b, 'f) result option \<Rightarrow> ('b, 'f) result option" where
  "COROSIG_TRYTV cast m rest = Option.bind m (\<lambda>t.
     if \<not> result_is_always_ok t \<and> \<not> a_is_ok t then map_option (\<lambda>e. Failure (cast e)) (a_error t)
     else rest)"

definition COROSIG_TRYV ::
  "('a, 'e) a_result option \<Rightarrow> ('b, 'e) result option \<Rightarrow> ('b, 'e) result option" where
  "COROSIG_TRYV m rest = Option.bind m (\<lambda>t.
     if \<not> result_is_always_ok t \<and> \<not> a_is_ok t then map_option Failure (a_error t) else rest)"

text \<open>The conversion of a result of either kind to a regular one.\<close>

definition converting_ctor_impl ::
  "('r \<Rightarrow> 's) \<Rightarrow> ('e \<Rightarrow> 'f) \<Rightarrow> ('r, 'e) a_result \<Rightarrow> ('s, 'f) result option" where
  "converting_ctor_impl conv_ok conv_err r =
     (if \<not> result_is_always_ok r \<and> \<not> a_is_ok r then map_option (\<lambda>e. Failure (conv_err e)) (a_error r)
      else map_option (\<lambda>v. Ok (conv_ok v)) (a_value r))"

lemma a_result_simps [simp]:
  "result_is_always_ok (Always a)" "\<not> result_is_always_ok (Regular r)"
  "a_is_ok (Always a)" "a_is_ok (Regular r) = is_ok r"
  "a_value (Always a) = Some (always_value a)" "a_value (Regular r) = result_value r"
  "a_error (Regular r) = result_error r"
  by (simp_all add: result_is_always_ok_def a_is_ok_def a_value_def a_error_def always_is_ok_def)

lemma converting_Regular: "converting_ctor_impl f g (Regular r) = result_convert f g r"
  by (simp add: converting_ctor_impl_def result_convert_def)

text \<open>
  The macros against the plain one: with a conversion that does nothing they are the same, and a
  result that is always fine never leaves the function.
\<close>

lemma COROSIG_TRYT_Regular: "COROSIG_TRYT id (map_option Regular m) rest = COROSIG_TRY m rest"
  by (cases m) (simp_all add: COROSIG_TRYT_def COROSIG_TRY_def)

lemma COROSIG_TRYT_Always: "COROSIG_TRYT cast (Some (Always a)) rest = rest (always_value a)"
  by (simp add: COROSIG_TRYT_def)

lemma COROSIG_TRYV_Regular:
  "COROSIG_TRYV (map_option Regular m) rest = (if m = Some Nothing then None else COROSIG_TRY m (\<lambda>_. rest))"
proof (cases m)
  case (Some r)
  then show ?thesis
    by (cases r) (simp_all add: COROSIG_TRYV_def)
qed (simp add: COROSIG_TRYV_def)

lemma COROSIG_TRYT_Failure:
  "COROSIG_TRYT cast (Some t) rest = Some (Failure f) \<longleftrightarrow>
     (\<exists>e. t = Regular (Failure e) \<and> f = cast e) \<or> (\<exists>v. a_value t = Some v \<and> rest v = Some (Failure f))"
proof (cases t)
  case (Regular r)
  then show ?thesis
    by (cases r) (auto simp: COROSIG_TRYT_def)
qed (simp add: COROSIG_TRYT_def)

section \<open>Cloning\<close>

text \<open>
  How a type is copied: by its copy constructor, or by its member \<^verbatim>\<open>clone\<close>. A type with both or with
  neither is not \<^verbatim>\<open>Copyable\<close>.
\<close>

datatype ('v, 's) copy_kind = nothrow_copy | clone_member "('v, 's) cloner"

definition Copyable :: "bool \<Rightarrow> bool \<Rightarrow> bool" where
  "Copyable with_clone nothrow_copy_constructible \<longleftrightarrow> with_clone \<noteq> nothrow_copy_constructible"

definition CloneFn ::
  "('v, 's) copy_kind \<Rightarrow> 'v \<Rightarrow> 's \<Rightarrow> (('v, AllocationError) a_result \<times> 's) option" where
  "CloneFn T value s = (case T of
     nothrow_copy \<Rightarrow> Some (Always (AlwaysOk value), s)
   | clone_member cl \<Rightarrow> map_option (\<lambda>(r, s). (Regular r, s)) (cl value s))"

text \<open>What \<^verbatim>\<open>corosig::clone\<close> is for the vector, which looks at its result by the macros.\<close>

definition cloner_of :: "('v, 's) copy_kind \<Rightarrow> ('v, 's) cloner" where
  "cloner_of T value s = Option.bind (CloneFn T value s) (\<lambda>(r, s).
     map_option (\<lambda>r. (r, s)) (converting_ctor_impl id id r))"

lemma converting_id: "converting_ctor_impl id id (Regular r) = (if r = Nothing then None else Some r)"
  by (cases r) (simp_all add: converting_Regular result_convert_def)

lemma cloner_of_simps [simp]:
  "cloner_of nothrow_copy x s = Some (Ok x, s)"
  "cloner_of (clone_member cl) x s = Option.bind (cl x s) (\<lambda>(r, s). if r = Nothing then None else Some (r, s))"
proof -
  show "cloner_of nothrow_copy x s = Some (Ok x, s)"
    by (simp add: cloner_of_def CloneFn_def converting_ctor_impl_def)
  show "cloner_of (clone_member cl) x s = Option.bind (cl x s) (\<lambda>(r, s). if r = Nothing then None else Some (r, s))"
    by (cases "cl x s") (auto simp: cloner_of_def CloneFn_def converting_id)
qed

text \<open>Both kinds of types keep the contract of the copies of a vector.\<close>

lemma clones_nothrow: "clones good live (cloner_of nothrow_copy) id"
  by (simp add: clones_def)

lemma clones_member:
  assumes "clones good live cl f"
  shows "clones good live (cloner_of (clone_member cl)) f"
  unfolding clones_def
proof (intro allI impI)
  fix x s
  assume "good s"
  then obtain r s' where "cl x s = Some (r, s')" "good s'" "live s' = live s" "r = Ok (f x) \<or> r = Failure AllocationError"
    using assms unfolding clones_def by blast
  then show "\<exists>r s'. cloner_of (clone_member cl) x s = Some (r, s') \<and> good s' \<and> live s' = live s \<and>
      (r = Ok (f x) \<or> r = Failure AllocationError)"
    by auto
qed

text \<open>
  For elements with a copy constructor, appending a copy is appending the value, and the loop of
  clones is a sequence of plain appends.
\<close>

lemma push_back_copy_nothrow: "push_back_copy E (cloner_of nothrow_copy) x v s = push_back E x v s"
  by (simp add: push_back_copy_def)

lemma push_clones_nothrow: "push_clones E (cloner_of nothrow_copy) (replicate n x) v s = push_copies E x n v s"
proof (induction n arbitrary: v s)
  case (Suc n)
  then have "push_clones E (cloner_of nothrow_copy) (replicate n x) = push_copies E x n"
    by blast
  then show ?case
    unfolding replicate_Suc push_clones_Cons push_back_copy_nothrow push_copies.simps by simp
qed simp

section \<open>Members that are reset when moved\<close>

definition set_default_move :: "'t \<Rightarrow> 't \<Rightarrow> 't \<times> 't" where
  "set_default_move DEFAULT rhs = (rhs, DEFAULT)"

text \<open>Assignment to \<^term>\<open>value\<close>: the new values of both. An object assigned to itself keeps its value.\<close>

definition set_default_assign :: "'t \<Rightarrow> 't \<Rightarrow> 't \<Rightarrow> 't \<times> 't" where
  "set_default_assign DEFAULT value rhs = (let (old, rhs) = set_default_move DEFAULT rhs in (old, rhs))"

definition set_default_self_assign :: "'t \<Rightarrow> 't \<Rightarrow> 't" where
  "set_default_self_assign DEFAULT value = (let (old, value) = set_default_move DEFAULT value in old)"

lemma set_default_laws:
  "fst (set_default_assign d v r) = r" "snd (set_default_assign d v r) = d" "set_default_self_assign d v = v"
  by (simp_all add: set_default_assign_def set_default_self_assign_def set_default_move_def)

end
