(* ===== verification/Corosig_Random_Device.thy ===== *)
theory Corosig_Random_Device
  imports Corosig_Handles_Claims
begin

text \<open>
  \<^verbatim>\<open>read_dev_urandom\<close> of \<^verbatim>\<open>Random.cpp\<close>: a coroutine that owns a file while it reads the seed of the
  generator, with the flags that files are opened with.
\<close>

datatype OpenFlags = Flags_UNSPECIFIED | APPEND | CREATE | TRUNCATE | WRONLY | RDONLY | Flags_DEFAULT

primrec OpenFlags_value :: "OpenFlags \<Rightarrow> int" where
  "OpenFlags_value Flags_UNSPECIFIED = 0"
| "OpenFlags_value APPEND = 0x400"
| "OpenFlags_value CREATE = 0x40"
| "OpenFlags_value TRUNCATE = 0x200"
| "OpenFlags_value WRONLY = 1"
| "OpenFlags_value RDONLY = 0"
| "OpenFlags_value Flags_DEFAULT = 0"

text \<open>The octets of the path.\<close>

definition dev_urandom :: octets where
  "dev_urandom = map of_char ''/dev/urandom''"

text \<open>On every way out after the file is open the coroutine destroys it.\<close>

definition read_dev_urandom :: "'k kernel \<Rightarrow> nat \<Rightarrow> 'k \<Rightarrow> (octets, IoError) result \<times> 'k" where
  "read_dev_urandom K count k =
     (case File_open K dev_urandom (OpenFlags_value Flags_DEFAULT) (OpenPerms_value Perms_DEFAULT) k of
        (Ok dev_random, k) \<Rightarrow>
          (let (r, k) = fd_read K dev_random count k; (_, k) = File_close K dev_random k in (r, k))
      | (Failure e, k) \<Rightarrow> (Failure e, k)
      | (Nothing, k) \<Rightarrow> (Nothing, k))"

text \<open>The device is closed again, whether or not it could be read.\<close>

lemma read_dev_urandom_closes:
  assumes "keeps_track K fds" and "transfers K fds"
  shows "fds (snd (read_dev_urandom K n k)) = fds k"
proof -
  obtain r k1 where o: "File_open K dev_urandom (OpenFlags_value Flags_DEFAULT) (OpenPerms_value Perms_DEFAULT) k = (r, k1)"
    by fastforce
  note own = File_open_owns[OF assms(1), of k dev_urandom "OpenFlags_value Flags_DEFAULT" "OpenPerms_value Perms_DEFAULT", unfolded o]
  show ?thesis
  proof (cases r)
    case (Ok fd)
    then have fd: "fd \<notin> fds k" "fds k1 = insert fd (fds k)"
      using own by (simp_all add: owner_defs)
    obtain x k2 where x: "fd_read K fd n k1 = (x, k2)"
      by fastforce
    have "fds k2 = fds k1"
      using fd_read_keeps[OF assms, of fd n "[]" k1] x by (simp add: fd_read_def)
    moreover have "0 \<le> fd"
      using transfersD(5)[OF assms(2), of fd k1] fd(2) by simp
    moreover obtain a k3 b k4 where s: "sys K (Fsync fd) k2 = (a, k3)" "sys K (Close fd) k3 = (b, k4)"
      by fastforce
    ultimately have "fds k4 = fds k1 - {fd}" "snd (read_dev_urandom K n k) = k4"
      using keeps_trackD(1)[OF assms(1) s(1)] keeps_trackD(1)[OF assms(1) s(2)] o x Ok
      by (simp_all add: read_dev_urandom_def File_close_def)
    then show ?thesis
      using fd by simp
  qed (use own o in \<open>simp_all add: owner_defs read_dev_urandom_def\<close>)
qed

text \<open>
  The octets are the next ones of the device, and there may be fewer than the buffer holds: the
  number of octets is returned, not an error.
\<close>

lemma read_dev_urandom_octets:
  assumes "\<And>fd. stream K fd pending" and "\<And>c k. pending (snd (sys K c k)) = pending k"
    and "read_dev_urandom K n k = (Ok bs, k')"
  shows "length bs \<le> n \<and> pending k = bs @ pending k'"
proof -
  obtain r k1 where o: "File_open K dev_urandom (OpenFlags_value Flags_DEFAULT) (OpenPerms_value Perms_DEFAULT) k = (r, k1)"
    by fastforce
  then have p: "pending k1 = pending k"
    using assms(2) by (auto simp: File_open_def split: prod.splits if_splits) (metis snd_conv)+
  obtain fd where fd: "r = Ok fd"
    using assms(3) o by (cases r) (auto simp: read_dev_urandom_def)
  obtain x k2 where x: "fd_read K fd n k1 = (x, k2)"
    by fastforce
  have k': "x = Ok bs" "k' = snd (File_close K fd k2)"
    using assms(3) o fd x by (auto simp: read_dev_urandom_def split: prod.splits)
  have "pending k' = pending k2"
    unfolding k'(2) using assms(2) by (simp add: File_close_def case_prod_unfold)
  then show ?thesis
    using fd_read_loop_ok[OF assms(1), of "[]" n fd k1 x k2] x k'(1) p by (simp add: fd_read_def)
qed

end
