(* ===== verification/Corosig_Dns_Cache_Layout.thy ===== *)
theory Corosig_Dns_Cache_Layout
  imports Corosig_Dns_Cache
begin

text \<open>
  The nodes of the memory cache as octets in memory: \<^verbatim>\<open>NameStorageHeader\<close> and \<^verbatim>\<open>AddrStorageHeader\<close> of
  \<^verbatim>\<open>io/dns/MemoryCache.hpp\<close> keep their name and their addresses behind the header, in one chunk.
  The lists in the records of \<^verbatim>\<open>Corosig_Dns_Cache\<close> are what these octets read as. \<^term>\<open>this\<close> is the
  address of a header, \<^term>\<open>sz\<close> its size and \<^term>\<open>little\<close> the byte order of the host.
\<close>

section \<open>Objects in memory\<close>

type_synonym memory = "nat \<Rightarrow> u8"

definition store_octets :: "nat \<Rightarrow> octets \<Rightarrow> memory \<Rightarrow> memory" where
  "store_octets p bs mem = (\<lambda>a. if p \<le> a \<and> a < p + length bs then bs ! (a - p) else mem a)"

definition load_octets :: "nat \<Rightarrow> nat \<Rightarrow> memory \<Rightarrow> octets" where
  "load_octets p n mem = map mem [p..<p + n]"

text \<open>\<^verbatim>\<open>std::ranges::copy\<close> to an array of objects of \<^term>\<open>k\<close> octets, and the array as a range.\<close>

primrec copy_objects :: "nat \<Rightarrow> ('a \<Rightarrow> octets) \<Rightarrow> 'a list \<Rightarrow> nat \<Rightarrow> memory \<Rightarrow> memory" where
  "copy_objects k rep [] p mem = mem"
| "copy_objects k rep (x # xs) p mem = copy_objects k rep xs (p + k) (store_octets p (rep x) mem)"

primrec load_objects :: "nat \<Rightarrow> (octets \<Rightarrow> 'a) \<Rightarrow> nat \<Rightarrow> nat \<Rightarrow> memory \<Rightarrow> 'a list" where
  "load_objects k val 0 p mem = []"
| "load_objects k val (Suc n) p mem = val (load_octets p k mem) # load_objects k val n (p + k) mem"

definition ipv4_octets :: "bool \<Rightarrow> Ipv4Addr \<Rightarrow> octets" where
  "ipv4_octets little ip = mem_bytes little 4 (ipv4_m_value ip)"

definition ipv4_of_octets :: "bool \<Rightarrow> octets \<Rightarrow> Ipv4Addr" where
  "ipv4_of_octets little bs = \<lparr>ipv4_m_value = of_mem_bytes little bs\<rparr>"

definition ipv6_of_octets :: "octets \<Rightarrow> Ipv6Addr" where
  "ipv6_of_octets bs = \<lparr>ipv6_m_value = bs\<rparr>"

section \<open>Headers\<close>

record AddrCounts =
  m_ipv4s_count :: u32
  m_ipv6s_count :: u32

definition ipv4s_begin :: "nat \<Rightarrow> nat \<Rightarrow> nat" where
  "ipv4s_begin sz this = this + sz"

definition ipv4s_span :: "bool \<Rightarrow> nat \<Rightarrow> nat \<Rightarrow> AddrCounts \<Rightarrow> memory \<Rightarrow> Ipv4Addr list" where
  "ipv4s_span little sz this h mem =
     load_objects 4 (ipv4_of_octets little) (unat (m_ipv4s_count h)) (ipv4s_begin sz this) mem"

definition ipv6s_begin :: "nat \<Rightarrow> nat \<Rightarrow> AddrCounts \<Rightarrow> nat" where
  "ipv6s_begin sz this h = ipv4s_begin sz this + 4 * unat (m_ipv4s_count h)"

definition ipv6s_span :: "nat \<Rightarrow> nat \<Rightarrow> AddrCounts \<Rightarrow> memory \<Rightarrow> Ipv6Addr list" where
  "ipv6s_span sz this h mem = load_objects 16 ipv6_of_octets (unat (m_ipv6s_count h)) (ipv6s_begin sz this h) mem"

definition AddrStorageHeader_construct ::
  "bool \<Rightarrow> nat \<Rightarrow> nat \<Rightarrow> Ipv4Addr list \<Rightarrow> Ipv6Addr list \<Rightarrow> memory \<Rightarrow> (AddrCounts \<times> memory) option" where
  "AddrStorageHeader_construct little sz this v4s v6s mem =
     (let h = \<lparr>m_ipv4s_count = word_of_nat (length v4s), m_ipv6s_count = word_of_nat (length v6s)\<rparr>
      in c_assert (length v4s \<le> 2 ^ 32 - 1) (c_assert (length v6s \<le> 2 ^ 32 - 1)
           (let mem = copy_objects 4 (ipv4_octets little) v4s (ipv4s_begin sz this) mem;
                mem = copy_objects 16 ipv6_m_value v6s (ipv6s_begin sz this h) mem
            in Some (h, mem))))"

definition NameStorageHeader_construct :: "nat \<Rightarrow> nat \<Rightarrow> octets \<Rightarrow> memory \<Rightarrow> nat \<times> memory" where
  "NameStorageHeader_construct sz this nm mem = (length nm, store_octets (this + sz) (map to_lower nm) mem)"

definition stored_name :: "nat \<Rightarrow> nat \<Rightarrow> nat \<Rightarrow> memory \<Rightarrow> octets" where
  "stored_name sz this m_name_size mem = load_octets (this + sz) m_name_size mem"

section \<open>Reading what was stored\<close>

lemma load_store: "load_octets p (length bs) (store_octets p bs mem) = bs"
  by (rule nth_equalityI) (simp_all add: load_octets_def store_octets_def)

lemma load_octets_cong: "\<forall>a. p \<le> a \<and> a < p + n \<longrightarrow> mem a = mem' a \<Longrightarrow> load_octets p n mem = load_octets p n mem'"
  by (simp add: load_octets_def)

lemma load_objects_cong:
  "\<forall>a. p \<le> a \<and> a < p + k * n \<longrightarrow> mem a = mem' a \<Longrightarrow> load_objects k val n p mem = load_objects k val n p mem'"
proof (induction n arbitrary: p)
  case (Suc n)
  have "load_octets p k mem = load_octets p k mem'" "load_objects k val n (p + k) mem = load_objects k val n (p + k) mem'"
    using Suc.prems by (intro load_octets_cong Suc.IH; simp)+
  then show ?case
    by simp
qed simp

lemma copy_objects_outside:
  "\<forall>x \<in> set xs. length (rep x) = k \<Longrightarrow> a < p \<or> p + k * length xs \<le> a \<Longrightarrow> copy_objects k rep xs p mem a = mem a"
  by (induction xs arbitrary: p mem) (auto simp: store_octets_def)

lemma load_copy_objects:
  assumes "\<And>x. x \<in> set xs \<Longrightarrow> length (rep x) = k \<and> val (rep x) = x"
  shows "load_objects k val (length xs) p (copy_objects k rep xs p mem) = xs"
  using assms
proof (induction xs arbitrary: p mem)
  case (Cons x xs)
  let ?mem = "store_octets p (rep x) mem"
  have "load_octets p k (copy_objects k rep xs (p + k) ?mem) = load_octets p k ?mem"
    using Cons.prems by (intro load_octets_cong) (simp add: copy_objects_outside)
  also have "\<dots> = rep x"
    using load_store[of p "rep x" mem] Cons.prems[of x] by simp
  finally show ?case
    using Cons.IH[of "p + k" ?mem] Cons.prems by simp
qed simp

lemma ipv4_octets: "length (ipv4_octets little ip) = 4" "ipv4_of_octets little (ipv4_octets little ip) = ip"
  using of_mem_bytes_mem_bytes[where 'a = 32 and n = 4 and little = little and w = "ipv4_m_value ip"]
  by (simp_all add: ipv4_octets_def ipv4_of_octets_def mem_bytes_def)

text \<open>
  A node reads back exactly the addresses that it was made of, and its constructor writes to
  nothing but the octets behind its header that \<^verbatim>\<open>make\<close> asks the allocator for.
\<close>

theorem AddrStorageHeader_layout:
  assumes "AddrStorageHeader_construct little sz this v4s v6s mem = Some (h, mem')"
    and "\<forall>ip \<in> set v6s. length (ipv6_m_value ip) = 16"
  shows "ipv4s_span little sz this h mem' = v4s \<and> ipv6s_span sz this h mem' = v6s \<and>
    (\<forall>a. a < this + sz \<or> this + sz + 4 * length v4s + 16 * length v6s \<le> a \<longrightarrow> mem' a = mem a)"
proof -
  let ?p = "ipv4s_begin sz this" and ?m4 = "copy_objects 4 (ipv4_octets little) v4s (ipv4s_begin sz this) mem"
  have len: "length v4s \<le> 2 ^ 32 - 1" "length v6s \<le> 2 ^ 32 - 1"
    and h: "h = \<lparr>m_ipv4s_count = word_of_nat (length v4s), m_ipv6s_count = word_of_nat (length v6s)\<rparr>"
    and mem': "mem' = copy_objects 16 ipv6_m_value v6s (ipv6s_begin sz this h) ?m4"
    using assms(1) by (auto simp: AddrStorageHeader_construct_def Let_def split: if_splits)
  then have n: "unat (m_ipv4s_count h) = length v4s" "unat (m_ipv6s_count h) = length v6s"
    by (simp_all add: unat_of_nat take_bit_eq_mod)
  then have b: "ipv6s_begin sz this h = ?p + 4 * length v4s"
    by (simp add: ipv6s_begin_def)
  have v4: "ipv4s_span little sz this h ?m4 = v4s"
    using load_copy_objects[of v4s "ipv4_octets little" 4 "ipv4_of_octets little" ?p mem] n by (simp add: ipv4s_span_def ipv4_octets)
  have "\<forall>a. ?p \<le> a \<and> a < ?p + 4 * length v4s \<longrightarrow> mem' a = ?m4 a"
    using assms(2) b by (simp add: mem' copy_objects_outside)
  from load_objects_cong[OF this, of "ipv4_of_octets little"]
  have "ipv4s_span little sz this h mem' = v4s"
    using v4 n by (simp add: ipv4s_span_def)
  moreover have "ipv6s_span sz this h mem' = v6s"
    using load_copy_objects[of v6s ipv6_m_value 16 ipv6_of_octets "ipv6s_begin sz this h" ?m4] assms(2) n
    by (simp add: ipv6s_span_def mem' ipv6_of_octets_def)
  moreover have "mem' a = mem a" if "a < this + sz \<or> this + sz + 4 * length v4s + 16 * length v6s \<le> a" for a
  proof -
    have "mem' a = ?m4 a"
      unfolding mem' b using that assms(2) by (intro copy_objects_outside) (auto simp: ipv4s_begin_def)
    also have "\<dots> = mem a"
      using that by (intro copy_objects_outside) (auto simp: ipv4_octets ipv4s_begin_def)
    finally show ?thesis .
  qed
  ultimately show ?thesis
    by blast
qed

theorem AddrStorageHeader_layout_witness:
  "\<exists>h mem'. AddrStorageHeader_construct True 64 4096 [\<lparr>ipv4_m_value = 0x7F000001\<rparr>] [\<lparr>ipv6_m_value = replicate 16 7\<rparr>] (\<lambda>_. 0) = Some (h, mem') \<and>
     ipv4s_span True 64 4096 h mem' = [\<lparr>ipv4_m_value = 0x7F000001\<rparr>] \<and> mem' 4200 = 0"
proof -
  obtain h mem' where c: "AddrStorageHeader_construct True 64 4096 [\<lparr>ipv4_m_value = 0x7F000001\<rparr>] [\<lparr>ipv6_m_value = replicate 16 7\<rparr>] (\<lambda>_. 0) = Some (h, mem')"
    by (auto simp: AddrStorageHeader_construct_def Let_def)
  then show ?thesis
    using AddrStorageHeader_layout[OF c] by auto
qed

text \<open>The constructor fails its assertions exactly where that of the record does, and stores the same lists.\<close>

lemma construct_refines_put_header:
  assumes "\<forall>ip \<in> set v6s. length (ipv6_m_value ip) = 16"
  shows "put_header p parent expires v4s v6s mc = map_option (\<lambda>(h, mem').
      let mc = mc\<lparr>addr_store := (addr_store mc)(p \<mapsto> \<lparr>m_parent = parent, m_expires_at = expires,
                   ipv4s = ipv4s_span little sz p h mem', ipv6s = ipv6s_span sz p h mem'\<rparr>)\<rparr>
      in set_ips parent (p # ips_of mc parent) mc)
    (AddrStorageHeader_construct little sz p v4s v6s mem)"
proof (cases "AddrStorageHeader_construct little sz p v4s v6s mem")
  case None
  then show ?thesis
    by (auto simp: put_header_def AddrStorageHeader_construct_def Let_def split: if_splits)
next
  case (Some r)
  obtain h mem' where r: "r = (h, mem')"
    by fastforce
  note l = AddrStorageHeader_layout[OF Some[unfolded r] assms]
  have "length v4s \<le> 2 ^ 32 - 1 \<and> length v6s \<le> 2 ^ 32 - 1"
    using Some by (auto simp: AddrStorageHeader_construct_def Let_def split: if_splits)
  then show ?thesis
    using l Some r by (simp add: put_header_def Let_def)
qed

text \<open>Writing elsewhere, as into the chunk of another node, leaves the lists of a node as they are.\<close>

lemma spans_elsewhere:
  assumes "\<forall>a. this + sz \<le> a \<and> a < this + sz + 4 * unat (m_ipv4s_count h) + 16 * unat (m_ipv6s_count h) \<longrightarrow> mem' a = mem a"
  shows "ipv4s_span little sz this h mem' = ipv4s_span little sz this h mem" "ipv6s_span sz this h mem' = ipv6s_span sz this h mem"
proof -
  show "ipv4s_span little sz this h mem' = ipv4s_span little sz this h mem"
    unfolding ipv4s_span_def using assms by (intro load_objects_cong) (simp add: ipv4s_begin_def)
  show "ipv6s_span sz this h mem' = ipv6s_span sz this h mem"
    unfolding ipv6s_span_def using assms by (intro load_objects_cong) (simp add: ipv6s_begin_def ipv4s_begin_def)
qed

lemma NameStorageHeader_layout:
  assumes "NameStorageHeader_construct sz this nm mem = (n, mem')"
  shows "stored_name sz this n mem' = name (name_header nm)"
    and "a < this + sz \<or> this + sz + length nm \<le> a \<Longrightarrow> mem' a = mem a"
  using assms load_store[of "this + sz" "map to_lower nm" mem]
  by (auto simp: NameStorageHeader_construct_def stored_name_def name_header_def store_octets_def)

text \<open>The chunk that \<^verbatim>\<open>make\<close> requests holds the header and both arrays.\<close>

lemma allocation_size_enough:
  assumes "sz + 4 * n4 + 16 * n6 < 2 ^ 64"
  shows "unat (word_of_nat sz + word_of_nat n4 * 4 + word_of_nat n6 * 16 :: u64) = sz + 4 * n4 + 16 * n6"
proof -
  have "(word_of_nat sz + word_of_nat n4 * 4 + word_of_nat n6 * 16 :: u64) = word_of_nat (sz + 4 * n4 + 16 * n6)"
    by (simp add: mult.commute)
  then show ?thesis
    using assms by (simp only: unat_of_nat take_bit_eq_mod) simp
qed

end
