(* ===== verification/Spec2Isabelle.thy ===== *)
theory Spec2Isabelle
  imports Corosig_Allocator_Claims Corosig_Sockaddr_Claims Corosig_Vector_Claims Corosig_Dns_Hosts_Claims
    Corosig_Semaphore Corosig_Dns_Resolver_Claims Corosig_Dns_Caching Corosig_Reactor_Claims Corosig_Sockets_Claims
    Corosig_Coro_Claims Corosig_Background_Claims Corosig_Promise_Claims Corosig_Parallel Corosig_Awaiters
    Corosig_Semaphore_Live Corosig_Reactor_Live Corosig_Errors Corosig_Dns_Exchange_Claims Corosig_Handles_Claims
    Corosig_Vector_Copies Corosig_Copyable Corosig_Random_Device
    Corosig_Dns_Cache_Layout
begin

text \<open>
  Verification of corosig, a C++ library of coroutines for code that runs in signal handlers: it
  takes memory from one fixed pool, reports every failure as a value and multiplexes its work in
  one event loop. File names below are relative to \<^verbatim>\<open>src/include/corosig\<close> and \<^verbatim>\<open>src/src\<close>.

  \<^bold>\<open>The parts of the program and how they interact.\<close> The pool allocator serves every other part:
  vectors, the frames of coroutines, the nodes of the DNS cache, the poll buffer of the event
  loop. A future owns the frame of its coroutine; a background task owns itself and is collected
  by the event loop. The event loop resumes
  coroutines that are ready, that slept long enough or whose descriptor has an event; semaphores
  and sockets suspend coroutines in it. The DNS code encodes questions, decodes answers, reads
  the hosts file and keeps answers in a cache; the resolver sends questions under random
  identifiers and matches datagrams to the requests that wait.

  \<^bold>\<open>Conventions.\<close> A function of the C++ code that can fail an assertion, leave its memory or run
  for ever returns an \<^verbatim>\<open>option\<close>, with \<^term>\<open>None\<close> for these; its own errors are values of the
  type \<^verbatim>\<open>result\<close> of \<^verbatim>\<open>Result.hpp\<close>. State is a record that is passed and returned. Integers keep
  their width where the code relies on it: \<^verbatim>\<open>u8\<close> to \<^verbatim>\<open>u64\<close> are words, and a \<^verbatim>\<open>size_t\<close> that is a
  \<^typ>\<open>nat\<close> has its wrap-around written out. Loops are recursive functions; those that may not
  end are partial functions, and there is no fuel anywhere. Intrusive nodes and chunks are named
  by their addresses. The system, the clock, sorting and hashing of the standard library, and
  the bodies of coroutines are parameters. Putting a node into an intrusive list or set that it is
  in already fails the assertion of that list, so the operations that link return an \<^verbatim>\<open>option\<close>.
  What can happen over time is an inductive relation of runs; where a theorem speaks of the past,
  the relation carries it as a further argument that the code does not have: what the clients of
  the pool hold, the units lost by a semaphore, the descriptors leaked, the datagrams sent. What
  other coroutines do to the state while one is suspended is a function given as an argument.

  \<^bold>\<open>The theories.\<close>

  \<^item> \<^verbatim>\<open>Corosig_Prelude\<close>, \<^verbatim>\<open>Corosig_Lists\<close>, \<^verbatim>\<open>Corosig_Strings\<close>: machine types, assertions, sorted
    insertion and string views, shared by all.
  \<^item> \<^verbatim>\<open>Corosig_Result\<close> (\<^verbatim>\<open>Result.hpp\<close>, \<^verbatim>\<open>ErrorTypes.hpp\<close>) and \<^verbatim>\<open>Corosig_Endian\<close>
    (\<^verbatim>\<open>util/Endianness.hpp\<close>): errors as values, and the byte order of either host.
  \<^item> \<^verbatim>\<open>Corosig_Allocator\<close> (\<^verbatim>\<open>container/Allocator.cpp\<close>): the pool as an array of block headers.
    \<^verbatim>\<open>Corosig_Free_List\<close> and \<^verbatim>\<open>Corosig_Tiles\<close> abstract it to a doubly linked list and a gap-free
    sequence of tiles, \<^verbatim>\<open>Corosig_Allocator_Inv\<close> and \<^verbatim>\<open>Corosig_Allocator_Ops\<close> follow each step of the
    two operations through both, \<^verbatim>\<open>Corosig_Allocator_Props\<close> states the contract for clients as
    the locale \<^verbatim>\<open>an_allocator\<close> and interprets it on the pool, and \<^verbatim>\<open>Corosig_Allocator_Claims\<close> has
    the theorems: chunks are aligned, inside the pool and disjoint in every run, releasing
    undoes allocating, and no assertion fails but that for a chunk of no octets at the end of the pool.
  \<^item> \<^verbatim>\<open>Corosig_Vector\<close>, \<^verbatim>\<open>Corosig_Vector_Claims\<close> (\<^verbatim>\<open>container/Vector.hpp\<close>): slots that hold objects or
    raw memory, against lists, for every allocator under the contract and then on the pool.
    \<^verbatim>\<open>Corosig_Vector_Copies\<close>: copies whose elements can fail to be cloned. \<^verbatim>\<open>Corosig_Copyable\<close>
    (\<^verbatim>\<open>meta/Copyable.hpp\<close>, \<^verbatim>\<open>meta/AlwaysOkResult.hpp\<close>, the macros of \<^verbatim>\<open>Result.hpp\<close> that convert
    errors, \<^verbatim>\<open>util/SetDefaultOnMove.hpp\<close>): both ways to copy keep the contract of these copies.
  \<^item> \<^verbatim>\<open>Corosig_Sockaddr\<close>, \<^verbatim>\<open>Corosig_Sockaddr_Claims\<close> (\<^verbatim>\<open>io/Sockaddr.cpp\<close>): the parsers of addresses.
  \<^item> \<^verbatim>\<open>Corosig_Dns_Protocol\<close>, \<^verbatim>\<open>Corosig_Dns_Encode\<close>, \<^verbatim>\<open>Corosig_Dns_Decode\<close> (\<^verbatim>\<open>io/dns/Protocol.hpp\<close>,
    \<^verbatim>\<open>Protocol.cpp\<close>): the message format, with \<^verbatim>\<open>Corosig_Dns_Names\<close> (what a message that holds a
    compressed name is), \<^verbatim>\<open>Corosig_Dns_Claims\<close> and \<^verbatim>\<open>Corosig_Dns_Decoder_Claims\<close>: the decoder
    accepts exactly such names, never leaves the message, and reads back what the encoder wrote.
    Which pointers have to point backwards is computed by following the names that are parsed.
  \<^item> \<^verbatim>\<open>Corosig_Dns_Hosts\<close>, \<^verbatim>\<open>Corosig_Dns_Hosts_Claims\<close> (\<^verbatim>\<open>io/dns/HostsFileCache.cpp\<close>): the buffered
    parser refines a definition on whole lines, for ended lines shorter than its 511 octets. Reading
    is the locale \<^verbatim>\<open>regular_file\<close>.
  \<^item> \<^verbatim>\<open>Corosig_Dns_Cache\<close> (\<^verbatim>\<open>io/dns/MemoryCache.hpp\<close>, \<^verbatim>\<open>MemoryCache.cpp\<close>, \<^verbatim>\<open>Cache.hpp\<close>),
    \<^verbatim>\<open>Corosig_Dns_Cache_Inv\<close> (the linked structure), \<^verbatim>\<open>Corosig_Dns_Cache_Push\<close> (operations that make
    and delete nodes, in the locale \<^verbatim>\<open>cache_allocator\<close>) and \<^verbatim>\<open>Corosig_Dns_Cache_Claims\<close> (the cache
    as a multiset of entries, on the pool). \<^verbatim>\<open>Corosig_Dns_Cache_Layout\<close>: the octets of a node read
    back as the lists of the model, inside the chunk that the node requested. \<^verbatim>\<open>Corosig_Dns_Caching\<close> (\<^verbatim>\<open>Resolver\<close> of
    \<^verbatim>\<open>io/dns/Resolver.hpp\<close>) puts it in front of the resolver; the cache may
    change at both of its suspensions.
  \<^item> \<^verbatim>\<open>Corosig_Random\<close> (\<^verbatim>\<open>Random.cpp\<close>): the generator against the block function of RFC 7539.
    \<^verbatim>\<open>Corosig_Random_Device\<close>: reading its seed closes the device on every path.
  \<^item> \<^verbatim>\<open>Corosig_Dns_Resolver\<close>, \<^verbatim>\<open>Corosig_Dns_Resolver_Claims\<close> (\<^verbatim>\<open>io/dns/Resolver.cpp\<close>): identifiers,
    validation of answers, and the invariant of the pending requests over all runs.
    \<^verbatim>\<open>Corosig_Dns_Exchange\<close>, \<^verbatim>\<open>Corosig_Dns_Exchange_Claims\<close>: the senders of all requests and the
    receiver as coroutines that run in any order; their runs refine those of the resolver, and
    every request asks its servers in turn. A sender whose frame cannot be allocated never runs.
  \<^item> \<^verbatim>\<open>Corosig_Semaphore\<close> (\<^verbatim>\<open>Semaphore.cpp\<close>): units are conserved in every run, also in those that
    destroy awaiters, waiters are served in the order of their arrival, and (\<^verbatim>\<open>Corosig_Semaphore_Live\<close>)
    all of them in the end.
  \<^item> \<^verbatim>\<open>Corosig_Reactor\<close>, \<^verbatim>\<open>Corosig_Reactor_Claims\<close> (\<^verbatim>\<open>reactor/Reactor.cpp\<close>): the event loop. What
    coroutines may do to it is an inductive relation; under it the lists stay consistent in
    every run. The polling loop equals a plain loop, and the time to wait is bounded.
    \<^verbatim>\<open>Corosig_Reactor_Live\<close>: every ready coroutine is resumed, in order, when those before it do
    not make more work without end.
  \<^item> \<^verbatim>\<open>Corosig_Coro\<close>, \<^verbatim>\<open>Corosig_Coro_Claims\<close> (\<^verbatim>\<open>Coro.hpp\<close>): futures, promises and frames; in every
    run a frame has one owner, is released once and none is lost, for every allocator under the
    contract and then on the pool. \<^verbatim>\<open>Corosig_Background\<close>, \<^verbatim>\<open>Corosig_Background_Claims\<close>
    (\<^verbatim>\<open>Background.hpp\<close>): tasks that the \<^verbatim>\<open>gc\<close> of the event loop collects.
    \<^verbatim>\<open>Corosig_Promise\<close>, \<^verbatim>\<open>Corosig_Promise_Claims\<close> (\<^verbatim>\<open>Promise.hpp\<close>): the reference count of the
    state shared by a promise and its awaiter. Their runs are inductive relations on addresses.
  \<^item> \<^verbatim>\<open>Corosig_Parallel\<close> (\<^verbatim>\<open>Parallel.hpp\<close>): waiting for several coroutines, and with a deadline.
    \<^verbatim>\<open>Corosig_Awaiters\<close> (\<^verbatim>\<open>Yield.hpp\<close>, \<^verbatim>\<open>Sleep.hpp\<close>, \<^verbatim>\<open>PollEvent.hpp\<close>, \<^verbatim>\<open>Clock.cpp\<close>,
    \<^verbatim>\<open>Sighandler.hpp\<close>, \<^verbatim>\<open>container/UniquePtr.hpp\<close>, \<^verbatim>\<open>container/StdAllocator.hpp\<close>): the small parts.
  \<^item> \<^verbatim>\<open>Corosig_Sockets\<close>, \<^verbatim>\<open>Corosig_Sockets_Claims\<close> (\<^verbatim>\<open>io/posix/FdOps.cpp\<close>, \<^verbatim>\<open>io/TcpListener.cpp\<close>,
    \<^verbatim>\<open>io/TcpSocket.cpp\<close>, \<^verbatim>\<open>io/UdpSocket.cpp\<close>, \<^verbatim>\<open>io/Pipe.cpp\<close>, \<^verbatim>\<open>io/File.cpp\<close>): reading and writing,
    and who owns which descriptor on every path. \<^verbatim>\<open>Corosig_Handles\<close>, \<^verbatim>\<open>Corosig_Handles_Claims\<close>
    (the classes of \<^verbatim>\<open>io/\<close>, \<^verbatim>\<open>util/SetDefaultOnMove.hpp\<close>, \<^verbatim>\<open>util/Bitmask.hpp\<close>): the objects that own
    descriptors, with moves and destructors; in every run a descriptor has one owner, but for those
    that \<^verbatim>\<open>connect_from\<close> leaks when it cannot bind.
  \<^item> \<^verbatim>\<open>Corosig_Errors\<close> (\<^verbatim>\<open>ErrorTypes.hpp\<close>, \<^verbatim>\<open>util/Variant.hpp\<close>): the computation of error types as
    functions on lists of types; an error type accepts every error of the called functions, but
    for an \<^verbatim>\<open>Error\<close> of one type that is its only argument.

  \<^bold>\<open>Hypotheses.\<close> They state what the code relies on: a mutable heap that nobody else writes to, a
  file that gives its octets in order, a kernel that opens new descriptors and closes given ones,
  a sort that sorts. Each theorem with hypotheses has
  a witness at a concrete input. Theorems about decoding assume that the compression pointers met
  in the names that are parsed point backwards where termination is concerned, since the code does not
  check this; names given to the cache are in lower case where it is concerned, for the same reason.

  \<^bold>\<open>Deviations the theorems show.\<close> Among others: forward pointers make the name decoder run for
  ever, an identifier is never changed on a collision, a name in upper case makes other names
  unreachable in the cache, the whole output buffer enters the cache, a partial write restarts at
  the beginning, an event can resume the wrong coroutine after a cancellation, sleeping for more
  than 24 days keeps the processor busy, a failed background call makes the next one assert, a
  fulfilled promise cannot be destroyed before its awaiter, and a temporary awaiter with a deadline
  destroys the frame that resumes it. A send that fails after the answer has come schedules its
  request twice, which fails an assertion; a request whose sender cannot be allocated waits for ever; a
  granted waiter of a semaphore that is destroyed takes its units with it; and a request of no octets
  answered at the end of the pool cannot be released.

  \<^bold>\<open>Not modelled.\<close> What the compiler makes of the body of a coroutine: its suspension points and
  the destruction of its locals are sequences of the modelled operations. The registration of
  signal handlers, concepts and the rest of the template plumbing only wrap the system or the
  language; \<^verbatim>\<open>Awaiter::await_suspend\<close> of \<^verbatim>\<open>Promise.hpp\<close> does not compile. Pointers to memory of the
  caller are represented by values. What a list does after a node was linked twice is outside of
  the model: the assertion is taken to be on, and lemmas show which code leads there. The models
  of single coroutines (reading, writing, connecting, resolving) start with their frame
  allocated: the \<^verbatim>\<open>AllocationError\<close> of a call whose frame cannot be allocated is the business of
  \<^verbatim>\<open>Corosig_Coro\<close>. There a frame may be destroyed whether or not its coroutine is suspended; the
  language demands that it is.
\<close>

end
